(* ===== verification/Mix_Prelude.thy ===== *)
theory Mix_Prelude
  imports Main "HOL-Library.Word" "HOL-Library.List_Lexorder"
begin

unbundle bit_operations_syntax

text \<open>
  Shared vocabulary of the development: bytes and byte strings, the outcome of a Go call
  (a value, an error value or a run-time panic), the fixed-width big- and little-endian
  integer codecs of \<^verbatim>\<open>encoding/binary\<close>, Go's \<^verbatim>\<open>copy\<close>, slicing and XOR loops on byte
  slices, Go maps as association lists in visiting order, and the small helpers of
  \<^verbatim>\<open>src/core/utils\<close>.  The lemmas here are the ones several components rest on; they are
  declared \<open>[simp]\<close> or collected in \<open>bytes_simps\<close>.
\<close>

named_theorems bytes_simps \<open>lengths and projections of byte-string operations\<close>

section \<open>Types\<close>

type_synonym byte = "8 word"
type_synonym bytes = "byte list"
type_synonym u8 = "8 word"
type_synonym u32 = "32 word"
type_synonym u64 = "64 word"

text \<open>
  What a Go function that returns \<open>(value, error)\<close> can do: return a value, return a
  non-nil error, or panic (explicitly, or by an index or slice expression out of range).
\<close>

datatype ('e, 'a) outcome = Ok 'a | Fail 'e | Panic

fun obind :: "('e, 'a) outcome \<Rightarrow> ('a \<Rightarrow> ('e, 'b) outcome) \<Rightarrow> ('e, 'b) outcome" where
  "obind (Ok x) f = f x"
| "obind (Fail e) f = Fail e"
| "obind Panic f = Panic"

definition is_ok :: "('e, 'a) outcome \<Rightarrow> bool" where
  "is_ok r = (case r of Ok _ \<Rightarrow> True | _ \<Rightarrow> False)"

text \<open>A Go error returned by a callee and wrapped by the caller into its own error.\<close>

fun omap_err :: "('e \<Rightarrow> 'f) \<Rightarrow> ('e, 'a) outcome \<Rightarrow> ('f, 'a) outcome" where
  "omap_err h (Ok x) = Ok x"
| "omap_err h (Fail e) = Fail (h e)"
| "omap_err h Panic = Panic"

text \<open>
  Loops over a slice that stop at the first error: one that collects a result per element, and one
  that only checks.
\<close>

fun omapM :: "('a \<Rightarrow> ('e, 'b) outcome) \<Rightarrow> 'a list \<Rightarrow> ('e, 'b list) outcome" where
  "omapM f [] = Ok []"
| "omapM f (x # xs) = obind (f x) (\<lambda>y. obind (omapM f xs) (\<lambda>ys. Ok (y # ys)))"

fun ocheck :: "('a \<Rightarrow> ('e, unit) outcome) \<Rightarrow> 'a list \<Rightarrow> ('e, unit) outcome" where
  "ocheck f [] = Ok ()"
| "ocheck f (x # xs) = obind (f x) (\<lambda>_. ocheck f xs)"

fun ofold :: "('a \<Rightarrow> 's \<Rightarrow> ('e, 's) outcome) \<Rightarrow> 'a list \<Rightarrow> 's \<Rightarrow> ('e, 's) outcome" where
  "ofold f [] s = Ok s"
| "ofold f (x # xs) s = obind (f x s) (ofold f xs)"

section \<open>Byte strings\<close>

definition zeros :: "nat \<Rightarrow> bytes" where
  "zeros n = replicate n 0"

text \<open>\<^verbatim>\<open>b[i:j]\<close>, used where \<open>i \<le> j \<le> len(b)\<close>.\<close>

definition slice :: "nat \<Rightarrow> nat \<Rightarrow> 'a list \<Rightarrow> 'a list" where
  "slice i j b = take (j - i) (drop i b)"

text \<open>\<^verbatim>\<open>copy(dst, src)\<close>: overwrites a prefix of \<open>dst\<close>; the rest of \<open>dst\<close> is kept.\<close>

definition copy_into :: "'a list \<Rightarrow> 'a list \<Rightarrow> 'a list" where
  "copy_into dst src = take (length dst) src @ drop (length src) dst"

text \<open>\<^verbatim>\<open>copy(dst[off:], src)\<close> for \<open>off \<le> len(dst)\<close>.\<close>

definition copy_at :: "nat \<Rightarrow> 'a list \<Rightarrow> 'a list \<Rightarrow> 'a list" where
  "copy_at off dst src = take off dst @ copy_into (drop off dst) src"

text \<open>Byte-wise XOR of two buffers of one length.\<close>

definition xor_list :: "bytes \<Rightarrow> bytes \<Rightarrow> bytes" where
  "xor_list a b = map2 (XOR) a b"

text \<open>\<^verbatim>\<open>utils.CtIsZero\<close>: OR of all bytes, compared with zero.\<close>

definition CtIsZero :: "bytes \<Rightarrow> bool" where
  "CtIsZero b = (fold (\<lambda>v sum. sum OR v) b 0 = 0)"

text \<open>\<^verbatim>\<open>utils.ExplicitBzero\<close>.\<close>

definition ExplicitBzero :: "bytes \<Rightarrow> bytes" where
  "ExplicitBzero b = map (\<lambda>_. 0) b"

text \<open>The bytes of a Go string, and the conversion back.\<close>

definition string_bytes :: "string \<Rightarrow> bytes" where
  "string_bytes s = map (\<lambda>c. of_nat (of_char c)) s"

definition bytes_string :: "bytes \<Rightarrow> string" where
  "bytes_string b = map (\<lambda>x. char_of (unat x)) b"

section \<open>Integers on the wire\<close>

definition put_u32_be :: "u32 \<Rightarrow> bytes" where
  "put_u32_be v = [ucast (drop_bit 24 v), ucast (drop_bit 16 v), ucast (drop_bit 8 v), ucast v]"

definition get_u32_be :: "bytes \<Rightarrow> u32" where
  "get_u32_be b = ucast (b ! 3) OR push_bit 8 (ucast (b ! 2)) OR push_bit 16 (ucast (b ! 1))
     OR push_bit 24 (ucast (b ! 0))"

definition put_u64_be :: "u64 \<Rightarrow> bytes" where
  "put_u64_be v = [ucast (drop_bit 56 v), ucast (drop_bit 48 v), ucast (drop_bit 40 v),
     ucast (drop_bit 32 v), ucast (drop_bit 24 v), ucast (drop_bit 16 v), ucast (drop_bit 8 v),
     ucast v]"

definition get_u64_be :: "bytes \<Rightarrow> u64" where
  "get_u64_be b = ucast (b ! 7) OR push_bit 8 (ucast (b ! 6)) OR push_bit 16 (ucast (b ! 5))
     OR push_bit 24 (ucast (b ! 4)) OR push_bit 32 (ucast (b ! 3)) OR push_bit 40 (ucast (b ! 2))
     OR push_bit 48 (ucast (b ! 1)) OR push_bit 56 (ucast (b ! 0))"

definition put_u32_le :: "u32 \<Rightarrow> bytes" where
  "put_u32_le v = rev (put_u32_be v)"

definition put_u64_le :: "u64 \<Rightarrow> bytes" where
  "put_u64_le v = rev (put_u64_be v)"

definition get_u32_le :: "bytes \<Rightarrow> u32" where
  "get_u32_le b = get_u32_be (rev (take 4 b))"

section \<open>Go maps\<close>

text \<open>
  A Go map is an association list with distinct keys; the list order is the order in which a
  \<^verbatim>\<open>range\<close> loop visits it, which Go leaves unspecified.  A statement about every
  association list is thereby a statement about every visiting order.
\<close>

type_synonym ('k, 'v) gomap = "('k \<times> 'v) list"

definition gm_get :: "('k, 'v) gomap \<Rightarrow> 'k \<Rightarrow> 'v option" where
  "gm_get m k = map_of m k"

definition gm_has :: "('k, 'v) gomap \<Rightarrow> 'k \<Rightarrow> bool" where
  "gm_has m k = (gm_get m k \<noteq> None)"

fun gm_put :: "('k, 'v) gomap \<Rightarrow> 'k \<Rightarrow> 'v \<Rightarrow> ('k, 'v) gomap" where
  "gm_put [] k v = [(k, v)]"
| "gm_put ((k', v') # m) k v = (if k' = k then (k, v) # m else (k', v') # gm_put m k v)"

definition gm_del :: "('k, 'v) gomap \<Rightarrow> 'k \<Rightarrow> ('k, 'v) gomap" where
  "gm_del m k = filter (\<lambda>e. fst e \<noteq> k) m"

definition gm_keys :: "('k, 'v) gomap \<Rightarrow> 'k set" where
  "gm_keys m = fst ` set m"

definition gm_wf :: "('k, 'v) gomap \<Rightarrow> bool" where
  "gm_wf m = distinct (map fst m)"

section \<open>Lemmas: outcomes\<close>

lemma obind_Ok_iff: "obind r f = Ok y \<longleftrightarrow> (\<exists>x. r = Ok x \<and> f x = Ok y)"
  by (cases r) auto

lemma obind_Panic_iff: "obind r f = Panic \<longleftrightarrow> r = Panic \<or> (\<exists>x. r = Ok x \<and> f x = Panic)"
  by (cases r) auto

lemma omap_err_Ok_iff [simp]: "omap_err h r = Ok x \<longleftrightarrow> r = Ok x"
  by (cases r) auto

lemma omap_err_Panic_iff [simp]: "omap_err h r = Panic \<longleftrightarrow> r = Panic"
  by (cases r) auto

lemma omapM_Ok_iff: "omapM f xs = Ok ys \<longleftrightarrow> list_all2 (\<lambda>x y. f x = Ok y) xs ys"
  by (induction xs arbitrary: ys) (auto simp: obind_Ok_iff list_all2_Cons1)

lemma ocheck_Ok_iff [simp]: "ocheck f xs = Ok u \<longleftrightarrow> (\<forall>x\<in>set xs. f x = Ok ())"
  by (induction xs) (auto simp: obind_Ok_iff)

lemma ofold_append: "ofold f (xs @ ys) s = obind (ofold f xs s) (ofold f ys)"
proof (induction xs arbitrary: s)
  case (Cons x xs)
  then show ?case by (cases "f x s") simp_all
qed simp

lemma ofold_invariant:
  assumes "ofold f xs s = Ok t" "I s" "\<And>x s t. x \<in> set xs \<Longrightarrow> I s \<Longrightarrow> f x s = Ok t \<Longrightarrow> I t"
  shows "I t"
  using assms by (induction xs arbitrary: s) (auto simp: obind_Ok_iff)

lemma is_ok_simps [simp]: "is_ok (Ok x)" "\<not> is_ok (Fail e)" "\<not> is_ok Panic"
  by (simp_all add: is_ok_def)

section \<open>Lemmas: byte strings\<close>

lemma length_zeros [simp, bytes_simps]: "length (zeros n) = n"
  by (simp add: zeros_def)

lemma zeros_append: "zeros m @ zeros n = zeros (m + n)"
  by (simp add: zeros_def replicate_add)

lemma zeros_0 [simp]: "zeros 0 = []"
  by (simp add: zeros_def)

lemma take_zeros [simp]: "take m (zeros n) = zeros (min m n)"
  by (simp add: zeros_def min_def)

lemma drop_zeros [simp]: "drop m (zeros n) = zeros (n - m)"
  by (simp add: zeros_def)

lemma take_take_drop: "take m b @ take n (drop m b) @ drop (m + n) b = b"
  by (metis add.commute append_take_drop_id drop_drop)

lemma length_slice [bytes_simps]: "length (slice i j b) = min (j - i) (length b - i)"
  by (simp add: slice_def)

lemma slice_append_right:
  "length a = i \<Longrightarrow> slice i (i + length b) (a @ b @ c) = b"
  by (simp add: slice_def)

lemma length_copy_into [simp, bytes_simps]: "length (copy_into dst src) = length dst"
  by (simp add: copy_into_def min_def)

lemma copy_into_same: "length src = length dst \<Longrightarrow> copy_into dst src = src"
  by (simp add: copy_into_def)

lemma copy_into_zeros_trunc: "n \<le> length src \<Longrightarrow> copy_into (zeros n) src = take n src"
  by (simp add: copy_into_def)

lemma length_copy_at [simp, bytes_simps]:
  "off \<le> length dst \<Longrightarrow> length (copy_at off dst src) = length dst"
  by (simp add: copy_at_def)

lemma take_copy_at: "off \<le> length dst \<Longrightarrow> take off (copy_at off dst src) = take off dst"
  by (simp add: copy_at_def)

lemma copy_at_append:
  "length a = off \<Longrightarrow> length src = length b \<Longrightarrow> copy_at off (a @ b @ c) src = a @ src @ c"
  by (simp add: copy_at_def copy_into_def)

lemma length_xor_list [simp, bytes_simps]: "length (xor_list a b) = min (length a) (length b)"
  by (simp add: xor_list_def)

lemma xor_list_append:
  "length a = length c \<Longrightarrow> xor_list (a @ b) (c @ d) = xor_list a c @ xor_list b d"
  by (simp add: xor_list_def)

lemma xor_list_Nil [simp]: "xor_list [] b = []" "xor_list a [] = []"
  by (simp_all add: xor_list_def)

lemma xor_list_Cons [simp]: "xor_list (x # a) (y # b) = (x XOR y) # xor_list a b"
  by (simp add: xor_list_def)

lemma xor_list_cancel: "length a \<le> length k \<Longrightarrow> xor_list (xor_list a k) k = a"
proof (induction a arbitrary: k)
  case (Cons x a)
  then obtain y k' where "k = y # k'" by (cases k) auto
  with Cons show ?case by (simp add: xor.assoc)
qed simp

lemma xor_list_zeros: "length k \<le> n \<Longrightarrow> xor_list (zeros n) k = k"
proof (induction k arbitrary: n)
  case (Cons x k)
  then obtain m where "n = Suc m" by (cases n) auto
  with Cons show ?case by (simp add: zeros_def)
qed simp

lemma xor_list_commute: "xor_list a b = xor_list b a"
proof (induction a arbitrary: b)
  case (Cons x a)
  show ?case by (cases b) (simp_all add: Cons.IH xor.commute)
qed simp

lemma fold_or_zero: "fold (\<lambda>v sum. sum OR v) b (s::byte) = 0 \<longleftrightarrow> s = 0 \<and> (\<forall>v\<in>set b. v = 0)"
  by (induction b arbitrary: s) (auto simp: or_eq_0_iff)

lemma CtIsZero_iff: "CtIsZero b \<longleftrightarrow> (\<forall>v\<in>set b. v = 0)"
  by (simp add: CtIsZero_def fold_or_zero)

lemma CtIsZero_eq_zeros: "CtIsZero b \<longleftrightarrow> b = zeros (length b)"
  by (metis CtIsZero_iff length_zeros replicate_length_same set_replicate_conv_if singletonD
      empty_iff zeros_def)

lemma CtIsZero_zeros [simp]: "CtIsZero (zeros n)"
  by (simp add: CtIsZero_iff zeros_def)

lemma CtIsZero_Nil [simp]: "CtIsZero []"
  by (simp add: CtIsZero_iff)

lemma ExplicitBzero_zeros: "ExplicitBzero b = zeros (length b)"
  by (simp add: ExplicitBzero_def zeros_def map_replicate_const)

lemma char_byte_back: "char_of (unat (of_nat (of_char c) :: byte)) = c"
proof -
  have "(of_char c :: nat) < 256" by simp
  then show ?thesis by (simp add: unat_of_nat del: of_nat_of_char)
qed

lemma string_bytes_back: "bytes_string (string_bytes s) = s"
  by (induction s) (simp_all add: string_bytes_def bytes_string_def char_byte_back)

section \<open>Lemmas: integer codecs\<close>

lemma length_put [simp, bytes_simps]:
  "length (put_u32_be v) = 4" "length (put_u64_be w) = 8"
  "length (put_u32_le v) = 4" "length (put_u64_le w) = 8"
  by (simp_all add: put_u32_be_def put_u64_be_def put_u32_le_def put_u64_le_def)

lemma bit_byte_at:
  "bit (push_bit k (ucast (ucast (drop_bit k (v::'a::len word)) :: byte)) :: 'a word) n
     \<longleftrightarrow> k \<le> n \<and> n < k + 8 \<and> bit v n"
  by (auto simp: bit_simps dest: bit_imp_le_length)

lemma bit_byte_low:
  "bit (ucast (ucast (v::'a::len word) :: byte) :: 'a word) n \<longleftrightarrow> n < 8 \<and> bit v n"
  by (auto simp: bit_simps dest: bit_imp_le_length)

lemma get_put_u32_be [simp]: "get_u32_be (put_u32_be v) = v"
proof (rule bit_word_eqI)
  fix n assume "n < LENGTH(32)"
  then show "bit (get_u32_be (put_u32_be v)) n = bit v n"
    by (simp add: get_u32_be_def put_u32_be_def bit_or_iff bit_byte_at bit_byte_low) linarith
qed

lemma get_put_u64_be [simp]: "get_u64_be (put_u64_be v) = v"
proof (rule bit_word_eqI)
  fix n assume "n < LENGTH(64)"
  then show "bit (get_u64_be (put_u64_be v)) n = bit v n"
    by (simp add: get_u64_be_def put_u64_be_def bit_or_iff bit_byte_at bit_byte_low) linarith
qed

lemma get_u32_be_append [simp]: "get_u32_be (put_u32_be v @ r) = v"
proof -
  have "get_u32_be (put_u32_be v @ r) = get_u32_be (put_u32_be v)"
    by (simp add: get_u32_be_def nth_append)
  then show ?thesis by simp
qed

lemma get_u32_le_append [simp]: "get_u32_le (put_u32_le v @ r) = v"
  by (simp add: get_u32_le_def put_u32_le_def)

lemma get_u64_be_append [simp]: "get_u64_be (put_u64_be v @ r) = v"
proof -
  have "get_u64_be (put_u64_be v @ r) = get_u64_be (put_u64_be v)"
    by (simp add: get_u64_be_def nth_append)
  then show ?thesis by simp
qed

lemma codec_surj:
  fixes put :: "'a::len word \<Rightarrow> bytes" and get :: "bytes \<Rightarrow> 'a word"
  assumes rt: "\<And>v. get (put v) = v" and len: "\<And>v. length (put v) = n"
    and size: "LENGTH('a) = 8 * n" and b: "length b = n"
  shows "put (get b) = b"
proof -
  let ?S = "{xs :: bytes. set xs \<subseteq> UNIV \<and> length xs = n}"
  have inj: "inj put" by (metis injI rt)
  have "card ?S = card (UNIV :: byte set) ^ n"
    by (rule card_lists_length_eq) simp
  also have "\<dots> = card (UNIV :: 'a word set)"
    by (simp add: card_word size power_mult)
  also have "\<dots> = card (range put)"
    by (simp add: card_image inj)
  finally have "card (range put) = card ?S" by simp
  moreover have "finite ?S" by (rule finite_lists_length_eq) simp
  ultimately have "range put = ?S"
    using len by (intro card_subset_eq) auto
  with b obtain v where "b = put v" by auto
  then show ?thesis by (simp add: rt)
qed

lemma get_be_take: "get_u32_be (take 4 b) = get_u32_be b" "get_u64_be (take 8 b) = get_u64_be b"
  by (simp_all add: get_u32_be_def get_u64_be_def)

lemma put_get_u32_be: "4 \<le> length b \<Longrightarrow> put_u32_be (get_u32_be b) = take 4 b"
  using codec_surj [of get_u32_be put_u32_be 4 "take 4 b"] by (simp add: get_be_take)

lemma put_get_u64_be: "8 \<le> length b \<Longrightarrow> put_u64_be (get_u64_be b) = take 8 b"
  using codec_surj [of get_u64_be put_u64_be 8 "take 8 b"] by (simp add: get_be_take)

section \<open>Lemmas: Go maps\<close>

lemma gm_get_put [simp]: "gm_get (gm_put m k v) k' = (if k' = k then Some v else gm_get m k')"
  by (induction m k v rule: gm_put.induct) (auto simp: gm_get_def)

lemma gm_has_put [simp]: "gm_has (gm_put m k v) k' \<longleftrightarrow> k' = k \<or> gm_has m k'"
  by (simp add: gm_has_def)

lemma gm_keys_put [simp]: "gm_keys (gm_put m k v) = insert k (gm_keys m)"
  by (induction m k v rule: gm_put.induct) (auto simp: gm_keys_def)

lemma gm_keys_Nil [simp]: "gm_keys [] = {}"
  by (simp add: gm_keys_def)

lemma gm_wf_Nil [simp]: "gm_wf []"
  by (simp add: gm_wf_def)

lemma gm_put_keys_set: "fst ` set (gm_put m k v) = insert k (fst ` set m)"
  using gm_keys_put [of m k v] by (simp add: gm_keys_def)

lemma gm_wf_put [simp]: "gm_wf m \<Longrightarrow> gm_wf (gm_put m k v)"
  by (induction m k v rule: gm_put.induct) (auto simp: gm_wf_def gm_put_keys_set image_iff)

lemma gm_get_del [simp]: "gm_get (gm_del m k) k' = (if k' = k then None else gm_get m k')"
  by (induction m) (auto simp: gm_get_def gm_del_def)

lemma gm_wf_del [simp]: "gm_wf m \<Longrightarrow> gm_wf (gm_del m k)"
  by (induction m) (auto simp: gm_wf_def gm_del_def)

lemma gm_get_keys: "gm_get m k = None \<longleftrightarrow> k \<notin> gm_keys m"
  by (simp add: gm_get_def gm_keys_def map_of_eq_None_iff)

lemma gm_has_keys: "gm_has m k \<longleftrightarrow> k \<in> gm_keys m"
  using gm_get_keys [of m k] by (auto simp: gm_has_def)

lemma gm_get_in_set: "gm_wf m \<Longrightarrow> gm_get m k = Some v \<longleftrightarrow> (k, v) \<in> set m"
  by (simp add: gm_get_def gm_wf_def map_of_eq_Some_iff)

lemma gm_put_set:
  "gm_wf m \<Longrightarrow> (k', w) \<in> set (gm_put m k v) \<longleftrightarrow> (if k' = k then w = v else (k', w) \<in> set m)"
  using gm_get_in_set [of "gm_put m k v" k' w] gm_get_in_set [of m k' w] by auto

lemma gm_put_new: "k \<notin> gm_keys m \<Longrightarrow> gm_put m k v = m @ [(k, v)]"
  by (induction m k v rule: gm_put.induct) (auto simp: gm_keys_def)

lemma fold_put_new:
  "distinct (map f xs) \<Longrightarrow> f ` set xs \<inter> gm_keys m = {} \<Longrightarrow>
     fold (\<lambda>x m. gm_put m (f x) (g x)) xs m = m @ map (\<lambda>x. (f x, g x)) xs"
  by (induction xs arbitrary: m) (auto simp: gm_put_new gm_keys_def)

lemma gm_length_put: "length (gm_put m k v) = (if gm_has m k then length m else Suc (length m))"
  by (induction m k v rule: gm_put.induct) (auto simp: gm_has_def gm_get_def)

section \<open>The interface of a wire format\<close>

text \<open>
  An encoder and a decoder that agree: what any wire format of the network has to provide.
  \<open>wf\<close> says which values are sent, \<open>view\<close> what of a value the receiver sees.
\<close>

locale byte_codec =
  fixes enc :: "'a \<Rightarrow> ('e, bytes) outcome"
    and dec :: "bytes \<Rightarrow> ('f, 'b) outcome"
    and wf :: "'a \<Rightarrow> bool"
    and view :: "'a \<Rightarrow> 'b"
  assumes enc_total: "wf a \<Longrightarrow> \<exists>b. enc a = Ok b"
    and dec_enc: "wf a \<Longrightarrow> enc a = Ok b \<Longrightarrow> dec b = Ok (view a)"
begin

lemma enc_unambiguous: "wf a \<Longrightarrow> wf a' \<Longrightarrow> enc a = enc a' \<Longrightarrow> view a = view a'"
  by (metis dec_enc enc_total outcome.inject(1))

lemma transfer: "wf a \<Longrightarrow> obind (omap_err h (enc a)) (\<lambda>b. omap_err h' (dec b)) = Ok (view a)"
  using enc_total [of a] dec_enc [of a] by auto

end

end
