(* ===== verification/Sphinx_Geometry.thy ===== *)
theory Sphinx_Geometry
  imports Mix_Prelude
begin

text \<open>
  The sizes of a Sphinx packet: \<^verbatim>\<open>src/core/sphinx/constants\<close>, the length constants of
  \<^verbatim>\<open>src/core/sphinx/internal/crypto\<close> and the geometry of \<^verbatim>\<open>src/core/sphinx/geo/geo.go\<close>.
  A scheme (NIKE or KEM) enters the geometry only through its name and one size, so an
  interface value of type \<^verbatim>\<open>nike.Scheme\<close> or \<^verbatim>\<open>kem.Scheme\<close> is such a pair here and a nil
  interface is \<open>None\<close>.  Lengths are natural numbers: every length the code computes is a sum
  or product of sizes.
\<close>

section \<open>Constants\<close>

definition NodeIDLength :: nat where "NodeIDLength = 32"
definition RecipientIDLength :: nat where "RecipientIDLength = 32"
definition SURBIDLength :: nat where "SURBIDLength = 16"
definition CommandTagLength :: nat where "CommandTagLength = 1"

definition HashLength :: nat where "HashLength = 32"
definition MACKeyLength :: nat where "MACKeyLength = 32"
definition MACLength :: nat where "MACLength = 32"
definition StreamKeyLength :: nat where "StreamKeyLength = 32"
definition StreamIVLength :: nat where "StreamIVLength = 16"
definition SPRPKeyLength :: nat where "SPRPKeyLength = 48"
definition SPRPIVLength :: nat where "SPRPIVLength = StreamIVLength"
definition privateKeySeedSize :: nat where "privateKeySeedSize = 32"

definition surbReplyLength :: nat where "surbReplyLength = CommandTagLength + SURBIDLength"
definition sphinxPlaintextHeaderLength :: nat where "sphinxPlaintextHeaderLength = 1 + 1"
definition adLength :: nat where "adLength = 2"
definition payloadTagLength :: nat where "payloadTagLength = 32"

lemmas sphinx_constants =
  NodeIDLength_def RecipientIDLength_def SURBIDLength_def CommandTagLength_def HashLength_def
  MACKeyLength_def MACLength_def StreamKeyLength_def StreamIVLength_def SPRPKeyLength_def
  SPRPIVLength_def privateKeySeedSize_def surbReplyLength_def sphinxPlaintextHeaderLength_def
  adLength_def payloadTagLength_def

section \<open>The geometry\<close>

record geometry =
  PacketLength :: nat
  NrHops :: nat
  HeaderLength :: nat
  RoutingInfoLength :: nat
  PerHopRoutingInfoLength :: nat
  SURBLength :: nat
  SphinxPlaintextHeaderLength :: nat
  PayloadTagLength :: nat
  ForwardPayloadLength :: nat
  UserForwardPayloadLength :: nat
  NextNodeHopLength :: nat
  SPRPKeyMaterialLength :: nat
  NIKEName :: string
  KEMName :: string

record nike_info =
  nike_Name :: string
  nike_PublicKeySize :: nat

record kem_info =
  kem_Name :: string
  kem_CiphertextSize :: nat

datatype geo_error = NilGeometry | NoScheme | BothSchemes | InvalidNIKE | InvalidKEM
  | ZeroPacketLength | ZeroNrHops | ZeroHeaderLength | ZeroRoutingInfoLength
  | ZeroPerHopRoutingInfoLength

text \<open>
  \<^verbatim>\<open>Geometry.Validate\<close>.  The registries \<^verbatim>\<open>schemes.ByName\<close> and \<^verbatim>\<open>kemschemes.ByName\<close> are
  arguments: the second is a third-party table, the first depends on build tags.
\<close>

definition Validate ::
  "(string \<Rightarrow> nike_info option) \<Rightarrow> (string \<Rightarrow> kem_info option) \<Rightarrow> geometry option \<Rightarrow> geo_error option"
where
  "Validate nikeByName kemByName go =
     (case go of None \<Rightarrow> Some NilGeometry
      | Some g \<Rightarrow>
        if NIKEName g = [] \<and> KEMName g = [] then Some NoScheme
        else if NIKEName g \<noteq> [] \<and> KEMName g \<noteq> [] then Some BothSchemes
        else if NIKEName g \<noteq> [] \<and> nikeByName (NIKEName g) = None then Some InvalidNIKE
        else if NIKEName g = [] \<and> kemByName (KEMName g) = None then Some InvalidKEM
        else if PacketLength g = 0 then Some ZeroPacketLength
        else if NrHops g = 0 then Some ZeroNrHops
        else if HeaderLength g = 0 then Some ZeroHeaderLength
        else if RoutingInfoLength g = 0 then Some ZeroRoutingInfoLength
        else if PerHopRoutingInfoLength g = 0 then Some ZeroPerHopRoutingInfoLength
        else None)"

section \<open>The geometry factory\<close>

record geometryFactory =
  f_nike :: "nike_info option"
  f_kem :: "kem_info option"
  f_nrHops :: nat
  f_forwardPayloadLength :: nat
  f_sprpKeyMaterialLength :: nat
  f_sphinxPlaintextHeaderLength :: nat
  f_nextNodeHopLength :: nat

text \<open>With a nil NIKE the code dereferences the KEM: a nil KEM panics.\<close>

definition perHopRoutingInfoLength :: "geometryFactory \<Rightarrow> (unit, nat) outcome" where
  "perHopRoutingInfoLength f =
     (case f_nike f of
        None \<Rightarrow> (case f_kem f of None \<Rightarrow> Panic
                  | Some k \<Rightarrow> Ok (f_nextNodeHopLength f + surbReplyLength + kem_CiphertextSize k))
      | Some _ \<Rightarrow> Ok (f_nextNodeHopLength f + surbReplyLength))"

definition routingInfoLength :: "geometryFactory \<Rightarrow> (unit, nat) outcome" where
  "routingInfoLength f = obind (perHopRoutingInfoLength f) (\<lambda>l. Ok (l * f_nrHops f))"

definition headerLength :: "geometryFactory \<Rightarrow> (unit, nat) outcome" where
  "headerLength f =
     (case (f_nike f, f_kem f) of
        (None, None) \<Rightarrow> Panic
      | (Some _, Some _) \<Rightarrow> Panic
      | (Some n, None) \<Rightarrow>
          obind (routingInfoLength f) (\<lambda>ri. Ok (adLength + nike_PublicKeySize n + ri + MACLength))
      | (None, Some k) \<Rightarrow>
          obind (routingInfoLength f) (\<lambda>ri. Ok (adLength + kem_CiphertextSize k + ri + MACLength)))"

definition packetLength :: "geometryFactory \<Rightarrow> (unit, nat) outcome" where
  "packetLength f =
     obind (headerLength f) (\<lambda>h. Ok (h + payloadTagLength + f_forwardPayloadLength f))"

definition surbLength :: "geometryFactory \<Rightarrow> (unit, nat) outcome" where
  "surbLength f =
     obind (headerLength f) (\<lambda>h. Ok (h + NodeIDLength + f_sprpKeyMaterialLength f))"

definition deriveForwardPayloadLength :: "geometryFactory \<Rightarrow> nat \<Rightarrow> (unit, nat) outcome" where
  "deriveForwardPayloadLength f user =
     obind (surbLength f) (\<lambda>s. Ok (user + (sphinxPlaintextHeaderLength + s)))"

text \<open>The construction both exported constructors share, from the factory and the names on.\<close>

definition buildGeometry ::
  "geometryFactory \<Rightarrow> nat \<Rightarrow> bool \<Rightarrow> string \<Rightarrow> string \<Rightarrow> (unit, geometry) outcome"
where
  "buildGeometry f user withSURB nikeName kemName =
     obind (if withSURB then deriveForwardPayloadLength f user else Ok user) (\<lambda>fwd.
     let f = f\<lparr>f_forwardPayloadLength := fwd\<rparr> in
     obind (headerLength f) (\<lambda>hl.
     obind (packetLength f) (\<lambda>pl.
     obind (surbLength f) (\<lambda>sl.
     obind (routingInfoLength f) (\<lambda>ri.
     obind (perHopRoutingInfoLength f) (\<lambda>ph.
       Ok \<lparr>PacketLength = pl, NrHops = f_nrHops f, HeaderLength = hl, RoutingInfoLength = ri,
           PerHopRoutingInfoLength = ph, SURBLength = sl,
           SphinxPlaintextHeaderLength = sphinxPlaintextHeaderLength,
           PayloadTagLength = payloadTagLength, ForwardPayloadLength = fwd,
           UserForwardPayloadLength = user, NextNodeHopLength = f_nextNodeHopLength f,
           SPRPKeyMaterialLength = f_sprpKeyMaterialLength f,
           NIKEName = nikeName, KEMName = kemName\<rparr>))))))"

definition GeometryFromUserForwardPayloadLength ::
  "nike_info \<Rightarrow> nat \<Rightarrow> bool \<Rightarrow> nat \<Rightarrow> (unit, geometry) outcome"
where
  "GeometryFromUserForwardPayloadLength nike user withSURB nrHops =
     buildGeometry
       \<lparr>f_nike = Some nike, f_kem = None, f_nrHops = nrHops, f_forwardPayloadLength = 0,
        f_sprpKeyMaterialLength = SPRPKeyLength + SPRPIVLength,
        f_sphinxPlaintextHeaderLength = sphinxPlaintextHeaderLength,
        f_nextNodeHopLength = CommandTagLength + NodeIDLength + MACLength\<rparr>
       user withSURB (nike_Name nike) []"

definition KEMGeometryFromUserForwardPayloadLength ::
  "kem_info \<Rightarrow> nat \<Rightarrow> bool \<Rightarrow> nat \<Rightarrow> (unit, geometry) outcome"
where
  "KEMGeometryFromUserForwardPayloadLength kem user withSURB nrHops =
     buildGeometry
       \<lparr>f_nike = None, f_kem = Some kem, f_nrHops = nrHops, f_forwardPayloadLength = 0,
        f_sprpKeyMaterialLength = SPRPKeyLength + SPRPIVLength,
        f_sphinxPlaintextHeaderLength = sphinxPlaintextHeaderLength,
        f_nextNodeHopLength = CommandTagLength + NodeIDLength + MACLength\<rparr>
       user withSURB [] (kem_Name kem)"

section \<open>What a constructed geometry guarantees\<close>

text \<open>
  The relations between the fields that packet creation and processing rely on, for a scheme
  whose group element (NIKE public key or KEM ciphertext) takes \<open>el\<close> bytes and whose per-hop
  block reserves \<open>extra\<close> bytes for the next hop's ciphertext (0 for a NIKE).
\<close>

definition geo_wf :: "nat \<Rightarrow> nat \<Rightarrow> geometry \<Rightarrow> bool" where
  "geo_wf el extra g \<longleftrightarrow>
     PerHopRoutingInfoLength g = NextNodeHopLength g + surbReplyLength + extra \<and>
     NextNodeHopLength g = CommandTagLength + NodeIDLength + MACLength \<and>
     RoutingInfoLength g = PerHopRoutingInfoLength g * NrHops g \<and>
     HeaderLength g = adLength + el + RoutingInfoLength g + MACLength \<and>
     PacketLength g = HeaderLength g + PayloadTagLength g + ForwardPayloadLength g \<and>
     SURBLength g = HeaderLength g + NodeIDLength + SPRPKeyMaterialLength g \<and>
     SPRPKeyMaterialLength g = SPRPKeyLength + SPRPIVLength \<and>
     PayloadTagLength g = payloadTagLength \<and>
     SphinxPlaintextHeaderLength g = sphinxPlaintextHeaderLength"

text \<open>The forward payload has room for the plaintext header, a SURB and the user's payload.\<close>

definition geo_has_surb :: "geometry \<Rightarrow> bool" where
  "geo_has_surb g \<longleftrightarrow>
     ForwardPayloadLength g =
       UserForwardPayloadLength g + SphinxPlaintextHeaderLength g + SURBLength g"

lemmas geometry_code_simps =
  buildGeometry_def deriveForwardPayloadLength_def headerLength_def packetLength_def
  surbLength_def routingInfoLength_def perHopRoutingInfoLength_def Let_def

lemma nike_geometry_ok:
  assumes "GeometryFromUserForwardPayloadLength nike user withSURB nrHops = Ok g"
  shows "geo_wf (nike_PublicKeySize nike) 0 g" "geo_has_surb g \<longleftrightarrow> withSURB"
    "NrHops g = nrHops" "NIKEName g = nike_Name nike" "KEMName g = []"
    "UserForwardPayloadLength g = user"
  using assms
  by (auto simp: GeometryFromUserForwardPayloadLength_def geometry_code_simps geo_wf_def
      geo_has_surb_def sphinx_constants split: if_splits)

lemma kem_geometry_ok:
  assumes "KEMGeometryFromUserForwardPayloadLength kem user withSURB nrHops = Ok g"
  shows "geo_wf (kem_CiphertextSize kem) (kem_CiphertextSize kem) g" "geo_has_surb g \<longleftrightarrow> withSURB"
    "NrHops g = nrHops" "NIKEName g = []" "KEMName g = kem_Name kem"
    "UserForwardPayloadLength g = user"
  using assms
  by (auto simp: KEMGeometryFromUserForwardPayloadLength_def geometry_code_simps geo_wf_def
      geo_has_surb_def sphinx_constants split: if_splits)

lemma nike_geometry_total:
  "\<exists>g. GeometryFromUserForwardPayloadLength nike user withSURB nrHops = Ok g"
  by (cases withSURB) (auto simp: GeometryFromUserForwardPayloadLength_def geometry_code_simps)

lemma kem_geometry_total:
  "\<exists>g. KEMGeometryFromUserForwardPayloadLength kem user withSURB nrHops = Ok g"
  by (cases withSURB) (auto simp: KEMGeometryFromUserForwardPayloadLength_def geometry_code_simps)

lemma geo_wf_lengths:
  assumes "geo_wf el extra g"
  shows "NextNodeHopLength g = 65" "PerHopRoutingInfoLength g = 82 + extra"
    "HeaderLength g = 34 + el + RoutingInfoLength g" "PayloadTagLength g = 32"
    "SURBLength g = HeaderLength g + 96"
    "RoutingInfoLength g = (82 + extra) * NrHops g"
    "SphinxPlaintextHeaderLength g = 2"
  using assms by (auto simp: geo_wf_def sphinx_constants)

text \<open>A small geometry, for evaluating the model.\<close>

definition demo_geo :: geometry where
  "demo_geo = \<lparr>PacketLength = 0, NrHops = 1, HeaderLength = 0, RoutingInfoLength = 0,
     PerHopRoutingInfoLength = 0, SURBLength = 3, SphinxPlaintextHeaderLength = 2,
     PayloadTagLength = 1, ForwardPayloadLength = 7, UserForwardPayloadLength = 2,
     NextNodeHopLength = 0, SPRPKeyMaterialLength = 0, NIKEName = ''x25519'', KEMName = []\<rparr>"

end
