(* ===== verification/Nike_Scheme.thy ===== *)
theory Nike_Scheme
  imports Sphinx_Geometry
begin

text \<open>
  Non-interactive key exchange: the \<^verbatim>\<open>nike.Scheme\<close> interface (\<^verbatim>\<open>src/core/crypto/nike/nike.go\<close>) as a
  record of operations, its X25519 implementation (\<^verbatim>\<open>src/core/crypto/ecdh/ecdh.go\<close> and
  \<^verbatim>\<open>src/core/crypto/nike/ecdh/ecdh.go\<close>) and the combiner of two schemes
  (\<^verbatim>\<open>src/core/crypto/nike/hybrid/hybrid.go\<close>).  The X25519 function is a parameter; as in
  \<^verbatim>\<open>golang.org/x/crypto/curve25519\<close> it returns an error on a low-order point.  The predicate
  \<open>nike_ok\<close> is the contract the packet format relies on; it is proved for X25519 from the algebra
  of the curve, and for the combiner from the contracts of its parts.

  Not kept in the model: the cached base64 rendering of a key, which only \<^verbatim>\<open>String()\<close> reads.
\<close>

section \<open>The interface\<close>

text \<open>
  An entropy source is the infinite stream of the bytes still to be read from it.
\<close>

type_synonym rng = "nat \<Rightarrow> byte"

definition rng_read :: "nat \<Rightarrow> rng \<Rightarrow> bytes \<times> rng" where
  "rng_read n r = (map r [0..<n], \<lambda>i. r (i + n))"

datatype nike_error = nike_errInvalidKey | ErrBlindDataSizeInvalid

record ('pk, 'sk) nike_scheme = nike_info +
  nike_GeneratePrivateKey :: "rng \<Rightarrow> (nike_error, 'sk \<times> rng) outcome"
  nike_DerivePublicKey :: "'sk \<Rightarrow> 'pk"
  nike_DeriveSecret :: "'sk \<Rightarrow> 'pk \<Rightarrow> (nike_error, bytes) outcome"
  nike_Blind :: "'pk \<Rightarrow> 'sk \<Rightarrow> (nike_error, 'pk) outcome"
  nike_UnmarshalBinaryPublicKey :: "bytes \<Rightarrow> (nike_error, 'pk) outcome"
  nike_pk_Bytes :: "'pk \<Rightarrow> bytes"
  nike_pk_FromBytes :: "bytes \<Rightarrow> (nike_error, 'pk) outcome"
  nike_pk_Blind :: "'pk \<Rightarrow> 'sk \<Rightarrow> (nike_error, 'pk) outcome"

text \<open>
  What callers rely on, for valid public keys \<open>V\<close> and valid private keys \<open>W\<close>: keys survive
  serialization, the two blinding entry points agree, a shared secret is again a group
  element, both sides derive the same secret, and blinding a public key blinds the secret.
\<close>

definition nike_ok :: "('pk, 'sk) nike_scheme \<Rightarrow> ('pk \<Rightarrow> bool) \<Rightarrow> ('sk \<Rightarrow> bool) \<Rightarrow> bool" where
  "nike_ok N V W \<longleftrightarrow>
     (\<forall>p. V p \<longrightarrow> nike_UnmarshalBinaryPublicKey N (nike_pk_Bytes N p) = Ok p \<and>
        nike_pk_FromBytes N (nike_pk_Bytes N p) = Ok p \<and>
        length (nike_pk_Bytes N p) = nike_PublicKeySize N) \<and>
     (\<forall>r. \<exists>s r'. nike_GeneratePrivateKey N r = Ok (s, r') \<and> W s) \<and>
     (\<forall>s. W s \<longrightarrow> V (nike_DerivePublicKey N s)) \<and>
     (\<forall>p k. V p \<longrightarrow> W k \<longrightarrow>
        (\<exists>p'. nike_Blind N p k = Ok p' \<and> nike_pk_Blind N p k = Ok p' \<and> V p')) \<and>
     (\<forall>p s. V p \<longrightarrow> W s \<longrightarrow> (\<exists>q. nike_DeriveSecret N s p = Ok (nike_pk_Bytes N q) \<and> V q)) \<and>
     (\<forall>a b. W a \<longrightarrow> W b \<longrightarrow>
        nike_DeriveSecret N a (nike_DerivePublicKey N b) =
        nike_DeriveSecret N b (nike_DerivePublicKey N a)) \<and>
     (\<forall>p s k q p' q'. V p \<longrightarrow> W s \<longrightarrow> W k \<longrightarrow> V q \<longrightarrow>
        nike_DeriveSecret N s p = Ok (nike_pk_Bytes N q) \<longrightarrow>
        nike_Blind N p k = Ok p' \<longrightarrow> nike_Blind N q k = Ok q' \<longrightarrow>
        nike_DeriveSecret N s p' = Ok (nike_pk_Bytes N q'))"

section \<open>X25519\<close>

definition GroupElementLength :: nat where "GroupElementLength = 32"

record curve =
  X25519 :: "bytes \<Rightarrow> bytes \<Rightarrow> bytes option"
  ScalarBaseMult :: "bytes \<Rightarrow> bytes"

record ecdh_PrivateKey =
  pubKey :: bytes
  privBytes :: bytes

definition ecdh_pk_FromBytes :: "bytes \<Rightarrow> (nike_error, bytes) outcome" where
  "ecdh_pk_FromBytes b =
     (if length b \<noteq> GroupElementLength then Fail nike_errInvalidKey
      else Ok (copy_into (zeros GroupElementLength) b))"

definition ecdh_sk_FromBytes :: "curve \<Rightarrow> bytes \<Rightarrow> (nike_error, ecdh_PrivateKey) outcome" where
  "ecdh_sk_FromBytes E b =
     (if length b \<noteq> GroupElementLength then Fail nike_errInvalidKey
      else Ok \<lparr>pubKey = ScalarBaseMult E b, privBytes = b\<rparr>)"

definition ecdh_Exp :: "curve \<Rightarrow> bytes \<Rightarrow> bytes \<Rightarrow> (nike_error, bytes) outcome" where
  "ecdh_Exp E x y =
     (if length x \<noteq> GroupElementLength then Panic
      else if length y \<noteq> GroupElementLength then Panic
      else (case X25519 E y x of None \<Rightarrow> Panic | Some sharedSecret \<Rightarrow> Ok sharedSecret))"

definition ecdh_NewKeypair :: "curve \<Rightarrow> rng \<Rightarrow> (nike_error, ecdh_PrivateKey \<times> rng) outcome" where
  "ecdh_NewKeypair E r =
     (let (b, r') = rng_read GroupElementLength r
      in Ok (\<lparr>pubKey = ScalarBaseMult E b, privBytes = b\<rparr>, r'))"

definition ecdh_pk_Blind :: "curve \<Rightarrow> bytes \<Rightarrow> bytes \<Rightarrow> (nike_error, bytes) outcome" where
  "ecdh_pk_Blind E k blindingFactor =
     (if length blindingFactor \<noteq> GroupElementLength then Fail ErrBlindDataSizeInvalid
      else obind (ecdh_Exp E k blindingFactor) (\<lambda>pubBytes. Ok (copy_into k pubBytes)))"

definition EcdhNike_DeriveSecret ::
    "curve \<Rightarrow> ecdh_PrivateKey \<Rightarrow> bytes \<Rightarrow> (nike_error, bytes) outcome" where
  "EcdhNike_DeriveSecret E sk pk = ecdh_Exp E pk (privBytes sk)"

text \<open>\<^verbatim>\<open>Blind\<close> panics where \<^verbatim>\<open>FromBytes\<close> of the shared secret fails.\<close>

definition EcdhNike_Blind ::
    "curve \<Rightarrow> bytes \<Rightarrow> ecdh_PrivateKey \<Rightarrow> (nike_error, bytes) outcome" where
  "EcdhNike_Blind E groupMember blindingFactor =
     obind (ecdh_Exp E groupMember (privBytes blindingFactor))
       (\<lambda>sharedSecret. case ecdh_pk_FromBytes sharedSecret of Ok p \<Rightarrow> Ok p | _ \<Rightarrow> Panic)"

definition EcdhNike :: "curve \<Rightarrow> (bytes, ecdh_PrivateKey) nike_scheme" where
  "EcdhNike E = \<lparr>nike_Name = ''x25519'', nike_PublicKeySize = GroupElementLength,
     nike_GeneratePrivateKey = ecdh_NewKeypair E,
     nike_DerivePublicKey = pubKey,
     nike_DeriveSecret = EcdhNike_DeriveSecret E,
     nike_Blind = EcdhNike_Blind E,
     nike_UnmarshalBinaryPublicKey = ecdh_pk_FromBytes,
     nike_pk_Bytes = (\<lambda>p. p),
     nike_pk_FromBytes = ecdh_pk_FromBytes,
     nike_pk_Blind = (\<lambda>p k. ecdh_pk_Blind E p (privBytes k))\<rparr>"

text \<open>
  The algebra of the curve: \<open>G\<close> are the encodings of the points that are not of low order.
  Scalar multiplication by any (clamped) scalar stays among them and commutes.
\<close>

definition curve_ok :: "curve \<Rightarrow> (bytes \<Rightarrow> bool) \<Rightarrow> bool" where
  "curve_ok E G \<longleftrightarrow>
     (\<forall>p. G p \<longrightarrow> length p = GroupElementLength) \<and>
     (\<forall>k. length k = GroupElementLength \<longrightarrow> G (ScalarBaseMult E k)) \<and>
     (\<forall>k p. length k = GroupElementLength \<longrightarrow> G p \<longrightarrow> (\<exists>q. X25519 E k p = Some q \<and> G q)) \<and>
     (\<forall>a b. length a = GroupElementLength \<longrightarrow> length b = GroupElementLength \<longrightarrow>
        X25519 E a (ScalarBaseMult E b) = X25519 E b (ScalarBaseMult E a)) \<and>
     (\<forall>a b p. length a = GroupElementLength \<longrightarrow> length b = GroupElementLength \<longrightarrow> G p \<longrightarrow>
        Option.bind (X25519 E a p) (X25519 E b) = Option.bind (X25519 E b p) (X25519 E a))"

definition ecdh_sk_ok :: "curve \<Rightarrow> ecdh_PrivateKey \<Rightarrow> bool" where
  "ecdh_sk_ok E s \<longleftrightarrow> length (privBytes s) = GroupElementLength \<and>
     pubKey s = ScalarBaseMult E (privBytes s)"

section \<open>The combiner\<close>

definition hybrid_pk_Bytes ::
    "('a, 'b) nike_scheme \<Rightarrow> ('c, 'd) nike_scheme \<Rightarrow> 'a \<times> 'c \<Rightarrow> bytes" where
  "hybrid_pk_Bytes N1 N2 p = nike_pk_Bytes N1 (fst p) @ nike_pk_Bytes N2 (snd p)"

definition hybrid_pk_FromBytes ::
    "('a, 'b) nike_scheme \<Rightarrow> ('c, 'd) nike_scheme \<Rightarrow> bytes \<Rightarrow> (nike_error, 'a \<times> 'c) outcome" where
  "hybrid_pk_FromBytes N1 N2 b =
     (if length b < nike_PublicKeySize N1 then Panic
      else obind (nike_pk_FromBytes N1 (take (nike_PublicKeySize N1) b)) (\<lambda>p1.
           obind (nike_pk_FromBytes N2 (drop (nike_PublicKeySize N1) b)) (\<lambda>p2.
           Ok (p1, p2))))"

definition hybrid_GeneratePrivateKey ::
    "('a, 'b) nike_scheme \<Rightarrow> ('c, 'd) nike_scheme \<Rightarrow> rng \<Rightarrow> (nike_error, ('b \<times> 'd) \<times> rng) outcome" where
  "hybrid_GeneratePrivateKey N1 N2 r =
     obind (nike_GeneratePrivateKey N1 r) (\<lambda>(s1, r1).
     obind (nike_GeneratePrivateKey N2 r1) (\<lambda>(s2, r2).
     Ok ((s1, s2), r2)))"

definition hybrid_DerivePublicKey ::
    "('a, 'b) nike_scheme \<Rightarrow> ('c, 'd) nike_scheme \<Rightarrow> 'b \<times> 'd \<Rightarrow> 'a \<times> 'c" where
  "hybrid_DerivePublicKey N1 N2 s =
     (nike_DerivePublicKey N1 (fst s), nike_DerivePublicKey N2 (snd s))"

definition hybrid_DeriveSecret ::
    "('a, 'b) nike_scheme \<Rightarrow> ('c, 'd) nike_scheme \<Rightarrow> 'b \<times> 'd \<Rightarrow> 'a \<times> 'c
      \<Rightarrow> (nike_error, bytes) outcome" where
  "hybrid_DeriveSecret N1 N2 s p =
     obind (nike_DeriveSecret N1 (fst s) (fst p)) (\<lambda>x.
     obind (nike_DeriveSecret N2 (snd s) (snd p)) (\<lambda>y. Ok (x @ y)))"

definition hybrid_Blind ::
    "('a, 'b) nike_scheme \<Rightarrow> ('c, 'd) nike_scheme \<Rightarrow> 'a \<times> 'c \<Rightarrow> 'b \<times> 'd
      \<Rightarrow> (nike_error, 'a \<times> 'c) outcome" where
  "hybrid_Blind N1 N2 p k =
     obind (nike_Blind N1 (fst p) (fst k)) (\<lambda>x.
     obind (nike_Blind N2 (snd p) (snd k)) (\<lambda>y. Ok (x, y)))"

definition hybrid_pk_Blind ::
    "('a, 'b) nike_scheme \<Rightarrow> ('c, 'd) nike_scheme \<Rightarrow> 'a \<times> 'c \<Rightarrow> 'b \<times> 'd
      \<Rightarrow> (nike_error, 'a \<times> 'c) outcome" where
  "hybrid_pk_Blind N1 N2 p k =
     obind (nike_pk_Blind N1 (fst p) (fst k)) (\<lambda>x.
     obind (nike_pk_Blind N2 (snd p) (snd k)) (\<lambda>y. Ok (x, y)))"

definition hybrid_scheme ::
    "string \<Rightarrow> ('a, 'b) nike_scheme \<Rightarrow> ('c, 'd) nike_scheme \<Rightarrow> ('a \<times> 'c, 'b \<times> 'd) nike_scheme" where
  "hybrid_scheme nm N1 N2 = \<lparr>nike_Name = nm,
     nike_PublicKeySize = nike_PublicKeySize N1 + nike_PublicKeySize N2,
     nike_GeneratePrivateKey = hybrid_GeneratePrivateKey N1 N2,
     nike_DerivePublicKey = hybrid_DerivePublicKey N1 N2,
     nike_DeriveSecret = hybrid_DeriveSecret N1 N2,
     nike_Blind = hybrid_Blind N1 N2,
     nike_UnmarshalBinaryPublicKey = hybrid_pk_FromBytes N1 N2,
     nike_pk_Bytes = hybrid_pk_Bytes N1 N2,
     nike_pk_FromBytes = hybrid_pk_FromBytes N1 N2,
     nike_pk_Blind = hybrid_pk_Blind N1 N2\<rparr>"

lemmas hybrid_defs = hybrid_scheme_def hybrid_pk_Bytes_def hybrid_pk_FromBytes_def
  hybrid_GeneratePrivateKey_def hybrid_DerivePublicKey_def hybrid_DeriveSecret_def
  hybrid_Blind_def hybrid_pk_Blind_def

section \<open>The contract as rules\<close>

lemma nike_okD:
  assumes "nike_ok N V W"
  shows nike_unmarshal: "V p \<Longrightarrow> nike_UnmarshalBinaryPublicKey N (nike_pk_Bytes N p) = Ok p"
    and nike_from: "V p \<Longrightarrow> nike_pk_FromBytes N (nike_pk_Bytes N p) = Ok p"
    and nike_length: "V p \<Longrightarrow> length (nike_pk_Bytes N p) = nike_PublicKeySize N"
    and nike_generate: "\<exists>s r'. nike_GeneratePrivateKey N r = Ok (s, r') \<and> W s"
    and nike_derive_valid: "W s \<Longrightarrow> V (nike_DerivePublicKey N s)"
    and nike_blind: "V p \<Longrightarrow> W k \<Longrightarrow>
      \<exists>p'. nike_Blind N p k = Ok p' \<and> nike_pk_Blind N p k = Ok p' \<and> V p'"
    and nike_secret: "V p \<Longrightarrow> W s \<Longrightarrow> \<exists>q. nike_DeriveSecret N s p = Ok (nike_pk_Bytes N q) \<and> V q"
    and nike_agree: "W a \<Longrightarrow> W b \<Longrightarrow> nike_DeriveSecret N a (nike_DerivePublicKey N b) =
      nike_DeriveSecret N b (nike_DerivePublicKey N a)"
  using assms unfolding nike_ok_def by blast+

lemma nike_commute:
  assumes "nike_ok N V W" "V p" "W s" "W k" "V q"
    and "nike_DeriveSecret N s p = Ok (nike_pk_Bytes N q)"
    and "nike_Blind N p k = Ok p'" "nike_Blind N q k = Ok q'"
  shows "nike_DeriveSecret N s p' = Ok (nike_pk_Bytes N q')"
  using assms unfolding nike_ok_def by blast

section \<open>X25519 meets the contract\<close>

lemma curve_okD:
  assumes "curve_ok E G"
  shows "G p \<Longrightarrow> length p = GroupElementLength"
    and "length k = GroupElementLength \<Longrightarrow> G (ScalarBaseMult E k)"
    and "length k = GroupElementLength \<Longrightarrow> G p \<Longrightarrow> \<exists>q. X25519 E k p = Some q \<and> G q"
    and "length a = GroupElementLength \<Longrightarrow> length b = GroupElementLength \<Longrightarrow>
      X25519 E a (ScalarBaseMult E b) = X25519 E b (ScalarBaseMult E a)"
    and "length a = GroupElementLength \<Longrightarrow> length b = GroupElementLength \<Longrightarrow> G p \<Longrightarrow>
      Option.bind (X25519 E a p) (X25519 E b) = Option.bind (X25519 E b p) (X25519 E a)"
  using assms unfolding curve_ok_def by blast+

lemma ecdh_pk_FromBytes_ok: "length b = GroupElementLength \<Longrightarrow> ecdh_pk_FromBytes b = Ok b"
  by (simp add: ecdh_pk_FromBytes_def copy_into_same)

lemma ecdh_Exp_ok:
  "length p = GroupElementLength \<Longrightarrow> length k = GroupElementLength \<Longrightarrow> X25519 E k p = Some q
     \<Longrightarrow> ecdh_Exp E p k = Ok q"
  by (simp add: ecdh_Exp_def)

lemma ecdh_blind_ok:
  assumes "curve_ok E G" "G p" "ecdh_sk_ok E k"
  shows "\<exists>q. X25519 E (privBytes k) p = Some q \<and> G q \<and> ecdh_Exp E p (privBytes k) = Ok q \<and>
    EcdhNike_Blind E p k = Ok q \<and> ecdh_pk_Blind E p (privBytes k) = Ok q"
proof -
  have l: "length p = GroupElementLength" "length (privBytes k) = GroupElementLength"
    using assms curve_okD(1) by (auto simp: ecdh_sk_ok_def)
  then obtain q where q: "X25519 E (privBytes k) p = Some q" "G q"
    using curve_okD(3) assms by blast
  moreover have "length q = GroupElementLength" using q curve_okD(1) assms(1) by blast
  ultimately show ?thesis
    using l by (simp add: EcdhNike_Blind_def ecdh_pk_Blind_def ecdh_Exp_ok ecdh_pk_FromBytes_ok
        copy_into_same)
qed

lemma ecdh_commute:
  assumes "curve_ok E G" "G p" "ecdh_sk_ok E s" "ecdh_sk_ok E k"
    and q: "ecdh_Exp E p (privBytes s) = Ok q" and p': "EcdhNike_Blind E p k = Ok p'"
    and q': "EcdhNike_Blind E q k = Ok q'"
  shows "ecdh_Exp E p' (privBytes s) = Ok q'"
proof -
  have l: "length (privBytes s) = GroupElementLength" "length (privBytes k) = GroupElementLength"
    using assms by (auto simp: ecdh_sk_ok_def)
  have xs: "X25519 E (privBytes s) p = Some q" "G q"
    using ecdh_blind_ok [OF assms(1,2,3)] q by auto
  have xk: "X25519 E (privBytes k) p = Some p'" "G p'"
    using ecdh_blind_ok [OF assms(1,2,4)] p' by auto
  have "X25519 E (privBytes k) q = Some q'"
    using ecdh_blind_ok [OF assms(1) xs(2) assms(4)] q' by auto
  with xs xk curve_okD(5) [OF assms(1) l assms(2)] have "X25519 E (privBytes s) p' = Some q'"
    by simp
  then show ?thesis using l curve_okD(1) [OF assms(1) xk(2)] by (simp add: ecdh_Exp_ok)
qed

lemma ecdh_nike_ok:
  assumes E: "curve_ok E G"
  shows "nike_ok (EcdhNike E) G (ecdh_sk_ok E)"
  unfolding nike_ok_def
proof (intro conjI allI impI)
  fix p assume "G p"
  then have l: "length p = GroupElementLength" using curve_okD(1) E by blast
  then show "nike_UnmarshalBinaryPublicKey (EcdhNike E) (nike_pk_Bytes (EcdhNike E) p) = Ok p"
    "nike_pk_FromBytes (EcdhNike E) (nike_pk_Bytes (EcdhNike E) p) = Ok p"
    "length (nike_pk_Bytes (EcdhNike E) p) = nike_PublicKeySize (EcdhNike E)"
    by (simp_all add: EcdhNike_def ecdh_pk_FromBytes_ok)
next
  fix r show "\<exists>s r'. nike_GeneratePrivateKey (EcdhNike E) r = Ok (s, r') \<and> ecdh_sk_ok E s"
    by (simp add: EcdhNike_def ecdh_NewKeypair_def rng_read_def ecdh_sk_ok_def)
next
  fix s assume "ecdh_sk_ok E s"
  then show "G (nike_DerivePublicKey (EcdhNike E) s)"
    using curve_okD(2) [OF E] by (simp add: EcdhNike_def ecdh_sk_ok_def)
next
  fix p k assume "G p" "ecdh_sk_ok E k"
  then obtain q where "G q" "ecdh_Exp E p (privBytes k) = Ok q"
    "EcdhNike_Blind E p k = Ok q" "ecdh_pk_Blind E p (privBytes k) = Ok q"
    using ecdh_blind_ok [OF E] by blast
  then show "\<exists>p'. nike_Blind (EcdhNike E) p k = Ok p' \<and> nike_pk_Blind (EcdhNike E) p k = Ok p' \<and> G p'"
    "\<exists>q. nike_DeriveSecret (EcdhNike E) k p = Ok (nike_pk_Bytes (EcdhNike E) q) \<and> G q"
    by (simp_all add: EcdhNike_def EcdhNike_DeriveSecret_def)
next
  fix a b assume "ecdh_sk_ok E a" "ecdh_sk_ok E b"
  then have l: "length (privBytes a) = GroupElementLength" "length (privBytes b) = GroupElementLength"
    and p: "pubKey a = ScalarBaseMult E (privBytes a)" "pubKey b = ScalarBaseMult E (privBytes b)"
    by (simp_all add: ecdh_sk_ok_def)
  have "length (ScalarBaseMult E (privBytes a)) = GroupElementLength"
    "length (ScalarBaseMult E (privBytes b)) = GroupElementLength"
    using curve_okD(1) [OF E curve_okD(2) [OF E l(1)]] curve_okD(1) [OF E curve_okD(2) [OF E l(2)]]
    by simp_all
  then show "nike_DeriveSecret (EcdhNike E) a (nike_DerivePublicKey (EcdhNike E) b) =
    nike_DeriveSecret (EcdhNike E) b (nike_DerivePublicKey (EcdhNike E) a)"
    using curve_okD(4) [OF E l]
    by (simp add: EcdhNike_def EcdhNike_DeriveSecret_def ecdh_Exp_def l p)
next
  fix p s k q p' q'
  assume "G p" "ecdh_sk_ok E s" "ecdh_sk_ok E k"
    "nike_DeriveSecret (EcdhNike E) s p = Ok (nike_pk_Bytes (EcdhNike E) q)"
    "nike_Blind (EcdhNike E) p k = Ok p'" "nike_Blind (EcdhNike E) q k = Ok q'"
  then show "nike_DeriveSecret (EcdhNike E) s p' = Ok (nike_pk_Bytes (EcdhNike E) q')"
    using ecdh_commute [OF E, of p s k q p' q'] by (simp add: EcdhNike_def EcdhNike_DeriveSecret_def)
qed

section \<open>The combiner preserves the contract\<close>

lemma hybrid_commute:
  assumes ok: "nike_ok N1 V1 W1" "nike_ok N2 V2 W2"
    and v: "V1 p1" "V2 p2" "W1 s1" "W2 s2" "W1 k1" "W2 k2" "V1 q1" "V2 q2"
    and d: "hybrid_DeriveSecret N1 N2 (s1, s2) (p1, p2) = Ok (nike_pk_Bytes N1 q1 @ nike_pk_Bytes N2 q2)"
    and b: "hybrid_Blind N1 N2 (p1, p2) (k1, k2) = Ok p'"
      "hybrid_Blind N1 N2 (q1, q2) (k1, k2) = Ok q'"
  shows "hybrid_DeriveSecret N1 N2 (s1, s2) p' = Ok (hybrid_pk_Bytes N1 N2 q')"
proof -
  obtain x1 x2 where x: "nike_DeriveSecret N1 s1 p1 = Ok (nike_pk_Bytes N1 x1)" "V1 x1"
    "nike_DeriveSecret N2 s2 p2 = Ok (nike_pk_Bytes N2 x2)" "V2 x2"
    using nike_secret [OF ok(1)] nike_secret [OF ok(2)] v by blast
  have "nike_pk_Bytes N1 x1 @ nike_pk_Bytes N2 x2 = nike_pk_Bytes N1 q1 @ nike_pk_Bytes N2 q2"
    using d x by (simp add: hybrid_DeriveSecret_def)
  moreover have "length (nike_pk_Bytes N1 x1) = length (nike_pk_Bytes N1 q1)"
    using nike_length [OF ok(1) x(2)] nike_length [OF ok(1) v(7)] by simp
  ultimately have "nike_pk_Bytes N1 x1 = nike_pk_Bytes N1 q1" "nike_pk_Bytes N2 x2 = nike_pk_Bytes N2 q2"
    by simp_all
  with x have s: "nike_DeriveSecret N1 s1 p1 = Ok (nike_pk_Bytes N1 q1)"
    "nike_DeriveSecret N2 s2 p2 = Ok (nike_pk_Bytes N2 q2)" by auto
  from b obtain a1 a2 c1 c2 where p': "p' = (a1, a2)" "q' = (c1, c2)"
    and bl: "nike_Blind N1 p1 k1 = Ok a1" "nike_Blind N2 p2 k2 = Ok a2"
      "nike_Blind N1 q1 k1 = Ok c1" "nike_Blind N2 q2 k2 = Ok c2"
    by (auto simp: hybrid_Blind_def obind_Ok_iff)
  show ?thesis
    using nike_commute [OF ok(1) v(1,3,5,7) s(1) bl(1,3)] nike_commute [OF ok(2) v(2,4,6,8) s(2) bl(2,4)]
    by (simp add: p' hybrid_DeriveSecret_def hybrid_pk_Bytes_def)
qed

lemma hybrid_key_roundtrip:
  assumes "nike_ok N1 V1 W1" "nike_ok N2 V2 W2" "V1 p1" "V2 p2"
  shows "hybrid_pk_FromBytes N1 N2 (hybrid_pk_Bytes N1 N2 (p1, p2)) = Ok (p1, p2)"
    "length (hybrid_pk_Bytes N1 N2 (p1, p2)) = nike_PublicKeySize N1 + nike_PublicKeySize N2"
  using nike_from [OF assms(1,3)] nike_from [OF assms(2,4)] nike_length [OF assms(1,3)]
    nike_length [OF assms(2,4)]
  by (simp_all add: hybrid_pk_FromBytes_def hybrid_pk_Bytes_def)

lemma hybrid_nike_ok:
  assumes ok: "nike_ok N1 V1 W1" "nike_ok N2 V2 W2"
  shows "nike_ok (hybrid_scheme nm N1 N2) (\<lambda>p. V1 (fst p) \<and> V2 (snd p)) (\<lambda>s. W1 (fst s) \<and> W2 (snd s))"
  unfolding nike_ok_def
proof (intro conjI allI impI, goal_cases)
  case (1 p) then show ?case
    using hybrid_key_roundtrip [OF ok, of "fst p" "snd p"] by (simp add: hybrid_scheme_def)
next
  case (2 p) then show ?case
    using hybrid_key_roundtrip [OF ok, of "fst p" "snd p"] by (simp add: hybrid_scheme_def)
next
  case (3 p) then show ?case
    using hybrid_key_roundtrip [OF ok, of "fst p" "snd p"] by (simp add: hybrid_scheme_def)
next
  case (4 r)
  obtain s1 r1 where "nike_GeneratePrivateKey N1 r = Ok (s1, r1)" "W1 s1"
    using nike_generate [OF ok(1)] by blast
  moreover obtain s2 r2 where "nike_GeneratePrivateKey N2 r1 = Ok (s2, r2)" "W2 s2"
    using nike_generate [OF ok(2)] by blast
  ultimately show ?case by (simp add: hybrid_defs)
next
  case (5 s) then show ?case
    using nike_derive_valid [OF ok(1)] by (simp add: hybrid_defs)
next
  case (6 s) then show ?case
    using nike_derive_valid [OF ok(2)] by (simp add: hybrid_defs)
next
  case (7 p k) then show ?case
    using nike_blind [OF ok(1), of "fst p" "fst k"] nike_blind [OF ok(2), of "snd p" "snd k"]
    by (auto simp: hybrid_defs)
next
  case (8 p s)
  obtain q1 q2 where "nike_DeriveSecret N1 (fst s) (fst p) = Ok (nike_pk_Bytes N1 q1)" "V1 q1"
    "nike_DeriveSecret N2 (snd s) (snd p) = Ok (nike_pk_Bytes N2 q2)" "V2 q2"
    using nike_secret [OF ok(1), of "fst p" "fst s"] nike_secret [OF ok(2), of "snd p" "snd s"] 8
    by blast
  then show ?case by (intro exI [of _ "(q1, q2)"]) (simp add: hybrid_defs)
next
  case (9 a b) then show ?case
    using nike_agree [OF ok(1), of "fst a" "fst b"] nike_agree [OF ok(2), of "snd a" "snd b"]
    by (simp add: hybrid_defs)
next
  case (10 p s k q p' q') then show ?case
    using hybrid_commute [OF ok, of "fst p" "snd p" "fst s" "snd s" "fst k" "snd k" "fst q" "snd q" p' q']
    by (simp add: hybrid_scheme_def hybrid_pk_Bytes_def)
qed

section \<open>A concrete curve\<close>

text \<open>
  A small function with the algebra of the curve, for evaluating the model: the group elements start
  with a one, scalar multiplication combines the remaining bytes, and an element starting with zero
  plays the point of low order, on which the multiplication fails.
\<close>

definition toy_curve :: curve where
  "toy_curve = \<lparr>X25519 = (\<lambda>k p. if p ! 0 = 0 then None else Some (1 # xor_list (tl k) (tl p))),
     ScalarBaseMult = (\<lambda>k. 1 # tl k)\<rparr>"

definition toy_point :: "bytes \<Rightarrow> bool" where
  "toy_point p \<longleftrightarrow> length p = GroupElementLength \<and> p ! 0 = 1"

lemma xor_list_swap: "length a = length b \<Longrightarrow> length b = length c \<Longrightarrow>
    xor_list a (xor_list b c) = xor_list b (xor_list a c)"
  by (induction a b c rule: list_induct3) (auto simp: xor.left_commute)

lemma toy_curve_ok: "curve_ok toy_curve toy_point"
  unfolding curve_ok_def
proof (intro conjI allI impI, goal_cases)
  case (1 p) then show ?case by (simp add: toy_point_def)
next
  case (2 k) then show ?case by (simp add: toy_point_def toy_curve_def GroupElementLength_def)
next
  case (3 k p) then show ?case
    by (simp add: toy_point_def toy_curve_def GroupElementLength_def)
next
  case (4 a b) then show ?case
    by (simp add: toy_curve_def xor_list_commute)
next
  case (5 a b p)
  then have "length (tl b) = length (tl a)" "length (tl a) = length (tl p)"
    by (simp_all add: toy_point_def)
  with 5 show ?case
    by (simp add: toy_point_def toy_curve_def xor_list_swap [of "tl b" "tl a" "tl p"])
qed

definition toy_key :: "byte \<Rightarrow> ecdh_PrivateKey" where
  "toy_key b = \<lparr>pubKey = 1 # replicate 31 b, privBytes = replicate 32 b\<rparr>"

lemma toy_key_ok: "ecdh_sk_ok toy_curve (toy_key b)"
  by (simp add: ecdh_sk_ok_def toy_key_def toy_curve_def GroupElementLength_def)

section \<open>Properties\<close>

text \<open>
  C34: X25519 as wrapped by the repository meets the contract of a NIKE that Sphinx relies on (keys
  survive serialization, both parties derive the same secret, blinding the public key blinds the
  secret), given the algebra of the curve on points that are not of low order.
\<close>

theorem EcdhNike_contract:
  assumes "curve_ok E G"
  shows "nike_ok (EcdhNike E) G (ecdh_sk_ok E)"
  using assms by (rule ecdh_nike_ok)

theorem EcdhNike_contract_witness:
  "nike_ok (EcdhNike toy_curve) toy_point (ecdh_sk_ok toy_curve)"
  by (rule EcdhNike_contract [OF toy_curve_ok])

text \<open>
  the hybrid combiner of two NIKEs meets the contract whenever both parts do, so Sphinx may be
  run over a combined scheme.
\<close>

theorem hybrid_contract:
  assumes "nike_ok N1 V1 W1" "nike_ok N2 V2 W2"
  shows "nike_ok (hybrid_scheme nm N1 N2) (\<lambda>p. V1 (fst p) \<and> V2 (snd p)) (\<lambda>s. W1 (fst s) \<and> W2 (snd s))"
  using assms by (rule hybrid_nike_ok)

theorem hybrid_contract_witness:
  "nike_ok (hybrid_scheme ''x25519-x25519'' (EcdhNike toy_curve) (EcdhNike toy_curve))
     (\<lambda>p. toy_point (fst p) \<and> toy_point (snd p))
     (\<lambda>s. ecdh_sk_ok toy_curve (fst s) \<and> ecdh_sk_ok toy_curve (snd s))"
  by (rule hybrid_contract [OF ecdh_nike_ok [OF toy_curve_ok] ecdh_nike_ok [OF toy_curve_ok]])

end
