(* ===== verification/Sphinx_Crypto.thy ===== *)
theory Sphinx_Crypto
  imports Nike_Scheme
begin

text \<open>
  The cryptographic layer of the Sphinx packet format (\<^verbatim>\<open>src/core/sphinx/internal/crypto/crypto.go\<close>):
  hash, MAC, stream cipher, wide-block cipher and the derivation of a hop's keys.  HKDF, HMAC,
  SHA-512/256, AES-CTR, AEZ and ChaCha20 are third-party code and enter as the functions of the
  record \<open>sphinx_prims\<close>; \<open>prims_ok\<close> states the documented facts about them that the format needs.
\<close>

record sphinx_prims =
  hkdf_Expand :: "bytes \<Rightarrow> bytes \<Rightarrow> nat \<Rightarrow> bytes"
  hmac_sha256 :: "bytes \<Rightarrow> bytes \<Rightarrow> bytes"
  sha512_256 :: "bytes \<Rightarrow> bytes"
  aes_ctr :: "bytes \<Rightarrow> bytes \<Rightarrow> nat \<Rightarrow> bytes"
  aez_Encrypt :: "bytes \<Rightarrow> bytes \<Rightarrow> bytes \<Rightarrow> bytes"
  aez_Decrypt :: "bytes \<Rightarrow> bytes \<Rightarrow> bytes \<Rightarrow> bytes option"
  chacha20 :: "bytes \<Rightarrow> rng"

text \<open>
  Output lengths, and AEZ with an empty tag as a length-preserving permutation whose decryption
  never fails.
\<close>

definition prims_ok :: "sphinx_prims \<Rightarrow> bool" where
  "prims_ok P \<longleftrightarrow>
     (\<forall>ikm info n. length (hkdf_Expand P ikm info n) = n) \<and>
     (\<forall>k m. length (hmac_sha256 P k m) = MACLength) \<and>
     (\<forall>k iv n. length (aes_ctr P k iv n) = n) \<and>
     (\<forall>k iv m. length (aez_Encrypt P k iv m) = length m \<and>
        aez_Decrypt P k iv (aez_Encrypt P k iv m) = Some m) \<and>
     (\<forall>k iv c. \<exists>m. aez_Decrypt P k iv c = Some m \<and> aez_Encrypt P k iv m = c)"

section \<open>Primitives\<close>

definition kdfInfo :: bytes where
  "kdfInfo = map of_char ''katzenpost-kdf-v0-hkdf-sha256''"

definition Hash :: "sphinx_prims \<Rightarrow> bytes \<Rightarrow> bytes" where
  "Hash P msg = sha512_256 P msg"

text \<open>\<^verbatim>\<open>NewMAC(key)\<close>, the writes of the parts of \<open>msg\<close>, and \<^verbatim>\<open>Sum(nil)\<close>.\<close>

definition NewMAC :: "sphinx_prims \<Rightarrow> bytes \<Rightarrow> bytes \<Rightarrow> bytes" where
  "NewMAC P key msg = hmac_sha256 P key msg"

text \<open>A fresh \<^verbatim>\<open>NewStream(key, iv)\<close> applied once to a buffer.\<close>

definition XORKeyStream :: "sphinx_prims \<Rightarrow> bytes \<Rightarrow> bytes \<Rightarrow> bytes \<Rightarrow> bytes" where
  "XORKeyStream P key iv b = xor_list b (aes_ctr P key iv (length b))"

definition KeyStream :: "sphinx_prims \<Rightarrow> bytes \<Rightarrow> bytes \<Rightarrow> nat \<Rightarrow> bytes" where
  "KeyStream P key iv n = XORKeyStream P key iv (ExplicitBzero (zeros n))"

definition SPRPEncrypt :: "sphinx_prims \<Rightarrow> bytes \<Rightarrow> bytes \<Rightarrow> bytes \<Rightarrow> bytes" where
  "SPRPEncrypt P key iv msg = aez_Encrypt P key iv msg"

definition SPRPDecrypt :: "sphinx_prims \<Rightarrow> bytes \<Rightarrow> bytes \<Rightarrow> bytes \<Rightarrow> ('e, bytes) outcome" where
  "SPRPDecrypt P key iv msg =
     (case aez_Decrypt P key iv msg of None \<Rightarrow> Panic | Some dst \<Rightarrow> Ok dst)"

section \<open>Packet keys\<close>

record 'sk PacketKeys =
  HeaderMAC :: bytes
  HeaderEncryption :: bytes
  HeaderEncryptionIV :: bytes
  PayloadEncryption :: bytes
  BlindingFactor :: "'sk option"

definition okmLength :: nat where
  "okmLength = MACKeyLength + StreamKeyLength + StreamIVLength + SPRPKeyLength + privateKeySeedSize"

text \<open>
  \<^verbatim>\<open>KDF\<close>: the output keying material is cut into the four keys and, for a NIKE, the seed of the
  deterministic reader from which the blinding factor is generated.
\<close>

definition KDF ::
    "sphinx_prims \<Rightarrow> bytes \<Rightarrow> ('pk, 'sk) nike_scheme option \<Rightarrow> (nike_error, 'sk PacketKeys) outcome" where
  "KDF P ikm scheme =
     (let okm = hkdf_Expand P ikm kdfInfo okmLength;
          ptr1 = drop MACKeyLength okm;
          ptr2 = drop StreamKeyLength ptr1;
          ptr3 = drop StreamIVLength ptr2;
          ptr4 = drop SPRPKeyLength ptr3;
          k = \<lparr>HeaderMAC = take MACKeyLength okm, HeaderEncryption = take StreamKeyLength ptr1,
               HeaderEncryptionIV = take StreamIVLength ptr2,
               PayloadEncryption = take SPRPKeyLength ptr3, BlindingFactor = None\<rparr>
      in if length okm \<noteq> okmLength then Panic
         else (case scheme of
                 None \<Rightarrow> Ok k
               | Some N \<Rightarrow>
                   obind (nike_GeneratePrivateKey N (chacha20 P (take privateKeySeedSize ptr4)))
                     (\<lambda>(s, _). Ok (k\<lparr>BlindingFactor := Some s\<rparr>))))"

definition PacketKeys_Reset :: "('sk \<Rightarrow> 'sk) \<Rightarrow> 'sk PacketKeys \<Rightarrow> 'sk PacketKeys" where
  "PacketKeys_Reset sk_Reset k =
     k\<lparr>HeaderMAC := ExplicitBzero (HeaderMAC k),
       HeaderEncryption := ExplicitBzero (HeaderEncryption k),
       HeaderEncryptionIV := ExplicitBzero (HeaderEncryptionIV k),
       PayloadEncryption := ExplicitBzero (PayloadEncryption k),
       BlindingFactor := map_option sk_Reset (BlindingFactor k)\<rparr>"

section \<open>Lemmas\<close>

lemma prims_okD:
  assumes "prims_ok P"
  shows "length (hkdf_Expand P ikm info n) = n"
    and "length (hmac_sha256 P k m) = MACLength"
    and "length (aes_ctr P k iv n) = n"
    and "length (aez_Encrypt P k iv m) = length m"
    and "aez_Decrypt P k iv (aez_Encrypt P k iv m) = Some m"
    and "\<exists>m. aez_Decrypt P k iv c = Some m \<and> aez_Encrypt P k iv m = c"
  using assms unfolding prims_ok_def by blast+

lemma KeyStream_eq: "prims_ok P \<Longrightarrow> KeyStream P key iv n = aes_ctr P key iv n"
  by (simp add: KeyStream_def XORKeyStream_def ExplicitBzero_zeros xor_list_zeros prims_okD(3))

lemma length_KeyStream: "prims_ok P \<Longrightarrow> length (KeyStream P key iv n) = n"
  by (simp add: KeyStream_eq prims_okD(3))

lemma XORKeyStream_KeyStream:
  "prims_ok P \<Longrightarrow> XORKeyStream P key iv b = xor_list b (KeyStream P key iv (length b))"
  by (simp add: KeyStream_eq XORKeyStream_def)

lemma length_NewMAC: "prims_ok P \<Longrightarrow> length (NewMAC P k m) = MACLength"
  by (simp add: NewMAC_def prims_okD(2))

lemma SPRPDecrypt_Encrypt: "prims_ok P \<Longrightarrow> SPRPDecrypt P k iv (SPRPEncrypt P k iv m) = Ok m"
  by (simp add: SPRPDecrypt_def SPRPEncrypt_def prims_okD(5))

lemma length_SPRPEncrypt: "prims_ok P \<Longrightarrow> length (SPRPEncrypt P k iv m) = length m"
  by (simp add: SPRPEncrypt_def prims_okD(4))

lemma SPRPDecrypt_total:
  assumes "prims_ok P"
  shows "\<exists>m. SPRPDecrypt P k iv c = Ok m \<and> SPRPEncrypt P k iv m = c \<and> length m = length c"
proof -
  obtain m where "aez_Decrypt P k iv c = Some m" "aez_Encrypt P k iv m = c"
    using prims_okD(6) [OF assms] by blast
  then show ?thesis
    using prims_okD(4) [OF assms, of k iv m] by (simp add: SPRPDecrypt_def SPRPEncrypt_def)
qed

lemma KDF_nike:
  assumes "prims_ok P" "nike_ok N V W"
  shows "\<exists>k s. KDF P ikm (Some N) = Ok k \<and> BlindingFactor k = Some s \<and> W s"
proof -
  define r where "r = chacha20 P (take privateKeySeedSize (drop SPRPKeyLength (drop StreamIVLength
    (drop StreamKeyLength (drop MACKeyLength (hkdf_Expand P ikm kdfInfo okmLength))))))"
  obtain s r' where "nike_GeneratePrivateKey N r = Ok (s, r')" "W s"
    using nike_generate [OF assms(2)] by blast
  then show ?thesis
    by (simp add: KDF_def Let_def prims_okD(1) [OF assms(1)] r_def)
qed

lemma KDF_kem:
  assumes "prims_ok P"
  shows "\<exists>k. KDF P ikm None = Ok k"
  by (simp add: KDF_def Let_def prims_okD(1) [OF assms])

section \<open>Concrete primitives\<close>

text \<open>Small functions with the properties \<open>prims_ok\<close> asks for, for evaluating the model.\<close>

definition toy_bytes :: "bytes \<Rightarrow> nat \<Rightarrow> bytes" where
  "toy_bytes b n = map (\<lambda>i. if i < length b then b ! i else of_nat i) [0..<n]"

definition toy_sphinx :: sphinx_prims where
  "toy_sphinx = \<lparr>hkdf_Expand = (\<lambda>ikm info n. toy_bytes ikm n),
     hmac_sha256 = (\<lambda>k m. toy_bytes m MACLength),
     sha512_256 = (\<lambda>m. toy_bytes m HashLength),
     aes_ctr = (\<lambda>k iv n. toy_bytes k n),
     aez_Encrypt = (\<lambda>k iv m. map ((XOR) (k ! 1)) m),
     aez_Decrypt = (\<lambda>k iv m. Some (map ((XOR) (k ! 1)) m)),
     chacha20 = (\<lambda>seed i. seed ! (i mod 32))\<rparr>"

lemma toy_sphinx_ok: "prims_ok toy_sphinx"
proof -
  have "map ((XOR) (x::byte)) (map ((XOR) x) m) = m" for x m
    by (induction m) (simp_all flip: xor.assoc)
  then show ?thesis
    by (auto simp: prims_ok_def toy_sphinx_def toy_bytes_def)
qed

end
