(* ===== verification/Sphinx_Commands.thy ===== *)
theory Sphinx_Commands
  imports Sphinx_Geometry
begin

text \<open>
  The per-hop routing commands of a Sphinx header (\<^verbatim>\<open>src/core/sphinx/commands/commands.go\<close>): their
  serialization, the parser of the first command of a buffer, and the loop in which
  \<^verbatim>\<open>unwrapNike\<close> and \<^verbatim>\<open>unwrapKem\<close> read a hop's block.  The fixed-size arrays of the Go structs are
  byte lists whose lengths \<open>rc_wf\<close> fixes.
\<close>

section \<open>Commands\<close>

definition rc_null :: byte where "rc_null = 0"
definition rc_nextNodeHop :: byte where "rc_nextNodeHop = 1"
definition rc_recipient :: byte where "rc_recipient = 2"
definition rc_surbReply :: byte where "rc_surbReply = 3"
definition rc_nodeDelay :: byte where "rc_nodeDelay = 128"

lemmas rc_ids = rc_null_def rc_nextNodeHop_def rc_recipient_def rc_surbReply_def rc_nodeDelay_def

datatype routing_command =
  NextNodeHop (hop_ID: bytes) (hop_MAC: bytes)
| Recipient (rcp_ID: bytes)
| SURBReply (surb_ID: bytes)
| NodeDelay (Delay: u32)

datatype rc_error = rc_errInvalidCommand

definition NextNodeHop_ToBytes :: "bytes \<Rightarrow> bytes \<Rightarrow> bytes \<Rightarrow> bytes" where
  "NextNodeHop_ToBytes i m b = b @ [rc_nextNodeHop] @ i @ m"

definition Recipient_ToBytes :: "bytes \<Rightarrow> bytes \<Rightarrow> bytes" where
  "Recipient_ToBytes i b = b @ [rc_recipient] @ i"

definition SURBReply_ToBytes :: "bytes \<Rightarrow> bytes \<Rightarrow> bytes" where
  "SURBReply_ToBytes i b = b @ [rc_surbReply] @ i"

definition NodeDelay_ToBytes :: "u32 \<Rightarrow> bytes \<Rightarrow> bytes" where
  "NodeDelay_ToBytes d b = b @ [rc_nodeDelay] @ put_u32_be d"

text \<open>The interface method: appends the serialized command to \<open>b\<close>.\<close>

fun rc_ToBytes :: "routing_command \<Rightarrow> bytes \<Rightarrow> bytes" where
  "rc_ToBytes (NextNodeHop i m) b = NextNodeHop_ToBytes i m b"
| "rc_ToBytes (Recipient i) b = Recipient_ToBytes i b"
| "rc_ToBytes (SURBReply i) b = SURBReply_ToBytes i b"
| "rc_ToBytes (NodeDelay d) b = NodeDelay_ToBytes d b"

section \<open>Parsing\<close>

text \<open>
  A parser returns the command (absent for the terminal null command) and the rest of the buffer
  (nil for the null command).  \<^verbatim>\<open>b[g.NextNodeHopLength-1:]\<close> and \<^verbatim>\<open>b[:NodeIDLength]\<close> panic for a geometry
  whose \<^verbatim>\<open>NextNodeHopLength\<close> is too small.
\<close>

type_synonym rc_result = "(rc_error, routing_command option \<times> bytes option) outcome"

definition nextNodeHopFromBytes :: "bytes \<Rightarrow> geometry \<Rightarrow> rc_result" where
  "nextNodeHopFromBytes b g =
     (if NextNodeHopLength g = 0 then Panic
      else if length b < NextNodeHopLength g - 1 then Fail rc_errInvalidCommand
      else if length b < NodeIDLength then Panic
      else Ok (Some (NextNodeHop (copy_into (zeros NodeIDLength) (take NodeIDLength b))
                       (copy_into (zeros MACLength) (drop NodeIDLength b))),
               Some (drop (NextNodeHopLength g - 1) b)))"

definition recipeientFromBytes :: "bytes \<Rightarrow> geometry \<Rightarrow> rc_result" where
  "recipeientFromBytes b g =
     (if length b < RecipientIDLength then Fail rc_errInvalidCommand
      else Ok (Some (Recipient (copy_into (zeros RecipientIDLength) (take RecipientIDLength b))),
               Some (drop RecipientIDLength b)))"

definition surbReplyFromBytes :: "bytes \<Rightarrow> geometry \<Rightarrow> rc_result" where
  "surbReplyFromBytes b g =
     (if length b < SURBIDLength then Fail rc_errInvalidCommand
      else Ok (Some (SURBReply (copy_into (zeros SURBIDLength) (take SURBIDLength b))),
               Some (drop SURBIDLength b)))"

definition nodeDelayFromBytes :: "bytes \<Rightarrow> rc_result" where
  "nodeDelayFromBytes b =
     (let nodeDelayLength = 4
      in if length b < nodeDelayLength then Fail rc_errInvalidCommand
         else Ok (Some (NodeDelay (get_u32_be (take nodeDelayLength b))),
                  Some (drop nodeDelayLength b)))"

definition rc_FromBytes :: "bytes \<Rightarrow> geometry \<Rightarrow> rc_result" where
  "rc_FromBytes b g =
     (case b of
        [] \<Rightarrow> Ok (None, None)
      | [i] \<Rightarrow> if i \<noteq> rc_null then Fail rc_errInvalidCommand else Ok (None, None)
      | i # r \<Rightarrow>
          if i = rc_null then (if \<not> CtIsZero r then Fail rc_errInvalidCommand else Ok (None, None))
          else if i = rc_nextNodeHop then nextNodeHopFromBytes r g
          else if i = rc_recipient then recipeientFromBytes r g
          else if i = rc_surbReply then surbReplyFromBytes r g
          else if i = rc_nodeDelay then nodeDelayFromBytes r
          else Fail rc_errInvalidCommand)"

lemmas rc_parsers = nextNodeHopFromBytes_def recipeientFromBytes_def surbReplyFromBytes_def
  nodeDelayFromBytes_def Let_def

section \<open>Reading a hop's block\<close>

datatype parse_error =
  ErrCommand rc_error | ErrNullRest | ErrMultipleNextNode | ErrMultipleSURBReply

text \<open>
  The loop over the block: the next-hop command and the SURB reply found so far (each at most
  once) and the commands in order.  It ends because every command takes at least one byte.
\<close>

type_synonym parsed = "(bytes \<times> bytes) option \<times> bytes option \<times> routing_command list"

function (sequential) parseCommands ::
    "geometry \<Rightarrow> (bytes \<times> bytes) option \<Rightarrow> bytes option \<Rightarrow> routing_command list \<Rightarrow> bytes
      \<Rightarrow> (parse_error, parsed) outcome" where
  "parseCommands g nextNode surbReply cmds cmdBuf =
     (case rc_FromBytes cmdBuf g of
        Panic \<Rightarrow> Panic
      | Fail e \<Rightarrow> Fail (ErrCommand e)
      | Ok (None, rest) \<Rightarrow> if rest \<noteq> None then Fail ErrNullRest else Ok (nextNode, surbReply, cmds)
      | Ok (Some c, rest) \<Rightarrow>
          (let buf = (case rest of None \<Rightarrow> [] | Some r \<Rightarrow> r)
           in case c of
                NextNodeHop i m \<Rightarrow>
                  if nextNode \<noteq> None then Fail ErrMultipleNextNode
                  else parseCommands g (Some (i, m)) surbReply (cmds @ [c]) buf
              | SURBReply i \<Rightarrow>
                  if surbReply \<noteq> None then Fail ErrMultipleSURBReply
                  else parseCommands g nextNode (Some i) (cmds @ [c]) buf
              | _ \<Rightarrow> parseCommands g nextNode surbReply (cmds @ [c]) buf))"
  by pat_completeness auto

lemma rc_FromBytes_progress:
  "rc_FromBytes b g = Ok (Some c, Some r) \<Longrightarrow> length r < length b"
  by (auto simp: rc_FromBytes_def rc_parsers split: list.splits if_splits)

lemma rc_FromBytes_nonempty:
  "rc_FromBytes b g = Ok (Some c, r) \<Longrightarrow> b \<noteq> []"
  by (auto simp: rc_FromBytes_def)

lemma rc_FromBytes_rest:
  assumes "rc_FromBytes b g = Ok (Some c, r)"
  shows "length (case r of None \<Rightarrow> [] | Some r' \<Rightarrow> r') < length b"
  using rc_FromBytes_progress [of b g c] rc_FromBytes_nonempty [OF assms] assms
  by (cases r) auto

termination parseCommands
  by (relation "measure (\<lambda>(g, n, s, c, b). length b)") (auto dest: rc_FromBytes_rest)

declare parseCommands.simps [simp del]

section \<open>Well-formed commands and round trip\<close>

fun rc_wf :: "routing_command \<Rightarrow> bool" where
  "rc_wf (NextNodeHop i m) \<longleftrightarrow> length i = NodeIDLength \<and> length m = MACLength"
| "rc_wf (Recipient i) \<longleftrightarrow> length i = RecipientIDLength"
| "rc_wf (SURBReply i) \<longleftrightarrow> length i = SURBIDLength"
| "rc_wf (NodeDelay d) \<longleftrightarrow> True"

lemmas rc_printers = NextNodeHop_ToBytes_def Recipient_ToBytes_def SURBReply_ToBytes_def
  NodeDelay_ToBytes_def

lemma rc_ToBytes_append: "rc_ToBytes c b = b @ rc_ToBytes c []"
  by (cases c) (simp_all add: rc_printers)

lemma rc_ToBytes_nonempty: "0 < length (rc_ToBytes c [])"
  by (cases c) (simp_all add: rc_printers)

text \<open>Parsing what was serialized, followed by anything, gives the command and the rest.\<close>

lemma rc_roundtrip:
  assumes "rc_wf c" "NextNodeHopLength g = CommandTagLength + NodeIDLength + MACLength"
  shows "rc_FromBytes (rc_ToBytes c [] @ r) g = Ok (Some c, Some r)"
proof (cases c)
  case (NodeDelay d)
  have "get_u32_be (take 4 (put_u32_be d @ r)) = d" by simp
  then show ?thesis
    using NodeDelay by (simp add: rc_FromBytes_def rc_printers rc_ids rc_parsers put_u32_be_def)
next
  case (NextNodeHop i m)
  moreover from this assms obtain x i' where "i = x # i'"
    by (cases i) (auto simp: sphinx_constants)
  ultimately show ?thesis
    using assms by (simp add: rc_FromBytes_def rc_printers rc_ids rc_parsers copy_into_def
        sphinx_constants)
next
  case (Recipient i)
  moreover from this assms obtain x i' where "i = x # i'"
    by (cases i) (auto simp: sphinx_constants)
  ultimately show ?thesis
    using assms by (simp add: rc_FromBytes_def rc_printers rc_ids rc_parsers copy_into_def
        sphinx_constants)
next
  case (SURBReply i)
  moreover from this assms obtain x i' where "i = x # i'"
    by (cases i) (auto simp: sphinx_constants)
  ultimately show ?thesis
    using assms by (simp add: rc_FromBytes_def rc_printers rc_ids rc_parsers copy_into_def
        sphinx_constants)
qed

text \<open>A zero buffer of any length is the terminal null command.\<close>

lemma rc_FromBytes_zeros: "rc_FromBytes (zeros n) g = Ok (None, None)"
  by (cases n; cases "n - 1") (auto simp: rc_FromBytes_def zeros_def rc_ids CtIsZero_iff)

section \<open>Round trip of a block\<close>

definition cmds_bytes :: "routing_command list \<Rightarrow> bytes" where
  "cmds_bytes cs = concat (map (\<lambda>c. rc_ToBytes c []) cs)"

fun nextOf :: "(bytes \<times> bytes) option \<Rightarrow> routing_command list \<Rightarrow> (bytes \<times> bytes) option" where
  "nextOf n [] = n"
| "nextOf n (NextNodeHop i m # cs) = nextOf (Some (i, m)) cs"
| "nextOf n (_ # cs) = nextOf n cs"

fun surbOf :: "bytes option \<Rightarrow> routing_command list \<Rightarrow> bytes option" where
  "surbOf s [] = s"
| "surbOf s (SURBReply i # cs) = surbOf (Some i) cs"
| "surbOf s (_ # cs) = surbOf s cs"

text \<open>The number of a kind of command, one more if one was already seen.\<close>

definition seen_count :: "'a option \<Rightarrow> (routing_command \<Rightarrow> bool) \<Rightarrow> routing_command list \<Rightarrow> nat" where
  "seen_count o1 P cs = (if o1 = None then 0 else 1) + length (filter P cs)"

lemma cmds_bytes_simps [simp]:
  "cmds_bytes [] = []" "cmds_bytes (c # cs) = rc_ToBytes c [] @ cmds_bytes cs"
  "cmds_bytes (cs @ ds) = cmds_bytes cs @ cmds_bytes ds"
  by (simp_all add: cmds_bytes_def)

lemma fold_rc_ToBytes: "fold rc_ToBytes cs b = b @ cmds_bytes cs"
proof (induction cs arbitrary: b)
  case (Cons c cs)
  have "fold rc_ToBytes (c # cs) b = rc_ToBytes c b @ cmds_bytes cs"
    by (simp add: Cons.IH)
  also have "\<dots> = b @ cmds_bytes (c # cs)"
    by (subst rc_ToBytes_append) simp
  finally show ?case .
qed simp

lemma no_next: "\<forall>c\<in>set cs. \<not> is_NextNodeHop c \<Longrightarrow> nextOf n cs = n"
  by (induction n cs rule: nextOf.induct) auto

lemma nextOf_append: "nextOf n (cs @ ds) = nextOf (nextOf n cs) ds"
  by (induction n cs rule: nextOf.induct) auto

lemma no_surb: "\<forall>c\<in>set cs. \<not> is_SURBReply c \<Longrightarrow> surbOf n cs = n"
  by (induction n cs rule: surbOf.induct) auto

lemma surbOf_append: "surbOf n (cs @ ds) = surbOf (surbOf n cs) ds"
  by (induction n cs rule: surbOf.induct) auto

lemma surbOf_None_iff: "surbOf None cs = None \<longleftrightarrow> (\<forall>c\<in>set cs. \<not> is_SURBReply c)"
proof -
  have "surbOf n cs \<noteq> None" if "n \<noteq> None \<or> (\<exists>c\<in>set cs. is_SURBReply c)" for n
    using that by (induction n cs rule: surbOf.induct) auto
  then show ?thesis using no_surb [of cs None] by blast
qed

lemma parse_step:
  assumes "rc_FromBytes b g = Ok (Some c, Some r)"
  shows "parseCommands g n s acc b =
    (if is_NextNodeHop c then
       if n \<noteq> None then Fail ErrMultipleNextNode
       else parseCommands g (Some (hop_ID c, hop_MAC c)) s (acc @ [c]) r
     else if is_SURBReply c then
       if s \<noteq> None then Fail ErrMultipleSURBReply
       else parseCommands g n (Some (surb_ID c)) (acc @ [c]) r
     else parseCommands g n s (acc @ [c]) r)"
  by (subst parseCommands.simps) (cases c; simp add: assms)

lemma parse_block:
  assumes g: "NextNodeHopLength g = CommandTagLength + NodeIDLength + MACLength"
    and "\<forall>c\<in>set cs. rc_wf c"
    and "seen_count n is_NextNodeHop cs \<le> 1" "seen_count s is_SURBReply cs \<le> 1"
  shows "parseCommands g n s acc (cmds_bytes cs @ zeros k) = Ok (nextOf n cs, surbOf s cs, acc @ cs)"
  using assms(2-4)
proof (induction cs arbitrary: n s acc)
  case Nil
  then show ?case by (subst parseCommands.simps) (simp add: rc_FromBytes_zeros)
next
  case (Cons c cs)
  have rc: "rc_FromBytes (rc_ToBytes c [] @ cmds_bytes cs @ zeros k) g
      = Ok (Some c, Some (cmds_bytes cs @ zeros k))"
    by (rule rc_roundtrip [OF _ g]) (use Cons.prems in simp)
  show ?case
    unfolding cmds_bytes_simps append.assoc parse_step [OF rc]
    using Cons.prems by (cases c) (auto simp: Cons.IH seen_count_def split: if_splits)
qed

text \<open>Conversely, an accepted block is the serialization of what was read, then zeros.\<close>

lemma rc_canonical:
  assumes "NextNodeHopLength g = CommandTagLength + NodeIDLength + MACLength"
    and "rc_FromBytes b g = Ok (Some c, r)"
  shows "\<exists>r'. r = Some r' \<and> b = rc_ToBytes c [] @ r' \<and> rc_wf c"
proof -
  obtain i x y where b: "b = i # x # y"
    using assms(2) by (auto simp: rc_FromBytes_def split: list.splits if_splits)
  let ?r = "x # y"
  consider "nextNodeHopFromBytes ?r g = Ok (Some c, r)" "i = rc_nextNodeHop"
    | "recipeientFromBytes ?r g = Ok (Some c, r)" "i = rc_recipient"
    | "surbReplyFromBytes ?r g = Ok (Some c, r)" "i = rc_surbReply"
    | "nodeDelayFromBytes ?r = Ok (Some c, r)" "i = rc_nodeDelay"
    using assms(2) b by (auto simp: rc_FromBytes_def split: if_splits)
  then show ?thesis
  proof cases
    case 1
    then have "64 \<le> length ?r" using assms(1)
      by (simp add: nextNodeHopFromBytes_def sphinx_constants split: if_splits)
    moreover have "take 32 ?r @ take 32 (drop 32 ?r) @ drop 64 ?r = ?r"
      using take_take_drop [of 32 ?r 32] by simp
    moreover define q where "q = ?r"
    ultimately show ?thesis
      using 1 assms(1) b unfolding q_def [symmetric]
      by (auto simp: nextNodeHopFromBytes_def rc_printers copy_into_def sphinx_constants
          split: if_splits)
  next
    case 4
    then have "put_u32_be (get_u32_be ?r) = take 4 ?r"
      by (intro put_get_u32_be) (simp add: nodeDelayFromBytes_def Let_def split: if_splits)
    then have "put_u32_be (get_u32_be ?r) @ drop 4 ?r = ?r"
      by (simp only: append_take_drop_id)
    moreover have "c = NodeDelay (get_u32_be ?r)" "r = Some (drop 4 ?r)"
      using 4 get_be_take(1) [of ?r] by (auto simp: nodeDelayFromBytes_def Let_def split: if_splits)
    ultimately show ?thesis using b 4 by (simp add: rc_printers)
  qed (use b in \<open>auto simp: recipeientFromBytes_def surbReplyFromBytes_def rc_printers
         copy_into_def sphinx_constants split: if_splits\<close>)
qed

lemma rc_null_canonical:
  assumes "rc_FromBytes b g = Ok (None, r)"
  shows "b = zeros (length b) \<and> r = None"
proof -
  have "CtIsZero b \<and> r = None"
    using assms by (auto simp: rc_FromBytes_def rc_parsers CtIsZero_iff rc_ids
        split: list.splits if_splits)
  then show ?thesis by (simp add: CtIsZero_eq_zeros)
qed

lemma parse_stop:
  "rc_FromBytes b g = Ok (None, None) \<Longrightarrow> parseCommands g n s acc b = Ok (n, s, acc)"
  "rc_FromBytes b g = Fail e \<Longrightarrow> parseCommands g n s acc b = Fail (ErrCommand e)"
  "rc_FromBytes b g = Panic \<Longrightarrow> parseCommands g n s acc b = Panic"
  by (subst parseCommands.simps, simp)+

lemma parse_Ok_read:
  assumes "parseCommands g n s acc b = Ok res"
  shows "\<exists>x r. rc_FromBytes b g = Ok (x, r)"
  using assms by (cases "rc_FromBytes b g") (auto simp: parse_stop)

lemma parse_step_Ok:
  assumes "rc_FromBytes b g = Ok (Some c, Some r)" "parseCommands g n s acc b = Ok res"
  shows "(is_NextNodeHop c \<longrightarrow> n = None) \<and> (is_SURBReply c \<longrightarrow> s = None) \<and>
    parseCommands g (if is_NextNodeHop c then Some (hop_ID c, hop_MAC c) else n)
      (if is_SURBReply c then Some (surb_ID c) else s) (acc @ [c]) r = Ok res"
  using assms(2) unfolding parse_step [OF assms(1)]
  by (cases n; cases c; simp split: if_split_asm)

lemma parse_canonical:
  assumes g: "NextNodeHopLength g = CommandTagLength + NodeIDLength + MACLength"
    and "parseCommands g n s acc b = Ok (n', s', cs)"
  shows "\<exists>ds k. cs = acc @ ds \<and> b = cmds_bytes ds @ zeros k \<and> (\<forall>c\<in>set ds. rc_wf c) \<and>
    n' = nextOf n ds \<and> s' = surbOf s ds \<and>
    seen_count n is_NextNodeHop ds \<le> 1 \<and> seen_count s is_SURBReply ds \<le> 1"
  using assms(2)
proof (induction "length b" arbitrary: b n s acc rule: less_induct)
  case less
  obtain x r where x: "rc_FromBytes b g = Ok (x, r)"
    using parse_Ok_read [OF less.prems] by blast
  show ?case
  proof (cases x)
    case None
    then have z: "b = zeros (length b)" "r = None" using rc_null_canonical x by auto
    then have "n' = n" "s' = s" "cs = acc"
      using less.prems x None by (simp_all add: parse_stop)
    with z show ?thesis
      by (intro exI [of _ "[]"] exI [of _ "length b"]) (simp add: seen_count_def)
  next
    case (Some c)
    with x rc_canonical [OF g] obtain r' where r': "r = Some r'" "b = rc_ToBytes c [] @ r'" "rc_wf c"
      by blast
    have x': "rc_FromBytes b g = Ok (Some c, Some r')" using x Some r' by simp
    have lt: "length r' < length b" using rc_FromBytes_progress [OF x'] .
    define n1 where "n1 = (if is_NextNodeHop c then Some (hop_ID c, hop_MAC c) else n)"
    define s1 where "s1 = (if is_SURBReply c then Some (surb_ID c) else s)"
    have p: "parseCommands g n1 s1 (acc @ [c]) r' = Ok (n', s', cs)"
      and once: "is_NextNodeHop c \<longrightarrow> n = None" "is_SURBReply c \<longrightarrow> s = None"
      using parse_step_Ok [OF x' less.prems] by (auto simp: n1_def s1_def)
    from less.hyps [OF lt p] obtain ds k where ds: "cs = acc @ c # ds" "r' = cmds_bytes ds @ zeros k"
      "\<forall>c\<in>set ds. rc_wf c" "n' = nextOf n1 ds" "s' = surbOf s1 ds"
      "seen_count n1 is_NextNodeHop ds \<le> 1" "seen_count s1 is_SURBReply ds \<le> 1"
      by auto
    have "nextOf n (c # ds) = nextOf n1 ds" "surbOf s (c # ds) = surbOf s1 ds"
      by (cases c; simp add: n1_def s1_def)+
    moreover have "seen_count n is_NextNodeHop (c # ds) \<le> 1" "seen_count s is_SURBReply (c # ds) \<le> 1"
      using ds(6,7) once by (auto simp: seen_count_def n1_def s1_def split: if_splits)
    ultimately show ?thesis
      using ds r' by (intro exI [of _ "c # ds"] exI [of _ k]) simp
  qed
qed

lemma parseCommands_no_panic:
  assumes g: "NextNodeHopLength g = CommandTagLength + NodeIDLength + MACLength"
  shows "parseCommands g n s acc b \<noteq> Panic"
proof (induction "length b" arbitrary: b n s acc rule: less_induct)
  case less
  show ?case
  proof (cases "rc_FromBytes b g")
    case (Ok y)
    obtain x r where y: "y = (x, r)" by (cases y)
    show ?thesis
    proof (cases x)
      case None
      with Ok y rc_null_canonical [of b g r] show ?thesis by (simp add: parse_stop)
    next
      case (Some c)
      with Ok y rc_canonical [OF g] obtain r' where
        x': "rc_FromBytes b g = Ok (Some c, Some r')" by blast
      show ?thesis
        using less [OF rc_FromBytes_progress [OF x']] unfolding parse_step [OF x'] by auto
    qed
  next
    case (Fail e)
    then show ?thesis by (simp add: parse_stop)
  next
    case Panic
    then show ?thesis
      using g by (auto simp: rc_FromBytes_def rc_parsers sphinx_constants split: list.splits if_splits)
  qed
qed

section \<open>Properties\<close>

text \<open>
  the loop that reads a hop's block accepts exactly canonical blocks: an accepted block is the
  serialization of the commands returned, in order, followed by zeros; the commands are well
  formed and at most one names a next hop and at most one is a SURB reply.
\<close>

theorem hop_block_canonical:
  assumes "NextNodeHopLength g = CommandTagLength + NodeIDLength + MACLength"
    and "parseCommands g None None [] b = Ok (nextNode, surb, cmds)"
  shows "\<exists>k. b = fold rc_ToBytes cmds [] @ zeros k \<and> (\<forall>c\<in>set cmds. rc_wf c) \<and>
    length (filter is_NextNodeHop cmds) \<le> 1 \<and> length (filter is_SURBReply cmds) \<le> 1 \<and>
    nextNode = nextOf None cmds \<and> surb = surbOf None cmds"
proof -
  obtain ds k where "cmds = [] @ ds" "b = cmds_bytes ds @ zeros k" "\<forall>c\<in>set ds. rc_wf c"
    "nextNode = nextOf None ds" "surb = surbOf None ds"
    "seen_count (None :: (bytes \<times> bytes) option) is_NextNodeHop ds \<le> 1"
    "seen_count (None :: bytes option) is_SURBReply ds \<le> 1"
    using parse_canonical [OF assms] by blast
  then show ?thesis by (auto simp: fold_rc_ToBytes seen_count_def)
qed

theorem hop_block_canonical_witness:
  "\<exists>k. [128, 0, 0, 0, 7, 0, 0] = fold rc_ToBytes [NodeDelay 7] [] @ zeros k \<and>
    (\<forall>c\<in>set [NodeDelay 7]. rc_wf c) \<and>
    length (filter is_NextNodeHop [NodeDelay 7]) \<le> 1 \<and> length (filter is_SURBReply [NodeDelay 7]) \<le> 1 \<and>
    (None :: (bytes \<times> bytes) option) = nextOf None [NodeDelay 7] \<and> (None :: bytes option) = surbOf None [NodeDelay 7]"
  by (rule hop_block_canonical [of "demo_geo\<lparr>NextNodeHopLength := 65\<rparr>"])
     (simp add: sphinx_constants, code_simp)

text \<open>
  conversely, the block of well-formed commands, with at most one next hop and one SURB reply,
  followed by any number of zeros, is accepted and gives back these commands; and whatever the block,
  the loop ends without a panic.
\<close>

theorem hop_block_read_back:
  assumes "NextNodeHopLength g = CommandTagLength + NodeIDLength + MACLength"
    and "\<forall>c\<in>set cmds. rc_wf c"
    and "length (filter is_NextNodeHop cmds) \<le> 1" "length (filter is_SURBReply cmds) \<le> 1"
  shows "parseCommands g None None [] (fold rc_ToBytes cmds [] @ zeros k)
      = Ok (nextOf None cmds, surbOf None cmds, cmds) \<and>
    parseCommands g None None [] b \<noteq> Panic"
  using parse_block [OF assms(1,2), of None None "[]" k] parseCommands_no_panic [OF assms(1)] assms(3,4)
  by (simp add: fold_rc_ToBytes seen_count_def)

theorem hop_block_read_back_witness:
  "parseCommands (demo_geo\<lparr>NextNodeHopLength := 65\<rparr>) None None []
      (fold rc_ToBytes [NodeDelay 7, SURBReply (zeros 16)] [] @ zeros 3)
      = Ok (nextOf None [NodeDelay 7, SURBReply (zeros 16)],
            surbOf None [NodeDelay 7, SURBReply (zeros 16)], [NodeDelay 7, SURBReply (zeros 16)]) \<and>
    parseCommands (demo_geo\<lparr>NextNodeHopLength := 65\<rparr>) None None [] [9] \<noteq> Panic"
  by (rule hop_block_read_back) (simp_all add: sphinx_constants)

end
