(* ===== verification/Sphinx_Header.thy ===== *)
theory Sphinx_Header
  imports Sphinx_Crypto Sphinx_Commands
begin

text \<open>
  The part of header creation that the two packet formats share: serialization of a hop's
  commands, key streams and filler, and the layered routing information
  (\<^verbatim>\<open>src/core/sphinx/sphinx.go\<close> \<^verbatim>\<open>commandsToBytes\<close>, \<^verbatim>\<open>createHeader\<close>, \<^verbatim>\<open>xorBytes\<close>; the same loops are in
  \<^verbatim>\<open>createKEMHeader\<close> of \<^verbatim>\<open>src/core/sphinx/kemsphinx.go\<close>).  The main lemma, \<open>peel_layer\<close>, says what a
  hop finds when it removes its layer.

  Loops over hop indices are recursions over the list of hops: the ascending loop over the key
  streams carries the previous filler, the descending loop that prepends blocks is evaluated
  after the recursive call on the later hops, so errors surface in the order of the code.
\<close>

section \<open>State and errors\<close>

datatype sphinx_error =
  ErrInvalidPath | ErrKeyPair | ErrEntropy
| ErrNextNodeHopCommand | ErrOversized | ErrCapacity
| ErrPayloadLength | ErrTruncated | ErrVersion | ErrGroupElement nike_error | ErrDecapsulate
| ErrMAC | ErrParse parse_error | errTruncatedPayload | errInvalidTag
| ErrTruncatedSURB | ErrSURBKeys

record ('pk, 'kpk) PathHop =
  ph_ID :: bytes
  ph_NIKEPublicKey :: "'pk option"
  ph_KEMPublicKey :: "'kpk option"
  ph_Commands :: "routing_command list"

type_synonym sprpKey = "bytes \<times> bytes"

definition v0AD :: bytes where "v0AD = [0, 0]"

text \<open>A callee whose error the caller turns into a panic.\<close>

fun must :: "('e, 'a) outcome \<Rightarrow> ('f, 'a) outcome" where
  "must (Ok x) = Ok x"
| "must _ = Panic"

definition xorBytes :: "bytes \<Rightarrow> bytes \<Rightarrow> ('e, bytes) outcome" where
  "xorBytes a b = (if length a \<noteq> length b then Panic else Ok (xor_list a b))"

section \<open>A hop's block\<close>

fun serializeCommands :: "routing_command list \<Rightarrow> bytes \<Rightarrow> (sphinx_error, bytes) outcome" where
  "serializeCommands [] b = Ok b"
| "serializeCommands (v # cmds) b =
     (if is_NextNodeHop v then Fail ErrNextNodeHopCommand
      else serializeCommands cmds (rc_ToBytes v b))"

definition commandsToBytes ::
    "geometry \<Rightarrow> routing_command list \<Rightarrow> bool \<Rightarrow> (sphinx_error, bytes) outcome" where
  "commandsToBytes g cmds isTerminal =
     obind (serializeCommands cmds []) (\<lambda>b.
       if length b > PerHopRoutingInfoLength g then Fail ErrOversized
       else if \<not> isTerminal \<and> PerHopRoutingInfoLength g - length b < NextNodeHopLength g
            then Fail ErrCapacity
       else Ok b)"

text \<open>
  The fragment of one hop: its commands, the command naming the next hop and its MAC unless the
  hop is the last, and zero padding.  \<open>next\<close> is the identifier of the next hop.
\<close>

definition riFragment ::
    "geometry \<Rightarrow> routing_command list \<Rightarrow> bytes option \<Rightarrow> bytes \<Rightarrow> (sphinx_error, bytes) outcome" where
  "riFragment g cmds nxt mac =
     obind (commandsToBytes g cmds (nxt = None)) (\<lambda>b.
       let b1 = (case nxt of None \<Rightarrow> b
                 | Some nid \<Rightarrow> NextNodeHop_ToBytes (copy_into (zeros NodeIDLength) nid)
                                (copy_into (zeros MACLength) mac) b)
       in Ok (b1 @ zeros (PerHopRoutingInfoLength g - length b1)))"

section \<open>Key streams and filler\<close>

definition hopKeyStream :: "sphinx_prims \<Rightarrow> geometry \<Rightarrow> 'sk PacketKeys \<Rightarrow> bytes" where
  "hopKeyStream P g k = KeyStream P (HeaderEncryption k) (HeaderEncryptionIV k)
     (RoutingInfoLength g + PerHopRoutingInfoLength g)"

fun riStreams ::
    "sphinx_prims \<Rightarrow> geometry \<Rightarrow> nat \<Rightarrow> bytes \<Rightarrow> 'sk PacketKeys list
      \<Rightarrow> (sphinx_error, (bytes \<times> bytes) list) outcome" where
  "riStreams P g i prevPad [] = Ok []"
| "riStreams P g i prevPad (k # ks) =
     (let keyStream = hopKeyStream P g k in
      if length keyStream < (i + 1) * PerHopRoutingInfoLength g then Panic
      else
        let ksLen = length keyStream - (i + 1) * PerHopRoutingInfoLength g;
            riKeyStream = take ksLen keyStream;
            pad0 = drop ksLen keyStream
        in obind (if i = 0 then Ok pad0
                  else if length pad0 < length prevPad then Panic
                  else obind (xorBytes (take (length prevPad) pad0) prevPad)
                         (\<lambda>x. Ok (x @ drop (length prevPad) pad0)))
             (\<lambda>pad. obind (riStreams P g (i + 1) pad ks) (\<lambda>r. Ok ((riKeyStream, pad) # r))))"

section \<open>Routing information\<close>

text \<open>What header creation knows of a hop when it builds the routing information.\<close>

record ('pk, 'kpk, 'sk) layer =
  ly_hop :: "('pk, 'kpk) PathHop"
  ly_keys :: "'sk PacketKeys"
  ly_elem :: bytes
  ly_riKeyStream :: bytes
  ly_riPadding :: bytes

definition mkLayers ::
    "('pk, 'kpk) PathHop list \<Rightarrow> 'sk PacketKeys list \<Rightarrow> bytes list \<Rightarrow> (bytes \<times> bytes) list
      \<Rightarrow> ('pk, 'kpk, 'sk) layer list" where
  "mkLayers path keys elems streams =
     map (\<lambda>(h, k, e, s, p). \<lparr>ly_hop = h, ly_keys = k, ly_elem = e, ly_riKeyStream = s, ly_riPadding = p\<rparr>)
       (zip path (zip keys (zip elems streams)))"

definition headerMAC :: "sphinx_prims \<Rightarrow> 'sk PacketKeys \<Rightarrow> bytes \<Rightarrow> bytes \<Rightarrow> bytes \<Rightarrow> bytes" where
  "headerMAC P k elem ri pad = NewMAC P (HeaderMAC k) (v0AD @ elem @ ri @ pad)"

fun hd_option :: "'a list \<Rightarrow> 'a option" where
  "hd_option [] = None"
| "hd_option (x # xs) = Some x"

text \<open>
  The descending loop.  \<open>frag\<close> builds the fragment of a hop from the next layer (if any) and the
  MAC computed for it; the result is the routing information and MAC of the first hop of the
  list, whose predecessor's filler is \<open>prevPad\<close>.
\<close>

fun routingBlocks ::
    "sphinx_prims \<Rightarrow>
     (('pk, 'kpk, 'sk) layer \<Rightarrow> ('pk, 'kpk, 'sk) layer option \<Rightarrow> bytes \<Rightarrow> (sphinx_error, bytes) outcome)
      \<Rightarrow> bytes \<Rightarrow> bytes \<Rightarrow> ('pk, 'kpk, 'sk) layer list \<Rightarrow> (sphinx_error, bytes \<times> bytes) outcome" where
  "routingBlocks P frag skipped prevPad [] = Ok (skipped, [])"
| "routingBlocks P frag skipped prevPad (l # ls) =
     obind (routingBlocks P frag skipped (ly_riPadding l) ls) (\<lambda>(routingInfo, mac).
     obind (frag l (hd_option ls) mac) (\<lambda>fragment.
     obind (xorBytes (fragment @ routingInfo) (ly_riKeyStream l)) (\<lambda>routingInfo'.
     Ok (routingInfo', headerMAC P (ly_keys l) (ly_elem l) routingInfo' prevPad))))"

text \<open>The random block that stands for the hops a short path does not use.\<close>

definition skippedInfo ::
    "geometry \<Rightarrow> (nat \<Rightarrow> bytes option) \<Rightarrow> nat \<Rightarrow> (sphinx_error, bytes) outcome" where
  "skippedInfo g randReader nrHops =
     (let skippedHops = NrHops g - nrHops
      in if skippedHops > 0 then
           (case randReader (skippedHops * PerHopRoutingInfoLength g) of
              None \<Rightarrow> Fail ErrEntropy | Some b \<Rightarrow> Ok b)
         else Ok [])"

definition sprpKeys :: "'sk PacketKeys list \<Rightarrow> sprpKey list" where
  "sprpKeys keys = map (\<lambda>k. (PayloadEncryption k, HeaderEncryptionIV k)) keys"

section \<open>Payload\<close>

fun encryptPayload :: "sphinx_prims \<Rightarrow> sprpKey list \<Rightarrow> bytes \<Rightarrow> bytes" where
  "encryptPayload P [] b = b"
| "encryptPayload P ((k, iv) # ks) b = SPRPEncrypt P k iv (encryptPayload P ks b)"

text \<open>
  Assembling a packet: header, zero tag (a slice of a block of \<^verbatim>\<open>PerHopRoutingInfoLength\<close> zeros),
  payload, encrypted for the last hop first.
\<close>

definition assemblePacket ::
    "sphinx_prims \<Rightarrow> geometry \<Rightarrow> bytes \<Rightarrow> sprpKey list \<Rightarrow> bytes \<Rightarrow> (sphinx_error, bytes) outcome" where
  "assemblePacket P g hdr ks payload =
     (if PerHopRoutingInfoLength g < PayloadTagLength g then Panic
      else let b = zeros (PayloadTagLength g) @ payload
           in Ok (hdr @ copy_into b (encryptPayload P ks b)))"

section \<open>Processing\<close>

record unwrapped =
  uw_payload :: "bytes option"
  uw_replayTag :: bytes
  uw_cmds :: "routing_command list"
  uw_pkt :: bytes

text \<open>An error is returned together with the replay tag once that is known.\<close>

type_synonym unwrap_result = "(sphinx_error \<times> bytes option, unwrapped) outcome"

definition decryptPayload :: "sphinx_prims \<Rightarrow> 'sk PacketKeys \<Rightarrow> bytes \<Rightarrow> ('e, bytes) outcome" where
  "decryptPayload P keys payload =
     (if length payload > 0
      then SPRPDecrypt P (PayloadEncryption keys) (HeaderEncryptionIV keys) payload
      else Ok payload)"

text \<open>The last hop: check the tag unless the packet is a SURB reply.\<close>

definition finishPayload ::
    "geometry \<Rightarrow> bytes \<Rightarrow> bytes option \<Rightarrow> routing_command list \<Rightarrow> bytes \<Rightarrow> bytes \<Rightarrow> unwrap_result" where
  "finishPayload g replayTag surbReply cmds pkt payload =
     (if length payload < PayloadTagLength g then Fail (errTruncatedPayload, Some replayTag)
      else if surbReply = None then
        (if \<not> CtIsZero (take (PayloadTagLength g) payload) then Fail (errInvalidTag, Some replayTag)
         else Ok \<lparr>uw_payload = Some (drop (PayloadTagLength g) payload), uw_replayTag = replayTag,
                  uw_cmds = cmds, uw_pkt = pkt\<rparr>)
      else Ok \<lparr>uw_payload = Some payload, uw_replayTag = replayTag, uw_cmds = cmds, uw_pkt = pkt\<rparr>)"

text \<open>The packet handed to the next hop: element, routing information, MAC and payload replaced.\<close>

definition forwardPacket ::
    "nat \<Rightarrow> nat \<Rightarrow> nat \<Rightarrow> bytes \<Rightarrow> bytes \<Rightarrow> bytes \<Rightarrow> bytes \<Rightarrow> bytes \<Rightarrow> bytes" where
  "forwardPacket riOff macOff payloadOff pkt elem newRoutingInfo mac payload =
     take 2 pkt @ copy_into (slice 2 riOff pkt) elem
       @ copy_into (slice riOff macOff pkt) newRoutingInfo
       @ copy_into (slice macOff payloadOff pkt) mac
       @ copy_into (drop payloadOff pkt) payload"

section \<open>Lemmas: blocks\<close>

lemma serializeCommands_Ok_iff:
  "serializeCommands cs b = Ok r \<longleftrightarrow> (\<forall>c\<in>set cs. \<not> is_NextNodeHop c) \<and> r = b @ cmds_bytes cs"
proof (induction cs arbitrary: b)
  case (Cons c cs)
  show ?case
    by (simp add: Cons.IH) (metis append.assoc rc_ToBytes_append)
qed auto

lemma serializeCommands_no_panic: "serializeCommands cs b \<noteq> Panic"
  by (induction cs b rule: serializeCommands.induct) auto

lemma commandsToBytes_Ok_iff:
  "commandsToBytes g cs t = Ok b \<longleftrightarrow>
     (\<forall>c\<in>set cs. \<not> is_NextNodeHop c) \<and> b = cmds_bytes cs \<and>
     length (cmds_bytes cs) \<le> PerHopRoutingInfoLength g \<and>
     (t \<or> length (cmds_bytes cs) + NextNodeHopLength g \<le> PerHopRoutingInfoLength g)"
  by (auto simp: commandsToBytes_def obind_Ok_iff serializeCommands_Ok_iff split: if_splits)

lemma commandsToBytes_no_panic: "commandsToBytes g cs t \<noteq> Panic"
  by (auto simp: commandsToBytes_def obind_Panic_iff serializeCommands_no_panic)

text \<open>The command that header creation appends for a hop that is not the last.\<close>

definition nextCmd :: "bytes option \<Rightarrow> bytes \<Rightarrow> routing_command list" where
  "nextCmd nxt mac = (case nxt of None \<Rightarrow> [] | Some nid \<Rightarrow>
     [NextNodeHop (copy_into (zeros NodeIDLength) nid) (copy_into (zeros MACLength) mac)])"

definition cmds_fit :: "geometry \<Rightarrow> nat \<Rightarrow> routing_command list \<Rightarrow> bool \<Rightarrow> bool" where
  "cmds_fit g reserved cs t \<longleftrightarrow>
     (\<forall>c\<in>set cs. rc_wf c \<and> \<not> is_NextNodeHop c) \<and> length (filter is_SURBReply cs) \<le> 1 \<and>
     length (cmds_bytes cs) + (if t then 0 else NextNodeHopLength g) + reserved
       \<le> PerHopRoutingInfoLength g"

lemma riFragment_eq:
  assumes "NextNodeHopLength g = CommandTagLength + NodeIDLength + MACLength"
    and "commandsToBytes g cs (nxt = None) = Ok b"
  shows "\<exists>k. riFragment g cs nxt mac = Ok (cmds_bytes (cs @ nextCmd nxt mac) @ zeros k) \<and>
    length (cmds_bytes (cs @ nextCmd nxt mac)) + k = PerHopRoutingInfoLength g"
proof -
  have b: "b = cmds_bytes cs" "length b \<le> PerHopRoutingInfoLength g"
    "nxt \<noteq> None \<longrightarrow> length b + 65 \<le> PerHopRoutingInfoLength g"
    using assms by (auto simp: commandsToBytes_Ok_iff sphinx_constants)
  have l: "length (copy_into (zeros NodeIDLength) nid) = 32"
    "length (copy_into (zeros MACLength) mac) = 32" for nid mac
    by (simp_all add: sphinx_constants)
  show ?thesis
    using b assms(2) l
    by (intro exI [of _ "PerHopRoutingInfoLength g - length (cmds_bytes (cs @ nextCmd nxt mac))"])
       (auto simp: riFragment_def nextCmd_def rc_printers Let_def split: option.splits)
qed

lemma riFragment_length:
  assumes "NextNodeHopLength g = CommandTagLength + NodeIDLength + MACLength"
    and "riFragment g cs nxt mac = Ok f"
  shows "length f = PerHopRoutingInfoLength g"
proof -
  obtain b where "commandsToBytes g cs (nxt = None) = Ok b"
    using assms(2) by (auto simp: riFragment_def obind_Ok_iff)
  with riFragment_eq [OF assms(1) this, of mac] assms(2) show ?thesis by auto
qed

lemma nextCmd_wf: "\<forall>c\<in>set (nextCmd nxt mac). rc_wf c"
  by (cases nxt) (simp_all add: nextCmd_def)

text \<open>Parsing the block of a hop gives its commands and the next-hop command.\<close>

lemma parse_fragment:
  assumes g: "NextNodeHopLength g = CommandTagLength + NodeIDLength + MACLength"
    and c: "cmds_fit g r cs t"
  shows "parseCommands g None None [] (cmds_bytes (cs @ nextCmd nxt mac) @ zeros k) =
    Ok (map_option (\<lambda>nid. (copy_into (zeros NodeIDLength) nid, copy_into (zeros MACLength) mac)) nxt,
        surbOf None cs, cs @ nextCmd nxt mac)"
proof -
  have nn: "filter is_NextNodeHop cs = []" "\<forall>c\<in>set cs. \<not> is_NextNodeHop c"
    using c by (auto simp: cmds_fit_def filter_empty_conv)
  have "parseCommands g None None [] (cmds_bytes (cs @ nextCmd nxt mac) @ zeros k) =
    Ok (nextOf None (cs @ nextCmd nxt mac), surbOf None (cs @ nextCmd nxt mac), [] @ cs @ nextCmd nxt mac)"
    by (rule parse_block [OF g])
       (use c nn nextCmd_wf [of nxt mac] in \<open>auto simp: cmds_fit_def seen_count_def nextCmd_def
          split: option.splits\<close>)
  then show ?thesis
    by (simp add: nextOf_append surbOf_append no_next [OF nn(2)] nextCmd_def split: option.splits)
qed

section \<open>Lemmas: layers\<close>

text \<open>The filler after hop \<open>i\<close>: the previous filler, extended by zeros, under the tail of the key stream.\<close>

definition padStep :: "sphinx_prims \<Rightarrow> geometry \<Rightarrow> nat \<Rightarrow> bytes \<Rightarrow> 'sk PacketKeys \<Rightarrow> bytes" where
  "padStep P g i prev k = xor_list (prev @ zeros (PerHopRoutingInfoLength g))
     (drop (RoutingInfoLength g - i * PerHopRoutingInfoLength g) (hopKeyStream P g k))"

lemma length_hopKeyStream:
  "prims_ok P \<Longrightarrow> length (hopKeyStream P g k) = RoutingInfoLength g + PerHopRoutingInfoLength g"
  by (simp add: hopKeyStream_def length_KeyStream)

lemma hop_room:
  assumes "RoutingInfoLength g = PerHopRoutingInfoLength g * NrHops g" "i < NrHops g"
  shows "(i + 1) * PerHopRoutingInfoLength g \<le> RoutingInfoLength g"
    "RoutingInfoLength g - i * PerHopRoutingInfoLength g + i * PerHopRoutingInfoLength g = RoutingInfoLength g"
proof -
  have "(i + 1) * PerHopRoutingInfoLength g \<le> NrHops g * PerHopRoutingInfoLength g"
    using assms(2) by (intro mult_le_mono1) simp
  then show "(i + 1) * PerHopRoutingInfoLength g \<le> RoutingInfoLength g"
    using assms(1) by (simp add: mult.commute)
  then show "RoutingInfoLength g - i * PerHopRoutingInfoLength g + i * PerHopRoutingInfoLength g
      = RoutingInfoLength g"
    by simp
qed

lemma length_padStep:
  assumes "prims_ok P" "RoutingInfoLength g = PerHopRoutingInfoLength g * NrHops g" "i < NrHops g"
    and "length prev = i * PerHopRoutingInfoLength g"
  shows "length (padStep P g i prev k) = (i + 1) * PerHopRoutingInfoLength g"
  using hop_room [OF assms(2,3)] assms(1,4)
  by (simp add: padStep_def length_hopKeyStream)

lemma riStreams_Cons:
  assumes P: "prims_ok P" and RI: "RoutingInfoLength g = PerHopRoutingInfoLength g * NrHops g"
    and i: "i < NrHops g" and prev: "length prev = i * PerHopRoutingInfoLength g"
  shows "riStreams P g i prev (k # ks) =
    obind (riStreams P g (i + 1) (padStep P g i prev k) ks)
      (\<lambda>r. Ok ((take (RoutingInfoLength g - i * PerHopRoutingInfoLength g) (hopKeyStream P g k),
               padStep P g i prev k) # r))"
proof -
  let ?ph = "PerHopRoutingInfoLength g" and ?ks = "hopKeyStream P g k"
  define n where "n = RoutingInfoLength g - i * ?ph"
  define d where "d = drop n ?ks"
  have room: "(i + 1) * ?ph \<le> RoutingInfoLength g" "n + i * ?ph = RoutingInfoLength g"
    using hop_room [OF RI i] by (simp_all add: n_def)
  have len: "length ?ks = RoutingInfoLength g + ?ph" using length_hopKeyStream [OF P] .
  have ks: "length ?ks - (i + 1) * ?ph = n" "\<not> length ?ks < (i + 1) * ?ph"
    using room len by auto
  have ld: "length d = i * ?ph + ?ph" using room len by (simp add: d_def)
  have "xor_list (take (length prev) d) prev @ drop (length prev) d = padStep P g i prev k"
  proof -
    have "padStep P g i prev k = xor_list (prev @ zeros ?ph) (take (length prev) d @ drop (length prev) d)"
      by (simp only: padStep_def d_def n_def append_take_drop_id)
    also have "\<dots> = xor_list prev (take (length prev) d) @ xor_list (zeros ?ph) (drop (length prev) d)"
      by (rule xor_list_append) (simp add: ld prev)
    also have "xor_list (zeros ?ph) (drop (length prev) d) = drop (length prev) d"
      by (rule xor_list_zeros) (simp add: ld prev)
    finally show ?thesis by (simp add: xor_list_commute)
  qed
  then have "(if i = 0 then Ok d else if length d < length prev then Panic
      else obind (xorBytes (take (length prev) d) prev) (\<lambda>x. Ok (x @ drop (length prev) d)))
      = (Ok (padStep P g i prev k) :: (sphinx_error, bytes) outcome)"
    using ld prev by (auto simp: xorBytes_def)
  then show ?thesis
    by (simp only: riStreams.simps Let_def ks if_False d_def [symmetric] obind.simps n_def [symmetric])
qed

text \<open>Layers whose key streams and fillers are the ones of the loop, from hop \<open>i\<close> on.\<close>

fun layers_ok :: "sphinx_prims \<Rightarrow> geometry \<Rightarrow> nat \<Rightarrow> bytes \<Rightarrow> ('pk, 'kpk, 'sk) layer list \<Rightarrow> bool" where
  "layers_ok P g i prev [] \<longleftrightarrow> True"
| "layers_ok P g i prev (l # ls) \<longleftrightarrow>
     ly_riKeyStream l = take (RoutingInfoLength g - i * PerHopRoutingInfoLength g)
       (hopKeyStream P g (ly_keys l)) \<and>
     ly_riPadding l = padStep P g i prev (ly_keys l) \<and>
     layers_ok P g (i + 1) (ly_riPadding l) ls"

lemma mkLayers_Cons:
  "mkLayers (h # path) (k # keys) (e # elems) ((s, p) # ss) =
     \<lparr>ly_hop = h, ly_keys = k, ly_elem = e, ly_riKeyStream = s, ly_riPadding = p\<rparr>
       # mkLayers path keys elems ss"
  by (simp add: mkLayers_def)

lemma mkLayers_fields:
  assumes "length path = length keys" "length keys = length elems" "length elems = length ss"
  shows "map ly_hop (mkLayers path keys elems ss) = path"
    "map ly_keys (mkLayers path keys elems ss) = keys"
    "map ly_elem (mkLayers path keys elems ss) = elems"
    "length (mkLayers path keys elems ss) = length path"
  using assms
  by (induction path keys elems ss rule: list_induct4) (auto simp: mkLayers_Cons mkLayers_def)

lemma riStreams_layers:
  assumes P: "prims_ok P" and RI: "RoutingInfoLength g = PerHopRoutingInfoLength g * NrHops g"
    and "length path = length keys" "length keys = length elems"
    and "i + length path \<le> NrHops g" "length prev = i * PerHopRoutingInfoLength g"
  shows "\<exists>ss. riStreams P g i prev keys = Ok ss \<and> length ss = length path \<and>
    layers_ok P g i prev (mkLayers path keys elems ss)"
  using assms(3-6)
proof (induction path keys elems arbitrary: i prev rule: list_induct3)
  case Nil
  then show ?case by (simp add: mkLayers_def)
next
  case (Cons h path k keys e elems)
  define pad where "pad = padStep P g i prev k"
  have "length pad = (i + 1) * PerHopRoutingInfoLength g"
    using length_padStep [OF P RI _ Cons.prems(2)] Cons.prems(1) by (simp add: pad_def)
  with Cons.IH [of "i + 1" pad] Cons.prems(1) obtain ss where
    "riStreams P g (i + 1) pad keys = Ok ss" "length ss = length path"
    "layers_ok P g (i + 1) pad (mkLayers path keys elems ss)" by auto
  with riStreams_Cons [OF P RI _ Cons.prems(2), of k keys] Cons.prems(1) show ?case
    by (simp add: pad_def mkLayers_Cons)
qed

text \<open>A condition on every layer and its successor.\<close>

fun fits_all :: "('l \<Rightarrow> 'l option \<Rightarrow> bool) \<Rightarrow> 'l list \<Rightarrow> bool" where
  "fits_all fit [] \<longleftrightarrow> True"
| "fits_all fit (l # ls) \<longleftrightarrow> fit l (hd_option ls) \<and> fits_all fit ls"

lemma hops_left: "i \<le> n \<Longrightarrow> (n - i) * p + i * p = p * (n::nat)"
  by (metis add_mult_distrib le_add_diff_inverse2 mult.commute)

lemma hops_left_Suc: "i < n \<Longrightarrow> p + (n - Suc i) * p = (n - i) * (p::nat)"
  by (simp flip: mult_Suc add: Suc_diff_Suc)

section \<open>The interface of a block builder\<close>

text \<open>
  What header creation assumes of the function that builds a hop's block: its length, and that it
  succeeds on commands that fit.  \<open>good\<close> is the condition on the geometry.
\<close>

locale block_builder =
  fixes frag :: "geometry \<Rightarrow> ('pk, 'kpk, 'sk) layer \<Rightarrow> ('pk, 'kpk, 'sk) layer option \<Rightarrow> bytes
      \<Rightarrow> (sphinx_error, bytes) outcome"
    and good :: "geometry \<Rightarrow> bool"
    and fits :: "geometry \<Rightarrow> ('pk, 'kpk, 'sk) layer \<Rightarrow> ('pk, 'kpk, 'sk) layer option \<Rightarrow> bool"
  assumes frag_length: "good g \<Longrightarrow> frag g l nx mac = Ok f \<Longrightarrow> length f = PerHopRoutingInfoLength g"
    and frag_total: "good g \<Longrightarrow> fits g l nx \<Longrightarrow> \<exists>f. frag g l nx mac = Ok f"
begin

lemma blocks_length:
  assumes "prims_ok P" "good g" and RI: "RoutingInfoLength g = PerHopRoutingInfoLength g * NrHops g"
    and "layers_ok P g i prev ls" "i + length ls \<le> NrHops g"
    and "length skipped = (NrHops g - (i + length ls)) * PerHopRoutingInfoLength g"
    and "routingBlocks P (frag g) skipped prev ls = Ok (ri, mac)"
  shows "length ri = (NrHops g - i) * PerHopRoutingInfoLength g"
  using assms(4-7)
proof (induction ls arbitrary: i prev ri mac)
  case (Cons l ls)
  obtain ri' mac' f where r: "routingBlocks P (frag g) skipped (ly_riPadding l) ls = Ok (ri', mac')"
    "frag g l (hd_option ls) mac' = Ok f" "length (f @ ri') = length (ly_riKeyStream l)"
    "ri = xor_list (f @ ri') (ly_riKeyStream l)"
    using Cons.prems(4) by (auto simp: obind_Ok_iff xorBytes_def split: if_splits)
  have "length ri' = (NrHops g - (i + 1)) * PerHopRoutingInfoLength g"
    by (rule Cons.IH [OF _ _ _ r(1)]) (use Cons.prems in auto)
  moreover have "length f = PerHopRoutingInfoLength g" using frag_length assms(2) r(2) by blast
  ultimately show ?case
    using r hops_left_Suc [of i "NrHops g" "PerHopRoutingInfoLength g"] Cons.prems(2) by simp
qed simp

lemma blocks_total:
  assumes P: "prims_ok P" and good: "good g"
    and RI: "RoutingInfoLength g = PerHopRoutingInfoLength g * NrHops g"
    and "layers_ok P g i prev ls" "i + length ls \<le> NrHops g"
    and skipped: "length skipped = (NrHops g - (i + length ls)) * PerHopRoutingInfoLength g"
    and "fits_all (fits g) ls"
  shows "\<exists>ri mac. routingBlocks P (frag g) skipped prev ls = Ok (ri, mac)"
  using assms(4-7)
proof (induction ls arbitrary: i prev)
  case (Cons l ls)
  let ?ph = "PerHopRoutingInfoLength g"
  obtain ri mac where r: "routingBlocks P (frag g) skipped (ly_riPadding l) ls = Ok (ri, mac)"
    using Cons.IH [of "i + 1" "ly_riPadding l"] Cons.prems by auto
  obtain f where f: "frag g l (hd_option ls) mac = Ok f" "length f = ?ph"
    using frag_total [OF good, of l "hd_option ls"] frag_length [OF good] Cons.prems(4) by fastforce
  have "length ri = (NrHops g - (i + 1)) * ?ph"
    by (rule blocks_length [OF P good RI _ _ _ r]) (use Cons.prems in auto)
  moreover have "length (ly_riKeyStream l) = (NrHops g - i) * ?ph"
    using Cons.prems(1,2) length_hopKeyStream [OF P, of g "ly_keys l"] RI
      hops_left [of i "NrHops g" ?ph] by auto
  ultimately have "length (f @ ri) = length (ly_riKeyStream l)"
    using f hops_left_Suc [of i "NrHops g" ?ph] Cons.prems(2) by simp
  with r f show ?case by (simp add: xorBytes_def)
qed simp

text \<open>
  Removing one layer: the hop's routing information, its filler and a block of zeros, under the
  hop's key stream, are its block, the routing information of the rest and the next filler.
\<close>

lemma peel_layer:
  assumes P: "prims_ok P" and good: "good g"
    and RI: "RoutingInfoLength g = PerHopRoutingInfoLength g * NrHops g"
    and lo: "layers_ok P g i prev (l # ls)" and n: "i + length (l # ls) \<le> NrHops g"
    and prev: "length prev = i * PerHopRoutingInfoLength g"
    and skipped: "length skipped = (NrHops g - (i + length (l # ls))) * PerHopRoutingInfoLength g"
    and rb: "routingBlocks P (frag g) skipped prev (l # ls) = Ok (ri, mac)"
  shows "\<exists>ri' mac' f. routingBlocks P (frag g) skipped (ly_riPadding l) ls = Ok (ri', mac') \<and>
    frag g l (hd_option ls) mac' = Ok f \<and> length f = PerHopRoutingInfoLength g \<and>
    mac = headerMAC P (ly_keys l) (ly_elem l) ri prev \<and>
    length ri + length prev = RoutingInfoLength g \<and>
    length ri' + length (ly_riPadding l) = RoutingInfoLength g \<and>
    XORKeyStream P (HeaderEncryption (ly_keys l)) (HeaderEncryptionIV (ly_keys l))
      (ri @ prev @ zeros (PerHopRoutingInfoLength g)) = f @ ri' @ ly_riPadding l"
proof -
  let ?ph = "PerHopRoutingInfoLength g" and ?ks = "hopKeyStream P g (ly_keys l)"
  obtain ri' mac' f where r: "routingBlocks P (frag g) skipped (ly_riPadding l) ls = Ok (ri', mac')"
    "frag g l (hd_option ls) mac' = Ok f" and len: "length (f @ ri') = length (ly_riKeyStream l)"
    and ri: "ri = xor_list (f @ ri') (ly_riKeyStream l)"
    and mac: "mac = headerMAC P (ly_keys l) (ly_elem l) ri prev"
    using rb by (auto simp: obind_Ok_iff xorBytes_def split: if_splits)
  have lri: "length ri = (NrHops g - i) * ?ph"
    using blocks_length [OF P good RI lo n skipped rb] .
  then have a: "length ri + length prev = RoutingInfoLength g"
    using hops_left [of i "NrHops g" ?ph] n prev RI by simp
  have "length ri' = (NrHops g - (i + 1)) * ?ph"
    by (rule blocks_length [OF P good RI _ _ _ r(1)]) (use lo n skipped in auto)
  moreover have "length (ly_riPadding l) = (i + 1) * ?ph"
    using lo length_padStep [OF P RI _ prev] n by simp
  ultimately have b: "length ri' + length (ly_riPadding l) = RoutingInfoLength g"
    using hops_left [of "i + 1" "NrHops g" ?ph] n RI by simp
  let ?n = "RoutingInfoLength g - i * ?ph"
  have s: "ly_riKeyStream l = take ?n ?ks" "ly_riPadding l = xor_list (prev @ zeros ?ph) (drop ?n ?ks)"
    using lo by (simp_all add: padStep_def)
  have "length (ri @ prev @ zeros ?ph) = RoutingInfoLength g + ?ph" using a by simp
  then have "XORKeyStream P (HeaderEncryption (ly_keys l)) (HeaderEncryptionIV (ly_keys l))
      (ri @ prev @ zeros ?ph) = xor_list (ri @ prev @ zeros ?ph) (take ?n ?ks @ drop ?n ?ks)"
    by (simp only: XORKeyStream_KeyStream [OF P] hopKeyStream_def append_take_drop_id)
  also have "\<dots> = xor_list ri (take ?n ?ks) @ xor_list (prev @ zeros ?ph) (drop ?n ?ks)"
    by (rule xor_list_append) (use len ri s in simp)
  also have "\<dots> = f @ ri' @ ly_riPadding l"
    using len by (simp add: ri s xor_list_cancel)
  finally show ?thesis
    using r mac a b frag_length [OF good r(2)] by blast
qed

end

text \<open>
  Processing assumes moreover that the hop reads its own commands from the block; \<open>cmdBuf\<close> is the
  part of the block that holds them.
\<close>

locale hop_block = block_builder +
  fixes cmdBuf :: "geometry \<Rightarrow> bytes \<Rightarrow> bytes"
  assumes frag_parse: "good g \<Longrightarrow> fits g l nx \<Longrightarrow> frag g l nx mac = Ok f \<Longrightarrow>
      parseCommands g None None [] (cmdBuf g f) =
        Ok (map_option (\<lambda>l'. (copy_into (zeros NodeIDLength) (ph_ID (ly_hop l')),
                             copy_into (zeros MACLength) mac)) nx,
            surbOf None (ph_Commands (ly_hop l)),
            ph_Commands (ly_hop l) @ nextCmd (map_option (\<lambda>l'. ph_ID (ly_hop l')) nx) mac)"

section \<open>A packet on its path\<close>

text \<open>
  The packet visits hops with the given private keys in turn; each processes it with \<open>unwrap\<close> and
  passes on the packet it produced.
\<close>

fun relay :: "('s \<Rightarrow> bytes \<Rightarrow> unwrap_result) \<Rightarrow> 's list \<Rightarrow> bytes
    \<Rightarrow> (sphinx_error \<times> bytes option, unwrapped list) outcome" where
  "relay unwrap [] pkt = Ok []"
| "relay unwrap (s # ss) pkt =
     obind (unwrap s pkt) (\<lambda>u. obind (relay unwrap ss (uw_pkt u)) (\<lambda>r. Ok (u # r)))"

text \<open>
  What the hops of \<open>path\<close> see: each but the last gets its commands, the identifier of its successor
  and no payload, and a packet of unchanged length to forward; the last gets its commands and the
  payload.
\<close>

fun delivered :: "nat \<Rightarrow> ('pk, 'kpk) PathHop list \<Rightarrow> bytes \<Rightarrow> unwrapped list \<Rightarrow> bool" where
  "delivered n [h] payload [u] \<longleftrightarrow> uw_cmds u = ph_Commands h \<and> uw_payload u = Some payload"
| "delivered n (h # h' # hs) payload (u # us) \<longleftrightarrow>
     (\<exists>mac. uw_cmds u = ph_Commands h @ [NextNodeHop (ph_ID h') mac]) \<and> uw_payload u = None \<and>
     length (uw_pkt u) = n \<and> delivered n (h' # hs) payload us"
| "delivered n _ payload _ \<longleftrightarrow> False"

text \<open>The payload after the hops with these keys have decrypted it.\<close>

fun peelPayload :: "sphinx_prims \<Rightarrow> sprpKey list \<Rightarrow> bytes \<Rightarrow> (sphinx_error, bytes) outcome" where
  "peelPayload P [] b = Ok b"
| "peelPayload P ((k, iv) # ks) b = obind (SPRPDecrypt P k iv b) (peelPayload P ks)"

lemma peelPayload_total:
  "prims_ok P \<Longrightarrow> \<exists>m. peelPayload P ks b = Ok m \<and> length m = length b"
proof (induction ks arbitrary: b)
  case (Cons k ks)
  obtain m where "SPRPDecrypt P (fst k) (snd k) b = (Ok m :: (sphinx_error, bytes) outcome)"
    "length m = length b"
    using SPRPDecrypt_total [OF Cons.prems, of "fst k" "snd k" b] by blast
  with Cons.IH [OF Cons.prems, of m] show ?case by (cases k) simp
qed simp

lemma length_encryptPayload: "prims_ok P \<Longrightarrow> length (encryptPayload P ks b) = length b"
  by (induction P ks b rule: encryptPayload.induct) (auto simp: length_SPRPEncrypt)

lemma peel_encrypt: "prims_ok P \<Longrightarrow> peelPayload P ks (encryptPayload P ks b) = Ok b"
  by (induction P ks b rule: encryptPayload.induct) (auto simp: SPRPDecrypt_Encrypt)

lemma assemblePacket_eq:
  assumes "prims_ok P" "PayloadTagLength g \<le> PerHopRoutingInfoLength g"
  shows "assemblePacket P g hdr ks payload
    = Ok (hdr @ encryptPayload P ks (zeros (PayloadTagLength g) @ payload))"
  using assms by (simp add: assemblePacket_def Let_def copy_into_same length_encryptPayload)

lemma forwardPacket_eq:
  assumes "length ad = 2" "length e = n" "length r = m" "length c = MACLength"
    and "length e' = n" "length r' = m" "length c' = MACLength" "length b' = length b"
  shows "forwardPacket (2 + n) (2 + n + m) (2 + n + m + MACLength) (ad @ e @ r @ c @ b) e' r' c' b'
    = ad @ e' @ r' @ c' @ b'"
  using assms by (simp add: forwardPacket_def slice_def copy_into_same)

lemma decryptPayload_nonempty:
  "b \<noteq> [] \<Longrightarrow> decryptPayload P k b = SPRPDecrypt P (PayloadEncryption k) (HeaderEncryptionIV k) b"
  by (simp add: decryptPayload_def)

definition finalPayload :: "geometry \<Rightarrow> routing_command list \<Rightarrow> bytes \<Rightarrow> bytes" where
  "finalPayload g cs b = (if surbOf None cs = None then drop (PayloadTagLength g) b else b)"

lemma finishPayload_ok:
  assumes "PayloadTagLength g \<le> length b"
    and "surbOf None cs = None \<longrightarrow> CtIsZero (take (PayloadTagLength g) b)"
  shows "finishPayload g tag (surbOf None cs) cmds pkt b =
    Ok \<lparr>uw_payload = Some (finalPayload g cs b), uw_replayTag = tag, uw_cmds = cmds, uw_pkt = pkt\<rparr>"
  using assms by (simp add: finishPayload_def finalPayload_def)

lemma routingBlocks_mac:
  assumes "prims_ok P" "routingBlocks P frag skipped prev (l # ls) = Ok (ri, mac)"
  shows "length mac = MACLength"
  using assms(2) by (auto simp: obind_Ok_iff headerMAC_def length_NewMAC [OF assms(1)])

lemma nextCmd_exact:
  "length nid = NodeIDLength \<Longrightarrow> length mac = MACLength \<Longrightarrow> nextCmd (Some nid) mac = [NextNodeHop nid mac]"
  by (simp add: nextCmd_def copy_into_same)

text \<open>The payload at one hop, and what is left for the later hops.\<close>

lemma peel_hop:
  assumes P: "prims_ok P" and "b \<noteq> []"
    and "peelPayload P (sprpKeys (k # ks)) b = Ok raw"
  shows "\<exists>b'. decryptPayload P k b = Ok b' \<and> peelPayload P (sprpKeys ks) b' = Ok raw \<and> length b' = length b"
proof -
  obtain b' where d: "SPRPDecrypt P (PayloadEncryption k) (HeaderEncryptionIV k) b = (Ok b' :: (sphinx_error, bytes) outcome)"
    and l: "length b' = length b"
    using SPRPDecrypt_total [OF P] by blast
  have "peelPayload P (sprpKeys ks) b' = Ok raw"
    using assms(3) d by (simp add: sprpKeys_def)
  moreover have "decryptPayload P k b = Ok b'"
    using d assms(2) by (simp add: decryptPayload_nonempty SPRPDecrypt_def split: option.splits)
  ultimately show ?thesis using l by blast
qed

section \<open>Well-formed paths\<close>

text \<open>
  Conditions on a path that do not depend on the key exchange; \<open>reserved\<close> bytes of each block are not
  available to commands.
\<close>

definition path_ok :: "geometry \<Rightarrow> nat \<Rightarrow> ('pk, 'kpk) PathHop list \<Rightarrow> bool" where
  "path_ok g reserved path \<longleftrightarrow> path \<noteq> [] \<and> length path \<le> NrHops g \<and>
     (\<forall>h\<in>set path. length (ph_ID h) = NodeIDLength) \<and>
     (\<forall>h\<in>set (butlast path). cmds_fit g reserved (ph_Commands h) False) \<and>
     cmds_fit g reserved (ph_Commands (last path)) True"

lemma path_fits_all:
  assumes "map ly_hop ls = path" "\<forall>h\<in>set (butlast path). cmds_fit g r (ph_Commands h) False"
    and "path \<noteq> [] \<longrightarrow> cmds_fit g r (ph_Commands (last path)) True"
  shows "fits_all (\<lambda>l nx. cmds_fit g r (ph_Commands (ly_hop l)) (nx = None)) ls"
  using assms
proof (induction ls arbitrary: path)
  case (Cons l ls)
  show ?case
  proof (cases ls)
    case Nil
    with Cons.prems show ?thesis by auto
  next
    case (Cons l' ls')
    have "fits_all (\<lambda>l nx. cmds_fit g r (ph_Commands (ly_hop l)) (nx = None)) ls"
      by (rule Cons.IH [OF refl]) (use Cons.prems Cons in auto)
    with Cons.prems Cons show ?thesis by auto
  qed
qed simp

definition reader_ok :: "(nat \<Rightarrow> bytes option) \<Rightarrow> bool" where
  "reader_ok r \<longleftrightarrow> (\<forall>n. \<exists>b. r n = Some b \<and> length b = n)"

lemma skippedInfo_ok:
  assumes "reader_ok r"
  shows "\<exists>b. skippedInfo g r n = Ok b \<and> length b = (NrHops g - n) * PerHopRoutingInfoLength g"
  using assms [unfolded reader_ok_def, rule_format, of "(NrHops g - n) * PerHopRoutingInfoLength g"]
  by (auto simp: skippedInfo_def Let_def)

end
