(* ===== verification/Sphinx_Nike.thy ===== *)
theory Sphinx_Nike
  imports Sphinx_Header
begin

text \<open>
  The NIKE packet format of \<^verbatim>\<open>src/core/sphinx/sphinx.go\<close>: creating a header and a packet
  (\<^verbatim>\<open>createHeader\<close>, \<^verbatim>\<open>newNikePacket\<close>) and processing one hop (\<^verbatim>\<open>unwrapNike\<close>).  The main lemma is
  \<open>nike_relay_header\<close>: a packet whose header was created for a path is accepted by every hop of the
  path in turn; each hop reads its own commands and the identifier of its successor.
\<close>

section \<open>Creating a packet\<close>

text \<open>
  Entropy: the key pair of \<^verbatim>\<open>GenerateKeyPair\<close>, reads from the global \<^verbatim>\<open>rand.Reader\<close>, and reads from the
  reader passed by the caller.  \<open>None\<close> is an error.
\<close>

record ('pk, 'sk) entropy =
  ent_keypair :: "('pk \<times> 'sk) option"
  ent_randReader :: "nat \<Rightarrow> bytes option"
  ent_r :: "nat \<Rightarrow> bytes option"

text \<open>The inner loop: blinding the secret shared with hop \<open>i\<close> by the factors of the earlier hops.\<close>

fun blindSecret ::
    "('pk, 'sk) nike_scheme \<Rightarrow> bytes \<Rightarrow> 'sk PacketKeys list \<Rightarrow> (sphinx_error, bytes) outcome" where
  "blindSecret N sharedSecret [] = Ok sharedSecret"
| "blindSecret N sharedSecret (k # keys) =
     obind (must (nike_pk_FromBytes N sharedSecret)) (\<lambda>pubkey.
     case BlindingFactor k of None \<Rightarrow> Panic
     | Some bf \<Rightarrow> obind (must (nike_Blind N pubkey bf)) (\<lambda>blinded.
                 blindSecret N (nike_pk_Bytes N blinded) keys))"

text \<open>
  The outer loop over the hops after the first; \<open>keys\<close> are the keys of the earlier hops and
  \<open>clientPublicKey\<close> the public key as blinded so far.
\<close>

fun laterKeys ::
    "sphinx_prims \<Rightarrow> ('pk, 'sk) nike_scheme \<Rightarrow> 'sk \<Rightarrow> 'pk \<Rightarrow> 'sk PacketKeys list
      \<Rightarrow> ('pk, 'kpk) PathHop list \<Rightarrow> (sphinx_error, ('pk \<times> 'sk PacketKeys) list) outcome" where
  "laterKeys P N clientPrivateKey clientPublicKey keys [] = Ok []"
| "laterKeys P N clientPrivateKey clientPublicKey keys (h # path) =
     (case ph_NIKEPublicKey h of None \<Rightarrow> Panic
      | Some pk \<Rightarrow>
        obind (must (nike_DeriveSecret N clientPrivateKey pk)) (\<lambda>ss0.
        obind (blindSecret N ss0 keys) (\<lambda>sharedSecret.
        obind (must (KDF P sharedSecret (Some N))) (\<lambda>k.
        case (if keys = [] then None else BlindingFactor (last keys)) of None \<Rightarrow> Panic
        | Some bf \<Rightarrow>
          obind (must (nike_pk_Blind N clientPublicKey bf)) (\<lambda>clientPublicKey'.
          obind (must (nike_UnmarshalBinaryPublicKey N (nike_pk_Bytes N clientPublicKey'))) (\<lambda>ge.
          obind (laterKeys P N clientPrivateKey clientPublicKey' (keys @ [k]) path) (\<lambda>r.
          Ok ((ge, k) # r))))))))"

definition hopKeys ::
    "sphinx_prims \<Rightarrow> ('pk, 'sk) nike_scheme \<Rightarrow> 'pk \<Rightarrow> 'sk \<Rightarrow> ('pk, 'kpk) PathHop list
      \<Rightarrow> (sphinx_error, ('pk \<times> 'sk PacketKeys) list) outcome" where
  "hopKeys P N clientPublicKey clientPrivateKey path =
     (case path of [] \<Rightarrow> Panic
      | h # path' \<Rightarrow>
        (case ph_NIKEPublicKey h of None \<Rightarrow> Panic
         | Some pk \<Rightarrow>
           obind (must (nike_DeriveSecret N clientPrivateKey pk)) (\<lambda>sharedSecret.
           obind (must (KDF P sharedSecret (Some N))) (\<lambda>k0.
           obind (must (nike_UnmarshalBinaryPublicKey N (nike_pk_Bytes N clientPublicKey))) (\<lambda>ge0.
           obind (laterKeys P N clientPrivateKey clientPublicKey [k0] path') (\<lambda>r.
           Ok ((ge0, k0) # r)))))))"

definition nikeFragment ::
    "geometry \<Rightarrow> ('pk, 'kpk, 'sk) layer \<Rightarrow> ('pk, 'kpk, 'sk) layer option \<Rightarrow> bytes
      \<Rightarrow> (sphinx_error, bytes) outcome" where
  "nikeFragment g l nxt mac =
     riFragment g (ph_Commands (ly_hop l)) (map_option (\<lambda>l'. ph_ID (ly_hop l')) nxt) mac"

definition createHeader ::
    "sphinx_prims \<Rightarrow> ('pk, 'sk) nike_scheme \<Rightarrow> geometry \<Rightarrow> ('pk, 'sk) entropy
      \<Rightarrow> ('pk, 'kpk) PathHop list \<Rightarrow> (sphinx_error, bytes \<times> sprpKey list) outcome" where
  "createHeader P N g ent path =
     (if length path > NrHops g then Fail ErrInvalidPath
      else (case ent_keypair ent of None \<Rightarrow> Fail ErrKeyPair
      | Some (clientPublicKey, clientPrivateKey) \<Rightarrow>
        obind (hopKeys P N clientPublicKey clientPrivateKey path) (\<lambda>gks.
        let keys = map snd gks; elems = map (\<lambda>(ge, _). nike_pk_Bytes N ge) gks in
        obind (riStreams P g 0 [] keys) (\<lambda>streams.
        obind (skippedInfo g (ent_randReader ent) (length path)) (\<lambda>skipped.
        obind (routingBlocks P (nikeFragment g) skipped [] (mkLayers path keys elems streams))
          (\<lambda>(routingInfo, mac).
        Ok (v0AD @ hd elems @ routingInfo @ mac, sprpKeys keys)))))))"

definition newNikePacket ::
    "sphinx_prims \<Rightarrow> ('pk, 'sk) nike_scheme \<Rightarrow> geometry \<Rightarrow> ('pk, 'sk) entropy
      \<Rightarrow> ('pk, 'kpk) PathHop list \<Rightarrow> bytes \<Rightarrow> (sphinx_error, bytes) outcome" where
  "newNikePacket P N g ent path payload =
     (if length payload \<noteq> ForwardPayloadLength g then Fail ErrPayloadLength
      else obind (createHeader P N g ent path) (\<lambda>(hdr, ks). assemblePacket P g hdr ks payload))"

section \<open>Processing a hop\<close>

definition unwrapNike ::
    "sphinx_prims \<Rightarrow> ('pk, 'sk) nike_scheme \<Rightarrow> geometry \<Rightarrow> 'sk \<Rightarrow> bytes \<Rightarrow> unwrap_result" where
  "unwrapNike P N g privKey pkt =
     (let geOff = 2;
          riOff = geOff + nike_PublicKeySize N;
          macOff = riOff + RoutingInfoLength g;
          payloadOff = macOff + MACLength
      in
      if length pkt < HeaderLength g then Fail (ErrTruncated, None)
      else if length pkt < 2 then Panic
      else if take 2 pkt \<noteq> v0AD then Fail (ErrVersion, None)
      else if length pkt < riOff then Panic
      else (case nike_UnmarshalBinaryPublicKey N (slice geOff riOff pkt) of
        Panic \<Rightarrow> Panic
      | Fail e \<Rightarrow> Fail (ErrGroupElement e, None)
      | Ok groupElement \<Rightarrow>
        obind (must (nike_DeriveSecret N privKey groupElement)) (\<lambda>sharedSecret.
        let replayTag = Hash P (nike_pk_Bytes N groupElement) in
        obind (must (KDF P sharedSecret (Some N))) (\<lambda>keys.
        if length pkt < payloadOff then Panic
        else if slice macOff payloadOff pkt \<noteq> NewMAC P (HeaderMAC keys) (take macOff pkt)
             then Fail (ErrMAC, Some replayTag)
        else
          let b = XORKeyStream P (HeaderEncryption keys) (HeaderEncryptionIV keys)
                    (slice riOff macOff pkt @ zeros (PerHopRoutingInfoLength g));
              newRoutingInfo = drop (PerHopRoutingInfoLength g) b;
              cmdBuf = take (PerHopRoutingInfoLength g) b
          in (case parseCommands g None None [] cmdBuf of
                Panic \<Rightarrow> Panic
              | Fail e \<Rightarrow> Fail (ErrParse e, Some replayTag)
              | Ok (nextNode, surbReply, cmds) \<Rightarrow>
                obind (decryptPayload P keys (drop payloadOff pkt)) (\<lambda>payload.
                (case nextNode of
                   Some (_, nextMAC) \<Rightarrow>
                     (case BlindingFactor keys of None \<Rightarrow> Panic
                      | Some bf \<Rightarrow>
                        obind (must (nike_pk_Blind N groupElement bf)) (\<lambda>ge'.
                        Ok \<lparr>uw_payload = None, uw_replayTag = replayTag, uw_cmds = cmds,
                            uw_pkt = forwardPacket riOff macOff payloadOff pkt (nike_pk_Bytes N ge')
                                       newRoutingInfo nextMAC payload\<rparr>))
                 | None \<Rightarrow> finishPayload g replayTag surbReply cmds pkt payload)))))))"

section \<open>The block builder\<close>

lemma riFragment_fits:
  assumes "NextNodeHopLength g = CommandTagLength + NodeIDLength + MACLength"
    and "cmds_fit g r cs (nxt = None)"
  shows "\<exists>k. riFragment g cs nxt mac = Ok (cmds_bytes (cs @ nextCmd nxt mac) @ zeros k) \<and>
    length (cmds_bytes (cs @ nextCmd nxt mac)) + k = PerHopRoutingInfoLength g"
proof -
  have "commandsToBytes g cs (nxt = None) = Ok (cmds_bytes cs)"
    using assms by (auto simp: commandsToBytes_Ok_iff cmds_fit_def split: if_splits)
  then show ?thesis by (rule riFragment_eq [OF assms(1)])
qed

interpretation nike_block: hop_block nikeFragment
  "\<lambda>g. NextNodeHopLength g = CommandTagLength + NodeIDLength + MACLength"
  "\<lambda>g l nx. cmds_fit g 0 (ph_Commands (ly_hop l)) (nx = None)"
  "\<lambda>g f. take (PerHopRoutingInfoLength g) f"
proof (unfold_locales, goal_cases)
  case (1 g l nx mac f)
  then show ?case by (simp add: nikeFragment_def riFragment_length)
next
  case (2 g l nx mac)
  then show ?case
    using riFragment_fits [of g 0 "ph_Commands (ly_hop l)" "map_option (\<lambda>l'. ph_ID (ly_hop l')) nx" mac]
    by (auto simp: nikeFragment_def)
next
  case (3 g l nx mac f)
  then obtain k where f: "f = cmds_bytes (ph_Commands (ly_hop l)
      @ nextCmd (map_option (\<lambda>l'. ph_ID (ly_hop l')) nx) mac) @ zeros k"
    "length f = PerHopRoutingInfoLength g"
    using riFragment_fits [of g 0 "ph_Commands (ly_hop l)" "map_option (\<lambda>l'. ph_ID (ly_hop l')) nx" mac]
    by (auto simp: nikeFragment_def)
  then have "take (PerHopRoutingInfoLength g) f = f" using f(2) by (simp only: take_all)
  then show ?case
    using parse_fragment [OF 3(1,2), of "map_option (\<lambda>l'. ph_ID (ly_hop l')) nx" mac k]
    unfolding f(1) [symmetric] by (simp add: option.map_comp comp_def)
qed

section \<open>The key schedule\<close>

fun blindAll ::
    "('pk, 'sk) nike_scheme \<Rightarrow> 'pk \<Rightarrow> 'sk PacketKeys list \<Rightarrow> (nike_error, 'pk) outcome" where
  "blindAll N p [] = Ok p"
| "blindAll N p (k # ks) =
     (case BlindingFactor k of None \<Rightarrow> Panic
      | Some bf \<Rightarrow> obind (nike_Blind N p bf) (\<lambda>p'. blindAll N p' ks))"

definition has_bf :: "('sk \<Rightarrow> bool) \<Rightarrow> 'sk PacketKeys \<Rightarrow> bool" where
  "has_bf W k \<longleftrightarrow> (\<exists>bf. BlindingFactor k = Some bf \<and> W bf)"

text \<open>
  The chain of group elements and keys that the hops, with private keys \<open>ss\<close>, derive for themselves.
\<close>

fun nike_chain ::
    "sphinx_prims \<Rightarrow> ('pk, 'sk) nike_scheme \<Rightarrow> ('pk \<Rightarrow> bool) \<Rightarrow> ('pk \<times> 'sk PacketKeys) list \<Rightarrow> 'sk list \<Rightarrow> bool" where
  "nike_chain P N V [] [] \<longleftrightarrow> True"
| "nike_chain P N V ((ge, k) # r) (s # ss) \<longleftrightarrow>
     V ge \<and> (\<exists>sec. nike_DeriveSecret N s ge = Ok sec \<and> KDF P sec (Some N) = Ok k) \<and>
     (\<exists>bf. BlindingFactor k = Some bf \<and> (r = [] \<or> nike_pk_Blind N ge bf = Ok (fst (hd r)))) \<and>
     nike_chain P N V r ss"
| "nike_chain P N V _ _ \<longleftrightarrow> False"

lemma blindAll_snoc:
  "blindAll N p (ks @ [k]) = obind (blindAll N p ks)
     (\<lambda>p'. case BlindingFactor k of None \<Rightarrow> Panic | Some bf \<Rightarrow> nike_Blind N p' bf)"
proof (induction ks arbitrary: p)
  case Nil
  have "obind r (\<lambda>p'. Ok p') = r" for r :: "(nike_error, 'a) outcome" by (cases r) auto
  then show ?case by (simp split: option.split)
next
  case (Cons x ks)
  show ?case
  proof (cases "BlindingFactor x")
    case (Some bf)
    then show ?thesis by (cases "nike_Blind N p bf") (simp_all add: Cons.IH)
  qed simp
qed

text \<open>Blinding the shared secret and blinding the public key agree.\<close>

lemma blind_both:
  assumes N: "nike_ok N V W" and "V p" "V q" "W s" "nike_DeriveSecret N s p = Ok (nike_pk_Bytes N q)"
    and "\<forall>k\<in>set ks. has_bf W k"
  shows "\<exists>p' q'. blindAll N p ks = Ok p' \<and> V p' \<and> blindSecret N (nike_pk_Bytes N q) ks = Ok (nike_pk_Bytes N q')
    \<and> V q' \<and> nike_DeriveSecret N s p' = Ok (nike_pk_Bytes N q')"
  using assms(2-6)
proof (induction ks arbitrary: p q)
  case (Cons k ks)
  obtain bf where bf: "BlindingFactor k = Some bf" "W bf" using Cons.prems(5) by (auto simp: has_bf_def)
  obtain p1 where p1: "nike_Blind N p bf = Ok p1" "V p1" using nike_blind [OF N Cons.prems(1) bf(2)] by blast
  obtain q1 where q1: "nike_Blind N q bf = Ok q1" "V q1" using nike_blind [OF N Cons.prems(2) bf(2)] by blast
  have "nike_DeriveSecret N s p1 = Ok (nike_pk_Bytes N q1)"
    using nike_commute [OF N Cons.prems(1,3) bf(2) Cons.prems(2,4) p1(1) q1(1)] .
  with Cons.IH [OF p1(2) q1(2) Cons.prems(3)] Cons.prems(5) obtain p' q' where
    "blindAll N p1 ks = Ok p'" "V p'" "blindSecret N (nike_pk_Bytes N q1) ks = Ok (nike_pk_Bytes N q')"
    "V q'" "nike_DeriveSecret N s p' = Ok (nike_pk_Bytes N q')" by auto
  then show ?case
    using bf p1 q1 nike_from [OF N Cons.prems(2)] by (intro exI [of _ p'] exI [of _ q']) simp
qed auto

definition hop_key :: "('pk, 'sk) nike_scheme \<Rightarrow> ('sk \<Rightarrow> bool) \<Rightarrow> ('pk, 'kpk) PathHop \<Rightarrow> 'sk \<Rightarrow> bool" where
  "hop_key N W h s \<longleftrightarrow> ph_NIKEPublicKey h = Some (nike_DerivePublicKey N s) \<and> W s"

lemma laterKeys_chain:
  assumes P: "prims_ok P" and N: "nike_ok N V W" and c: "W csk"
    and "list_all2 (hop_key N W) path ss"
    and "keys \<noteq> []" "\<forall>k\<in>set keys. has_bf W k"
    and "blindAll N (nike_DerivePublicKey N csk) (butlast keys) = Ok cpk" "V cpk"
  shows "\<exists>r. laterKeys P N csk cpk keys path = Ok r \<and> length r = length path \<and> nike_chain P N V r ss \<and>
    (path \<noteq> [] \<longrightarrow> (\<exists>bf. BlindingFactor (last keys) = Some bf \<and> nike_pk_Blind N cpk bf = Ok (fst (hd r))))"
  using assms(4-8)
proof (induction path ss arbitrary: keys cpk rule: list_all2_induct)
  case (Cons h path s ss)
  have hs: "ph_NIKEPublicKey h = Some (nike_DerivePublicKey N s)" "W s"
    using Cons.hyps by (simp_all add: hop_key_def)
  let ?c = "nike_DerivePublicKey N csk"
  have V: "V ?c" using nike_derive_valid [OF N c] .
  obtain q where q: "nike_DeriveSecret N s ?c = Ok (nike_pk_Bytes N q)" "V q"
    using nike_secret [OF N V hs(2)] by blast
  then have d: "nike_DeriveSecret N csk (nike_DerivePublicKey N s) = Ok (nike_pk_Bytes N q)"
    using nike_agree [OF N c hs(2)] by simp
  obtain p' q' where pq: "blindAll N ?c keys = Ok p'" "V p'"
    "blindSecret N (nike_pk_Bytes N q) keys = Ok (nike_pk_Bytes N q')" "V q'"
    "nike_DeriveSecret N s p' = Ok (nike_pk_Bytes N q')"
    using blind_both [OF N V q(2) hs(2) q(1) Cons.prems(2)] by blast
  obtain bf where bf: "BlindingFactor (last keys) = Some bf" "W bf"
    using Cons.prems(2) last_in_set [OF Cons.prems(1)] unfolding has_bf_def by blast
  have "blindAll N ?c (butlast keys @ [last keys]) = nike_Blind N cpk bf"
    unfolding blindAll_snoc using Cons.prems(3) bf by simp
  then have "nike_Blind N cpk bf = Ok p'" using Cons.prems(1) pq(1) by simp
  then have b: "nike_pk_Blind N cpk bf = Ok p'" using nike_blind [OF N Cons.prems(4) bf(2)] by auto
  obtain k bf' where k: "KDF P (nike_pk_Bytes N q') (Some N) = Ok k" "BlindingFactor k = Some bf'" "W bf'"
    using KDF_nike [OF P N] by blast
  have "\<exists>r. laterKeys P N csk p' (keys @ [k]) path = Ok r \<and> length r = length path \<and> nike_chain P N V r ss \<and>
    (path \<noteq> [] \<longrightarrow> (\<exists>bf. BlindingFactor (last (keys @ [k])) = Some bf \<and> nike_pk_Blind N p' bf = Ok (fst (hd r))))"
    by (rule Cons.IH) (use Cons.prems(2) k pq in \<open>auto simp: has_bf_def\<close>)
  then obtain r where r: "laterKeys P N csk p' (keys @ [k]) path = Ok r" "length r = length path"
    "nike_chain P N V r ss" "path \<noteq> [] \<longrightarrow> nike_pk_Blind N p' bf' = Ok (fst (hd r))"
    using k(2) by auto
  have "nike_chain P N V ((p', k) # r) (s # ss)"
    using pq k r by auto
  then show ?case
    using hs d pq bf b k r nike_unmarshal [OF N pq(2)] Cons.prems(1) by simp
qed simp

lemma hopKeys_chain:
  assumes P: "prims_ok P" and N: "nike_ok N V W" and c: "W csk"
    and h: "list_all2 (hop_key N W) path ss" and "path \<noteq> []"
  shows "\<exists>r. hopKeys P N (nike_DerivePublicKey N csk) csk path = Ok r \<and> length r = length path \<and>
    nike_chain P N V r ss"
proof -
  obtain h0 path' s ss' where ps: "path = h0 # path'" "ss = s # ss'" "hop_key N W h0 s"
    "list_all2 (hop_key N W) path' ss'"
    using assms(4,5) by (cases path) (auto simp: list_all2_Cons1)
  let ?c = "nike_DerivePublicKey N csk"
  have hs: "ph_NIKEPublicKey h0 = Some (nike_DerivePublicKey N s)" "W s" "V ?c"
    using ps(3) nike_derive_valid [OF N c] by (simp_all add: hop_key_def)
  obtain q where q: "nike_DeriveSecret N s ?c = Ok (nike_pk_Bytes N q)"
    using nike_secret [OF N hs(3,2)] by blast
  then have d: "nike_DeriveSecret N csk (nike_DerivePublicKey N s) = Ok (nike_pk_Bytes N q)"
    using nike_agree [OF N c hs(2)] by simp
  obtain k bf where k: "KDF P (nike_pk_Bytes N q) (Some N) = Ok k" "BlindingFactor k = Some bf" "W bf"
    using KDF_nike [OF P N] by blast
  have "\<exists>r. laterKeys P N csk ?c [k] path' = Ok r \<and> length r = length path' \<and> nike_chain P N V r ss' \<and>
    (path' \<noteq> [] \<longrightarrow> (\<exists>bf. BlindingFactor (last [k]) = Some bf \<and> nike_pk_Blind N ?c bf = Ok (fst (hd r))))"
    by (rule laterKeys_chain [OF P N c ps(4)]) (use k hs in \<open>auto simp: has_bf_def\<close>)
  then obtain r where r: "laterKeys P N csk ?c [k] path' = Ok r" "length r = length path'"
    "nike_chain P N V r ss'" "path' \<noteq> [] \<longrightarrow> nike_pk_Blind N ?c bf = Ok (fst (hd r))"
    using k(2) by auto
  have "nike_chain P N V ((?c, k) # r) (s # ss')" using hs q k r by auto
  then show ?thesis
    using ps hs d k r nike_unmarshal [OF N hs(3)] by (simp add: hopKeys_def)
qed

section \<open>Processing what was created\<close>

text \<open>The steps of \<^verbatim>\<open>unwrapNike\<close> up to the parsed commands, on a packet whose MAC is right.\<close>

lemma unwrapNike_authentic:
  assumes V: "nike_UnmarshalBinaryPublicKey N elem = Ok ge" "length elem = nike_PublicKeySize N"
    and g: "HeaderLength g = adLength + nike_PublicKeySize N + RoutingInfoLength g + MACLength"
    and sec: "nike_DeriveSecret N s ge = Ok sec" "KDF P sec (Some N) = Ok keys"
    and len: "length ri = RoutingInfoLength g" "length mac = MACLength"
    and mac: "mac = NewMAC P (HeaderMAC keys) (v0AD @ elem @ ri)"
    and pc: "parseCommands g None None [] (take (PerHopRoutingInfoLength g)
        (XORKeyStream P (HeaderEncryption keys) (HeaderEncryptionIV keys)
          (ri @ zeros (PerHopRoutingInfoLength g)))) = Ok (nextNode, surb, cmds)"
    and pl: "decryptPayload P keys body = (Ok payload :: (sphinx_error \<times> bytes option, bytes) outcome)"
  shows "unwrapNike P N g s (v0AD @ elem @ ri @ mac @ body) =
    (case nextNode of
       Some (_, nextMAC) \<Rightarrow>
         (case BlindingFactor keys of None \<Rightarrow> Panic
          | Some bf \<Rightarrow>
            obind (must (nike_pk_Blind N ge bf)) (\<lambda>ge'.
            Ok \<lparr>uw_payload = None, uw_replayTag = Hash P (nike_pk_Bytes N ge), uw_cmds = cmds,
                uw_pkt = forwardPacket (2 + nike_PublicKeySize N) (2 + nike_PublicKeySize N + RoutingInfoLength g)
                  (2 + nike_PublicKeySize N + RoutingInfoLength g + MACLength)
                  (v0AD @ elem @ ri @ mac @ body) (nike_pk_Bytes N ge')
                  (drop (PerHopRoutingInfoLength g)
                    (XORKeyStream P (HeaderEncryption keys) (HeaderEncryptionIV keys)
                      (ri @ zeros (PerHopRoutingInfoLength g)))) nextMAC payload\<rparr>))
     | None \<Rightarrow> finishPayload g (Hash P (nike_pk_Bytes N ge)) surb cmds (v0AD @ elem @ ri @ mac @ body) payload)"
proof -
  let ?pkt = "v0AD @ elem @ ri @ mac @ body" and ?n = "nike_PublicKeySize N" and ?m = "RoutingInfoLength g"
  have ad: "length v0AD = 2" by (simp add: v0AD_def)
  have len_pkt: "length ?pkt = 2 + ?n + ?m + MACLength + length body" using V len ad by simp
  then have chk: "\<not> length ?pkt < HeaderLength g" "\<not> length ?pkt < 2" "\<not> length ?pkt < 2 + ?n"
    "\<not> length ?pkt < 2 + ?n + ?m + MACLength" using g by (simp_all add: adLength_def)
  have sl: "take 2 ?pkt = v0AD" "slice 2 (2 + ?n) ?pkt = elem"
    "slice (2 + ?n) (2 + ?n + ?m) ?pkt = ri"
    "slice (2 + ?n + ?m) (2 + ?n + ?m + MACLength) ?pkt = mac"
    "take (2 + ?n + ?m) ?pkt = v0AD @ elem @ ri"
    "drop (2 + ?n + ?m + MACLength) ?pkt = body"
    using V len ad by (simp_all add: slice_def)
  show ?thesis
    unfolding unwrapNike_def Let_def
    by (simp only: chk sl V sec pc pl if_False outcome.case prod.case obind.simps must.simps
        mac [symmetric] simp_thms)
qed

abbreviation nike_fits where
  "nike_fits g \<equiv> \<lambda>l nx. cmds_fit g 0 (ph_Commands (ly_hop l)) (nx = None)"

text \<open>One hop processes the packet built for it: it is last, or it produces its successor's packet.\<close>

lemma unwrapNike_layer:
  assumes P: "prims_ok P" and N: "nike_ok N V W" and g: "geo_wf (nike_PublicKeySize N) 0 g"
    and ge: "V ge" "ly_elem l = nike_pk_Bytes N ge"
    and sec: "nike_DeriveSecret N s ge = Ok sec" "KDF P sec (Some N) = Ok (ly_keys l)"
    and lo: "layers_ok P g i prev (l # ls)" and n: "i + length (l # ls) \<le> NrHops g"
    and prev: "length prev = i * PerHopRoutingInfoLength g"
    and skipped: "length skipped = (NrHops g - (i + length (l # ls))) * PerHopRoutingInfoLength g"
    and fit: "nike_fits g l (hd_option ls)"
    and rb: "routingBlocks P (nikeFragment g) skipped prev (l # ls) = Ok (ri, mac)"
    and pl: "decryptPayload P (ly_keys l) body = (Ok body' :: (sphinx_error \<times> bytes option, bytes) outcome)"
      "length body' = length body"
    and pkt: "pkt = v0AD @ ly_elem l @ (ri @ prev) @ mac @ body"
  shows "ls = [] \<Longrightarrow> unwrapNike P N g s pkt =
      finishPayload g (Hash P (ly_elem l)) (surbOf None (ph_Commands (ly_hop l)))
        (ph_Commands (ly_hop l)) pkt body'"
    and "ls = l' # ls' \<Longrightarrow> length (ph_ID (ly_hop l')) = NodeIDLength \<Longrightarrow>
      BlindingFactor (ly_keys l) = Some bf \<Longrightarrow> nike_pk_Blind N ge bf = Ok ge' \<Longrightarrow> V ge' \<Longrightarrow>
      \<exists>ri' mac'. routingBlocks P (nikeFragment g) skipped (ly_riPadding l) ls = Ok (ri', mac') \<and>
        length mac' = MACLength \<and>
        length (ri' @ ly_riPadding l) = RoutingInfoLength g \<and>
        unwrapNike P N g s pkt = Ok \<lparr>uw_payload = None, uw_replayTag = Hash P (ly_elem l),
          uw_cmds = ph_Commands (ly_hop l) @ [NextNodeHop (ph_ID (ly_hop l')) mac'],
          uw_pkt = v0AD @ nike_pk_Bytes N ge' @ (ri' @ ly_riPadding l) @ mac' @ body'\<rparr>"
proof -
  let ?ph = "PerHopRoutingInfoLength g" and ?cs = "ph_Commands (ly_hop l)"
  have NN: "NextNodeHopLength g = CommandTagLength + NodeIDLength + MACLength"
    and RI: "RoutingInfoLength g = ?ph * NrHops g"
    and H: "HeaderLength g = adLength + nike_PublicKeySize N + RoutingInfoLength g + MACLength"
    using g by (simp_all add: geo_wf_def)
  obtain ri' mac' f where peel: "routingBlocks P (nikeFragment g) skipped (ly_riPadding l) ls = Ok (ri', mac')"
    "nikeFragment g l (hd_option ls) mac' = Ok f" "length f = ?ph"
    "mac = headerMAC P (ly_keys l) (ly_elem l) ri prev" "length ri + length prev = RoutingInfoLength g"
    "length ri' + length (ly_riPadding l) = RoutingInfoLength g"
    "XORKeyStream P (HeaderEncryption (ly_keys l)) (HeaderEncryptionIV (ly_keys l))
      (ri @ prev @ zeros ?ph) = f @ ri' @ ly_riPadding l"
    using nike_block.peel_layer [OF P NN RI lo n prev skipped rb] by blast
  let ?x = "XORKeyStream P (HeaderEncryption (ly_keys l)) (HeaderEncryptionIV (ly_keys l))
      ((ri @ prev) @ zeros ?ph)"
  have x: "take ?ph ?x = take ?ph f" "drop ?ph ?x = ri' @ ly_riPadding l"
    using peel(3,7) by simp_all
  have um: "nike_UnmarshalBinaryPublicKey N (ly_elem l) = Ok ge"
    "length (ly_elem l) = nike_PublicKeySize N" "length (ri @ prev) = RoutingInfoLength g"
    "length mac = MACLength" "mac = NewMAC P (HeaderMAC (ly_keys l)) (v0AD @ ly_elem l @ ri @ prev)"
    using ge nike_unmarshal [OF N ge(1)] nike_length [OF N ge(1)] peel(4,5) length_NewMAC [OF P]
    by (simp_all add: headerMAC_def)
  note uw = unwrapNike_authentic [OF um(1,2) H sec um(3,4) um(5)]
  note pc = nike_block.frag_parse [OF NN fit peel(2)]
  {
    assume ls: "ls = []"
    show "unwrapNike P N g s pkt = finishPayload g (Hash P (ly_elem l)) (surbOf None ?cs) ?cs pkt body'"
    proof -
      have pc0: "parseCommands g None None [] (take ?ph ?x) = Ok (None, surbOf None ?cs, ?cs)"
        using pc ls x(1) by (simp add: nextCmd_def)
      show ?thesis unfolding pkt by (subst uw [OF pc0 pl(1)]) (simp only: option.case ge(2))
    qed
  }
  {
    assume ls: "ls = l' # ls'" and idl: "length (ph_ID (ly_hop l')) = NodeIDLength"
      and bf: "BlindingFactor (ly_keys l) = Some bf" "nike_pk_Blind N ge bf = Ok ge'" "V ge'"
    have ml: "length mac' = MACLength" using routingBlocks_mac [OF P] peel(1) ls by blast
    have pc': "parseCommands g None None [] (take ?ph ?x) =
        Ok (Some (ph_ID (ly_hop l'), mac'), surbOf None ?cs, ?cs @ [NextNodeHop (ph_ID (ly_hop l')) mac'])"
      using pc ls idl ml x(1) by (simp add: nextCmd_exact copy_into_same)
    have fw: "forwardPacket (2 + nike_PublicKeySize N) (2 + nike_PublicKeySize N + RoutingInfoLength g)
        (2 + nike_PublicKeySize N + RoutingInfoLength g + MACLength)
        (v0AD @ ly_elem l @ (ri @ prev) @ mac @ body) (nike_pk_Bytes N ge') (ri' @ ly_riPadding l) mac' body'
        = v0AD @ nike_pk_Bytes N ge' @ (ri' @ ly_riPadding l) @ mac' @ body'"
      by (rule forwardPacket_eq)
         (use um ml peel(6) pl(2) nike_length [OF N bf(3)] in \<open>simp_all add: v0AD_def\<close>)
    have "unwrapNike P N g s pkt = Ok \<lparr>uw_payload = None, uw_replayTag = Hash P (ly_elem l),
          uw_cmds = ?cs @ [NextNodeHop (ph_ID (ly_hop l')) mac'],
          uw_pkt = v0AD @ nike_pk_Bytes N ge' @ (ri' @ ly_riPadding l) @ mac' @ body'\<rparr>"
      unfolding pkt
      by (subst uw [OF pc' pl(1)]) (simp only: option.case prod.case bf must.simps obind.simps
          x(2) fw ge(2) [symmetric])
    then show "\<exists>ri' mac'. routingBlocks P (nikeFragment g) skipped (ly_riPadding l) ls = Ok (ri', mac') \<and>
        length mac' = MACLength \<and> length (ri' @ ly_riPadding l) = RoutingInfoLength g \<and>
        unwrapNike P N g s pkt = Ok \<lparr>uw_payload = None, uw_replayTag = Hash P (ly_elem l),
          uw_cmds = ?cs @ [NextNodeHop (ph_ID (ly_hop l')) mac'],
          uw_pkt = v0AD @ nike_pk_Bytes N ge' @ (ri' @ ly_riPadding l) @ mac' @ body'\<rparr>"
      using peel(1,6) ml by (intro exI conjI) (assumption | simp)+
  }
qed

text \<open>The whole path: every hop accepts, and sees what was meant for it.\<close>

lemma nike_relay_header:
  assumes P: "prims_ok P" and N: "nike_ok N V W" and g: "geo_wf (nike_PublicKeySize N) 0 g"
    and "nike_chain P N V gks ss" "map ly_keys ls = map snd gks"
    and "map ly_elem ls = map (\<lambda>(ge, _). nike_pk_Bytes N ge) gks"
    and "layers_ok P g i prev ls" "ls \<noteq> []" "i + length ls \<le> NrHops g"
    and "length prev = i * PerHopRoutingInfoLength g"
    and "length skipped = (NrHops g - (i + length ls)) * PerHopRoutingInfoLength g"
    and "fits_all (nike_fits g) ls" "\<forall>l\<in>set ls. length (ph_ID (ly_hop l)) = NodeIDLength"
    and "routingBlocks P (nikeFragment g) skipped prev ls = Ok (ri, mac)"
    and "length body = m" and m: "PayloadTagLength g \<le> m"
    and "peelPayload P (sprpKeys (map ly_keys ls)) body = Ok raw"
    and "surbOf None (ph_Commands (ly_hop (last ls))) = None \<longrightarrow> CtIsZero (take (PayloadTagLength g) raw)"
  shows "\<exists>us. relay (unwrapNike P N g) ss (v0AD @ ly_elem (hd ls) @ (ri @ prev) @ mac @ body) = Ok us \<and>
    delivered (HeaderLength g + m) (map ly_hop ls)
      (finalPayload g (ph_Commands (ly_hop (last ls))) raw) us"
  using assms(4-15,17-18)
proof (induction ls arbitrary: i prev gks ss ri mac body)
  case (Cons l ls)
  obtain ge k r s ss' where gs: "gks = (ge, k) # r" "ss = s # ss'"
    using Cons.prems(1,2) by (cases gks; cases ss) auto
  have ge: "V ge" "ly_elem l = nike_pk_Bytes N ge" and k: "k = ly_keys l"
    and rest: "nike_chain P N V r ss'" "map ly_keys ls = map snd r"
      "map ly_elem ls = map (\<lambda>(ge, _). nike_pk_Bytes N ge) r"
    using Cons.prems(1-3) gs by auto
  obtain sec bf where sec: "nike_DeriveSecret N s ge = Ok sec" "KDF P sec (Some N) = Ok (ly_keys l)"
    and bf: "BlindingFactor (ly_keys l) = Some bf" "r = [] \<or> nike_pk_Blind N ge bf = Ok (fst (hd r))"
    using Cons.prems(1) gs k by auto
  have tl: "PayloadTagLength g = 32" using geo_wf_lengths [OF g] by simp
  then have ne: "body \<noteq> []" using m Cons.prems(12) by auto
  obtain body' where pl: "decryptPayload P (ly_keys l) body = (Ok body' :: (sphinx_error \<times> bytes option, bytes) outcome)"
    "peelPayload P (sprpKeys (map ly_keys ls)) body' = Ok raw" "length body' = length body"
    using peel_hop [OF P ne, of "ly_keys l" "map ly_keys ls" raw] Cons.prems(13) by auto
  have fit: "nike_fits g l (hd_option ls)" using Cons.prems(9) by simp
  note layer = unwrapNike_layer [OF P N g ge sec Cons.prems(4,6,7,8) fit Cons.prems(11) pl(1,3) refl]
  show ?case
  proof (cases ls)
    case Nil
    then have raw: "raw = body'" "ss' = []" "r = []" using pl(2) rest by (cases ss'; auto simp: sprpKeys_def)+
    have "unwrapNike P N g s (v0AD @ ly_elem l @ (ri @ prev) @ mac @ body) =
      Ok \<lparr>uw_payload = Some (finalPayload g (ph_Commands (ly_hop l)) raw), uw_replayTag = Hash P (ly_elem l),
        uw_cmds = ph_Commands (ly_hop l), uw_pkt = v0AD @ ly_elem l @ (ri @ prev) @ mac @ body\<rparr>"
      unfolding layer(1) [OF Nil] raw(1) [symmetric]
      by (rule finishPayload_ok) (use Cons.prems(12,14) m raw pl(3) Nil in auto)
    then show ?thesis using Nil gs raw by simp
  next
    case (Cons l' ls')
    then obtain ge' k' r' where r: "r = (ge', k') # r'" using rest(2) by (cases r) auto
    then obtain s' ss2 where ss': "ss' = s' # ss2" "V ge'" using rest(1) by (cases ss') auto
    have b: "nike_pk_Blind N ge bf = Ok ge'" using bf(2) r by simp
    have idl: "length (ph_ID (ly_hop l')) = NodeIDLength" using Cons.prems(10) Cons by simp
    obtain ri' mac' where nx: "routingBlocks P (nikeFragment g) skipped (ly_riPadding l) ls = Ok (ri', mac')"
      "length mac' = MACLength" "length (ri' @ ly_riPadding l) = RoutingInfoLength g"
      "unwrapNike P N g s (v0AD @ ly_elem l @ (ri @ prev) @ mac @ body) =
        Ok \<lparr>uw_payload = None, uw_replayTag = Hash P (ly_elem l),
          uw_cmds = ph_Commands (ly_hop l) @ [NextNodeHop (ph_ID (ly_hop l')) mac'],
          uw_pkt = v0AD @ nike_pk_Bytes N ge' @ (ri' @ ly_riPadding l) @ mac' @ body'\<rparr>"
      using layer(2) [OF Cons idl bf(1) b ss'(2)] by blast
    have el: "nike_pk_Bytes N ge' = ly_elem (hd ls)" using rest(3) r Cons by simp
    have "length (ly_riPadding l) = (i + 1) * PerHopRoutingInfoLength g"
      using Cons.prems(4,6,7) length_padStep [OF P _ _ Cons.prems(7)] g by (simp add: geo_wf_def)
    then obtain us where us: "relay (unwrapNike P N g) ss'
        (v0AD @ ly_elem (hd ls) @ (ri' @ ly_riPadding l) @ mac' @ body') = Ok us"
      "delivered (HeaderLength g + m) (map ly_hop ls)
        (finalPayload g (ph_Commands (ly_hop (last ls))) raw) us"
      using Cons.IH [OF rest, of "i + 1" "ly_riPadding l" ri' mac' body'] Cons.prems Cons nx(1) pl(2,3)
      by auto
    have "length (v0AD @ nike_pk_Bytes N ge' @ (ri' @ ly_riPadding l) @ mac' @ body') = HeaderLength g + m"
      using nx(2,3) pl(3) Cons.prems(12) nike_length [OF N ss'(2)] g
      by (simp add: geo_wf_def v0AD_def adLength_def)
    then show ?thesis using us nx gs Cons el by simp
  qed
qed simp

section \<open>Creation succeeds and the packet is delivered\<close>

definition nike_entropy_ok ::
    "('pk, 'sk) nike_scheme \<Rightarrow> ('sk \<Rightarrow> bool) \<Rightarrow> ('pk, 'sk) entropy \<Rightarrow> bool" where
  "nike_entropy_ok N W ent \<longleftrightarrow> reader_ok (ent_randReader ent) \<and> reader_ok (ent_r ent) \<and>
     (\<exists>s. W s \<and> ent_keypair ent = Some (nike_DerivePublicKey N s, s))"

text \<open>
  For a well-formed path, header creation succeeds, and the header with any payload is accepted and
  relayed along the path.
\<close>

lemma createHeader_relay:
  assumes P: "prims_ok P" and N: "nike_ok N V W" and g: "geo_wf (nike_PublicKeySize N) 0 g"
    and ent: "nike_entropy_ok N W ent"
    and path: "path_ok g 0 path" "list_all2 (hop_key N W) path ss"
  shows "\<exists>hdr ks. createHeader P N g ent path = Ok (hdr, ks) \<and> length hdr = HeaderLength g \<and>
    length ks = length path \<and>
    (\<forall>body raw. PayloadTagLength g \<le> length body \<longrightarrow> peelPayload P ks body = Ok raw \<longrightarrow>
       (surbOf None (ph_Commands (last path)) = None \<longrightarrow> CtIsZero (take (PayloadTagLength g) raw)) \<longrightarrow>
       (\<exists>us. relay (unwrapNike P N g) ss (hdr @ body) = Ok us \<and>
          delivered (HeaderLength g + length body) path (finalPayload g (ph_Commands (last path)) raw) us))"
proof -
  have NN: "NextNodeHopLength g = CommandTagLength + NodeIDLength + MACLength"
    and RI: "RoutingInfoLength g = PerHopRoutingInfoLength g * NrHops g"
    and H: "HeaderLength g = adLength + nike_PublicKeySize N + RoutingInfoLength g + MACLength"
    using g by (simp_all add: geo_wf_def)
  have n: "path \<noteq> []" "length path \<le> NrHops g" using path(1) by (simp_all add: path_ok_def)
  obtain csk where c: "W csk" "ent_keypair ent = Some (nike_DerivePublicKey N csk, csk)"
    and rr: "reader_ok (ent_randReader ent)" using ent by (auto simp: nike_entropy_ok_def)
  obtain gks where gks: "hopKeys P N (nike_DerivePublicKey N csk) csk path = Ok gks"
    "length gks = length path" "nike_chain P N V gks ss"
    using hopKeys_chain [OF P N c(1) path(2) n(1)] by blast
  define keys where "keys = map snd gks"
  define elems where "elems = map (\<lambda>(ge, _). nike_pk_Bytes N ge) gks"
  obtain streams where st: "riStreams P g 0 [] keys = Ok streams" "length streams = length path"
    "layers_ok P g 0 [] (mkLayers path keys elems streams)"
    using riStreams_layers [OF P RI, of path keys elems 0 "[]"] n gks(2)
    by (auto simp: keys_def elems_def)
  define ls where "ls = mkLayers path keys elems streams"
  have fields: "map ly_hop ls = path" "map ly_keys ls = keys" "map ly_elem ls = elems" "length ls = length path"
    unfolding ls_def using gks(2) st(2) by (intro mkLayers_fields; simp add: keys_def elems_def)+
  have lo: "layers_ok P g 0 [] ls" using st(3) by (simp add: ls_def)
  obtain skipped where sk: "skippedInfo g (ent_randReader ent) (length path) = Ok skipped"
    "length skipped = (NrHops g - length path) * PerHopRoutingInfoLength g"
    using skippedInfo_ok [OF rr] by blast
  have fit: "fits_all (nike_fits g) ls"
    by (rule path_fits_all [OF fields(1)]) (use path(1) in \<open>auto simp: path_ok_def\<close>)
  obtain ri mac where rb: "routingBlocks P (nikeFragment g) skipped [] ls = Ok (ri, mac)"
    using nike_block.blocks_total [OF P NN RI lo, of skipped] n sk(2) fit fields(4) by auto
  have ne: "ls \<noteq> []" using fields n by auto
  have hd: "hd elems = ly_elem (hd ls)" using fields(3) ne by (auto simp: hd_map)
  have cr: "createHeader P N g ent path = Ok (v0AD @ ly_elem (hd ls) @ ri @ mac, sprpKeys keys)"
    using n c gks(1) st(1) sk(1) rb hd
    by (simp add: createHeader_def Let_def keys_def [symmetric] elems_def [symmetric] ls_def)
  have last: "ly_hop (last ls) = last path" using fields(1) ne by (auto simp: last_map)
  obtain l ls' where l: "ls = l # ls'" using ne by (cases ls) auto
  obtain ge k r s where ge: "gks = (ge, k) # r" "V ge" using gks n by (cases gks; cases ss) auto
  have "length (ly_elem (hd ls)) = nike_PublicKeySize N"
    using hd nike_length [OF N ge(2)] ge(1) by (simp add: elems_def)
  moreover have "length ri = NrHops g * PerHopRoutingInfoLength g" "length mac = MACLength"
    using nike_block.blocks_length [OF P NN RI lo _ _ rb] n sk(2) fields(4)
      routingBlocks_mac [OF P, of _ skipped "[]" l ls' ri mac] rb l by auto
  ultimately have len: "length (v0AD @ ly_elem (hd ls) @ ri @ mac) = HeaderLength g"
    using H RI by (simp add: v0AD_def adLength_def)
  have "\<forall>l\<in>set ls. length (ph_ID (ly_hop l)) = NodeIDLength"
    using path(1) fields(1) by (auto simp: path_ok_def)
  note R = nike_relay_header [OF P N g gks(3) fields(2,3) [unfolded keys_def elems_def] lo ne _ _ _ fit this rb refl]
  have relay: "\<exists>us. relay (unwrapNike P N g) ss ((v0AD @ ly_elem (hd ls) @ ri @ mac) @ body) = Ok us \<and>
      delivered (HeaderLength g + length body) path (finalPayload g (ph_Commands (last path)) raw) us"
    if "PayloadTagLength g \<le> length body" "peelPayload P (sprpKeys keys) body = Ok raw"
      "surbOf None (ph_Commands (last path)) = None \<longrightarrow> CtIsZero (take (PayloadTagLength g) raw)" for body raw
    using R [of body raw] that n sk(2) fields last by (simp add: keys_def)
  show ?thesis
    using cr len relay gks(2) by (intro exI conjI) (assumption | simp add: sprpKeys_def keys_def)+
qed

lemma newNikePacket_delivered:
  assumes P: "prims_ok P" and N: "nike_ok N V W" and g: "geo_wf (nike_PublicKeySize N) 0 g"
    and ent: "nike_entropy_ok N W ent"
    and path: "path_ok g 0 path" "list_all2 (hop_key N W) path ss"
    and payload: "length payload = ForwardPayloadLength g"
    and fwd: "\<forall>c\<in>set (ph_Commands (last path)). \<not> is_SURBReply c"
  shows "\<exists>pkt us. newNikePacket P N g ent path payload = Ok pkt \<and> length pkt = PacketLength g \<and>
    relay (unwrapNike P N g) ss pkt = Ok us \<and> delivered (PacketLength g) path payload us"
proof -
  obtain hdr ks where h: "createHeader P N g ent path = Ok (hdr, ks)" "length hdr = HeaderLength g"
    and R: "\<And>body raw. PayloadTagLength g \<le> length body \<Longrightarrow> peelPayload P ks body = Ok raw \<Longrightarrow>
      (surbOf None (ph_Commands (last path)) = None \<longrightarrow> CtIsZero (take (PayloadTagLength g) raw)) \<Longrightarrow>
      (\<exists>us. relay (unwrapNike P N g) ss (hdr @ body) = Ok us \<and>
        delivered (HeaderLength g + length body) path (finalPayload g (ph_Commands (last path)) raw) us)"
    using createHeader_relay [OF P N g ent path] by blast
  let ?b = "zeros (PayloadTagLength g) @ payload" and ?e = "encryptPayload P ks (zeros (PayloadTagLength g) @ payload)"
  have "PayloadTagLength g \<le> PerHopRoutingInfoLength g" using geo_wf_lengths [OF g] by simp
  then have new: "newNikePacket P N g ent path payload = Ok (hdr @ ?e)"
    using payload h(1) by (simp add: newNikePacket_def assemblePacket_eq [OF P])
  have le: "length ?e = PayloadTagLength g + ForwardPayloadLength g"
    using length_encryptPayload [OF P] payload by simp
  have pl: "HeaderLength g + length ?e = PacketLength g" using le g by (simp add: geo_wf_def)
  have fin: "finalPayload g (ph_Commands (last path)) ?b = payload"
    using fwd by (simp add: finalPayload_def surbOf_None_iff)
  have "\<exists>us. relay (unwrapNike P N g) ss (hdr @ ?e) = Ok us \<and>
      delivered (HeaderLength g + length ?e) path (finalPayload g (ph_Commands (last path)) ?b) us"
    by (rule R) (simp_all add: le peel_encrypt [OF P])
  with new h(2) show ?thesis unfolding fin pl using pl by auto
qed

section \<open>What processing checks\<close>

lemma forwardPacket_length:
  "riOff \<le> macOff \<Longrightarrow> macOff \<le> payloadOff \<Longrightarrow> 2 \<le> riOff \<Longrightarrow> payloadOff \<le> length pkt \<Longrightarrow>
    length (forwardPacket riOff macOff payloadOff pkt e r c b) = length pkt"
  by (simp add: forwardPacket_def slice_def)

lemma finishPayload_Ok:
  "finishPayload g tag sr cmds pkt b = Ok u \<Longrightarrow>
     uw_replayTag u = tag \<and> uw_cmds u = cmds \<and> uw_pkt u = pkt \<and> uw_payload u \<noteq> None"
  by (auto simp: finishPayload_def split: if_splits)

lemma must_Ok_iff [simp]: "must r = Ok x \<longleftrightarrow> r = Ok x"
  by (cases r) auto

lemma must_not_Fail [simp]: "must r \<noteq> Fail e"
  by (cases r) auto

lemma unwrapNike_Ok_checks:
  assumes "unwrapNike P N g s pkt = Ok u"
  shows "\<exists>ge sec keys. HeaderLength g \<le> length pkt \<and> take 2 pkt = v0AD \<and>
    nike_UnmarshalBinaryPublicKey N (slice 2 (2 + nike_PublicKeySize N) pkt) = Ok ge \<and>
    nike_DeriveSecret N s ge = Ok sec \<and> KDF P sec (Some N) = Ok keys \<and>
    slice (2 + nike_PublicKeySize N + RoutingInfoLength g)
      (2 + nike_PublicKeySize N + RoutingInfoLength g + MACLength) pkt
      = NewMAC P (HeaderMAC keys) (take (2 + nike_PublicKeySize N + RoutingInfoLength g) pkt) \<and>
    uw_replayTag u = Hash P (nike_pk_Bytes N ge) \<and> length (uw_pkt u) = length pkt"
proof -
  obtain ge where ge: "nike_UnmarshalBinaryPublicKey N (slice 2 (2 + nike_PublicKeySize N) pkt) = Ok ge"
    using assms by (cases "nike_UnmarshalBinaryPublicKey N (slice 2 (2 + nike_PublicKeySize N) pkt)")
      (simp_all add: unwrapNike_def Let_def split: if_splits)
  obtain sec keys where k: "nike_DeriveSecret N s ge = Ok sec" "KDF P sec (Some N) = Ok keys"
    using assms ge by (auto simp: unwrapNike_def Let_def obind_Ok_iff split: if_splits)
  have c: "HeaderLength g \<le> length pkt" "take 2 pkt = v0AD"
    "2 + nike_PublicKeySize N + RoutingInfoLength g + MACLength \<le> length pkt"
    "slice (2 + nike_PublicKeySize N + RoutingInfoLength g)
      (2 + nike_PublicKeySize N + RoutingInfoLength g + MACLength) pkt
      = NewMAC P (HeaderMAC keys) (take (2 + nike_PublicKeySize N + RoutingInfoLength g) pkt)"
    using assms ge k by (simp_all add: unwrapNike_def Let_def split: if_splits)
  let ?x = "XORKeyStream P (HeaderEncryption keys) (HeaderEncryptionIV keys)
    (slice (2 + nike_PublicKeySize N) (2 + nike_PublicKeySize N + RoutingInfoLength g) pkt
      @ zeros (PerHopRoutingInfoLength g))"
  obtain nx sr cmds where p: "parseCommands g None None [] (take (PerHopRoutingInfoLength g) ?x) = Ok (nx, sr, cmds)"
    using assms ge k c
    by (cases "parseCommands g None None [] (take (PerHopRoutingInfoLength g) ?x)")
       (auto simp: unwrapNike_def Let_def split: if_splits)
  have "uw_replayTag u = Hash P (nike_pk_Bytes N ge) \<and> length (uw_pkt u) = length pkt"
    using assms ge k c p
    by (cases nx) (auto simp: unwrapNike_def Let_def obind_Ok_iff forwardPacket_length
        dest!: finishPayload_Ok split: if_splits option.splits)
  with ge k c show ?thesis by blast
qed

text \<open>A group element on which the key exchange panics stops the mix before the MAC is checked.\<close>

lemma unwrapNike_derive_panic:
  assumes "HeaderLength g = adLength + nike_PublicKeySize N + RoutingInfoLength g + MACLength"
    and "length elem = nike_PublicKeySize N" "nike_UnmarshalBinaryPublicKey N elem = Ok ge"
    and "nike_DeriveSecret N s ge = Panic"
    and "RoutingInfoLength g + MACLength \<le> length rest"
  shows "unwrapNike P N g s (v0AD @ elem @ rest) = Panic"
proof -
  have "slice 2 (2 + nike_PublicKeySize N) (v0AD @ elem @ rest) = elem"
    using assms(2) by (simp add: slice_def v0AD_def)
  then show ?thesis
    using assms by (simp add: unwrapNike_def Let_def v0AD_def adLength_def)
qed

section \<open>A concrete path\<close>

definition toy_geo :: geometry where
  "toy_geo = (case GeometryFromUserForwardPayloadLength (nike_info.truncate (EcdhNike toy_curve)) 4 False 3 of
     Ok g \<Rightarrow> g | _ \<Rightarrow> demo_geo)"

definition toy_entropy :: "(bytes, ecdh_PrivateKey) entropy" where
  "toy_entropy = \<lparr>ent_keypair = Some (pubKey (toy_key 9), toy_key 9),
     ent_randReader = (\<lambda>n. Some (zeros n)), ent_r = (\<lambda>n. Some (zeros n))\<rparr>"

definition toy_path :: "routing_command list \<Rightarrow> (bytes, unit) PathHop list" where
  "toy_path cmds =
     [\<lparr>ph_ID = replicate 32 1, ph_NIKEPublicKey = Some (pubKey (toy_key 5)), ph_KEMPublicKey = None,
       ph_Commands = [NodeDelay 7]\<rparr>,
      \<lparr>ph_ID = replicate 32 2, ph_NIKEPublicKey = Some (pubKey (toy_key 6)), ph_KEMPublicKey = None,
       ph_Commands = cmds\<rparr>]"

lemma toy_geo_eq:
  "GeometryFromUserForwardPayloadLength (nike_info.truncate (EcdhNike toy_curve)) 4 False 3 = Ok toy_geo"
  using nike_geometry_total [of "nike_info.truncate (EcdhNike toy_curve)" 4 False 3]
  by (auto simp: toy_geo_def)

lemma toy_geo_wf: "geo_wf (nike_PublicKeySize (EcdhNike toy_curve)) 0 toy_geo" "NrHops toy_geo = 3"
  using nike_geometry_ok [OF toy_geo_eq] by (simp_all add: nike_info.truncate_def)

lemma toy_entropy_ok: "nike_entropy_ok (EcdhNike toy_curve) (ecdh_sk_ok toy_curve) toy_entropy"
  using toy_key_ok [of 9] by (auto simp: nike_entropy_ok_def toy_entropy_def reader_ok_def EcdhNike_def)

lemma toy_hop_keys:
  "list_all2 (hop_key (EcdhNike toy_curve) (ecdh_sk_ok toy_curve)) (toy_path cmds) [toy_key 5, toy_key 6]"
  by (simp add: toy_path_def hop_key_def toy_key_ok EcdhNike_def)

lemma toy_path_ok: "cmds_fit toy_geo 0 cmds True \<Longrightarrow> path_ok toy_geo 0 (toy_path cmds)"
  using geo_wf_lengths [OF toy_geo_wf(1)] toy_geo_wf(2)
  by (simp add: path_ok_def toy_path_def cmds_fit_def rc_printers NodeIDLength_def)

lemma toy_recipient_fits: "cmds_fit toy_geo 0 [Recipient (replicate 32 3)] True"
  using geo_wf_lengths [OF toy_geo_wf(1)]
  by (simp add: cmds_fit_def rc_printers RecipientIDLength_def)

lemma toy_accepted:
  "\<exists>pkt u. unwrapNike toy_sphinx (EcdhNike toy_curve) toy_geo (toy_key 5) pkt = Ok u"
proof -
  have "\<exists>pkt us. newNikePacket toy_sphinx (EcdhNike toy_curve) toy_geo toy_entropy
      (toy_path [Recipient (replicate 32 3)]) (zeros (ForwardPayloadLength toy_geo)) = Ok pkt \<and>
    length pkt = PacketLength toy_geo \<and>
    relay (unwrapNike toy_sphinx (EcdhNike toy_curve) toy_geo) [toy_key 5, toy_key 6] pkt = Ok us \<and>
    delivered (PacketLength toy_geo) (toy_path [Recipient (replicate 32 3)])
      (zeros (ForwardPayloadLength toy_geo)) us"
    by (rule newNikePacket_delivered [OF toy_sphinx_ok ecdh_nike_ok [OF toy_curve_ok] toy_geo_wf(1)
          toy_entropy_ok toy_path_ok [OF toy_recipient_fits] toy_hop_keys])
       (simp_all add: toy_path_def)
  then show ?thesis by (auto simp: obind_Ok_iff)
qed

section \<open>Properties\<close>

text \<open>
  C2: a forward packet that \<^verbatim>\<open>newNikePacket\<close> creates for a well-formed path is created without error,
  has the length of the geometry, and is accepted by every hop of the path in turn with
  \<^verbatim>\<open>unwrapNike\<close>.  Each hop reads exactly its own commands and the identifier of the next hop,
  forwards a packet of the same length, and the last hop obtains the payload.
\<close>

theorem nike_packet_delivery:
  assumes "prims_ok P" and "nike_ok N V W"
    and "GeometryFromUserForwardPayloadLength (nike_info.truncate N) user withSURB nrHops = Ok g"
    and "nike_entropy_ok N W ent"
    and "path_ok g 0 path" and "list_all2 (hop_key N W) path ss"
    and "length payload = ForwardPayloadLength g"
    and "\<forall>c\<in>set (ph_Commands (last path)). \<not> is_SURBReply c"
  shows "\<exists>pkt us. newNikePacket P N g ent path payload = Ok pkt \<and> length pkt = PacketLength g \<and>
    relay (unwrapNike P N g) ss pkt = Ok us \<and> delivered (PacketLength g) path payload us"
  using newNikePacket_delivered [OF assms(1,2) _ assms(4-8)] nike_geometry_ok(1) [OF assms(3)]
  by (simp add: nike_info.truncate_def)

theorem nike_packet_delivery_witness:
  "\<exists>pkt us. newNikePacket toy_sphinx (EcdhNike toy_curve) toy_geo toy_entropy
      (toy_path [Recipient (replicate 32 3)]) (zeros (ForwardPayloadLength toy_geo)) = Ok pkt \<and>
    length pkt = PacketLength toy_geo \<and>
    relay (unwrapNike toy_sphinx (EcdhNike toy_curve) toy_geo) [toy_key 5, toy_key 6] pkt = Ok us \<and>
    delivered (PacketLength toy_geo) (toy_path [Recipient (replicate 32 3)])
      (zeros (ForwardPayloadLength toy_geo)) us"
  by (rule nike_packet_delivery [OF toy_sphinx_ok ecdh_nike_ok [OF toy_curve_ok] toy_geo_eq
        toy_entropy_ok toy_path_ok [OF toy_recipient_fits] toy_hop_keys])
     (simp_all add: toy_path_def)

text \<open>
  C25: \<^verbatim>\<open>unwrapNike\<close> accepts a packet only if it is long enough, has version zero, and carries in its
  MAC field the MAC, under the key derived from the hop's private key and the packet's group element,
  of everything before that field.  The packet it leaves has the length of the packet it got, and
  the replay tag is the hash of the group element.
\<close>

theorem unwrapNike_accepts_only_authentic:
  assumes "unwrapNike P N g s pkt = Ok u"
  shows "\<exists>ge sec keys. HeaderLength g \<le> length pkt \<and> take 2 pkt = v0AD \<and>
    nike_UnmarshalBinaryPublicKey N (slice 2 (2 + nike_PublicKeySize N) pkt) = Ok ge \<and>
    nike_DeriveSecret N s ge = Ok sec \<and> KDF P sec (Some N) = Ok keys \<and>
    slice (2 + nike_PublicKeySize N + RoutingInfoLength g)
      (2 + nike_PublicKeySize N + RoutingInfoLength g + MACLength) pkt
      = NewMAC P (HeaderMAC keys) (take (2 + nike_PublicKeySize N + RoutingInfoLength g) pkt) \<and>
    uw_replayTag u = Hash P (nike_pk_Bytes N ge) \<and> length (uw_pkt u) = length pkt"
  using assms by (rule unwrapNike_Ok_checks)

theorem unwrapNike_accepts_only_authentic_witness:
  "\<exists>pkt u ge sec keys.
    unwrapNike toy_sphinx (EcdhNike toy_curve) toy_geo (toy_key 5) pkt = Ok u \<and>
    HeaderLength toy_geo \<le> length pkt \<and> take 2 pkt = v0AD \<and>
    nike_DeriveSecret (EcdhNike toy_curve) (toy_key 5) ge = Ok sec \<and>
    KDF toy_sphinx sec (Some (EcdhNike toy_curve)) = Ok keys \<and>
    slice (34 + RoutingInfoLength toy_geo) (34 + RoutingInfoLength toy_geo + MACLength) pkt
      = NewMAC toy_sphinx (HeaderMAC keys) (take (34 + RoutingInfoLength toy_geo) pkt) \<and>
    length (uw_pkt u) = length pkt"
proof -
  obtain pkt u where u: "unwrapNike toy_sphinx (EcdhNike toy_curve) toy_geo (toy_key 5) pkt = Ok u"
    using toy_accepted by blast
  have n: "2 + nike_PublicKeySize (EcdhNike toy_curve) = 34"
    by (simp add: EcdhNike_def GroupElementLength_def)
  show ?thesis using unwrapNike_accepts_only_authentic [OF u, unfolded n] u by blast
qed

text \<open>
  C39: over X25519 a packet whose group element is a point of low order makes \<^verbatim>\<open>unwrapNike\<close> panic,
  before any authentication: the curve function returns an error there, which
  \<^verbatim>\<open>ecdh.Exp\<close> turns into a panic.  No key is needed to build such a packet.
\<close>

theorem unwrapNike_low_order_panic:
  assumes "geo_wf (nike_PublicKeySize (EcdhNike E)) 0 g"
    and "length ge = GroupElementLength" "length (privBytes s) = GroupElementLength"
    and "X25519 E (privBytes s) ge = None"
    and "RoutingInfoLength g + MACLength \<le> length rest"
  shows "unwrapNike P (EcdhNike E) g s ([0, 0] @ ge @ rest) = Panic"
proof -
  have "nike_UnmarshalBinaryPublicKey (EcdhNike E) ge = Ok ge" "length ge = nike_PublicKeySize (EcdhNike E)"
    using assms(2) by (simp_all add: EcdhNike_def ecdh_pk_FromBytes_ok)
  moreover have "nike_DeriveSecret (EcdhNike E) s ge = Panic"
    using assms by (simp add: EcdhNike_def EcdhNike_DeriveSecret_def ecdh_Exp_def)
  ultimately show ?thesis
    using unwrapNike_derive_panic [of g "EcdhNike E" ge ge s rest P] assms(1,5)
    by (simp add: geo_wf_def v0AD_def)
qed

theorem unwrapNike_low_order_panic_witness:
  "unwrapNike toy_sphinx (EcdhNike toy_curve) toy_geo (toy_key 5)
     ([0, 0] @ zeros 32 @ zeros (RoutingInfoLength toy_geo + MACLength)) = Panic"
  by (rule unwrapNike_low_order_panic [OF toy_geo_wf(1)])
     (simp_all add: GroupElementLength_def toy_key_def toy_curve_def zeros_def)

end
