(* ===== verification/Sphinx_Kem.thy ===== *)
theory Sphinx_Kem
  imports Sphinx_Nike
begin

text \<open>
  The KEM packet format of \<^verbatim>\<open>src/core/sphinx/kemsphinx.go\<close>: \<^verbatim>\<open>createKEMHeader\<close>, \<^verbatim>\<open>newKEMPacket\<close> and
  \<^verbatim>\<open>unwrapKem\<close>.  The header carries one KEM ciphertext in the clear; the ciphertexts for the later
  hops travel at the end of the encrypted blocks.  The KEM itself (\<^verbatim>\<open>cloudflare/circl\<close>) is a parameter.
  \<open>kem_relay_header\<close> is the counterpart of \<open>nike_relay_header\<close>; its condition on the commands is stronger
  than the check the code makes, and \<open>relay_room\<close> shows that no packet is delivered without it.
\<close>

section \<open>The KEM\<close>

text \<open>\<^verbatim>\<open>Encapsulate\<close> draws its own randomness; it is given here as the second argument.\<close>

record ('kpk, 'ksk) kem_scheme = kem_info +
  kem_Encapsulate :: "'kpk \<Rightarrow> bytes \<Rightarrow> (bytes \<times> bytes) option"
  kem_Decapsulate :: "'ksk \<Rightarrow> bytes \<Rightarrow> bytes option"

text \<open>
  A key pair of the KEM: encapsulation to the public key succeeds, yields a ciphertext of the
  scheme's size, and decapsulation recovers the shared secret.
\<close>

definition kem_pair :: "('kpk, 'ksk) kem_scheme \<Rightarrow> 'kpk \<Rightarrow> 'ksk \<Rightarrow> bool" where
  "kem_pair K pk sk \<longleftrightarrow>
     (\<forall>r. \<exists>ct ss. kem_Encapsulate K pk r = Some (ct, ss) \<and> length ct = kem_CiphertextSize K \<and>
        kem_Decapsulate K sk ct = Some ss)"

section \<open>Creating a packet\<close>

type_synonym kem_keys = "unit PacketKeys"

text \<open>\<open>coins i\<close> is the randomness of the encapsulation for hop \<open>i\<close>.\<close>

fun kemKeys ::
    "sphinx_prims \<Rightarrow> ('kpk, 'ksk) kem_scheme \<Rightarrow> (nat \<Rightarrow> bytes) \<Rightarrow> nat \<Rightarrow> ('pk, 'kpk) PathHop list
      \<Rightarrow> (sphinx_error, (bytes \<times> kem_keys) list) outcome" where
  "kemKeys P K coins i [] = Ok []"
| "kemKeys P K coins i (h # path) =
     (case ph_KEMPublicKey h of None \<Rightarrow> Panic
      | Some pk \<Rightarrow>
        (case kem_Encapsulate K pk (coins i) of None \<Rightarrow> Panic
         | Some (ct, sharedSecret) \<Rightarrow>
           obind (must (KDF P sharedSecret (None :: (unit, unit) nike_scheme option))) (\<lambda>k.
           obind (kemKeys P K coins (i + 1) path) (\<lambda>r. Ok ((ct, k) # r)))))"

definition kemFragment ::
    "nat \<Rightarrow> geometry \<Rightarrow> ('pk, 'kpk, unit) layer \<Rightarrow> ('pk, 'kpk, unit) layer option \<Rightarrow> bytes
      \<Rightarrow> (sphinx_error, bytes) outcome" where
  "kemFragment ctSize g l nxt mac =
     obind (riFragment g (ph_Commands (ly_hop l)) (map_option (\<lambda>l'. ph_ID (ly_hop l')) nxt) mac)
       (\<lambda>b. case nxt of None \<Rightarrow> Ok b
            | Some l' \<Rightarrow>
                if PerHopRoutingInfoLength g < ctSize then Panic
                else Ok (copy_at (PerHopRoutingInfoLength g - ctSize) b (ly_elem l')))"

record kem_entropy =
  kent_coins :: "nat \<Rightarrow> bytes"
  kent_randReader :: "nat \<Rightarrow> bytes option"
  kent_r :: "nat \<Rightarrow> bytes option"

definition createKEMHeader ::
    "sphinx_prims \<Rightarrow> ('kpk, 'ksk) kem_scheme \<Rightarrow> geometry \<Rightarrow> kem_entropy
      \<Rightarrow> ('pk, 'kpk) PathHop list \<Rightarrow> (sphinx_error, bytes \<times> sprpKey list) outcome" where
  "createKEMHeader P K g ent path =
     (if length path > NrHops g then Fail ErrInvalidPath
      else
        obind (kemKeys P K (kent_coins ent) 0 path) (\<lambda>cks.
        let elems = map fst cks; keys = map snd cks in
        obind (riStreams P g 0 [] keys) (\<lambda>streams.
        obind (must (skippedInfo g (kent_randReader ent) (length path))) (\<lambda>skipped.
        obind (routingBlocks P (kemFragment (kem_CiphertextSize K) g) skipped []
            (mkLayers path keys elems streams))
          (\<lambda>(routingInfo, mac).
        (case elems of [] \<Rightarrow> Panic
         | e # _ \<Rightarrow> Ok (v0AD @ e @ routingInfo @ mac, sprpKeys keys)))))))"

definition newKEMPacket ::
    "sphinx_prims \<Rightarrow> ('kpk, 'ksk) kem_scheme \<Rightarrow> geometry \<Rightarrow> kem_entropy
      \<Rightarrow> ('pk, 'kpk) PathHop list \<Rightarrow> bytes \<Rightarrow> (sphinx_error, bytes) outcome" where
  "newKEMPacket P K g ent path payload =
     (if length payload \<noteq> ForwardPayloadLength g then Fail ErrPayloadLength
      else obind (createKEMHeader P K g ent path) (\<lambda>(hdr, ks). assemblePacket P g hdr ks payload))"

section \<open>Processing a hop\<close>

definition unwrapKem ::
    "sphinx_prims \<Rightarrow> ('kpk, 'ksk) kem_scheme \<Rightarrow> geometry \<Rightarrow> 'ksk \<Rightarrow> bytes \<Rightarrow> unwrap_result" where
  "unwrapKem P K g privKey pkt =
     (let geOff = 2;
          riOff = geOff + kem_CiphertextSize K;
          macOff = riOff + RoutingInfoLength g;
          payloadOff = macOff + MACLength
      in
      if length pkt < HeaderLength g then Fail (ErrTruncated, None)
      else if length pkt < 2 then Panic
      else if take 2 pkt \<noteq> v0AD then Fail (ErrVersion, None)
      else if length pkt < riOff then Panic
      else
        let kemCiphertext = slice geOff riOff pkt in
        (case kem_Decapsulate K privKey kemCiphertext of
           None \<Rightarrow> Fail (ErrDecapsulate, None)
         | Some sharedSecret \<Rightarrow>
           let replayTag = Hash P kemCiphertext in
           obind (must (KDF P sharedSecret (None :: (unit, unit) nike_scheme option))) (\<lambda>keys.
           if length pkt < payloadOff then Panic
           else if slice macOff payloadOff pkt \<noteq> NewMAC P (HeaderMAC keys) (take macOff pkt)
                then Fail (ErrMAC, Some replayTag)
           else if PerHopRoutingInfoLength g < kem_CiphertextSize K then Panic
           else
             let b = XORKeyStream P (HeaderEncryption keys) (HeaderEncryptionIV keys)
                       (slice riOff macOff pkt @ zeros (PerHopRoutingInfoLength g));
                 cmdBuf = take (PerHopRoutingInfoLength g - kem_CiphertextSize K) b;
                 nextCiphertext = slice (PerHopRoutingInfoLength g - kem_CiphertextSize K)
                                    (PerHopRoutingInfoLength g) b;
                 newRoutingInfo = drop (PerHopRoutingInfoLength g) b
             in (case parseCommands g None None [] cmdBuf of
                   Panic \<Rightarrow> Panic
                 | Fail e \<Rightarrow> Fail (ErrParse e, Some replayTag)
                 | Ok (nextNode, surbReply, cmds) \<Rightarrow>
                   obind (decryptPayload P keys (drop payloadOff pkt)) (\<lambda>payload.
                   (case nextNode of
                      Some (_, nextMAC) \<Rightarrow>
                        Ok \<lparr>uw_payload = None, uw_replayTag = replayTag, uw_cmds = cmds,
                            uw_pkt = forwardPacket riOff macOff payloadOff pkt nextCiphertext
                                       newRoutingInfo nextMAC payload\<rparr>
                    | None \<Rightarrow> finishPayload g replayTag surbReply cmds pkt payload))))))"

section \<open>The block builder\<close>

lemma kemFragment_fits:
  assumes g: "NextNodeHopLength g = CommandTagLength + NodeIDLength + MACLength" "ct \<le> PerHopRoutingInfoLength g"
    and f: "cmds_fit g ct (ph_Commands (ly_hop l)) (nx = None)"
  shows "\<exists>f k. kemFragment ct g l nx mac = Ok f \<and> length f = PerHopRoutingInfoLength g \<and>
    take (PerHopRoutingInfoLength g - ct) f =
      cmds_bytes (ph_Commands (ly_hop l) @ nextCmd (map_option (\<lambda>l'. ph_ID (ly_hop l')) nx) mac) @ zeros k"
proof -
  let ?ph = "PerHopRoutingInfoLength g" and ?nx = "map_option (\<lambda>l'. ph_ID (ly_hop l')) nx"
  let ?c = "cmds_bytes (ph_Commands (ly_hop l) @ nextCmd ?nx mac)"
  obtain k where k: "riFragment g (ph_Commands (ly_hop l)) ?nx mac = Ok (?c @ zeros k)" "length ?c + k = ?ph"
    using riFragment_fits [OF g(1), of ct "ph_Commands (ly_hop l)" ?nx mac] f by auto
  have "length ?c + ct \<le> ?ph"
    using f g(1) by (cases nx) (auto simp: cmds_fit_def nextCmd_def rc_printers sphinx_constants)
  then obtain j where j: "?ph - ct = length ?c + j" "j \<le> k"
    using that [of "?ph - ct - length ?c"] k(2) by linarith
  have t: "take (?ph - ct) (?c @ zeros k) = ?c @ zeros j"
    unfolding j(1) using j(2) by (simp add: min_absorb1 del: cmds_bytes_simps)
  define F where "F = ?c @ zeros k"
  have F: "riFragment g (ph_Commands (ly_hop l)) ?nx mac = Ok F" "length F = ?ph"
    "take (?ph - ct) F = ?c @ zeros j"
    using k t by (simp_all only: F_def length_append length_zeros)
  show ?thesis
  proof (cases nx)
    case None
    then show ?thesis using F by (auto simp: kemFragment_def)
  next
    case (Some l')
    then have "kemFragment ct g l nx mac = Ok (copy_at (?ph - ct) F (ly_elem l'))"
      using F(1) g(2) by (simp add: kemFragment_def)
    then show ?thesis using F by (intro exI conjI) (assumption | simp add: take_copy_at)+
  qed
qed

lemma kemFragment_length:
  assumes "NextNodeHopLength g = CommandTagLength + NodeIDLength + MACLength" "ct \<le> PerHopRoutingInfoLength g"
    and "kemFragment ct g l nx mac = Ok f"
  shows "length f = PerHopRoutingInfoLength g"
  using assms riFragment_length [OF assms(1)]
  by (cases nx) (auto simp: kemFragment_def obind_Ok_iff)

text \<open>The next hop's ciphertext is the tail of the block.\<close>

lemma kemFragment_elem:
  assumes "NextNodeHopLength g = CommandTagLength + NodeIDLength + MACLength" "ct \<le> PerHopRoutingInfoLength g"
    and "kemFragment ct g l (Some l') mac = Ok f" "length (ly_elem l') = ct"
  shows "drop (PerHopRoutingInfoLength g - ct) f = ly_elem l'"
proof -
  obtain b where b: "riFragment g (ph_Commands (ly_hop l)) (Some (ph_ID (ly_hop l'))) mac = Ok b"
    "f = copy_at (PerHopRoutingInfoLength g - ct) b (ly_elem l')"
    using assms(2,3) by (auto simp: kemFragment_def obind_Ok_iff)
  then have "length b = PerHopRoutingInfoLength g" using riFragment_length [OF assms(1)] by blast
  then show ?thesis using b(2) assms(2,4) by (simp add: copy_at_def copy_into_same)
qed

interpretation kem_block: hop_block "kemFragment ct"
  "\<lambda>g. NextNodeHopLength g = CommandTagLength + NodeIDLength + MACLength \<and> ct \<le> PerHopRoutingInfoLength g"
  "\<lambda>g l nx. cmds_fit g ct (ph_Commands (ly_hop l)) (nx = None)"
  "\<lambda>g f. take (PerHopRoutingInfoLength g - ct) f"
  for ct :: nat
proof (unfold_locales, goal_cases)
  case (1 g l nx mac f)
  then show ?case using kemFragment_length [of g ct l nx mac f] by blast
next
  case (2 g l nx mac)
  then show ?case using kemFragment_fits [of g ct l nx mac] by auto
next
  case (3 g l nx mac f)
  then obtain k where k: "take (PerHopRoutingInfoLength g - ct) f =
      cmds_bytes (ph_Commands (ly_hop l) @ nextCmd (map_option (\<lambda>l'. ph_ID (ly_hop l')) nx) mac) @ zeros k"
    using kemFragment_fits [of g ct l nx mac] by auto
  show ?case
    unfolding k using parse_fragment [OF _ 3(2), of "map_option (\<lambda>l'. ph_ID (ly_hop l')) nx" mac k] 3(1)
    by (simp add: option.map_comp comp_def)
qed

text \<open>Blocks are built for all commands that pass the check of the code, which reserves no room.\<close>

interpretation kem_builder: block_builder "kemFragment ct"
  "\<lambda>g. NextNodeHopLength g = CommandTagLength + NodeIDLength + MACLength \<and> ct \<le> PerHopRoutingInfoLength g"
  "\<lambda>g l nx. cmds_fit g 0 (ph_Commands (ly_hop l)) (nx = None)"
  for ct :: nat
proof (unfold_locales, goal_cases)
  case (1 g l nx mac f)
  then show ?case using kemFragment_length [of g ct l nx mac f] by blast
next
  case (2 g l nx mac)
  then show ?case
    using riFragment_fits [of g 0 "ph_Commands (ly_hop l)" "map_option (\<lambda>l'. ph_ID (ly_hop l')) nx" mac]
    by (cases nx) (auto simp: kemFragment_def)
qed

section \<open>Processing what was created\<close>

abbreviation kem_KDF :: "sphinx_prims \<Rightarrow> bytes \<Rightarrow> (nike_error, kem_keys) outcome" where
  "kem_KDF P ss \<equiv> KDF P ss (None :: (unit, unit) nike_scheme option)"

text \<open>The ciphertexts and keys, as the hops with private keys \<open>ss\<close> recover them.\<close>

fun kem_chain ::
    "sphinx_prims \<Rightarrow> ('kpk, 'ksk) kem_scheme \<Rightarrow> (bytes \<times> kem_keys) list \<Rightarrow> 'ksk list \<Rightarrow> bool" where
  "kem_chain P K [] [] \<longleftrightarrow> True"
| "kem_chain P K ((ct, k) # r) (s # ss) \<longleftrightarrow>
     length ct = kem_CiphertextSize K \<and>
     (\<exists>sec. kem_Decapsulate K s ct = Some sec \<and> kem_KDF P sec = Ok k) \<and> kem_chain P K r ss"
| "kem_chain P K _ _ \<longleftrightarrow> False"

definition kem_hop :: "('kpk, 'ksk) kem_scheme \<Rightarrow> ('pk, 'kpk) PathHop \<Rightarrow> 'ksk \<Rightarrow> bool" where
  "kem_hop K h s \<longleftrightarrow> (\<exists>pk. ph_KEMPublicKey h = Some pk \<and> kem_pair K pk s)"

lemma kemKeys_chain:
  assumes P: "prims_ok P" and "list_all2 (kem_hop K) path ss"
  shows "\<exists>r. kemKeys P K coins i path = Ok r \<and> length r = length path \<and> kem_chain P K r ss"
  using assms(2)
proof (induction path ss arbitrary: i rule: list_all2_induct)
  case (Cons h path s ss)
  obtain pk where pk: "ph_KEMPublicKey h = Some pk" "kem_pair K pk s"
    using Cons.hyps by (auto simp: kem_hop_def)
  then obtain ct sec where c: "kem_Encapsulate K pk (coins i) = Some (ct, sec)"
    "length ct = kem_CiphertextSize K" "kem_Decapsulate K s ct = Some sec"
    unfolding kem_pair_def by blast
  obtain k where "kem_KDF P sec = Ok k" using KDF_kem [OF P] by blast
  moreover obtain r where "kemKeys P K coins (i + 1) path = Ok r" "length r = length path" "kem_chain P K r ss"
    using Cons.IH by blast
  ultimately show ?case using pk c by simp
qed simp

lemma unwrapKem_authentic:
  assumes V: "length ct = kem_CiphertextSize K" "kem_CiphertextSize K \<le> PerHopRoutingInfoLength g"
    and g: "HeaderLength g = adLength + kem_CiphertextSize K + RoutingInfoLength g + MACLength"
    and sec: "kem_Decapsulate K s ct = Some sec" "kem_KDF P sec = Ok keys"
    and len: "length ri = RoutingInfoLength g" "length mac = MACLength"
    and mac: "mac = NewMAC P (HeaderMAC keys) (v0AD @ ct @ ri)"
    and b: "b = XORKeyStream P (HeaderEncryption keys) (HeaderEncryptionIV keys)
          (ri @ zeros (PerHopRoutingInfoLength g))"
    and pc: "parseCommands g None None [] (take (PerHopRoutingInfoLength g - kem_CiphertextSize K) b)
      = Ok (nextNode, surb, cmds)"
    and pl: "decryptPayload P keys body = (Ok payload :: (sphinx_error \<times> bytes option, bytes) outcome)"
  shows "unwrapKem P K g s (v0AD @ ct @ ri @ mac @ body) =
    (case nextNode of
       Some (_, nextMAC) \<Rightarrow>
         Ok \<lparr>uw_payload = None, uw_replayTag = Hash P ct, uw_cmds = cmds,
             uw_pkt = forwardPacket (2 + kem_CiphertextSize K) (2 + kem_CiphertextSize K + RoutingInfoLength g)
                  (2 + kem_CiphertextSize K + RoutingInfoLength g + MACLength)
                  (v0AD @ ct @ ri @ mac @ body)
                  (slice (PerHopRoutingInfoLength g - kem_CiphertextSize K) (PerHopRoutingInfoLength g) b)
                  (drop (PerHopRoutingInfoLength g) b) nextMAC payload\<rparr>
     | None \<Rightarrow> finishPayload g (Hash P ct) surb cmds (v0AD @ ct @ ri @ mac @ body) payload)"
proof -
  let ?pkt = "v0AD @ ct @ ri @ mac @ body" and ?n = "kem_CiphertextSize K" and ?m = "RoutingInfoLength g"
  have ad: "length v0AD = 2" by (simp add: v0AD_def)
  have len_pkt: "length ?pkt = 2 + ?n + ?m + MACLength + length body" using V len ad by simp
  then have chk: "\<not> length ?pkt < HeaderLength g" "\<not> length ?pkt < 2" "\<not> length ?pkt < 2 + ?n"
    "\<not> length ?pkt < 2 + ?n + ?m + MACLength" "\<not> PerHopRoutingInfoLength g < ?n"
    using g V(2) by (simp_all add: adLength_def)
  have sl: "take 2 ?pkt = v0AD" "slice 2 (2 + ?n) ?pkt = ct"
    "slice (2 + ?n) (2 + ?n + ?m) ?pkt = ri"
    "slice (2 + ?n + ?m) (2 + ?n + ?m + MACLength) ?pkt = mac"
    "take (2 + ?n + ?m) ?pkt = v0AD @ ct @ ri"
    "drop (2 + ?n + ?m + MACLength) ?pkt = body"
    using V len ad by (simp_all add: slice_def)
  show ?thesis
    unfolding unwrapKem_def Let_def
    by (simp only: chk sl sec b [symmetric] pc pl if_False outcome.case option.case prod.case obind.simps
        must.simps mac [symmetric] simp_thms)
qed

abbreviation kem_fits where
  "kem_fits ct g \<equiv> \<lambda>l nx. cmds_fit g ct (ph_Commands (ly_hop l)) (nx = None)"

lemma unwrapKem_layer:
  assumes P: "prims_ok P" and g: "geo_wf (kem_CiphertextSize K) (kem_CiphertextSize K) g"
    and el: "length (ly_elem l) = kem_CiphertextSize K"
    and sec: "kem_Decapsulate K s (ly_elem l) = Some sec" "kem_KDF P sec = Ok (ly_keys l)"
    and lo: "layers_ok P g i prev (l # ls)" and n: "i + length (l # ls) \<le> NrHops g"
    and prev: "length prev = i * PerHopRoutingInfoLength g"
    and skipped: "length skipped = (NrHops g - (i + length (l # ls))) * PerHopRoutingInfoLength g"
    and fit: "kem_fits (kem_CiphertextSize K) g l (hd_option ls)"
    and rb: "routingBlocks P (kemFragment (kem_CiphertextSize K) g) skipped prev (l # ls) = Ok (ri, mac)"
    and pl: "decryptPayload P (ly_keys l) body = (Ok body' :: (sphinx_error \<times> bytes option, bytes) outcome)"
      "length body' = length body"
    and pkt: "pkt = v0AD @ ly_elem l @ (ri @ prev) @ mac @ body"
  shows "ls = [] \<Longrightarrow> unwrapKem P K g s pkt =
      finishPayload g (Hash P (ly_elem l)) (surbOf None (ph_Commands (ly_hop l)))
        (ph_Commands (ly_hop l)) pkt body'"
    and "ls = l' # ls' \<Longrightarrow> length (ph_ID (ly_hop l')) = NodeIDLength \<Longrightarrow>
      length (ly_elem l') = kem_CiphertextSize K \<Longrightarrow>
      \<exists>ri' mac'. routingBlocks P (kemFragment (kem_CiphertextSize K) g) skipped (ly_riPadding l) ls = Ok (ri', mac') \<and>
        length mac' = MACLength \<and> length (ri' @ ly_riPadding l) = RoutingInfoLength g \<and>
        unwrapKem P K g s pkt = Ok \<lparr>uw_payload = None, uw_replayTag = Hash P (ly_elem l),
          uw_cmds = ph_Commands (ly_hop l) @ [NextNodeHop (ph_ID (ly_hop l')) mac'],
          uw_pkt = v0AD @ ly_elem l' @ (ri' @ ly_riPadding l) @ mac' @ body'\<rparr>"
proof -
  let ?ct = "kem_CiphertextSize K"
  let ?ph = "PerHopRoutingInfoLength g" and ?cs = "ph_Commands (ly_hop l)"
  have NN: "NextNodeHopLength g = CommandTagLength + NodeIDLength + MACLength" and ct: "?ct \<le> ?ph"
    and RI: "RoutingInfoLength g = ?ph * NrHops g"
    and H: "HeaderLength g = adLength + ?ct + RoutingInfoLength g + MACLength"
    using g by (simp_all add: geo_wf_def)
  note good = conjI [OF NN ct]
  obtain ri' mac' f where peel: "routingBlocks P (kemFragment ?ct g) skipped (ly_riPadding l) ls = Ok (ri', mac')"
    "kemFragment ?ct g l (hd_option ls) mac' = Ok f" "length f = ?ph"
    "mac = headerMAC P (ly_keys l) (ly_elem l) ri prev" "length ri + length prev = RoutingInfoLength g"
    "length ri' + length (ly_riPadding l) = RoutingInfoLength g"
    "XORKeyStream P (HeaderEncryption (ly_keys l)) (HeaderEncryptionIV (ly_keys l))
      (ri @ prev @ zeros ?ph) = f @ ri' @ ly_riPadding l"
    using kem_block.peel_layer [OF P good RI lo n prev skipped rb] by blast
  define x where "x = XORKeyStream P (HeaderEncryption (ly_keys l)) (HeaderEncryptionIV (ly_keys l))
      ((ri @ prev) @ zeros ?ph)"
  have x: "take (?ph - ?ct) x = take (?ph - ?ct) f" "drop ?ph x = ri' @ ly_riPadding l"
    "slice (?ph - ?ct) ?ph x = drop (?ph - ?ct) f"
    using peel(3,7) ct by (simp_all add: x_def slice_def)
  have um: "length (ri @ prev) = RoutingInfoLength g" "length mac = MACLength"
    "mac = NewMAC P (HeaderMAC (ly_keys l)) (v0AD @ ly_elem l @ ri @ prev)"
    using peel(4,5) length_NewMAC [OF P] by (simp_all add: headerMAC_def)
  note uw = unwrapKem_authentic [OF el ct H sec um x_def]
  note pc = kem_block.frag_parse [OF good fit peel(2)]
  {
    assume ls: "ls = []"
    have pc0: "parseCommands g None None [] (take (?ph - ?ct) x) = Ok (None, surbOf None ?cs, ?cs)"
      using pc ls x(1) by (simp add: nextCmd_def)
    show "unwrapKem P K g s pkt = finishPayload g (Hash P (ly_elem l)) (surbOf None ?cs) ?cs pkt body'"
      unfolding pkt by (subst uw [OF pc0 pl(1)]) (simp only: option.case)
  }
  {
    assume ls: "ls = l' # ls'" and idl: "length (ph_ID (ly_hop l')) = NodeIDLength"
      and el': "length (ly_elem l') = ?ct"
    have ml: "length mac' = MACLength" using routingBlocks_mac [OF P] peel(1) ls by blast
    have pc': "parseCommands g None None [] (take (?ph - ?ct) x) =
        Ok (Some (ph_ID (ly_hop l'), mac'), surbOf None ?cs, ?cs @ [NextNodeHop (ph_ID (ly_hop l')) mac'])"
      using pc ls idl ml x(1) by (simp add: nextCmd_exact copy_into_same)
    have e: "drop (?ph - ?ct) f = ly_elem l'"
      using kemFragment_elem [OF NN ct _ el'] peel(2) ls by simp
    have fw: "forwardPacket (2 + ?ct) (2 + ?ct + RoutingInfoLength g)
        (2 + ?ct + RoutingInfoLength g + MACLength)
        (v0AD @ ly_elem l @ (ri @ prev) @ mac @ body) (ly_elem l') (ri' @ ly_riPadding l) mac' body'
        = v0AD @ ly_elem l' @ (ri' @ ly_riPadding l) @ mac' @ body'"
      by (rule forwardPacket_eq) (use um ml peel(6) pl(2) el el' in \<open>simp_all add: v0AD_def\<close>)
    have "unwrapKem P K g s pkt = Ok \<lparr>uw_payload = None, uw_replayTag = Hash P (ly_elem l),
          uw_cmds = ?cs @ [NextNodeHop (ph_ID (ly_hop l')) mac'],
          uw_pkt = v0AD @ ly_elem l' @ (ri' @ ly_riPadding l) @ mac' @ body'\<rparr>"
      unfolding pkt
      by (subst uw [OF pc' pl(1)]) (simp only: option.case prod.case x(2,3) e fw)
    then show "\<exists>ri' mac'. routingBlocks P (kemFragment ?ct g) skipped (ly_riPadding l) ls = Ok (ri', mac') \<and>
        length mac' = MACLength \<and> length (ri' @ ly_riPadding l) = RoutingInfoLength g \<and>
        unwrapKem P K g s pkt = Ok \<lparr>uw_payload = None, uw_replayTag = Hash P (ly_elem l),
          uw_cmds = ?cs @ [NextNodeHop (ph_ID (ly_hop l')) mac'],
          uw_pkt = v0AD @ ly_elem l' @ (ri' @ ly_riPadding l) @ mac' @ body'\<rparr>"
      using peel(1,6) ml by (intro exI conjI) (assumption | simp)+
  }
qed

lemma kem_relay_header:
  assumes P: "prims_ok P" and g: "geo_wf (kem_CiphertextSize K) (kem_CiphertextSize K) g"
    and "kem_chain P K cks ss" "map ly_keys ls = map snd cks" "map ly_elem ls = map fst cks"
    and "layers_ok P g i prev ls" "ls \<noteq> []" "i + length ls \<le> NrHops g"
    and "length prev = i * PerHopRoutingInfoLength g"
    and "length skipped = (NrHops g - (i + length ls)) * PerHopRoutingInfoLength g"
    and "fits_all (kem_fits (kem_CiphertextSize K) g) ls"
    and "\<forall>l\<in>set ls. length (ph_ID (ly_hop l)) = NodeIDLength"
    and "routingBlocks P (kemFragment (kem_CiphertextSize K) g) skipped prev ls = Ok (ri, mac)"
    and "length body = m" and m: "PayloadTagLength g \<le> m"
    and "peelPayload P (sprpKeys (map ly_keys ls)) body = Ok raw"
    and "surbOf None (ph_Commands (ly_hop (last ls))) = None \<longrightarrow> CtIsZero (take (PayloadTagLength g) raw)"
  shows "\<exists>us. relay (unwrapKem P K g) ss (v0AD @ ly_elem (hd ls) @ (ri @ prev) @ mac @ body) = Ok us \<and>
    delivered (HeaderLength g + m) (map ly_hop ls)
      (finalPayload g (ph_Commands (ly_hop (last ls))) raw) us"
  using assms(3-14,16-17)
proof (induction ls arbitrary: i prev cks ss ri mac body)
  case (Cons l ls)
  obtain ct k r s ss' where gs: "cks = (ct, k) # r" "ss = s # ss'"
    using Cons.prems(1,2) by (cases cks; cases ss) auto
  have el: "ly_elem l = ct" "length (ly_elem l) = kem_CiphertextSize K" and k: "k = ly_keys l"
    and rest: "kem_chain P K r ss'" "map ly_keys ls = map snd r" "map ly_elem ls = map fst r"
    using Cons.prems(1-3) gs by auto
  obtain sec where sec: "kem_Decapsulate K s (ly_elem l) = Some sec" "kem_KDF P sec = Ok (ly_keys l)"
    using Cons.prems(1) gs k el by auto
  have "PayloadTagLength g = 32" using geo_wf_lengths [OF g] by simp
  then have ne: "body \<noteq> []" using m Cons.prems(12) by auto
  obtain body' where pl: "decryptPayload P (ly_keys l) body = (Ok body' :: (sphinx_error \<times> bytes option, bytes) outcome)"
    "peelPayload P (sprpKeys (map ly_keys ls)) body' = Ok raw" "length body' = length body"
    using peel_hop [OF P ne, of "ly_keys l" "map ly_keys ls" raw] Cons.prems(13) by auto
  have fit: "kem_fits (kem_CiphertextSize K) g l (hd_option ls)" using Cons.prems(9) by simp
  note layer = unwrapKem_layer [OF P g el(2) sec Cons.prems(4,6,7,8) fit Cons.prems(11) pl(1,3) refl]
  show ?case
  proof (cases ls)
    case Nil
    then have raw: "raw = body'" "ss' = []" "r = []" using pl(2) rest by (cases ss'; auto simp: sprpKeys_def)+
    have "unwrapKem P K g s (v0AD @ ly_elem l @ (ri @ prev) @ mac @ body) =
      Ok \<lparr>uw_payload = Some (finalPayload g (ph_Commands (ly_hop l)) raw), uw_replayTag = Hash P (ly_elem l),
        uw_cmds = ph_Commands (ly_hop l), uw_pkt = v0AD @ ly_elem l @ (ri @ prev) @ mac @ body\<rparr>"
      unfolding layer(1) [OF Nil] raw(1) [symmetric]
      by (rule finishPayload_ok) (use Cons.prems(12,14) m raw pl(3) Nil in auto)
    then show ?thesis using Nil gs raw by simp
  next
    case (Cons l' ls')
    then obtain ct' k' r' where r: "r = (ct', k') # r'" using rest(2) by (cases r) auto
    then obtain s' ss2 where ss': "ss' = s' # ss2" "length ct' = kem_CiphertextSize K"
      using rest(1) by (cases ss') auto
    have el': "ly_elem l' = ct'" "length (ly_elem l') = kem_CiphertextSize K" using rest(3) r Cons ss' by auto
    have idl: "length (ph_ID (ly_hop l')) = NodeIDLength" using Cons.prems(10) Cons by simp
    obtain ri' mac' where nx: "routingBlocks P (kemFragment (kem_CiphertextSize K) g) skipped (ly_riPadding l) ls = Ok (ri', mac')"
      "length mac' = MACLength" "length (ri' @ ly_riPadding l) = RoutingInfoLength g"
      "unwrapKem P K g s (v0AD @ ly_elem l @ (ri @ prev) @ mac @ body) =
        Ok \<lparr>uw_payload = None, uw_replayTag = Hash P (ly_elem l),
          uw_cmds = ph_Commands (ly_hop l) @ [NextNodeHop (ph_ID (ly_hop l')) mac'],
          uw_pkt = v0AD @ ly_elem l' @ (ri' @ ly_riPadding l) @ mac' @ body'\<rparr>"
      using layer(2) [OF Cons idl el'(2)] by blast
    have "length (ly_riPadding l) = (i + 1) * PerHopRoutingInfoLength g"
      using Cons.prems(4,6,7) length_padStep [OF P _ _ Cons.prems(7)] g by (simp add: geo_wf_def)
    then obtain us where us: "relay (unwrapKem P K g) ss'
        (v0AD @ ly_elem (hd ls) @ (ri' @ ly_riPadding l) @ mac' @ body') = Ok us"
      "delivered (HeaderLength g + m) (map ly_hop ls)
        (finalPayload g (ph_Commands (ly_hop (last ls))) raw) us"
      using Cons.IH [OF rest, of "i + 1" "ly_riPadding l" ri' mac' body'] Cons.prems Cons nx(1) pl(2,3)
      by auto
    have "length (v0AD @ ly_elem l' @ (ri' @ ly_riPadding l) @ mac' @ body') = HeaderLength g + m"
      using nx(2,3) pl(3) Cons.prems(12) el'(2) g by (simp add: geo_wf_def v0AD_def adLength_def)
    then show ?thesis using us nx gs Cons by simp
  qed
qed simp

section \<open>Creation succeeds and the packet is delivered\<close>

lemma path_ok_less: "path_ok g r path \<Longrightarrow> r' \<le> r \<Longrightarrow> path_ok g r' path"
  by (fastforce simp: path_ok_def cmds_fit_def)

text \<open>Creation succeeds on every path whose commands pass the check of the code.\<close>

lemma createKEMHeader_layers:
  assumes P: "prims_ok P" and g: "geo_wf (kem_CiphertextSize K) (kem_CiphertextSize K) g"
    and ent: "reader_ok (kent_randReader ent)"
    and path: "path_ok g 0 path" "list_all2 (kem_hop K) path ss"
  obtains cks skipped ls ri mac where "kem_chain P K cks ss" "length cks = length path"
    "map ly_hop ls = path" "map ly_keys ls = map snd cks" "map ly_elem ls = map fst cks" "ls \<noteq> []"
    "layers_ok P g 0 [] ls" "length skipped = (NrHops g - length path) * PerHopRoutingInfoLength g"
    "routingBlocks P (kemFragment (kem_CiphertextSize K) g) skipped [] ls = Ok (ri, mac)"
    "createKEMHeader P K g ent path = Ok (v0AD @ ly_elem (hd ls) @ ri @ mac, sprpKeys (map snd cks))"
    "length (v0AD @ ly_elem (hd ls) @ ri @ mac) = HeaderLength g"
proof -
  let ?ct = "kem_CiphertextSize K"
  have NN: "NextNodeHopLength g = CommandTagLength + NodeIDLength + MACLength" and ct: "?ct \<le> PerHopRoutingInfoLength g"
    and RI: "RoutingInfoLength g = PerHopRoutingInfoLength g * NrHops g"
    and H: "HeaderLength g = adLength + ?ct + RoutingInfoLength g + MACLength"
    using g by (simp_all add: geo_wf_def)
  note good = conjI [OF NN ct]
  have n: "path \<noteq> []" "length path \<le> NrHops g" using path(1) by (simp_all add: path_ok_def)
  obtain cks where cks: "kemKeys P K (kent_coins ent) 0 path = Ok cks"
    "length cks = length path" "kem_chain P K cks ss"
    using kemKeys_chain [OF P path(2)] by blast
  define keys where "keys = map snd cks"
  define elems where "elems = map fst cks"
  obtain streams where st: "riStreams P g 0 [] keys = Ok streams" "length streams = length path"
    "layers_ok P g 0 [] (mkLayers path keys elems streams)"
    using riStreams_layers [OF P RI, of path keys elems 0 "[]"] n cks(2)
    by (auto simp: keys_def elems_def)
  define ls where "ls = mkLayers path keys elems streams"
  have fields: "map ly_hop ls = path" "map ly_keys ls = keys" "map ly_elem ls = elems" "length ls = length path"
    unfolding ls_def using cks(2) st(2) by (intro mkLayers_fields; simp add: keys_def elems_def)+
  have lo: "layers_ok P g 0 [] ls" using st(3) by (simp add: ls_def)
  obtain skipped where sk: "skippedInfo g (kent_randReader ent) (length path) = Ok skipped"
    "length skipped = (NrHops g - length path) * PerHopRoutingInfoLength g"
    using skippedInfo_ok [OF ent] by blast
  have fit: "fits_all (kem_fits 0 g) ls"
    by (rule path_fits_all [OF fields(1)]) (use path(1) in \<open>auto simp: path_ok_def\<close>)
  obtain ri mac where rb: "routingBlocks P (kemFragment ?ct g) skipped [] ls = Ok (ri, mac)"
    using kem_builder.blocks_total [OF P good RI lo, of skipped] n sk(2) fit fields(4) by auto
  have ne: "ls \<noteq> []" using fields n by auto
  obtain e es where e: "elems = e # es" using cks(2) n by (cases elems) (auto simp: elems_def)
  then have hd: "e = ly_elem (hd ls)" using fields(3) ne by (cases ls) auto
  have "createKEMHeader P K g ent path = Ok (v0AD @ e @ ri @ mac, sprpKeys keys)"
    using n cks(1) st(1) sk(1) rb [unfolded ls_def] e
    by (simp add: createKEMHeader_def Let_def keys_def [symmetric] elems_def [symmetric])
  then have cr: "createKEMHeader P K g ent path = Ok (v0AD @ ly_elem (hd ls) @ ri @ mac, sprpKeys (map snd cks))"
    by (simp only: hd keys_def)
  obtain l ls' where l: "ls = l # ls'" using ne by (cases ls) auto
  obtain k r where "cks = (e, k) # r" using e by (cases cks) (auto simp: elems_def)
  then have "length (ly_elem (hd ls)) = ?ct" using cks(3) unfolding hd [symmetric] by (cases ss) simp_all
  moreover have "length ri = NrHops g * PerHopRoutingInfoLength g" "length mac = MACLength"
    using kem_builder.blocks_length [OF P good RI lo _ _ rb] n sk(2) fields(4)
      routingBlocks_mac [OF P, of _ skipped "[]" l ls' ri mac] rb l by auto
  ultimately have len: "length (v0AD @ ly_elem (hd ls) @ ri @ mac) = HeaderLength g"
    using H RI by (simp add: v0AD_def adLength_def)
  show ?thesis
    by (rule that [OF cks(3,2) fields(1) fields(2,3) [unfolded keys_def elems_def] ne lo sk(2) rb cr len])
qed

lemma createKEMHeader_relay:
  assumes P: "prims_ok P" and g: "geo_wf (kem_CiphertextSize K) (kem_CiphertextSize K) g"
    and ent: "reader_ok (kent_randReader ent)"
    and path: "path_ok g (kem_CiphertextSize K) path" "list_all2 (kem_hop K) path ss"
  shows "\<exists>hdr ks. createKEMHeader P K g ent path = Ok (hdr, ks) \<and> length hdr = HeaderLength g \<and>
    length ks = length path \<and>
    (\<forall>body raw. PayloadTagLength g \<le> length body \<longrightarrow> peelPayload P ks body = Ok raw \<longrightarrow>
       (surbOf None (ph_Commands (last path)) = None \<longrightarrow> CtIsZero (take (PayloadTagLength g) raw)) \<longrightarrow>
       (\<exists>us. relay (unwrapKem P K g) ss (hdr @ body) = Ok us \<and>
          delivered (HeaderLength g + length body) path (finalPayload g (ph_Commands (last path)) raw) us))"
proof -
  let ?ct = "kem_CiphertextSize K"
  have n: "path \<noteq> []" "length path \<le> NrHops g" using path(1) by (simp_all add: path_ok_def)
  obtain cks skipped ls ri mac where C: "kem_chain P K cks ss" "length cks = length path"
    "map ly_hop ls = path" "map ly_keys ls = map snd cks" "map ly_elem ls = map fst cks" "ls \<noteq> []"
    "layers_ok P g 0 [] ls" "length skipped = (NrHops g - length path) * PerHopRoutingInfoLength g"
    "routingBlocks P (kemFragment ?ct g) skipped [] ls = Ok (ri, mac)"
    "createKEMHeader P K g ent path = Ok (v0AD @ ly_elem (hd ls) @ ri @ mac, sprpKeys (map snd cks))"
    "length (v0AD @ ly_elem (hd ls) @ ri @ mac) = HeaderLength g"
    by (rule createKEMHeader_layers [OF P g ent path_ok_less [OF path(1) le0] path(2)])
  have ln: "length ls = length path" using arg_cong [OF C(3), of length] by simp
  have fit: "fits_all (kem_fits ?ct g) ls"
    by (rule path_fits_all [OF C(3)]) (use path(1) in \<open>auto simp: path_ok_def\<close>)
  have last: "ly_hop (last ls) = last path" using C(3,6) by (auto simp: last_map)
  have "\<forall>l\<in>set ls. length (ph_ID (ly_hop l)) = NodeIDLength"
    using path(1) C(3) by (auto simp: path_ok_def)
  note R = kem_relay_header [OF P g C(1,4,5,7,6) _ _ _ fit this C(9) refl]
  have relay: "\<exists>us. relay (unwrapKem P K g) ss ((v0AD @ ly_elem (hd ls) @ ri @ mac) @ body) = Ok us \<and>
      delivered (HeaderLength g + length body) path (finalPayload g (ph_Commands (last path)) raw) us"
    if "PayloadTagLength g \<le> length body" "peelPayload P (sprpKeys (map snd cks)) body = Ok raw"
      "surbOf None (ph_Commands (last path)) = None \<longrightarrow> CtIsZero (take (PayloadTagLength g) raw)" for body raw
    using R [of body raw] that n C(3,4,8) ln last by simp
  show ?thesis
    using C(2,10,11) relay by (intro exI conjI) (assumption | simp add: sprpKeys_def)+
qed

lemma newKEMPacket_delivered:
  assumes P: "prims_ok P" and g: "geo_wf (kem_CiphertextSize K) (kem_CiphertextSize K) g"
    and ent: "reader_ok (kent_randReader ent)"
    and path: "path_ok g (kem_CiphertextSize K) path" "list_all2 (kem_hop K) path ss"
    and payload: "length payload = ForwardPayloadLength g"
    and fwd: "\<forall>c\<in>set (ph_Commands (last path)). \<not> is_SURBReply c"
  shows "\<exists>pkt us. newKEMPacket P K g ent path payload = Ok pkt \<and> length pkt = PacketLength g \<and>
    relay (unwrapKem P K g) ss pkt = Ok us \<and> delivered (PacketLength g) path payload us"
proof -
  obtain hdr ks where h: "createKEMHeader P K g ent path = Ok (hdr, ks)" "length hdr = HeaderLength g"
    and R: "\<And>body raw. PayloadTagLength g \<le> length body \<Longrightarrow> peelPayload P ks body = Ok raw \<Longrightarrow>
      (surbOf None (ph_Commands (last path)) = None \<longrightarrow> CtIsZero (take (PayloadTagLength g) raw)) \<Longrightarrow>
      (\<exists>us. relay (unwrapKem P K g) ss (hdr @ body) = Ok us \<and>
        delivered (HeaderLength g + length body) path (finalPayload g (ph_Commands (last path)) raw) us)"
    using createKEMHeader_relay [OF P g ent path] by blast
  let ?b = "zeros (PayloadTagLength g) @ payload" and ?e = "encryptPayload P ks (zeros (PayloadTagLength g) @ payload)"
  have "PayloadTagLength g \<le> PerHopRoutingInfoLength g" using geo_wf_lengths [OF g] by simp
  then have new: "newKEMPacket P K g ent path payload = Ok (hdr @ ?e)"
    using payload h(1) by (simp add: newKEMPacket_def assemblePacket_eq [OF P])
  have le: "length ?e = PayloadTagLength g + ForwardPayloadLength g"
    using length_encryptPayload [OF P] payload by simp
  have pl: "HeaderLength g + length ?e = PacketLength g" using le g by (simp add: geo_wf_def)
  have fin: "finalPayload g (ph_Commands (last path)) ?b = payload"
    using fwd by (simp add: finalPayload_def surbOf_None_iff)
  have "\<exists>us. relay (unwrapKem P K g) ss (hdr @ ?e) = Ok us \<and>
      delivered (HeaderLength g + length ?e) path (finalPayload g (ph_Commands (last path)) ?b) us"
    by (rule R) (simp_all add: le peel_encrypt [OF P])
  with new h(2) show ?thesis unfolding fin pl using pl by auto
qed

lemma newKEMPacket_created:
  assumes P: "prims_ok P" and g: "geo_wf (kem_CiphertextSize K) (kem_CiphertextSize K) g"
    and ent: "reader_ok (kent_randReader ent)"
    and path: "path_ok g 0 path" "list_all2 (kem_hop K) path ss"
    and payload: "length payload = ForwardPayloadLength g"
  shows "\<exists>pkt. newKEMPacket P K g ent path payload = Ok pkt \<and> length pkt = PacketLength g"
proof -
  obtain hdr ks where h: "createKEMHeader P K g ent path = Ok (hdr, ks)" "length hdr = HeaderLength g"
    by (rule createKEMHeader_layers [OF P g ent path]) blast
  have "PayloadTagLength g \<le> PerHopRoutingInfoLength g" using geo_wf_lengths [OF g] by simp
  then have "newKEMPacket P K g ent path payload = Ok (hdr @ encryptPayload P ks (zeros (PayloadTagLength g) @ payload))"
    using payload h(1) by (simp add: newKEMPacket_def assemblePacket_eq [OF P])
  then show ?thesis using h(2) payload length_encryptPayload [OF P] g by (simp add: geo_wf_def)
qed

section \<open>Commands the capacity check lets through\<close>

text \<open>
  \<^verbatim>\<open>commandsToBytes\<close> does not count the bytes that the next hop's ciphertext takes from the block, and
  \<^verbatim>\<open>unwrapKem\<close> reads commands only from the rest: what a hop reads never reaches into those bytes.
\<close>

lemma unwrapKem_parsed:
  assumes "unwrapKem P K g s pkt = Ok u"
  obtains nextNode surb b where "kem_CiphertextSize K \<le> PerHopRoutingInfoLength g"
    "parseCommands g None None [] (take (PerHopRoutingInfoLength g - kem_CiphertextSize K) b) = Ok (nextNode, surb, uw_cmds u)"
proof -
  have fin: "finishPayload g t sr cs p pl = Ok u \<Longrightarrow> uw_cmds u = cs" for t sr cs p pl
    by (auto simp: finishPayload_def split: if_splits)
  show ?thesis
    using assms fin unfolding unwrapKem_def Let_def
    by (auto simp: obind_Ok_iff not_less intro!: that split: if_splits option.splits outcome.splits prod.splits)
qed

lemma unwrapKem_room:
  assumes NN: "NextNodeHopLength g = CommandTagLength + NodeIDLength + MACLength" and "unwrapKem P K g s pkt = Ok u"
  shows "length (cmds_bytes (uw_cmds u)) + kem_CiphertextSize K \<le> PerHopRoutingInfoLength g \<and> (\<forall>c\<in>set (uw_cmds u). rc_wf c)"
proof -
  obtain nextNode surb b where ct: "kem_CiphertextSize K \<le> PerHopRoutingInfoLength g"
    and p: "parseCommands g None None [] (take (PerHopRoutingInfoLength g - kem_CiphertextSize K) b) = Ok (nextNode, surb, uw_cmds u)"
    by (rule unwrapKem_parsed [OF assms(2)])
  obtain k where k: "take (PerHopRoutingInfoLength g - kem_CiphertextSize K) b = cmds_bytes (uw_cmds u) @ zeros k"
    "\<forall>c\<in>set (uw_cmds u). rc_wf c"
    using parse_canonical [OF NN p] by auto
  have "length (cmds_bytes (uw_cmds u)) + k \<le> PerHopRoutingInfoLength g - kem_CiphertextSize K"
    using arg_cong [OF k(1), of length] by simp
  then show ?thesis using ct k(2) by simp
qed

definition room :: "geometry \<Rightarrow> nat \<Rightarrow> ('pk, 'kpk) PathHop list \<Rightarrow> bool" where
  "room g ct path \<longleftrightarrow>
     (\<forall>h\<in>set (butlast path). length (cmds_bytes (ph_Commands h)) + NextNodeHopLength g + ct \<le> PerHopRoutingInfoLength g) \<and>
     length (cmds_bytes (ph_Commands (last path))) + ct \<le> PerHopRoutingInfoLength g"

lemma relay_room:
  assumes NN: "NextNodeHopLength g = CommandTagLength + NodeIDLength + MACLength"
    and "relay (unwrapKem P K g) ss pkt = Ok us" "delivered n path payload us"
  shows "room g (kem_CiphertextSize K) path"
  using assms(2,3)
proof (induction n path payload us arbitrary: ss pkt rule: delivered.induct)
  case (1 n h payload u)
  then obtain s where "unwrapKem P K g s pkt = Ok u" by (cases ss) (auto simp: obind_Ok_iff)
  from unwrapKem_room [OF NN this] 1(2) show ?case by (simp add: room_def)
next
  case (2 n h h' hs payload u us)
  then obtain s ss' where s: "unwrapKem P K g s pkt = Ok u" "relay (unwrapKem P K g) ss' (uw_pkt u) = Ok us"
    by (cases ss) (auto simp: obind_Ok_iff)
  obtain mac where c: "uw_cmds u = ph_Commands h @ [NextNodeHop (ph_ID h') mac]" using 2(3) by auto
  have "room g (kem_CiphertextSize K) (h' # hs)" using 2(1) [OF s(2)] 2(3) by simp
  moreover have "length (cmds_bytes (ph_Commands h)) + NextNodeHopLength g + kem_CiphertextSize K \<le> PerHopRoutingInfoLength g"
    using unwrapKem_room [OF NN s(1)] by (simp add: c NN rc_printers sphinx_constants)
  ultimately show ?case by (simp add: room_def)
qed simp_all

lemma path_ok_room:
  "path_ok g 0 path \<Longrightarrow> path_ok g ct path \<longleftrightarrow> room g ct path"
  by (auto simp: path_ok_def cmds_fit_def room_def)

section \<open>A concrete KEM\<close>

definition toy_kem :: "(byte, byte) kem_scheme" where
  "toy_kem = \<lparr>kem_Name = ''toy'', kem_CiphertextSize = 40,
     kem_Encapsulate = (\<lambda>pk r. Some (toy_bytes r 40, pk # toy_bytes r 40)),
     kem_Decapsulate = (\<lambda>sk ct. Some (sk # ct))\<rparr>"

definition toy_kem_geo :: geometry where
  "toy_kem_geo = (case KEMGeometryFromUserForwardPayloadLength (kem_info.truncate toy_kem) 4 False 3 of
     Ok g \<Rightarrow> g | _ \<Rightarrow> demo_geo)"

definition toy_kem_path :: "routing_command list \<Rightarrow> (unit, byte) PathHop list" where
  "toy_kem_path cmds =
     [\<lparr>ph_ID = replicate 32 1, ph_NIKEPublicKey = None, ph_KEMPublicKey = Some 5, ph_Commands = [NodeDelay 7]\<rparr>,
      \<lparr>ph_ID = replicate 32 2, ph_NIKEPublicKey = None, ph_KEMPublicKey = Some 6, ph_Commands = cmds\<rparr>]"

definition toy_kem_entropy :: kem_entropy where
  "toy_kem_entropy = \<lparr>kent_coins = (\<lambda>i. [of_nat i]), kent_randReader = (\<lambda>n. Some (zeros n)),
     kent_r = (\<lambda>n. Some (zeros n))\<rparr>"

text \<open>The commands of the first hop pass the check, and reach into the room of the ciphertext.\<close>

definition toy_kem_overrun :: "(unit, byte) PathHop list" where
  "toy_kem_overrun =
     [\<lparr>ph_ID = replicate 32 1, ph_NIKEPublicKey = None, ph_KEMPublicKey = Some 5, ph_Commands = [Recipient (replicate 32 3)]\<rparr>,
      \<lparr>ph_ID = replicate 32 2, ph_NIKEPublicKey = None, ph_KEMPublicKey = Some 6, ph_Commands = [Recipient (replicate 32 3)]\<rparr>]"

lemma toy_kem_pair: "kem_pair toy_kem b b"
  by (simp add: kem_pair_def toy_kem_def toy_bytes_def)

lemma toy_kem_geo_eq:
  "KEMGeometryFromUserForwardPayloadLength (kem_info.truncate toy_kem) 4 False 3 = Ok toy_kem_geo"
  using kem_geometry_total [of "kem_info.truncate toy_kem" 4 False 3] by (auto simp: toy_kem_geo_def)

lemma toy_kem_geo_wf: "geo_wf 40 40 toy_kem_geo" "NrHops toy_kem_geo = 3"
  using kem_geometry_ok [OF toy_kem_geo_eq] by (simp_all add: kem_info.truncate_def toy_kem_def)

lemma toy_kem_hops: "list_all2 (kem_hop toy_kem) (toy_kem_path cmds) [5, 6]"
  using toy_kem_pair by (simp add: toy_kem_path_def kem_hop_def)

lemma toy_kem_path_ok: "cmds_fit toy_kem_geo 40 cmds True \<Longrightarrow> path_ok toy_kem_geo 40 (toy_kem_path cmds)"
  using geo_wf_lengths [OF toy_kem_geo_wf(1)] toy_kem_geo_wf(2)
  by (simp add: path_ok_def toy_kem_path_def cmds_fit_def rc_printers NodeIDLength_def)

lemma toy_kem_recipient_fits: "cmds_fit toy_kem_geo 40 [Recipient (replicate 32 3)] True"
  using geo_wf_lengths [OF toy_kem_geo_wf(1)]
  by (simp add: cmds_fit_def rc_printers RecipientIDLength_def)

lemma toy_kem_overrun_ok:
  "path_ok toy_kem_geo 0 toy_kem_overrun" "\<not> room toy_kem_geo (kem_CiphertextSize toy_kem) toy_kem_overrun"
  "list_all2 (kem_hop toy_kem) toy_kem_overrun [5, 6]"
  using geo_wf_lengths [OF toy_kem_geo_wf(1)] toy_kem_geo_wf(2) toy_kem_pair
  by (simp_all add: path_ok_def toy_kem_overrun_def cmds_fit_def room_def kem_hop_def toy_kem_def rc_printers
      NodeIDLength_def RecipientIDLength_def)

lemma toy_kem_entropy_ok: "reader_ok (kent_randReader toy_kem_entropy)" "reader_ok (kent_r toy_kem_entropy)"
  by (simp_all add: toy_kem_entropy_def reader_ok_def)

section \<open>Properties\<close>

text \<open>
  C10: a forward packet that \<^verbatim>\<open>newKEMPacket\<close> creates for a path whose commands leave room for the
  next ciphertext is created without error, has the length of the geometry, and is accepted by
  every hop in turn with \<^verbatim>\<open>unwrapKem\<close>: each hop reads its own commands and the next hop's identifier,
  forwards a packet of the same length, and the last hop obtains the payload.
\<close>

theorem kem_packet_delivery:
  assumes "prims_ok P"
    and "KEMGeometryFromUserForwardPayloadLength (kem_info.truncate K) user withSURB nrHops = Ok g"
    and "reader_ok (kent_randReader ent)"
    and "path_ok g (kem_CiphertextSize K) path" and "list_all2 (kem_hop K) path ss"
    and "length payload = ForwardPayloadLength g"
    and "\<forall>c\<in>set (ph_Commands (last path)). \<not> is_SURBReply c"
  shows "\<exists>pkt us. newKEMPacket P K g ent path payload = Ok pkt \<and> length pkt = PacketLength g \<and>
    relay (unwrapKem P K g) ss pkt = Ok us \<and> delivered (PacketLength g) path payload us"
  using newKEMPacket_delivered [OF assms(1) _ assms(3-7)] kem_geometry_ok(1) [OF assms(2)]
  by (simp add: kem_info.truncate_def)

theorem kem_packet_delivery_witness:
  "\<exists>pkt us. newKEMPacket toy_sphinx toy_kem toy_kem_geo toy_kem_entropy
      (toy_kem_path [Recipient (replicate 32 3)]) (zeros (ForwardPayloadLength toy_kem_geo)) = Ok pkt \<and>
    length pkt = PacketLength toy_kem_geo \<and>
    relay (unwrapKem toy_sphinx toy_kem toy_kem_geo) [5, 6] pkt = Ok us \<and>
    delivered (PacketLength toy_kem_geo) (toy_kem_path [Recipient (replicate 32 3)])
      (zeros (ForwardPayloadLength toy_kem_geo)) us"
  by (rule kem_packet_delivery [OF toy_sphinx_ok toy_kem_geo_eq toy_kem_entropy_ok(1) _ toy_kem_hops])
     (use toy_kem_path_ok [OF toy_kem_recipient_fits] in \<open>simp_all add: toy_kem_path_def toy_kem_def\<close>)

text \<open>
  C40: the capacity check of \<^verbatim>\<open>commandsToBytes\<close> ignores the room that a KEM ciphertext takes in every block.
  For every path whose commands pass the check, \<^verbatim>\<open>newKEMPacket\<close> creates a packet without error; but the
  packet is delivered along the path if and only if the commands of every hop leave that room.
  Otherwise they are cut off or overwritten by the ciphertext, and some hop does not get them.
\<close>

theorem kem_commands_overwritten:
  assumes "prims_ok P"
    and "KEMGeometryFromUserForwardPayloadLength (kem_info.truncate K) user withSURB nrHops = Ok g"
    and "reader_ok (kent_randReader ent)"
    and "path_ok g 0 path" and "list_all2 (kem_hop K) path ss"
    and "length payload = ForwardPayloadLength g"
    and "\<forall>c\<in>set (ph_Commands (last path)). \<not> is_SURBReply c"
  shows "\<exists>pkt. newKEMPacket P K g ent path payload = Ok pkt \<and> length pkt = PacketLength g \<and>
    ((\<exists>us. relay (unwrapKem P K g) ss pkt = Ok us \<and> delivered (PacketLength g) path payload us) \<longleftrightarrow>
     room g (kem_CiphertextSize K) path)"
proof -
  have g: "geo_wf (kem_CiphertextSize K) (kem_CiphertextSize K) g"
    using kem_geometry_ok(1) [OF assms(2)] by (simp add: kem_info.truncate_def)
  then have NN: "NextNodeHopLength g = CommandTagLength + NodeIDLength + MACLength" by (simp add: geo_wf_def)
  obtain pkt where pkt: "newKEMPacket P K g ent path payload = Ok pkt" "length pkt = PacketLength g"
    using newKEMPacket_created [OF assms(1) g assms(3-6)] by blast
  have "\<exists>us. relay (unwrapKem P K g) ss pkt = Ok us \<and> delivered (PacketLength g) path payload us"
    if "room g (kem_CiphertextSize K) path"
    using newKEMPacket_delivered [OF assms(1) g assms(3) _ assms(5-7)] path_ok_room [OF assms(4)] that pkt(1) by auto
  then show ?thesis using pkt relay_room [OF NN] by blast
qed

theorem kem_commands_overwritten_witness:
  "\<exists>pkt. newKEMPacket toy_sphinx toy_kem toy_kem_geo toy_kem_entropy toy_kem_overrun (zeros (ForwardPayloadLength toy_kem_geo)) = Ok pkt \<and>
    \<not> (\<exists>us. relay (unwrapKem toy_sphinx toy_kem toy_kem_geo) [5, 6] pkt = Ok us \<and>
      delivered (PacketLength toy_kem_geo) toy_kem_overrun (zeros (ForwardPayloadLength toy_kem_geo)) us)"
proof -
  have p: "path_ok toy_kem_geo 0 toy_kem_overrun" "\<not> room toy_kem_geo (kem_CiphertextSize toy_kem) toy_kem_overrun"
    "list_all2 (kem_hop toy_kem) toy_kem_overrun [5, 6]"
    by (rule toy_kem_overrun_ok)+
  have "\<forall>c\<in>set (ph_Commands (last toy_kem_overrun)). \<not> is_SURBReply c" by (simp add: toy_kem_overrun_def)
  from kem_commands_overwritten [OF toy_sphinx_ok toy_kem_geo_eq toy_kem_entropy_ok(1) p(1,3) length_zeros this] p(2)
  show ?thesis by blast
qed

end
