(* ===== verification/Sphinx_Surb.thy ===== *)
theory Sphinx_Surb
  imports Sphinx_Kem
begin

text \<open>
  Single-use reply blocks (\<^verbatim>\<open>src/core/sphinx/surb.go\<close>, \<^verbatim>\<open>newKemSURB\<close> of \<^verbatim>\<open>src/core/sphinx/kemsphinx.go\<close>) and the
  entry points that choose between the two packet formats (\<^verbatim>\<open>src/core/sphinx/new_sphinx.go\<close>).
  The main lemmas show the life of a reply: a SURB is created with its keys, a peer turns it into a
  packet, the packet travels the path, and the keys recover the peer's payload.
\<close>

section \<open>Creating a SURB\<close>

definition sprpKeyMaterialLength :: nat where
  "sprpKeyMaterialLength = SPRPKeyLength + SPRPIVLength"

text \<open>The keys in reverse order, then the key of the reply payload.\<close>

definition surbKeys :: "sprpKey list \<Rightarrow> bytes \<Rightarrow> bytes" where
  "surbKeys ks keyPayload = concat (map (\<lambda>(k, iv). k @ iv) (rev ks)) @ keyPayload"

definition surbBlob :: "bytes \<Rightarrow> ('pk, 'kpk) PathHop list \<Rightarrow> bytes \<Rightarrow> (sphinx_error, bytes) outcome" where
  "surbBlob hdr path keyPayload =
     (case path of [] \<Rightarrow> Panic | h # _ \<Rightarrow> Ok (hdr @ ph_ID h @ keyPayload))"

definition newNikeSURB ::
    "sphinx_prims \<Rightarrow> ('pk, 'sk) nike_scheme \<Rightarrow> geometry \<Rightarrow> ('pk, 'sk) entropy
      \<Rightarrow> ('pk, 'kpk) PathHop list \<Rightarrow> (sphinx_error, bytes \<times> bytes) outcome" where
  "newNikeSURB P N g ent path =
     (case ent_r ent sprpKeyMaterialLength of
        None \<Rightarrow> Fail ErrEntropy
      | Some keyPayload \<Rightarrow>
        obind (createHeader P N g ent path) (\<lambda>(hdr, ks).
        obind (surbBlob hdr path keyPayload) (\<lambda>surb.
        Ok (surb, surbKeys ks keyPayload))))"

definition newKemSURB ::
    "sphinx_prims \<Rightarrow> ('kpk, 'ksk) kem_scheme \<Rightarrow> geometry \<Rightarrow> kem_entropy
      \<Rightarrow> ('pk, 'kpk) PathHop list \<Rightarrow> (sphinx_error, bytes \<times> bytes) outcome" where
  "newKemSURB P K g ent path =
     (case kent_r ent sprpKeyMaterialLength of
        None \<Rightarrow> Fail ErrEntropy
      | Some keyPayload \<Rightarrow>
        obind (createKEMHeader P K g ent path) (\<lambda>(hdr, ks).
        obind (surbBlob hdr path keyPayload) (\<lambda>surb.
        Ok (surb, surbKeys ks keyPayload))))"

section \<open>Using a SURB\<close>

definition NewPacketFromSURB ::
    "sphinx_prims \<Rightarrow> geometry \<Rightarrow> bytes \<Rightarrow> bytes \<Rightarrow> (sphinx_error, bytes \<times> bytes) outcome" where
  "NewPacketFromSURB P g surb payload =
     (let idOff = HeaderLength g;
          keyOff = idOff + NodeIDLength;
          ivOff = keyOff + SPRPKeyLength
      in if length surb \<noteq> SURBLength g then Fail ErrTruncatedSURB
         else if length surb < ivOff then Panic
         else if PerHopRoutingInfoLength g < PayloadTagLength g then Panic
         else
           let hdr = take (HeaderLength g) surb;
               nodeID = copy_into (zeros NodeIDLength) (slice idOff keyOff surb);
               key = copy_into (zeros SPRPKeyLength) (slice keyOff ivOff surb);
               iv = copy_into (zeros SPRPIVLength) (drop ivOff surb);
               b = zeros (PayloadTagLength g) @ payload
           in Ok (hdr @ copy_into b (SPRPEncrypt P key iv b), nodeID))"

text \<open>
  The loop of \<^verbatim>\<open>DecryptSURBPayload\<close> with \<open>n\<close> iterations left: all but the last undo the decryption of a
  hop, the last decrypts what the peer encrypted.
\<close>

fun surbLoop :: "sphinx_prims \<Rightarrow> nat \<Rightarrow> bytes \<Rightarrow> bytes \<Rightarrow> (sphinx_error, bytes) outcome" where
  "surbLoop P 0 k b = Ok b"
| "surbLoop P (Suc n) k b =
     (let key = take SPRPKeyLength k;
          iv = copy_into (zeros SPRPIVLength) (drop SPRPKeyLength k);
          k' = drop sprpKeyMaterialLength k
      in if n = 0 then SPRPDecrypt P key iv b
         else surbLoop P n k' (SPRPEncrypt P key iv b))"

definition DecryptSURBPayload ::
    "sphinx_prims \<Rightarrow> geometry \<Rightarrow> bytes \<Rightarrow> bytes \<Rightarrow> (sphinx_error, bytes) outcome" where
  "DecryptSURBPayload P g payload keys =
     (let nrHops = length keys div sprpKeyMaterialLength
      in if length keys mod sprpKeyMaterialLength \<noteq> 0 \<or> nrHops < 1 then Fail ErrSURBKeys
         else if length payload < PayloadTagLength g then Fail errTruncatedPayload
         else obind (surbLoop P nrHops keys payload) (\<lambda>b.
              if length b < PayloadTagLength g then Panic
              else if \<not> CtIsZero (take (PayloadTagLength g) b) then Fail errInvalidTag
              else Ok (drop (PayloadTagLength g) b)))"

section \<open>Choosing the format\<close>

record ('pk, 'sk, 'kpk, 'ksk) Sphinx =
  sx_nike :: "('pk, 'sk) nike_scheme option"
  sx_kem :: "('kpk, 'ksk) kem_scheme option"
  sx_geometry :: geometry

datatype from_error = ErrLookupNIKE string | ErrLookupKEM string

text \<open>\<^verbatim>\<open>schemes.ByName\<close> of the NIKE registry and of circl are the parameters \<open>nikes\<close> and \<open>kems\<close>.\<close>

definition FromGeometry ::
    "(string \<Rightarrow> ('pk, 'sk) nike_scheme option) \<Rightarrow> (string \<Rightarrow> ('kpk, 'ksk) kem_scheme option) \<Rightarrow> geometry
      \<Rightarrow> (from_error, ('pk, 'sk, 'kpk, 'ksk) Sphinx) outcome" where
  "FromGeometry nikes kems g =
     (if NIKEName g \<noteq> [] then
        (case nikes (NIKEName g) of None \<Rightarrow> Fail (ErrLookupNIKE (NIKEName g))
         | Some N \<Rightarrow> Ok \<lparr>sx_nike = Some N, sx_kem = None, sx_geometry = g\<rparr>)
      else
        (case kems (KEMName g) of None \<Rightarrow> Fail (ErrLookupKEM (KEMName g))
         | Some K \<Rightarrow> Ok \<lparr>sx_nike = None, sx_kem = Some K, sx_geometry = g\<rparr>))"

definition NewNIKESphinx ::
    "('pk, 'sk) nike_scheme option \<Rightarrow> geometry \<Rightarrow> ('pk, 'sk, 'kpk, 'ksk) Sphinx" where
  "NewNIKESphinx N g = \<lparr>sx_nike = N, sx_kem = None, sx_geometry = g\<rparr>"

definition NewKEMSphinx ::
    "('kpk, 'ksk) kem_scheme option \<Rightarrow> geometry \<Rightarrow> (unit, ('pk, 'sk, 'kpk, 'ksk) Sphinx) outcome" where
  "NewKEMSphinx k g =
     (if k = None then Panic else Ok \<lparr>sx_nike = None, sx_kem = k, sx_geometry = g\<rparr>)"

text \<open>A private key passed as \<^verbatim>\<open>interface{}\<close>; the type assertion panics on the other kind.\<close>

datatype ('sk, 'ksk) private_key = NikePrivateKey 'sk | KemPrivateKey 'ksk

definition NewPacket ::
    "sphinx_prims \<Rightarrow> ('pk, 'sk, 'kpk, 'ksk) Sphinx \<Rightarrow> ('pk, 'sk) entropy \<Rightarrow> kem_entropy
      \<Rightarrow> ('pk, 'kpk) PathHop list \<Rightarrow> bytes \<Rightarrow> (sphinx_error, bytes) outcome" where
  "NewPacket P s ent kent path payload =
     (case (sx_nike s, sx_kem s) of
        (None, None) \<Rightarrow>
          if length payload \<noteq> ForwardPayloadLength (sx_geometry s) then Fail ErrPayloadLength
          else if length path > NrHops (sx_geometry s) then Fail ErrInvalidPath else Panic
      | (None, Some K) \<Rightarrow> newKEMPacket P K (sx_geometry s) kent path payload
      | (Some N, None) \<Rightarrow> newNikePacket P N (sx_geometry s) ent path payload
      | (Some _, Some _) \<Rightarrow> Panic)"

definition Unwrap ::
    "sphinx_prims \<Rightarrow> ('pk, 'sk, 'kpk, 'ksk) Sphinx \<Rightarrow> ('sk, 'ksk) private_key \<Rightarrow> bytes \<Rightarrow> unwrap_result" where
  "Unwrap P s privKey pkt =
     (case (sx_nike s, sx_kem s, privKey) of
        (None, Some K, KemPrivateKey k) \<Rightarrow> unwrapKem P K (sx_geometry s) k pkt
      | (Some N, None, NikePrivateKey k) \<Rightarrow> unwrapNike P N (sx_geometry s) k pkt
      | _ \<Rightarrow> Panic)"

definition NewSURB ::
    "sphinx_prims \<Rightarrow> ('pk, 'sk, 'kpk, 'ksk) Sphinx \<Rightarrow> ('pk, 'sk) entropy \<Rightarrow> kem_entropy
      \<Rightarrow> ('pk, 'kpk) PathHop list \<Rightarrow> (sphinx_error, bytes \<times> bytes) outcome" where
  "NewSURB P s ent kent path =
     (case (sx_nike s, sx_kem s) of
        (None, None) \<Rightarrow>
          (case kent_r kent sprpKeyMaterialLength of None \<Rightarrow> Fail ErrEntropy
           | Some _ \<Rightarrow> if length path > NrHops (sx_geometry s) then Fail ErrInvalidPath else Panic)
      | (None, Some K) \<Rightarrow> newKemSURB P K (sx_geometry s) kent path
      | (Some N, None) \<Rightarrow> newNikeSURB P N (sx_geometry s) ent path
      | (Some _, Some _) \<Rightarrow> Panic)"

section \<open>Key sizes\<close>

definition key_sizes :: "sprpKey \<Rightarrow> bool" where
  "key_sizes k \<longleftrightarrow> length (fst k) = SPRPKeyLength \<and> length (snd k) = SPRPIVLength"

lemma KDF_sizes:
  assumes "prims_ok P" "KDF P ikm scheme = Ok k"
  shows "key_sizes (PayloadEncryption k, HeaderEncryptionIV k)"
  using assms(2) prims_okD(1) [OF assms(1), of ikm kdfInfo okmLength]
  by (auto simp: KDF_def Let_def key_sizes_def okmLength_def sphinx_constants obind_Ok_iff
      split: option.splits if_splits)

lemma laterKeys_sizes:
  assumes "prims_ok P" "laterKeys P N csk cpk keys path = Ok r"
  shows "\<forall>k\<in>set (sprpKeys (map snd r)). key_sizes k"
  using assms(2)
proof (induction path arbitrary: keys cpk r)
  case (Cons h path)
  then obtain xa k xc ge r' where "KDF P xa (Some N) = Ok k"
    "laterKeys P N csk xc (keys @ [k]) path = Ok r'" "r = (ge, k) # r'"
    by (auto simp: obind_Ok_iff split: option.splits if_splits)
  then show ?case using Cons.IH KDF_sizes [OF assms(1)] by (simp add: sprpKeys_def)
qed (simp add: sprpKeys_def)

lemma createHeader_sizes:
  assumes P: "prims_ok P" and "createHeader P N g ent path = Ok (hdr, ks)"
  shows "\<forall>k\<in>set ks. key_sizes k"
proof -
  obtain cpk csk gks where gks: "hopKeys P N cpk csk path = Ok gks" "ks = sprpKeys (map snd gks)"
    using assms(2) by (auto simp: createHeader_def Let_def obind_Ok_iff split: if_splits option.splits)
  then obtain ss k r ge where k: "KDF P ss (Some N) = Ok k" and r: "laterKeys P N csk cpk [k] (tl path) = Ok r"
    and "gks = (ge, k) # r"
    by (auto simp: hopKeys_def obind_Ok_iff split: list.splits option.splits)
  then show ?thesis
    using gks laterKeys_sizes [OF P r] KDF_sizes [OF P k] by (simp add: sprpKeys_def)
qed

lemma kemKeys_sizes:
  assumes "prims_ok P" "kemKeys P K coins i path = Ok r"
  shows "\<forall>k\<in>set (sprpKeys (map snd r)). key_sizes k"
  using assms(2)
proof (induction path arbitrary: i r)
  case (Cons h path)
  then obtain ss k ct r' where "kem_KDF P ss = Ok k"
    "kemKeys P K coins (i + 1) path = Ok r'" "r = (ct, k) # r'"
    by (auto simp: obind_Ok_iff split: option.splits)
  then show ?case using Cons.IH KDF_sizes [OF assms(1)] by (simp add: sprpKeys_def)
qed (simp add: sprpKeys_def)

lemma createKEMHeader_sizes:
  assumes P: "prims_ok P" and "createKEMHeader P K g ent path = Ok (hdr, ks)"
  shows "\<forall>k\<in>set ks. key_sizes k"
proof -
  obtain cks where c: "kemKeys P K (kent_coins ent) 0 path = Ok cks"
    using assms(2) by (auto simp: createKEMHeader_def obind_Ok_iff split: if_splits)
  have "ks = sprpKeys (map snd cks)"
    using assms(2) c
    by (cases cks) (auto simp: createKEMHeader_def Let_def obind_Ok_iff split: if_splits)
  then show ?thesis using kemKeys_sizes [OF P c] by simp
qed

section \<open>Undoing the hops\<close>

lemma encrypt_peel:
  assumes P: "prims_ok P"
  shows "peelPayload P ks b = Ok raw \<Longrightarrow> encryptPayload P ks raw = b"
proof (induction ks arbitrary: b)
  case (Cons k ks)
  obtain m where m: "SPRPDecrypt P (fst k) (snd k) b = (Ok m :: (sphinx_error, bytes) outcome)"
    "SPRPEncrypt P (fst k) (snd k) m = b"
    using SPRPDecrypt_total [OF P] by blast
  with Cons.prems have "peelPayload P ks m = Ok raw" by (cases k) simp
  with Cons.IH m show ?case by (cases k) simp
qed simp

lemma encryptPayload_snoc: "encryptPayload P (ks @ [(k, iv)]) b = encryptPayload P ks (SPRPEncrypt P k iv b)"
  by (induction ks) auto

lemma length_surbKeys:
  assumes "\<forall>k\<in>set ks. key_sizes k" "length kp = sprpKeyMaterialLength"
  shows "length (surbKeys ks kp) = Suc (length ks) * sprpKeyMaterialLength"
  using assms(1)
proof (induction ks rule: rev_induct)
  case (snoc k ks)
  then show ?case
    by (cases k) (auto simp: surbKeys_def key_sizes_def sprpKeyMaterialLength_def)
qed (simp add: surbKeys_def assms(2))

text \<open>The loop undoes the hops and then removes the peer's encryption.\<close>

lemma surbLoop_eq:
  assumes "\<forall>k\<in>set ks. key_sizes k" "length kp = sprpKeyMaterialLength"
  shows "surbLoop P (Suc (length ks)) (surbKeys ks kp) b =
    SPRPDecrypt P (take SPRPKeyLength kp) (drop SPRPKeyLength kp) (encryptPayload P ks b)"
  using assms(1)
proof (induction ks arbitrary: b rule: rev_induct)
  case Nil
  have "length (drop SPRPKeyLength kp) = SPRPIVLength"
    using assms(2) by (simp add: sprpKeyMaterialLength_def)
  then show ?case by (simp add: surbKeys_def copy_into_same)
next
  case (snoc x ks)
  obtain k iv where x: "x = (k, iv)" by (cases x)
  have l: "length k = SPRPKeyLength" "length iv = SPRPIVLength" using snoc.prems x by (simp_all add: key_sizes_def)
  have sk: "surbKeys (ks @ [x]) kp = k @ iv @ surbKeys ks kp" by (simp add: surbKeys_def x)
  have "copy_into (zeros SPRPIVLength) (drop SPRPKeyLength (k @ iv @ surbKeys ks kp)) = iv"
    using l by (simp add: copy_into_def)
  moreover have "drop sprpKeyMaterialLength (k @ iv @ surbKeys ks kp) = surbKeys ks kp"
    using l by (simp add: sprpKeyMaterialLength_def)
  ultimately have "surbLoop P (Suc (length (ks @ [x]))) (surbKeys (ks @ [x]) kp) b
      = surbLoop P (Suc (length ks)) (surbKeys ks kp) (SPRPEncrypt P k iv b)"
    using l by (simp add: sk Let_def)
  then show ?case using snoc by (simp add: x encryptPayload_snoc)
qed

section \<open>The life of a reply\<close>

text \<open>Turning a SURB into a packet: the header, the first hop, and the payload under the SURB's own key.\<close>

lemma NewPacketFromSURB_eq:
  assumes P: "prims_ok P" and g: "geo_wf el extra g"
    and l: "length hdr = HeaderLength g" "length nid = NodeIDLength" "length kp = sprpKeyMaterialLength"
  shows "NewPacketFromSURB P g (hdr @ nid @ kp) payload =
    Ok (hdr @ SPRPEncrypt P (take SPRPKeyLength kp) (drop SPRPKeyLength kp)
          (zeros (PayloadTagLength g) @ payload), nid)"
proof -
  let ?s = "hdr @ nid @ kp"
  have "length ?s = SURBLength g" "\<not> length ?s < HeaderLength g + NodeIDLength + SPRPKeyLength"
    "\<not> PerHopRoutingInfoLength g < PayloadTagLength g"
    using l g geo_wf_lengths [OF g] by (simp_all add: geo_wf_def sprpKeyMaterialLength_def)
  moreover have "take (HeaderLength g) ?s = hdr"
    "copy_into (zeros NodeIDLength) (slice (HeaderLength g) (HeaderLength g + NodeIDLength) ?s) = nid"
    "copy_into (zeros SPRPKeyLength) (slice (HeaderLength g + NodeIDLength)
       (HeaderLength g + NodeIDLength + SPRPKeyLength) ?s) = take SPRPKeyLength kp"
    "copy_into (zeros SPRPIVLength) (drop (HeaderLength g + NodeIDLength + SPRPKeyLength) ?s)
       = drop SPRPKeyLength kp"
    using l by (simp_all add: slice_def copy_into_same sprpKeyMaterialLength_def copy_into_same)
  ultimately show ?thesis
    by (simp add: NewPacketFromSURB_def Let_def copy_into_same length_SPRPEncrypt [OF P])
qed

text \<open>The keys of the SURB recover the payload from what the last hop passes on.\<close>

lemma DecryptSURBPayload_eq:
  assumes P: "prims_ok P" and ks: "\<forall>k\<in>set ks. key_sizes k" "length kp = sprpKeyMaterialLength"
    and peel: "peelPayload P ks (SPRPEncrypt P (take SPRPKeyLength kp) (drop SPRPKeyLength kp)
        (zeros (PayloadTagLength g) @ payload)) = Ok raw"
  shows "DecryptSURBPayload P g raw (surbKeys ks kp) = Ok payload"
proof -
  let ?e = "SPRPEncrypt P (take SPRPKeyLength kp) (drop SPRPKeyLength kp) (zeros (PayloadTagLength g) @ payload)"
  have "0 < sprpKeyMaterialLength" by (simp add: sprpKeyMaterialLength_def sphinx_constants)
  then have n: "length (surbKeys ks kp) div sprpKeyMaterialLength = Suc (length ks)"
    "length (surbKeys ks kp) mod sprpKeyMaterialLength = 0"
    unfolding length_surbKeys [OF ks] by simp_all
  have "length raw = length ?e" using peelPayload_total [OF P, of ks ?e] peel by auto
  then have "PayloadTagLength g \<le> length raw" by (simp add: length_SPRPEncrypt [OF P])
  moreover have "surbLoop P (Suc (length ks)) (surbKeys ks kp) raw = Ok (zeros (PayloadTagLength g) @ payload)"
    unfolding surbLoop_eq [OF ks] encrypt_peel [OF P peel] by (rule SPRPDecrypt_Encrypt [OF P])
  ultimately show ?thesis by (simp add: DecryptSURBPayload_def Let_def n)
qed

definition reply_works ::
    "sphinx_prims \<Rightarrow> geometry \<Rightarrow> ('s \<Rightarrow> bytes \<Rightarrow> unwrap_result) \<Rightarrow> ('pk, 'kpk) PathHop list \<Rightarrow> 's list
      \<Rightarrow> bytes \<times> bytes \<Rightarrow> bytes \<Rightarrow> bool" where
  "reply_works P g unwrap path ss surb_keys payload \<longleftrightarrow>
     (case surb_keys of (surb, keys) \<Rightarrow> length surb = SURBLength g \<and>
       (\<exists>pkt us raw. NewPacketFromSURB P g surb payload = Ok (pkt, ph_ID (hd path)) \<and>
         length pkt = HeaderLength g + PayloadTagLength g + length payload \<and>
         relay unwrap ss pkt = Ok us \<and> delivered (length pkt) path raw us \<and>
         DecryptSURBPayload P g raw keys = Ok payload))"

lemma reply_roundtrip:
  assumes P: "prims_ok P" and g: "geo_wf el extra g" and path: "path \<noteq> []" "length (ph_ID (hd path)) = NodeIDLength"
    and surb: "\<exists>c\<in>set (ph_Commands (last path)). is_SURBReply c"
    and hdr: "length hdr = HeaderLength g" "\<forall>k\<in>set ks. key_sizes k" and kp: "length kp = sprpKeyMaterialLength"
    and R: "\<And>body raw. PayloadTagLength g \<le> length body \<Longrightarrow> peelPayload P ks body = Ok raw \<Longrightarrow>
      (surbOf None (ph_Commands (last path)) = None \<longrightarrow> CtIsZero (take (PayloadTagLength g) raw)) \<Longrightarrow>
      (\<exists>us. relay unwrap ss (hdr @ body) = Ok us \<and>
        delivered (HeaderLength g + length body) path (finalPayload g (ph_Commands (last path)) raw) us)"
  shows "reply_works P g unwrap path ss (hdr @ ph_ID (hd path) @ kp, surbKeys ks kp) payload"
proof -
  let ?e = "SPRPEncrypt P (take SPRPKeyLength kp) (drop SPRPKeyLength kp) (zeros (PayloadTagLength g) @ payload)"
  obtain raw where raw: "peelPayload P ks ?e = Ok raw" using peelPayload_total [OF P] by blast
  have so: "surbOf None (ph_Commands (last path)) \<noteq> None" using surb by (simp add: surbOf_None_iff)
  then have "finalPayload g (ph_Commands (last path)) raw = raw" by (auto simp: finalPayload_def)
  then obtain us where "relay unwrap ss (hdr @ ?e) = Ok us" "delivered (HeaderLength g + length ?e) path raw us"
    using R [OF _ raw] so by (auto simp: length_SPRPEncrypt [OF P])
  then show ?thesis
    using NewPacketFromSURB_eq [OF P g hdr(1) path(2) kp, of payload]
      DecryptSURBPayload_eq [OF P hdr(2) kp raw] hdr(1) path(2) kp g
    by (auto simp: reply_works_def length_SPRPEncrypt [OF P] geo_wf_def sprpKeyMaterialLength_def)
qed

lemma path_head: "path_ok g r path \<Longrightarrow> path \<noteq> [] \<and> length (ph_ID (hd path)) = NodeIDLength"
  by (auto simp: path_ok_def)

lemma nike_surb_works:
  assumes P: "prims_ok P" and N: "nike_ok N V W" and g: "geo_wf (nike_PublicKeySize N) 0 g"
    and ent: "nike_entropy_ok N W ent"
    and path: "path_ok g 0 path" "list_all2 (hop_key N W) path ss"
    and surb: "\<exists>c\<in>set (ph_Commands (last path)). is_SURBReply c"
  shows "\<exists>sk. newNikeSURB P N g ent path = Ok sk \<and> reply_works P g (unwrapNike P N g) path ss sk payload"
proof -
  obtain kp where kp: "ent_r ent sprpKeyMaterialLength = Some kp" "length kp = sprpKeyMaterialLength"
    using ent by (auto simp: nike_entropy_ok_def reader_ok_def)
  obtain hdr ks where h: "createHeader P N g ent path = Ok (hdr, ks)" "length hdr = HeaderLength g"
    and R: "\<And>body raw. PayloadTagLength g \<le> length body \<Longrightarrow> peelPayload P ks body = Ok raw \<Longrightarrow>
      (surbOf None (ph_Commands (last path)) = None \<longrightarrow> CtIsZero (take (PayloadTagLength g) raw)) \<Longrightarrow>
      (\<exists>us. relay (unwrapNike P N g) ss (hdr @ body) = Ok us \<and>
        delivered (HeaderLength g + length body) path (finalPayload g (ph_Commands (last path)) raw) us)"
    using createHeader_relay [OF P N g ent path] by blast
  have p: "path \<noteq> []" "length (ph_ID (hd path)) = NodeIDLength" using path_head [OF path(1)] by auto
  have "newNikeSURB P N g ent path = Ok (hdr @ ph_ID (hd path) @ kp, surbKeys ks kp)"
    using kp h(1) p(1) by (cases path) (simp_all add: newNikeSURB_def surbBlob_def)
  with reply_roundtrip [OF P g p surb h(2) createHeader_sizes [OF P h(1)] kp(2) R] show ?thesis by blast
qed

lemma kem_surb_works:
  assumes P: "prims_ok P" and g: "geo_wf (kem_CiphertextSize K) (kem_CiphertextSize K) g"
    and ent: "reader_ok (kent_randReader ent)" "reader_ok (kent_r ent)"
    and path: "path_ok g (kem_CiphertextSize K) path" "list_all2 (kem_hop K) path ss"
    and surb: "\<exists>c\<in>set (ph_Commands (last path)). is_SURBReply c"
  shows "\<exists>sk. newKemSURB P K g ent path = Ok sk \<and> reply_works P g (unwrapKem P K g) path ss sk payload"
proof -
  obtain kp where kp: "kent_r ent sprpKeyMaterialLength = Some kp" "length kp = sprpKeyMaterialLength"
    using ent by (auto simp: reader_ok_def)
  obtain hdr ks where h: "createKEMHeader P K g ent path = Ok (hdr, ks)" "length hdr = HeaderLength g"
    and R: "\<And>body raw. PayloadTagLength g \<le> length body \<Longrightarrow> peelPayload P ks body = Ok raw \<Longrightarrow>
      (surbOf None (ph_Commands (last path)) = None \<longrightarrow> CtIsZero (take (PayloadTagLength g) raw)) \<Longrightarrow>
      (\<exists>us. relay (unwrapKem P K g) ss (hdr @ body) = Ok us \<and>
        delivered (HeaderLength g + length body) path (finalPayload g (ph_Commands (last path)) raw) us)"
    using createKEMHeader_relay [OF P g ent(1) path] by blast
  have p: "path \<noteq> []" "length (ph_ID (hd path)) = NodeIDLength" using path_head [OF path(1)] by auto
  have "newKemSURB P K g ent path = Ok (hdr @ ph_ID (hd path) @ kp, surbKeys ks kp)"
    using kp h(1) p(1) by (cases path) (simp_all add: newKemSURB_def surbBlob_def)
  with reply_roundtrip [OF P g p surb h(2) createKEMHeader_sizes [OF P h(1)] kp(2) R] show ?thesis by blast
qed

lemma toy_surb_fits:
  "cmds_fit toy_geo 0 [SURBReply (replicate 16 8)] True"
  "cmds_fit toy_kem_geo 40 [SURBReply (replicate 16 8)] True"
  using geo_wf_lengths [OF toy_geo_wf(1)] geo_wf_lengths [OF toy_kem_geo_wf(1)]
  by (simp_all add: cmds_fit_def rc_printers SURBIDLength_def)

section \<open>Properties\<close>

text \<open>
  C7: a SURB created by \<^verbatim>\<open>newNikeSURB\<close> for a path that ends with a \<^verbatim>\<open>SURBReply\<close> works for every reply: the
  peer's \<^verbatim>\<open>NewPacketFromSURB\<close> names the first hop and builds a packet that every hop accepts in turn,
  and \<^verbatim>\<open>DecryptSURBPayload\<close> with the SURB's keys turns what the last hop passes on into the peer's payload.
\<close>

theorem nike_surb_reply:
  assumes "prims_ok P" and "nike_ok N V W"
    and "GeometryFromUserForwardPayloadLength (nike_info.truncate N) user withSURB nrHops = Ok g"
    and "nike_entropy_ok N W ent"
    and "path_ok g 0 path" and "list_all2 (hop_key N W) path ss"
    and "\<exists>c\<in>set (ph_Commands (last path)). is_SURBReply c"
  shows "\<exists>surb keys pkt us raw. newNikeSURB P N g ent path = Ok (surb, keys) \<and> length surb = SURBLength g \<and>
    NewPacketFromSURB P g surb payload = Ok (pkt, ph_ID (hd path)) \<and>
    relay (unwrapNike P N g) ss pkt = Ok us \<and> delivered (length pkt) path raw us \<and>
    DecryptSURBPayload P g raw keys = Ok payload"
  using nike_surb_works [OF assms(1,2) _ assms(4-7), of payload] nike_geometry_ok(1) [OF assms(3)]
  by (auto simp: nike_info.truncate_def reply_works_def)

theorem nike_surb_reply_witness:
  "\<exists>surb keys pkt us raw. newNikeSURB toy_sphinx (EcdhNike toy_curve) toy_geo toy_entropy
      (toy_path [SURBReply (replicate 16 8)]) = Ok (surb, keys) \<and> length surb = SURBLength toy_geo \<and>
    NewPacketFromSURB toy_sphinx toy_geo surb [1, 2, 3] =
      Ok (pkt, ph_ID (hd (toy_path [SURBReply (replicate 16 8)]))) \<and>
    relay (unwrapNike toy_sphinx (EcdhNike toy_curve) toy_geo) [toy_key 5, toy_key 6] pkt = Ok us \<and>
    delivered (length pkt) (toy_path [SURBReply (replicate 16 8)]) raw us \<and>
    DecryptSURBPayload toy_sphinx toy_geo raw keys = Ok [1, 2, 3]"
  by (rule nike_surb_reply [OF toy_sphinx_ok ecdh_nike_ok [OF toy_curve_ok] toy_geo_eq
        toy_entropy_ok toy_path_ok [OF toy_surb_fits(1)] toy_hop_keys])
     (simp add: toy_path_def)

text \<open>
  the same for the KEM format: \<^verbatim>\<open>newKemSURB\<close>, \<^verbatim>\<open>NewPacketFromSURB\<close>, \<^verbatim>\<open>unwrapKem\<close> at every hop and
  \<^verbatim>\<open>DecryptSURBPayload\<close> recover the peer's payload.
\<close>

theorem kem_surb_reply:
  assumes "prims_ok P"
    and "KEMGeometryFromUserForwardPayloadLength (kem_info.truncate K) user withSURB nrHops = Ok g"
    and "reader_ok (kent_randReader ent)" "reader_ok (kent_r ent)"
    and "path_ok g (kem_CiphertextSize K) path" and "list_all2 (kem_hop K) path ss"
    and "\<exists>c\<in>set (ph_Commands (last path)). is_SURBReply c"
  shows "\<exists>surb keys pkt us raw. newKemSURB P K g ent path = Ok (surb, keys) \<and> length surb = SURBLength g \<and>
    NewPacketFromSURB P g surb payload = Ok (pkt, ph_ID (hd path)) \<and>
    relay (unwrapKem P K g) ss pkt = Ok us \<and> delivered (length pkt) path raw us \<and>
    DecryptSURBPayload P g raw keys = Ok payload"
  using kem_surb_works [OF assms(1) _ assms(3-7), of payload] kem_geometry_ok(1) [OF assms(2)]
  by (auto simp: kem_info.truncate_def reply_works_def)

theorem kem_surb_reply_witness:
  "\<exists>surb keys pkt us raw. newKemSURB toy_sphinx toy_kem toy_kem_geo toy_kem_entropy
      (toy_kem_path [SURBReply (replicate 16 8)]) = Ok (surb, keys) \<and> length surb = SURBLength toy_kem_geo \<and>
    NewPacketFromSURB toy_sphinx toy_kem_geo surb [1, 2, 3] =
      Ok (pkt, ph_ID (hd (toy_kem_path [SURBReply (replicate 16 8)]))) \<and>
    relay (unwrapKem toy_sphinx toy_kem toy_kem_geo) [5, 6] pkt = Ok us \<and>
    delivered (length pkt) (toy_kem_path [SURBReply (replicate 16 8)]) raw us \<and>
    DecryptSURBPayload toy_sphinx toy_kem_geo raw keys = Ok [1, 2, 3]"
  by (rule kem_surb_reply [OF toy_sphinx_ok toy_kem_geo_eq toy_kem_entropy_ok _ toy_kem_hops])
     (use toy_kem_path_ok [OF toy_surb_fits(2)] in \<open>simp_all add: toy_kem_path_def toy_kem_def\<close>)

end
