(* ===== verification/Sign_Scheme.thy ===== *)
theory Sign_Scheme
  imports Mix_Prelude
begin

text \<open>
  The hybrid signature scheme Ed25519 + SPHINCS+ that the whole network uses for identity keys
  (\<^verbatim>\<open>src/core/crypto/sign/ed25519sphincsplus/scheme.go\<close>), with the key parsing of its two
  parts (\<^verbatim>\<open>src/core/crypto/eddsa/eddsa.go\<close>, \<^verbatim>\<open>src/sphincsplus/ref/binding.go\<close>, built with
  the parameter set sphincs-shake-256f).  The cryptographic primitives are the fields of
  \<open>sign_prims\<close>: Ed25519 of the Go library, the C implementation of SPHINCS+ behind the cgo
  binding, and BLAKE2b.  A slice expression or an element address out of range panics, as in
  Go; a buffer's capacity is taken to be its length.
\<close>

record sign_prims =
  blake2b_Sum256 :: "bytes \<Rightarrow> bytes"
  ed25519_Verify :: "bytes \<Rightarrow> bytes \<Rightarrow> bytes \<Rightarrow> bool"   \<comment> \<open>public key, message, signature\<close>
  ed25519_Sign :: "bytes \<Rightarrow> bytes \<Rightarrow> bytes"              \<comment> \<open>private key, message\<close>
  crypto_sign_verify :: "bytes \<Rightarrow> bytes \<Rightarrow> bytes \<Rightarrow> bool" \<comment> \<open>signature, message, public key\<close>
  crypto_sign_signature :: "bytes \<Rightarrow> bytes \<Rightarrow> bytes"      \<comment> \<open>message, private key\<close>

section \<open>Sizes\<close>

definition eddsa_PublicKeySize :: nat where "eddsa_PublicKeySize = 32"
definition eddsa_PrivateKeySize :: nat where "eddsa_PrivateKeySize = 64"
definition eddsa_SignatureSize :: nat where "eddsa_SignatureSize = 64"
definition sphincs_PublicKeySize :: nat where "sphincs_PublicKeySize = 64"
definition sphincs_PrivateKeySize :: nat where "sphincs_PrivateKeySize = 128"
definition sphincs_SignatureSize :: nat where "sphincs_SignatureSize = 49856"

definition SignatureSize :: nat where
  "SignatureSize = eddsa_SignatureSize + sphincs_SignatureSize"
definition PublicKeySize :: nat where
  "PublicKeySize = eddsa_PublicKeySize + sphincs_PublicKeySize"
definition PrivateKeySize :: nat where
  "PrivateKeySize = eddsa_PrivateKeySize + sphincs_PrivateKeySize"

lemmas sign_sizes = eddsa_PublicKeySize_def eddsa_PrivateKeySize_def eddsa_SignatureSize_def
  sphincs_PublicKeySize_def sphincs_PrivateKeySize_def sphincs_SignatureSize_def
  SignatureSize_def PublicKeySize_def PrivateKeySize_def

section \<open>Keys\<close>

datatype key_error = ErrPublicKeySize | ErrPrivateKeySize | errInvalidKey | ErrSphincsKeySize

record publicKey =
  pk_e :: bytes
  pk_s :: bytes
  pk_hash :: bytes

record privateKey =
  sk_e :: bytes
  sk_s :: bytes

definition PrivateKeyType :: string where "PrivateKeyType = ''ED25519 SPHINCS+ PRIVATE KEY''"
definition PublicKeyType :: string where "PublicKeyType = ''ED25519 SPHINCS+ PUBLIC KEY''"

definition NewEmptyPublicKey :: publicKey where
  "NewEmptyPublicKey = \<lparr>pk_e = [], pk_s = [], pk_hash = zeros 32\<rparr>"

definition eddsa_pk_FromBytes :: "bytes \<Rightarrow> (key_error, bytes) outcome" where
  "eddsa_pk_FromBytes b = (if length b \<noteq> eddsa_PublicKeySize then Fail errInvalidKey else Ok b)"

definition sphincs_pk_FromBytes :: "bytes \<Rightarrow> (key_error, bytes) outcome" where
  "sphincs_pk_FromBytes b =
     (if length b \<noteq> sphincs_PublicKeySize then Fail ErrSphincsKeySize else Ok b)"

definition eddsa_sk_FromBytes :: "bytes \<Rightarrow> (key_error, bytes) outcome" where
  "eddsa_sk_FromBytes b = (if length b \<noteq> eddsa_PrivateKeySize then Fail errInvalidKey else Ok b)"

definition sphincs_sk_FromBytes :: "bytes \<Rightarrow> (key_error, bytes) outcome" where
  "sphincs_sk_FromBytes b =
     (if length b \<noteq> sphincs_PrivateKeySize then Fail ErrSphincsKeySize else Ok b)"

definition pk_Bytes :: "publicKey \<Rightarrow> bytes" where
  "pk_Bytes p = pk_e p @ pk_s p"

definition pk_FromBytes :: "sign_prims \<Rightarrow> bytes \<Rightarrow> (key_error, publicKey) outcome" where
  "pk_FromBytes P data =
     (if length data \<noteq> eddsa_PublicKeySize + sphincs_PublicKeySize then Fail ErrPublicKeySize
      else obind (eddsa_pk_FromBytes (take eddsa_PublicKeySize data)) (\<lambda>e.
           obind (sphincs_pk_FromBytes (drop eddsa_PublicKeySize data)) (\<lambda>s.
             Ok \<lparr>pk_e = e, pk_s = s, pk_hash = blake2b_Sum256 P (e @ s)\<rparr>)))"

definition UnmarshalBinaryPublicKey :: "sign_prims \<Rightarrow> bytes \<Rightarrow> (key_error, publicKey) outcome" where
  "UnmarshalBinaryPublicKey P b = pk_FromBytes P b"

definition pk_Sum256 :: "publicKey \<Rightarrow> bytes" where
  "pk_Sum256 p = pk_hash p"

definition pk_Equal :: "publicKey \<Rightarrow> publicKey \<Rightarrow> bool" where
  "pk_Equal p q = (pk_Bytes q = pk_Bytes p)"

definition pk_Reset :: "publicKey \<Rightarrow> publicKey" where
  "pk_Reset p = p\<lparr>pk_e := ExplicitBzero (pk_e p), pk_s := ExplicitBzero (pk_s p)\<rparr>"

definition sk_Bytes :: "privateKey \<Rightarrow> bytes" where
  "sk_Bytes p = sk_e p @ sk_s p"

definition sk_FromBytes :: "bytes \<Rightarrow> (key_error, privateKey) outcome" where
  "sk_FromBytes data =
     (if length data \<noteq> eddsa_PrivateKeySize + sphincs_PrivateKeySize then Fail ErrPrivateKeySize
      else obind (eddsa_sk_FromBytes (take eddsa_PrivateKeySize data)) (\<lambda>e.
           obind (sphincs_sk_FromBytes (drop eddsa_PrivateKeySize data)) (\<lambda>s.
             Ok \<lparr>sk_e = e, sk_s = s\<rparr>)))"

section \<open>Signing and verifying\<close>

text \<open>The cgo calls take the address of element 0 of each buffer, which panics when it is empty.\<close>

definition sphincs_Verify ::
  "sign_prims \<Rightarrow> bytes \<Rightarrow> bytes \<Rightarrow> bytes \<Rightarrow> (key_error, bool) outcome" where
  "sphincs_Verify P pk sig msg =
     (if sig = [] \<or> msg = [] \<or> pk = [] then Panic else Ok (crypto_sign_verify P sig msg pk))"

definition sphincs_Sign :: "sign_prims \<Rightarrow> bytes \<Rightarrow> bytes \<Rightarrow> (key_error, bytes) outcome" where
  "sphincs_Sign P sk msg =
     (if msg = [] \<or> sk = [] then Panic else Ok (crypto_sign_signature P msg sk))"

definition sk_Sign :: "sign_prims \<Rightarrow> privateKey \<Rightarrow> bytes \<Rightarrow> (key_error, bytes) outcome" where
  "sk_Sign P k msg =
     obind (sphincs_Sign P (sk_s k) msg) (\<lambda>s. Ok (ed25519_Sign P (sk_e k) msg @ s))"

definition pk_Verify ::
  "sign_prims \<Rightarrow> publicKey \<Rightarrow> bytes \<Rightarrow> bytes \<Rightarrow> (key_error, bool) outcome" where
  "pk_Verify P p sig msg =
     (if length sig < eddsa_SignatureSize then Panic
      else if \<not> ed25519_Verify P (pk_e p) msg (take eddsa_SignatureSize sig) then Ok False
      else obind (sphincs_Verify P (pk_s p) (drop eddsa_SignatureSize sig) msg) (\<lambda>ok.
           if \<not> ok then Ok False else Ok True))"

section \<open>Well-formed keys\<close>

definition pk_wf :: "sign_prims \<Rightarrow> publicKey \<Rightarrow> bool" where
  "pk_wf P p \<longleftrightarrow> length (pk_e p) = eddsa_PublicKeySize \<and> length (pk_s p) = sphincs_PublicKeySize
     \<and> pk_hash p = blake2b_Sum256 P (pk_Bytes p)"

definition sk_wf :: "privateKey \<Rightarrow> bool" where
  "sk_wf k \<longleftrightarrow> length (sk_e k) = eddsa_PrivateKeySize \<and> length (sk_s k) = sphincs_PrivateKeySize"

text \<open>
  What is documented of the primitives: an Ed25519 signature has 64 bytes, and each part of a
  signature made with a private key verifies under the matching public key.
\<close>

definition keypair_ok :: "sign_prims \<Rightarrow> privateKey \<Rightarrow> publicKey \<Rightarrow> bool" where
  "keypair_ok P k p \<longleftrightarrow>
     (\<forall>m. length (ed25519_Sign P (sk_e k) m) = eddsa_SignatureSize) \<and>
     (\<forall>m. ed25519_Verify P (pk_e p) m (ed25519_Sign P (sk_e k) m)) \<and>
     (\<forall>m. crypto_sign_signature P m (sk_s k) \<noteq> []) \<and>
     (\<forall>m. crypto_sign_verify P (crypto_sign_signature P m (sk_s k)) m (pk_s p))"

section \<open>Lemmas\<close>

lemma pk_FromBytes_wf: "pk_FromBytes P b = Ok p \<Longrightarrow> pk_wf P p \<and> pk_Bytes p = b"
  by (auto simp: pk_FromBytes_def obind_Ok_iff eddsa_pk_FromBytes_def sphincs_pk_FromBytes_def
      pk_wf_def pk_Bytes_def split: if_splits)

lemma pk_FromBytes_Bytes: "pk_wf P p \<Longrightarrow> pk_FromBytes P (pk_Bytes p) = Ok p"
  by (simp add: pk_wf_def pk_FromBytes_def pk_Bytes_def eddsa_pk_FromBytes_def
      sphincs_pk_FromBytes_def)

lemma pk_Bytes_length: "pk_wf P p \<Longrightarrow> length (pk_Bytes p) = PublicKeySize"
  by (simp add: pk_wf_def pk_Bytes_def PublicKeySize_def)

lemma pk_FromBytes_no_panic: "pk_FromBytes P b \<noteq> Panic"
  by (simp add: pk_FromBytes_def obind_Panic_iff eddsa_pk_FromBytes_def sphincs_pk_FromBytes_def)

lemma sk_roundtrip: "sk_wf k \<Longrightarrow> sk_FromBytes (sk_Bytes k) = Ok k"
  by (simp add: sk_wf_def sk_FromBytes_def sk_Bytes_def eddsa_sk_FromBytes_def
      sphincs_sk_FromBytes_def)

lemma pk_Verify_True_iff:
  "pk_Verify P p sig msg = Ok True \<longleftrightarrow>
     length sig > eddsa_SignatureSize \<and> msg \<noteq> [] \<and> pk_s p \<noteq> [] \<and>
     ed25519_Verify P (pk_e p) msg (take eddsa_SignatureSize sig) \<and>
     crypto_sign_verify P (drop eddsa_SignatureSize sig) msg (pk_s p)"
  by (auto simp: pk_Verify_def sphincs_Verify_def)

lemma pk_Verify_Panic_iff:
  "pk_Verify P p sig msg = Panic \<longleftrightarrow>
     length sig < eddsa_SignatureSize \<or>
     ed25519_Verify P (pk_e p) msg (take eddsa_SignatureSize sig) \<and>
       (length sig = eddsa_SignatureSize \<or> msg = [] \<or> pk_s p = [])"
  by (auto simp: pk_Verify_def sphincs_Verify_def obind_Panic_iff)

lemma pk_Verify_not_Fail: "pk_Verify P p sig msg \<noteq> Fail e"
  by (auto simp: pk_Verify_def sphincs_Verify_def)

lemma sign_verify:
  assumes "keypair_ok P k p" "pk_wf P p" "sk_wf k" "msg \<noteq> []"
  shows "\<exists>sig. sk_Sign P k msg = Ok sig \<and> pk_Verify P p sig msg = Ok True"
  using assms
  by (auto simp: sk_Sign_def sphincs_Sign_def pk_Verify_True_iff keypair_ok_def pk_wf_def sk_wf_def
      sign_sizes)

text \<open>Key parsing as a codec.\<close>

interpretation pkcodec: byte_codec "\<lambda>p. Ok (pk_Bytes p)" "pk_FromBytes P" "pk_wf P" "\<lambda>p. p"
  for P :: sign_prims
  by unfold_locales (auto simp: pk_FromBytes_Bytes)

section \<open>A concrete instance of the primitives\<close>

text \<open>
  Functions with the documented behaviour of the primitives, for evaluating the model: the
  "signature" of a message is the public part of the key followed by a fixed-length image of the
  message.
\<close>

definition toy_digest :: "bytes \<Rightarrow> bytes" where
  "toy_digest m = copy_into (zeros 32) m"

definition toy_prims :: sign_prims where
  "toy_prims = \<lparr>blake2b_Sum256 = toy_digest,
     ed25519_Verify = (\<lambda>pk m s. s = pk @ toy_digest m),
     ed25519_Sign = (\<lambda>sk m. take 32 sk @ toy_digest m),
     crypto_sign_verify = (\<lambda>s m pk. s = pk @ toy_digest m),
     crypto_sign_signature = (\<lambda>m sk. take 64 sk @ toy_digest m)\<rparr>"

definition toy_sk :: privateKey where
  "toy_sk = \<lparr>sk_e = replicate 64 1, sk_s = replicate 128 1\<rparr>"

definition toy_pk :: publicKey where
  "toy_pk = \<lparr>pk_e = replicate 32 1, pk_s = replicate 64 1, pk_hash = replicate 32 1\<rparr>"

lemma toy_pk_wf: "pk_wf toy_prims toy_pk"
  by (simp add: pk_wf_def toy_pk_def toy_prims_def toy_digest_def pk_Bytes_def sign_sizes
      copy_into_def)

lemma toy_sk_wf: "sk_wf toy_sk"
  by (simp add: sk_wf_def toy_sk_def sign_sizes)

lemma toy_keypair_ok: "keypair_ok toy_prims toy_sk toy_pk"
  by (simp add: keypair_ok_def toy_prims_def toy_sk_def toy_pk_def toy_digest_def sign_sizes)

section \<open>Properties\<close>

text \<open>
  a message signed with a private key of the hybrid scheme verifies under the matching public
  key, also after that key went through its serialization.
\<close>

theorem hybrid_sign_verify:
  assumes "keypair_ok P k p" "pk_wf P p" "sk_wf k" "msg \<noteq> []"
  shows "\<exists>sig p'. sk_Sign P k msg = Ok sig \<and> pk_FromBytes P (pk_Bytes p) = Ok p' \<and>
    pk_Verify P p' sig msg = Ok True"
  using sign_verify [OF assms] pk_FromBytes_Bytes [OF assms(2)] by auto

theorem hybrid_sign_verify_witness:
  "\<exists>sig p'. sk_Sign toy_prims toy_sk [1, 2, 3] = Ok sig \<and> pk_FromBytes toy_prims (pk_Bytes toy_pk) = Ok p' \<and>
    pk_Verify toy_prims p' sig [1, 2, 3] = Ok True"
  by (rule hybrid_sign_verify [OF toy_keypair_ok toy_pk_wf toy_sk_wf]) simp

text \<open>
  \<^verbatim>\<open>Verify\<close> slices the signature before checking its length: it panics exactly when the
  signature is shorter than an Ed25519 signature, or when its Ed25519 part verifies and the Sphincs+
  part, the message or the Sphincs+ key is empty.
\<close>

theorem pk_Verify_panics_iff:
  "pk_Verify P p sig msg = Panic \<longleftrightarrow>
     length sig < eddsa_SignatureSize \<or>
     ed25519_Verify P (pk_e p) msg (take eddsa_SignatureSize sig) \<and>
       (length sig = eddsa_SignatureSize \<or> msg = [] \<or> pk_s p = [])"
  by (rule pk_Verify_Panic_iff)

end
