(* ===== verification/Certificates.thy ===== *)
theory Certificates
  imports Sign_Scheme
begin

text \<open>
  Certificates with any number of signatures (\<^verbatim>\<open>src/core/crypto/cert/cert.go\<close>): the signed message,
  the sanity checks, signing, adding signatures, and verification by one verifier, by all, or by a
  threshold of them.  Every \<^verbatim>\<open>Verifier\<close> and \<^verbatim>\<open>Signer\<close> of the repository is a key of
  \<^verbatim>\<open>ed25519sphincsplus\<close>, so these interfaces are \<open>publicKey\<close> and \<open>privateKey\<close>.  The CBOR library is
  the parameter \<open>cbor\<close>; the current epoch is an argument.  A nil map of signatures and an empty one
  are both \<open>[]\<close>: \<^verbatim>\<open>sanityCheck\<close> replaces nil by an empty map before any use.
\<close>

section \<open>Data\<close>

datatype cert_error = ErrImpossibleDecode | ErrImpossibleEncode | ErrBadSignature
  | ErrDuplicateSignature | ErrInvalidCertified | ErrKeyTypeMismatch | ErrInvalidKeyType
  | ErrVersionMismatch | ErrCertificateExpired | ErrIdentitySignatureNotFound
  | ErrInvalidThreshold | ErrThresholdNotMet | ErrMarshal

record Signature =
  PublicKeySum256 :: bytes
  Payload :: bytes

record Certificate =
  c_Version :: u32
  Expiration :: u64
  KeyType :: string
  Certified :: bytes
  Signatures :: "(bytes, Signature) gomap"

record cbor =
  cbor_Marshal :: "Certificate \<Rightarrow> bytes option"
  cbor_Unmarshal :: "bytes \<Rightarrow> Certificate option"

definition CertVersion :: u32 where "CertVersion = 0"

text \<open>A call of the signature scheme inside this package; the scheme itself never returns an error.\<close>

abbreviation scheme_call :: "(key_error, 'a) outcome \<Rightarrow> (cert_error, 'a) outcome" where
  "scheme_call r \<equiv> omap_err (\<lambda>_. ErrBadSignature) r"

section \<open>Operations\<close>

definition cert_message :: "Certificate \<Rightarrow> bytes" where
  "cert_message c = put_u32_le (c_Version c) @ put_u64_le (Expiration c) @ string_bytes (KeyType c) @ Certified c"

definition sanityCheck :: "u64 \<Rightarrow> Certificate \<Rightarrow> (cert_error, Certificate) outcome" where
  "sanityCheck current c =
     (if c_Version c \<noteq> CertVersion then Fail ErrVersionMismatch
      else if Expiration c \<le> current then Fail ErrCertificateExpired
      else if KeyType c = [] then Fail ErrInvalidKeyType
      else if Certified c = [] then Fail ErrInvalidCertified
      else Ok c)"

definition c_Marshal :: "cbor \<Rightarrow> cert_error \<Rightarrow> Certificate \<Rightarrow> (cert_error, bytes) outcome" where
  "c_Marshal B e c = (case cbor_Marshal B c of None \<Rightarrow> Fail e | Some b \<Rightarrow> Ok b)"

definition c_Unmarshal :: "cbor \<Rightarrow> cert_error \<Rightarrow> u64 \<Rightarrow> bytes \<Rightarrow> (cert_error, Certificate) outcome" where
  "c_Unmarshal B e current rawCert =
     (case cbor_Unmarshal B rawCert of None \<Rightarrow> Fail e | Some c \<Rightarrow> sanityCheck current c)"

definition Sign ::
  "sign_prims \<Rightarrow> cbor \<Rightarrow> u64 \<Rightarrow> privateKey \<Rightarrow> publicKey \<Rightarrow> bytes \<Rightarrow> u64 \<Rightarrow> (cert_error, bytes) outcome" where
  "Sign P B current signer verifier data expiration =
     obind (sanityCheck current \<lparr>c_Version = CertVersion, Expiration = expiration,
       KeyType = PrivateKeyType, Certified = data, Signatures = []\<rparr>) (\<lambda>c.
     obind (scheme_call (sk_Sign P signer (cert_message c))) (\<lambda>payload.
     c_Marshal B ErrMarshal (c\<lparr>Signatures := gm_put [] (pk_Sum256 verifier)
       \<lparr>PublicKeySum256 = pk_Sum256 verifier, Payload = payload\<rparr>\<rparr>)))"

definition GetCertified :: "cbor \<Rightarrow> u64 \<Rightarrow> bytes \<Rightarrow> (cert_error, bytes) outcome" where
  "GetCertified B current rawCert =
     obind (c_Unmarshal B ErrImpossibleDecode current rawCert) (\<lambda>c. Ok (Certified c))"

definition GetSignatures :: "cbor \<Rightarrow> u64 \<Rightarrow> bytes \<Rightarrow> (cert_error, Signature list) outcome" where
  "GetSignatures B current rawCert =
     obind (c_Unmarshal B ErrImpossibleDecode current rawCert) (\<lambda>c. Ok (map snd (Signatures c)))"

definition GetSignature :: "cbor \<Rightarrow> u64 \<Rightarrow> bytes \<Rightarrow> bytes \<Rightarrow> (cert_error, Signature) outcome" where
  "GetSignature B current identity rawCert =
     obind (c_Unmarshal B ErrImpossibleDecode current rawCert) (\<lambda>c.
       case find (\<lambda>s. identity = PublicKeySum256 s) (map snd (Signatures c)) of
         Some s \<Rightarrow> Ok s | None \<Rightarrow> Fail ErrIdentitySignatureNotFound)"

definition SignMulti ::
  "sign_prims \<Rightarrow> cbor \<Rightarrow> u64 \<Rightarrow> privateKey \<Rightarrow> publicKey \<Rightarrow> bytes \<Rightarrow> (cert_error, bytes) outcome" where
  "SignMulti P B current signer verifier rawCert =
     obind (c_Unmarshal B ErrImpossibleDecode current rawCert) (\<lambda>c.
     if PrivateKeyType \<noteq> KeyType c then Fail ErrKeyTypeMismatch
     else obind (scheme_call (sk_Sign P signer (cert_message c))) (\<lambda>payload.
       c_Marshal B ErrImpossibleEncode (c\<lparr>Signatures := gm_put (Signatures c) (pk_Sum256 verifier)
         \<lparr>PublicKeySum256 = pk_Sum256 verifier, Payload = payload\<rparr>\<rparr>)))"

definition AddSignature ::
  "sign_prims \<Rightarrow> cbor \<Rightarrow> u64 \<Rightarrow> publicKey \<Rightarrow> Signature \<Rightarrow> bytes \<Rightarrow> (cert_error, bytes) outcome" where
  "AddSignature P B current verifier signature rawCert =
     obind (c_Unmarshal B ErrImpossibleDecode current rawCert) (\<lambda>c.
     if list_ex (\<lambda>s. PublicKeySum256 s = PublicKeySum256 signature) (map snd (Signatures c))
     then Fail ErrDuplicateSignature
     else obind (scheme_call (pk_Verify P verifier (Payload signature) (cert_message c))) (\<lambda>ok.
       if ok then c_Marshal B ErrImpossibleEncode
         (c\<lparr>Signatures := gm_put (Signatures c) (PublicKeySum256 signature) signature\<rparr>)
       else Fail ErrBadSignature))"

definition cert_Verify ::
  "sign_prims \<Rightarrow> cbor \<Rightarrow> u64 \<Rightarrow> publicKey \<Rightarrow> bytes \<Rightarrow> (cert_error, bytes) outcome" where
  "cert_Verify P B current verifier rawCert =
     obind (c_Unmarshal B ErrImpossibleEncode current rawCert) (\<lambda>c.
       case find (\<lambda>s. pk_Sum256 verifier = PublicKeySum256 s) (map snd (Signatures c)) of
         None \<Rightarrow> Fail ErrIdentitySignatureNotFound
       | Some s \<Rightarrow> obind (scheme_call (pk_Verify P verifier (Payload s) (cert_message c))) (\<lambda>ok.
           if ok then Ok (Certified c) else Fail ErrBadSignature))"

fun verifyAllLoop ::
  "sign_prims \<Rightarrow> cbor \<Rightarrow> u64 \<Rightarrow> bytes \<Rightarrow> publicKey list \<Rightarrow> bytes \<Rightarrow> (cert_error, bytes) outcome" where
  "verifyAllLoop P B current rawCert [] certified = Ok certified"
| "verifyAllLoop P B current rawCert (v # vs) certified =
     obind (cert_Verify P B current v rawCert) (\<lambda>c. verifyAllLoop P B current rawCert vs c)"

definition VerifyAll ::
  "sign_prims \<Rightarrow> cbor \<Rightarrow> u64 \<Rightarrow> publicKey list \<Rightarrow> bytes \<Rightarrow> (cert_error, bytes) outcome" where
  "VerifyAll P B current verifiers rawCert = verifyAllLoop P B current rawCert verifiers []"

text \<open>
  The loop of \<^verbatim>\<open>VerifyThreshold\<close>: the certified data so far, the verifiers that succeeded by the hash
  of their key, and those that failed.
\<close>

fun thresholdLoop ::
  "sign_prims \<Rightarrow> cbor \<Rightarrow> u64 \<Rightarrow> bytes \<Rightarrow> publicKey list \<Rightarrow>
   bytes \<times> (bytes, publicKey) gomap \<times> publicKey list \<Rightarrow>
   (cert_error, bytes \<times> (bytes, publicKey) gomap \<times> publicKey list) outcome" where
  "thresholdLoop P B current rawCert [] st = Ok st"
| "thresholdLoop P B current rawCert (v # vs) (certified, good, bad) =
     (case cert_Verify P B current v rawCert of
        Ok c \<Rightarrow> thresholdLoop P B current rawCert vs (c, gm_put good (pk_Sum256 v) v, bad)
      | Fail e \<Rightarrow> thresholdLoop P B current rawCert vs (certified, good, bad @ [v])
      | Panic \<Rightarrow> Panic)"

text \<open>
  The four results of \<^verbatim>\<open>VerifyThreshold\<close> as a record; \<open>vt_err = None\<close> is the nil error.
\<close>

record threshold_result =
  vt_certified :: bytes
  vt_good :: "publicKey list"
  vt_bad :: "publicKey list"
  vt_err :: "cert_error option"

definition VerifyThreshold ::
  "sign_prims \<Rightarrow> cbor \<Rightarrow> u64 \<Rightarrow> publicKey list \<Rightarrow> int \<Rightarrow> bytes \<Rightarrow> (cert_error, threshold_result) outcome" where
  "VerifyThreshold P B current verifiers threshold rawCert =
     (if int (length verifiers) < threshold
      then Ok \<lparr>vt_certified = [], vt_good = [], vt_bad = [], vt_err = Some ErrInvalidThreshold\<rparr>
      else obind (thresholdLoop P B current rawCert verifiers ([], [], [])) (\<lambda>(certified, good, bad).
        if threshold \<le> int (length good)
        then Ok \<lparr>vt_certified = certified, vt_good = map snd good, vt_bad = bad, vt_err = None\<rparr>
        else Ok \<lparr>vt_certified = [], vt_good = map snd good, vt_bad = bad, vt_err = Some ErrThresholdNotMet\<rparr>))"

section \<open>What is relied on of the CBOR library\<close>

text \<open>
  The key type is the only text string of a certificate, and CBOR text strings are UTF-8: the library
  refuses to decode one that is not.  A certificate whose key type is valid UTF-8 can be encoded, and
  decoding gives it back; the order in which the decoded map is visited is not specified.  A decoded
  certificate has one signature per key of its map, and a key type that is valid UTF-8.
\<close>

definition same_cert :: "Certificate \<Rightarrow> Certificate \<Rightarrow> bool" where
  "same_cert c d \<longleftrightarrow> c_Version c = c_Version d \<and> Expiration c = Expiration d \<and> KeyType c = KeyType d \<and>
     Certified c = Certified d \<and> gm_wf (Signatures c) \<and> gm_wf (Signatures d) \<and>
     gm_get (Signatures c) = gm_get (Signatures d)"

text \<open>
  UTF-8 as RFC 3629 has it: \<open>n\<close> continuation bytes are due, the first of them between \<open>lo\<close> and \<open>hi\<close>.
\<close>

fun utf8_from :: "nat \<Rightarrow> byte \<Rightarrow> byte \<Rightarrow> bytes \<Rightarrow> bool" where
  "utf8_from n lo hi [] = (n = 0)"
| "utf8_from 0 lo hi (b # bs) =
     (if b < 0x80 then utf8_from 0 0x80 0xBF bs
      else if b < 0xC2 then False
      else if b < 0xE0 then utf8_from 1 0x80 0xBF bs
      else if b < 0xF0 then utf8_from 2 (if b = 0xE0 then 0xA0 else 0x80) (if b = 0xED then 0x9F else 0xBF) bs
      else if b < 0xF5 then utf8_from 3 (if b = 0xF0 then 0x90 else 0x80) (if b = 0xF4 then 0x8F else 0xBF) bs
      else False)"
| "utf8_from (Suc n) lo hi (b # bs) = (lo \<le> b \<and> b \<le> hi \<and> utf8_from n 0x80 0xBF bs)"

definition utf8 :: "string \<Rightarrow> bool" where
  "utf8 s \<longleftrightarrow> utf8_from 0 0x80 0xBF (string_bytes s)"

definition cbor_ok :: "cbor \<Rightarrow> bool" where
  "cbor_ok B \<longleftrightarrow>
     (\<forall>c. gm_wf (Signatures c) \<longrightarrow> utf8 (KeyType c) \<longrightarrow>
        (\<exists>b d. cbor_Marshal B c = Some b \<and> cbor_Unmarshal B b = Some d \<and> same_cert c d)) \<and>
     (\<forall>b d. cbor_Unmarshal B b = Some d \<longrightarrow> gm_wf (Signatures d) \<and> utf8 (KeyType d))"

text \<open>Every signature is filed under the hash it names; all writers of this package keep this.\<close>

definition keyed :: "Certificate \<Rightarrow> bool" where
  "keyed c \<longleftrightarrow> (\<forall>(k, s)\<in>set (Signatures c). PublicKeySum256 s = k)"

section \<open>Lemmas\<close>

lemma sanityCheck_Ok_iff:
  "sanityCheck current c = Ok d \<longleftrightarrow> d = c \<and> c_Version c = CertVersion \<and> current < Expiration c \<and>
     KeyType c \<noteq> [] \<and> Certified c \<noteq> []"
  by (auto simp: sanityCheck_def not_le)

lemma sanityCheck_no_panic [simp]: "sanityCheck current c \<noteq> Panic"
  by (simp add: sanityCheck_def)

lemma c_Unmarshal_Ok_iff:
  "c_Unmarshal B e current raw = Ok c \<longleftrightarrow>
     cbor_Unmarshal B raw = Some c \<and> sanityCheck current c = Ok c"
  by (auto simp: c_Unmarshal_def sanityCheck_Ok_iff split: option.splits)

lemma c_Unmarshal_any: "c_Unmarshal B e current raw = Ok c \<Longrightarrow> c_Unmarshal B e' current raw = Ok c"
  by (simp add: c_Unmarshal_Ok_iff)

lemma c_Unmarshal_no_panic [simp]: "c_Unmarshal B e current raw \<noteq> Panic"
  by (simp add: c_Unmarshal_def split: option.splits)

lemma cbor_okD:
  assumes "cbor_ok B"
  shows "gm_wf (Signatures c) \<Longrightarrow> utf8 (KeyType c) \<Longrightarrow>
      \<exists>b d. cbor_Marshal B c = Some b \<and> cbor_Unmarshal B b = Some d \<and> same_cert c d"
    and "cbor_Unmarshal B b = Some d \<Longrightarrow> gm_wf (Signatures d) \<and> utf8 (KeyType d)"
  using assms by (simp_all add: cbor_ok_def)

lemma opened_wf:
  "cbor_ok B \<Longrightarrow> c_Unmarshal B e current raw = Ok c \<Longrightarrow> gm_wf (Signatures c) \<and> utf8 (KeyType c)"
  by (auto simp: c_Unmarshal_Ok_iff dest: cbor_okD(2))

lemma same_cert_message: "same_cert c d \<Longrightarrow> cert_message d = cert_message c"
  by (simp add: same_cert_def cert_message_def)

lemma same_cert_sane: "same_cert c d \<Longrightarrow> sanityCheck current c = Ok c \<Longrightarrow> sanityCheck current d = Ok d"
  by (auto simp: same_cert_def sanityCheck_Ok_iff)

lemma keyed_iff:
  "gm_wf (Signatures c) \<Longrightarrow>
     keyed c \<longleftrightarrow> (\<forall>k s. gm_get (Signatures c) k = Some s \<longrightarrow> PublicKeySum256 s = k)"
  by (auto simp: keyed_def gm_get_in_set)

lemma same_cert_keyed: "same_cert c d \<Longrightarrow> keyed d \<longleftrightarrow> keyed c"
  by (simp add: same_cert_def keyed_iff)

lemma store_cert:
  assumes "cbor_ok B" "gm_wf (Signatures c)" "utf8 (KeyType c)" "sanityCheck current c = Ok c"
  shows "\<exists>b d. c_Marshal B e c = Ok b \<and> c_Unmarshal B e' current b = Ok d \<and> same_cert c d"
  using cbor_okD(1) [OF assms(1-3)] assms(4)
  by (auto simp: c_Marshal_def c_Unmarshal_Ok_iff same_cert_sane)

lemma find_keyed:
  "gm_wf m \<Longrightarrow> \<forall>(k, s)\<in>set m. PublicKeySum256 s = k \<Longrightarrow>
     find (\<lambda>s. h = PublicKeySum256 s) (map snd m) = gm_get m h"
  by (induction m) (auto simp: gm_wf_def gm_get_def)

lemma ex_keyed:
  "gm_wf m \<Longrightarrow> \<forall>(k, s)\<in>set m. PublicKeySum256 s = k \<Longrightarrow>
     list_ex (\<lambda>s. PublicKeySum256 s = h) (map snd m) \<longleftrightarrow> gm_get m h \<noteq> None"
  by (induction m) (auto simp: gm_wf_def gm_get_def)

lemma sk_Sign_not_Fail: "sk_Sign P k m \<noteq> Fail e"
  by (auto simp: sk_Sign_def sphincs_Sign_def)

lemma cert_message_nonempty [simp]: "cert_message c \<noteq> []"
  by (simp add: cert_message_def put_u32_le_def put_u32_be_def)

subsection \<open>Verification by one verifier\<close>

text \<open>A verification on an opened certificate whose signatures are filed under their own hash.\<close>

lemma cert_Verify_opened:
  assumes "c_Unmarshal B e current raw = Ok c" "gm_wf (Signatures c)" "keyed c"
  shows "cert_Verify P B current v raw =
    (case gm_get (Signatures c) (pk_Sum256 v) of
       None \<Rightarrow> Fail ErrIdentitySignatureNotFound
     | Some s \<Rightarrow> obind (scheme_call (pk_Verify P v (Payload s) (cert_message c))) (\<lambda>ok.
         if ok then Ok (Certified c) else Fail ErrBadSignature))"
proof -
  have "c_Unmarshal B ErrImpossibleEncode current raw = Ok c"
    using assms(1) by (simp add: c_Unmarshal_Ok_iff)
  moreover have "find (\<lambda>s. pk_Sum256 v = PublicKeySum256 s) (map snd (Signatures c)) =
      gm_get (Signatures c) (pk_Sum256 v)"
    using assms(2,3) by (intro find_keyed) (simp_all add: keyed_def)
  ultimately show ?thesis by (simp add: cert_Verify_def)
qed

lemma cert_Verify_OkD:
  assumes "cert_Verify P B current v raw = Ok d"
  shows "\<exists>c s. c_Unmarshal B e current raw = Ok c \<and> d = Certified c \<and> s \<in> snd ` set (Signatures c) \<and>
    PublicKeySum256 s = pk_Sum256 v \<and> pk_Verify P v (Payload s) (cert_message c) = Ok True"
proof -
  obtain c where c: "c_Unmarshal B ErrImpossibleEncode current raw = Ok c"
    and r: "(case find (\<lambda>s. pk_Sum256 v = PublicKeySum256 s) (map snd (Signatures c)) of
         None \<Rightarrow> Fail ErrIdentitySignatureNotFound
       | Some s \<Rightarrow> obind (scheme_call (pk_Verify P v (Payload s) (cert_message c))) (\<lambda>ok.
           if ok then Ok (Certified c) else Fail ErrBadSignature)) = Ok d"
    using assms by (auto simp: cert_Verify_def obind_Ok_iff)
  obtain s where s: "find (\<lambda>s. pk_Sum256 v = PublicKeySum256 s) (map snd (Signatures c)) = Some s"
    using r by (auto split: option.splits)
  have "s \<in> snd ` set (Signatures c)" "PublicKeySum256 s = pk_Sum256 v"
    using s by (auto simp: find_Some_iff in_set_conv_nth image_iff) (metis nth_mem surjective_pairing)
  moreover have "d = Certified c" "pk_Verify P v (Payload s) (cert_message c) = Ok True"
    using r s by (auto simp: obind_Ok_iff split: if_splits)
  ultimately show ?thesis using c by (auto simp: c_Unmarshal_Ok_iff)
qed

lemma cert_Verify_certified:
  "cert_Verify P B current v raw = Ok d \<Longrightarrow> cert_Verify P B current w raw = Ok d' \<Longrightarrow> d = d'"
  by (auto dest!: cert_Verify_OkD [where e = ErrBadSignature])

subsection \<open>Signing by one and by many\<close>

definition signer_ok :: "sign_prims \<Rightarrow> privateKey \<times> publicKey \<Rightarrow> bool" where
  "signer_ok P kv \<longleftrightarrow> keypair_ok P (fst kv) (snd kv) \<and> pk_wf P (snd kv) \<and> sk_wf (fst kv)"

lemma signer_signs:
  "signer_ok P kv \<Longrightarrow> msg \<noteq> [] \<Longrightarrow>
     \<exists>sig. sk_Sign P (fst kv) msg = Ok sig \<and> pk_Verify P (snd kv) sig msg = Ok True"
  by (auto simp: signer_ok_def intro: sign_verify)

text \<open>The signers of \<open>V\<close> have valid signatures in \<open>c\<close>, which holds exactly their hashes.\<close>

definition signed_by :: "sign_prims \<Rightarrow> publicKey list \<Rightarrow> Certificate \<Rightarrow> bool" where
  "signed_by P V c \<longleftrightarrow> gm_wf (Signatures c) \<and> keyed c \<and>
     (\<forall>v\<in>set V. \<exists>s. gm_get (Signatures c) (pk_Sum256 v) = Some s \<and>
        pk_Verify P v (Payload s) (cert_message c) = Ok True) \<and>
     (\<forall>h. gm_get (Signatures c) h \<noteq> None \<longrightarrow> h \<in> pk_Sum256 ` set V)"

lemma signed_by_same: "same_cert c d \<Longrightarrow> signed_by P V c \<Longrightarrow> signed_by P V d"
  by (simp add: signed_by_def same_cert_keyed same_cert_message) (simp add: same_cert_def)

lemma signed_by_put:
  assumes "signed_by P V c" "pk_Verify P v sig (cert_message c) = Ok True"
    "pk_Sum256 v \<notin> pk_Sum256 ` set V"
  shows "signed_by P (v # V) (c\<lparr>Signatures := gm_put (Signatures c) (pk_Sum256 v)
      \<lparr>PublicKeySum256 = pk_Sum256 v, Payload = sig\<rparr>\<rparr>)"
proof -
  let ?s = "\<lparr>PublicKeySum256 = pk_Sum256 v, Payload = sig\<rparr>"
  let ?d = "c\<lparr>Signatures := gm_put (Signatures c) (pk_Sum256 v) ?s\<rparr>"
  have wf: "gm_wf (Signatures ?d)" "gm_wf (Signatures c)" using assms(1) by (simp_all add: signed_by_def)
  have msg: "cert_message ?d = cert_message c" by (simp add: cert_message_def)
  have "keyed ?d" unfolding keyed_iff [OF wf(1)]
    using assms(1) wf(2) by (auto simp: signed_by_def keyed_iff)
  moreover have "\<exists>s. gm_get (Signatures ?d) (pk_Sum256 w) = Some s \<and>
      pk_Verify P w (Payload s) (cert_message ?d) = Ok True" if "w \<in> set (v # V)" for w
  proof (cases "w = v")
    case True
    then show ?thesis using assms(2) msg by simp
  next
    case False
    then have w: "w \<in> set V" using that by simp
    then have "pk_Sum256 w \<noteq> pk_Sum256 v" using assms(3) by (metis image_eqI)
    then show ?thesis using assms(1) w msg by (simp add: signed_by_def)
  qed
  moreover have "h \<in> pk_Sum256 ` set (v # V)" if "gm_get (Signatures ?d) h \<noteq> None" for h
    using that assms(1) by (auto simp: signed_by_def split: if_splits)
  ultimately show ?thesis using wf(1) unfolding signed_by_def by blast
qed

lemma utf8_PrivateKeyType: "utf8 PrivateKeyType" "PrivateKeyType \<noteq> []"
  by (simp_all add: utf8_def string_bytes_def PrivateKeyType_def)

definition fresh_cert :: "bytes \<Rightarrow> u64 \<Rightarrow> Certificate" where
  "fresh_cert data expiration = \<lparr>c_Version = CertVersion, Expiration = expiration,
     KeyType = PrivateKeyType, Certified = data, Signatures = []\<rparr>"

text \<open>What every certificate made by \<^verbatim>\<open>Sign\<close> and \<^verbatim>\<open>SignMulti\<close> over some data opens to.\<close>

definition opens_to ::
  "sign_prims \<Rightarrow> cbor \<Rightarrow> u64 \<Rightarrow> bytes \<Rightarrow> bytes \<Rightarrow> publicKey list \<Rightarrow> bool" where
  "opens_to P B current raw data V \<longleftrightarrow>
     (\<exists>c. c_Unmarshal B ErrBadSignature current raw = Ok c \<and> KeyType c = PrivateKeyType \<and>
        Certified c = data \<and> signed_by P V c)"

lemma store_signed:
  assumes "cbor_ok B" "signed_by P V c" "KeyType c = PrivateKeyType" "sanityCheck current c = Ok c"
  shows "\<exists>raw. c_Marshal B e c = Ok raw \<and> opens_to P B current raw (Certified c) V"
proof -
  have "gm_wf (Signatures c)" "utf8 (KeyType c)"
    using assms(2,3) utf8_PrivateKeyType(1) by (simp_all add: signed_by_def)
  from store_cert [OF assms(1) this assms(4), of e ErrBadSignature]
  obtain b d where b: "c_Marshal B e c = Ok b" "c_Unmarshal B ErrBadSignature current b = Ok d" "same_cert c d"
    by blast
  then have "opens_to P B current b (Certified c) V"
    using signed_by_same [OF b(3) assms(2)] assms(3) by (auto simp: opens_to_def same_cert_def)
  then show ?thesis using b(1) by blast
qed

lemma Sign_opens:
  assumes B: "cbor_ok B" and kv: "signer_ok P (k, v)" and now: "current < expiration" and data: "data \<noteq> []"
  shows "\<exists>raw. Sign P B current k v data expiration = Ok raw \<and> opens_to P B current raw data [v]"
proof -
  let ?c = "fresh_cert data expiration"
  obtain sig where sig: "sk_Sign P k (cert_message ?c) = Ok sig" "pk_Verify P v sig (cert_message ?c) = Ok True"
    using signer_signs [OF kv, of "cert_message ?c"] by auto
  let ?d = "?c\<lparr>Signatures := gm_put [] (pk_Sum256 v) \<lparr>PublicKeySum256 = pk_Sum256 v, Payload = sig\<rparr>\<rparr>"
  have sane: "sanityCheck current ?c = Ok ?c" "sanityCheck current ?d = Ok ?d"
    using now data utf8_PrivateKeyType(2) by (simp_all add: sanityCheck_Ok_iff fresh_cert_def)
  have "signed_by P [] ?c" by (simp add: signed_by_def keyed_def fresh_cert_def gm_get_def)
  from signed_by_put [OF this sig(2)] have s: "signed_by P [v] ?d" by (simp add: fresh_cert_def)
  have k: "KeyType ?d = PrivateKeyType" "Certified ?d = data" by (simp_all add: fresh_cert_def)
  have "Sign P B current k v data expiration = c_Marshal B ErrMarshal ?d"
    using sane(1) sig(1) by (simp add: Sign_def fresh_cert_def)
  then show ?thesis using store_signed [OF B s k(1) sane(2), of ErrMarshal] k(2) by simp
qed

lemma SignMulti_opens:
  assumes B: "cbor_ok B" and kv: "signer_ok P (k, v)"
    and raw: "opens_to P B current raw data V" and new: "pk_Sum256 v \<notin> pk_Sum256 ` set V"
  shows "\<exists>raw'. SignMulti P B current k v raw = Ok raw' \<and> opens_to P B current raw' data (v # V)"
proof -
  obtain c where c: "c_Unmarshal B ErrBadSignature current raw = Ok c" "KeyType c = PrivateKeyType"
      "Certified c = data" "signed_by P V c"
    using raw by (auto simp: opens_to_def)
  obtain sig where sig: "sk_Sign P k (cert_message c) = Ok sig" "pk_Verify P v sig (cert_message c) = Ok True"
    using signer_signs [OF kv, of "cert_message c"] by auto
  let ?d = "c\<lparr>Signatures := gm_put (Signatures c) (pk_Sum256 v)
      \<lparr>PublicKeySum256 = pk_Sum256 v, Payload = sig\<rparr>\<rparr>"
  have s: "signed_by P (v # V) ?d" by (rule signed_by_put [OF c(4) sig(2) new])
  have sane: "sanityCheck current ?d = Ok ?d"
    using c(1) by (auto simp: c_Unmarshal_Ok_iff sanityCheck_Ok_iff)
  have "SignMulti P B current k v raw = c_Marshal B ErrImpossibleEncode ?d"
    using c_Unmarshal_any [OF c(1)] c(2) sig(1) by (simp add: SignMulti_def)
  then show ?thesis using store_signed [OF B s _ sane, of ErrImpossibleEncode] c(2,3) by simp
qed

subsection \<open>Verification by a threshold\<close>

lemma thresholdLoop_sound:
  assumes "thresholdLoop P B current raw vs (cert, good, bad) = Ok (cert', good', bad')"
    and "gm_wf good" "\<forall>(k, v)\<in>set good. k = pk_Sum256 v \<and> v \<in> V \<and> cert_Verify P B current v raw = Ok cert"
    and "set vs \<subseteq> V"
  shows "gm_wf good' \<and>
    (\<forall>(k, v)\<in>set good'. k = pk_Sum256 v \<and> v \<in> V \<and> cert_Verify P B current v raw = Ok cert')"
  using assms
proof (induction vs arbitrary: cert good bad)
  case (Cons v vs)
  show ?case
  proof (cases "cert_Verify P B current v raw")
    case (Ok c)
    have "\<forall>(k, w)\<in>set (gm_put good (pk_Sum256 v) v).
        k = pk_Sum256 w \<and> w \<in> V \<and> cert_Verify P B current w raw = Ok c"
    proof (clarify)
      fix k w assume "(k, w) \<in> set (gm_put good (pk_Sum256 v) v)"
      then consider "k = pk_Sum256 v" "w = v" | "(k, w) \<in> set good"
        using Cons.prems(2) by (auto simp: gm_put_set split: if_splits)
      then show "k = pk_Sum256 w \<and> w \<in> V \<and> cert_Verify P B current w raw = Ok c"
        using Cons.prems(3,4) Ok by cases (auto dest: cert_Verify_certified [OF Ok])
    qed
    with Ok Cons show ?thesis by simp
  next
    case (Fail e)
    with Cons show ?thesis by simp
  qed (use Cons.prems in simp)
qed simp

lemma verify_signed:
  assumes "cbor_ok B" "opens_to P B current raw data V"
  shows "v \<in> set V \<Longrightarrow> cert_Verify P B current v raw = Ok data"
    and "pk_Sum256 v \<notin> pk_Sum256 ` set V \<Longrightarrow>
      cert_Verify P B current v raw = Fail ErrIdentitySignatureNotFound"
proof -
  obtain c where c: "c_Unmarshal B ErrBadSignature current raw = Ok c" "Certified c = data" "signed_by P V c"
    using assms(2) by (auto simp: opens_to_def)
  note V = cert_Verify_opened [OF c(1), of P v]
  show "v \<in> set V \<Longrightarrow> cert_Verify P B current v raw = Ok data"
    using V c(2,3) by (auto simp: signed_by_def)
  show "cert_Verify P B current v raw = Fail ErrIdentitySignatureNotFound"
    if "pk_Sum256 v \<notin> pk_Sum256 ` set V"
    using V c(3) that by (fastforce simp: signed_by_def split: option.splits)
qed

lemma thresholdLoop_good:
  assumes "\<forall>v\<in>set vs. cert_Verify P B current v raw = Ok data"
    and "distinct (map pk_Sum256 vs)" "gm_keys good \<inter> pk_Sum256 ` set vs = {}" "vs = [] \<longrightarrow> cert = data"
  shows "thresholdLoop P B current raw (vs @ rest) (cert, good, bad) =
    thresholdLoop P B current raw rest (data, good @ map (\<lambda>v. (pk_Sum256 v, v)) vs, bad)"
  using assms
proof (induction vs arbitrary: cert good)
  case (Cons v vs)
  then show ?case by (simp add: gm_put_new gm_keys_def Int_Un_distrib2 Int_commute)
qed simp

lemma thresholdLoop_bad:
  "\<forall>v\<in>set vs. \<exists>e. cert_Verify P B current v raw = Fail e \<Longrightarrow>
     thresholdLoop P B current raw vs (cert, good, bad) = Ok (cert, good, bad @ vs)"
  by (induction vs arbitrary: bad) auto

lemma VerifyThreshold_signed:
  assumes B: "cbor_ok B" and raw: "opens_to P B current raw data V" and "V' \<noteq> []" "set V' \<subseteq> set V"
    and "distinct (map pk_Sum256 V')" and "\<forall>w\<in>set W. pk_Sum256 w \<notin> pk_Sum256 ` set V"
    and "threshold \<le> int (length V')"
  shows "VerifyThreshold P B current (V' @ W) threshold raw =
    Ok \<lparr>vt_certified = data, vt_good = V', vt_bad = W, vt_err = None\<rparr>"
proof -
  have "thresholdLoop P B current raw (V' @ W) ([], [], []) =
      thresholdLoop P B current raw W (data, map (\<lambda>v. (pk_Sum256 v, v)) V', [])"
    using thresholdLoop_good [of V' P B current raw data "[]" "[]" W "[]"] assms verify_signed(1) [OF B raw]
    by (auto simp: gm_keys_def)
  also have "\<dots> = Ok (data, map (\<lambda>v. (pk_Sum256 v, v)) V', [] @ W)"
    using assms(6) verify_signed(2) [OF B raw] by (intro thresholdLoop_bad) auto
  finally show ?thesis using assms(7) by (simp add: VerifyThreshold_def comp_def)
qed

text \<open>One certificate signed by several signers one after the other.\<close>

fun signChain ::
  "sign_prims \<Rightarrow> cbor \<Rightarrow> u64 \<Rightarrow> (privateKey \<times> publicKey) list \<Rightarrow> bytes \<Rightarrow> (cert_error, bytes) outcome" where
  "signChain P B current [] raw = Ok raw"
| "signChain P B current ((k, v) # kvs) raw =
     obind (SignMulti P B current k v raw) (signChain P B current kvs)"

lemma signChain_opens:
  assumes "cbor_ok B" "\<forall>kv\<in>set kvs. signer_ok P kv" "opens_to P B current raw data V"
    "distinct (map (pk_Sum256 \<circ> snd) kvs)" "pk_Sum256 ` set V \<inter> (pk_Sum256 \<circ> snd) ` set kvs = {}"
  shows "\<exists>raw'. signChain P B current kvs raw = Ok raw' \<and> opens_to P B current raw' data (rev (map snd kvs) @ V)"
  using assms
proof (induction kvs arbitrary: raw V)
  case (Cons kv kvs)
  obtain k v where kv: "kv = (k, v)" by (cases kv)
  then have "signer_ok P (k, v)" "pk_Sum256 v \<notin> pk_Sum256 ` set V" using Cons.prems by auto
  from SignMulti_opens [OF Cons.prems(1) this(1) Cons.prems(3) this(2)]
  obtain raw1 where r: "SignMulti P B current k v raw = Ok raw1" "opens_to P B current raw1 data (v # V)" by blast
  have "\<exists>raw'. signChain P B current kvs raw1 = Ok raw' \<and>
      opens_to P B current raw' data (rev (map snd kvs) @ (v # V))"
    using Cons.prems kv by (intro Cons.IH r(2)) (auto simp: comp_def image_iff)
  then show ?case using r(1) kv by simp
qed simp

subsection \<open>Adding a signature\<close>

lemma AddSignature_stored:
  assumes B: "cbor_ok B" and raw: "c_Unmarshal B e current raw = Ok c" "keyed c"
    and add: "AddSignature P B current v s raw = Ok raw'"
  shows "gm_get (Signatures c) (PublicKeySum256 s) = None" (is ?new)
    and "pk_Verify P v (Payload s) (cert_message c) = Ok True" (is ?valid)
    and "\<exists>d. c_Unmarshal B e' current raw' = Ok d \<and> keyed d \<and> gm_wf (Signatures d) \<and>
      cert_message d = cert_message c \<and> Certified d = Certified c \<and>
      gm_get (Signatures d) = (gm_get (Signatures c))(PublicKeySum256 s \<mapsto> s)" (is ?stored)
proof -
  have c: "c_Unmarshal B ErrImpossibleDecode current raw = Ok c" by (rule c_Unmarshal_any [OF raw(1)])
  have wf: "gm_wf (Signatures c)" "utf8 (KeyType c)" using opened_wf [OF B raw(1)] by simp_all
  have ex: "list_ex (\<lambda>t. PublicKeySum256 t = PublicKeySum256 s) (map snd (Signatures c)) \<longleftrightarrow>
      gm_get (Signatures c) (PublicKeySum256 s) \<noteq> None"
    using wf(1) raw(2) by (intro ex_keyed) (simp_all add: keyed_def)
  let ?d = "c\<lparr>Signatures := gm_put (Signatures c) (PublicKeySum256 s) s\<rparr>"
  show ?new using add c ex by (auto simp: AddSignature_def simp del: list_ex_iff split: if_splits)
  then have add': "obind (scheme_call (pk_Verify P v (Payload s) (cert_message c))) (\<lambda>ok.
       if ok then c_Marshal B ErrImpossibleEncode ?d else Fail ErrBadSignature) = Ok raw'"
    using add c ex by (simp add: AddSignature_def del: list_ex_iff)
  then show ?valid by (auto simp: obind_Ok_iff split: if_splits)
  have m: "c_Marshal B ErrImpossibleEncode ?d = Ok raw'" using add' by (auto simp: obind_Ok_iff split: if_splits)
  have "sanityCheck current ?d = Ok ?d" using raw(1) by (auto simp: c_Unmarshal_Ok_iff sanityCheck_Ok_iff)
  from store_cert [OF B _ _ this, of ErrImpossibleEncode e'] wf m
  obtain d where d: "c_Unmarshal B e' current raw' = Ok d" "same_cert ?d d" by auto
  have "keyed ?d" using raw(2) wf(1) by (auto simp: keyed_def gm_put_set split: if_splits)
  then have "keyed d" using same_cert_keyed [OF d(2)] by simp
  moreover have "cert_message d = cert_message c" "Certified d = Certified c"
    using d(2) by (simp_all add: same_cert_def cert_message_def)
  moreover have "gm_get (Signatures d) = (gm_get (Signatures c))(PublicKeySum256 s \<mapsto> s)"
    using d(2) by (auto simp: same_cert_def fun_eq_iff)
  ultimately show ?stored using d by (auto simp: same_cert_def)
qed

lemma AddSignature_effect:
  assumes B: "cbor_ok B" and raw: "c_Unmarshal B e current raw = Ok c" "keyed c"
    and add: "AddSignature P B current v s raw = Ok raw'"
  shows "cert_Verify P B current w raw' =
      (if pk_Sum256 w = PublicKeySum256 s
       then obind (scheme_call (pk_Verify P w (Payload s) (cert_message c))) (\<lambda>ok.
         if ok then Ok (Certified c) else Fail ErrBadSignature)
       else cert_Verify P B current w raw)"
    and "PublicKeySum256 t = PublicKeySum256 s \<Longrightarrow>
      AddSignature P B current w t raw' = Fail ErrDuplicateSignature"
proof -
  obtain d where d: "c_Unmarshal B ErrImpossibleDecode current raw' = Ok d" "keyed d" "gm_wf (Signatures d)"
      "cert_message d = cert_message c" "Certified d = Certified c"
      "gm_get (Signatures d) = (gm_get (Signatures c))(PublicKeySum256 s \<mapsto> s)"
    using AddSignature_stored(3) [OF B raw add, of ErrImpossibleDecode] by blast
  have wf: "gm_wf (Signatures c)" using opened_wf [OF B raw(1)] by simp
  show "cert_Verify P B current w raw' =
      (if pk_Sum256 w = PublicKeySum256 s
       then obind (scheme_call (pk_Verify P w (Payload s) (cert_message c))) (\<lambda>ok.
         if ok then Ok (Certified c) else Fail ErrBadSignature)
       else cert_Verify P B current w raw)"
    unfolding cert_Verify_opened [OF d(1,3,2)] cert_Verify_opened [OF raw(1) wf raw(2)] d(4-6) by simp
  assume t: "PublicKeySum256 t = PublicKeySum256 s"
  have "list_ex (\<lambda>u. PublicKeySum256 u = PublicKeySum256 t) (map snd (Signatures d)) \<longleftrightarrow>
      gm_get (Signatures d) (PublicKeySum256 t) \<noteq> None"
    using d(2,3) by (intro ex_keyed) (simp_all add: keyed_def)
  then show "AddSignature P B current w t raw' = Fail ErrDuplicateSignature"
    using d(1,6) t by (simp add: AddSignature_def del: list_ex_iff)
qed

lemma AddSignature_opens:
  assumes B: "cbor_ok B" and raw: "opens_to P B current raw data V"
    and c: "c_Unmarshal B e current raw = Ok c"
    and s: "PublicKeySum256 s = pk_Sum256 v" "pk_Verify P v (Payload s) (cert_message c) = Ok True"
    and new: "pk_Sum256 v \<notin> pk_Sum256 ` set V"
  shows "\<exists>raw'. AddSignature P B current v s raw = Ok raw' \<and> opens_to P B current raw' data (v # V)"
proof -
  have k: "KeyType c = PrivateKeyType" "Certified c = data" "signed_by P V c"
    using raw c by (auto simp: opens_to_def dest: c_Unmarshal_any [where e' = e])
  let ?d = "c\<lparr>Signatures := gm_put (Signatures c) (pk_Sum256 v)
      \<lparr>PublicKeySum256 = pk_Sum256 v, Payload = Payload s\<rparr>\<rparr>"
  have d: "?d = c\<lparr>Signatures := gm_put (Signatures c) (PublicKeySum256 s) s\<rparr>" using s(1) by (cases s) simp
  have sane: "sanityCheck current ?d = Ok ?d" using c by (auto simp: c_Unmarshal_Ok_iff sanityCheck_Ok_iff)
  have "\<not> list_ex (\<lambda>t. PublicKeySum256 t = PublicKeySum256 s) (map snd (Signatures c))"
    using k(3) new s(1) ex_keyed [of "Signatures c" "PublicKeySum256 s"] by (auto simp: signed_by_def keyed_def)
  then have "AddSignature P B current v s raw = c_Marshal B ErrImpossibleEncode ?d"
    unfolding d using c_Unmarshal_any [OF c, of ErrImpossibleDecode] s by (simp add: AddSignature_def del: list_ex_iff)
  then show ?thesis
    using store_signed [OF B signed_by_put [OF k(3) s(2) new] _ sane, of ErrImpossibleEncode] k(1,2) by simp
qed

subsection \<open>The boundary between key type and certified data\<close>

definition shift_boundary :: "nat \<Rightarrow> Certificate \<Rightarrow> Certificate" where
  "shift_boundary n c = c\<lparr>KeyType := take n (KeyType c),
     Certified := string_bytes (drop n (KeyType c)) @ Certified c\<rparr>"

lemma shift_boundary_message: "cert_message (shift_boundary n c) = cert_message c"
proof -
  have "string_bytes (take n (KeyType c)) @ string_bytes (drop n (KeyType c)) = string_bytes (KeyType c)"
    by (simp add: string_bytes_def flip: map_append)
  then show ?thesis by (simp add: cert_message_def shift_boundary_def flip: append_assoc)
qed

lemma shifted_verifies:
  assumes B: "cbor_ok B" and raw: "c_Unmarshal B e current raw = Ok c" "keyed c"
    and n: "0 < n" "n < length (KeyType c)" "utf8 (take n (KeyType c))"
  shows "\<exists>raw'. cbor_Marshal B (shift_boundary n c) = Some raw' \<and>
    (\<forall>v. cert_Verify P B current v raw = Ok (Certified c) \<longrightarrow>
      cert_Verify P B current v raw' = Ok (Certified (shift_boundary n c)))"
proof -
  let ?c = "shift_boundary n c"
  have wf: "gm_wf (Signatures c)" "utf8 (KeyType c)" using opened_wf [OF B raw(1)] by simp_all
  then have wf': "gm_wf (Signatures ?c)" "utf8 (KeyType ?c)" using n(3) by (simp_all add: shift_boundary_def)
  have "sanityCheck current ?c = Ok ?c"
    using raw(1) n by (auto simp: c_Unmarshal_Ok_iff sanityCheck_Ok_iff shift_boundary_def)
  from store_cert [OF B wf' this, of e e]
  obtain raw' d where d: "c_Marshal B e ?c = Ok raw'" "c_Unmarshal B e current raw' = Ok d" "same_cert ?c d"
    by blast
  have k: "keyed d" "gm_wf (Signatures d)" "Certified d = Certified ?c" "gm_get (Signatures d) = gm_get (Signatures c)"
    "cert_message d = cert_message c"
    using d(3) raw(2) same_cert_keyed [OF d(3)] same_cert_message [OF d(3)] shift_boundary_message [of n c]
    by (auto simp: same_cert_def shift_boundary_def keyed_def)
  have "cert_Verify P B current v raw' = Ok (Certified ?c)" if "cert_Verify P B current v raw = Ok (Certified c)" for v
    using that unfolding cert_Verify_opened [OF d(2) k(2,1)] cert_Verify_opened [OF raw(1) wf(1) raw(2)] k(3-5)
    by (auto simp: obind_Ok_iff split: option.splits if_splits)
  then show ?thesis using d(1) by (auto simp: c_Marshal_def split: option.splits)
qed

section \<open>A certificate with one signature\<close>

definition signed_cert :: "bytes \<Rightarrow> u64 \<Rightarrow> Signature \<Rightarrow> Certificate" where
  "signed_cert data expiration s = (fresh_cert data expiration)\<lparr>Signatures := [(PublicKeySum256 s, s)]\<rparr>"

lemma single_entry:
  assumes "gm_wf m" "gm_get m = gm_get [(k, v)]"
  shows "m = [(k, v)]"
proof -
  have s: "set m = {(k, v)}" using assms gm_get_in_set [OF assms(1)] gm_get_in_set [of "[(k, v)]"]
    by (auto simp: gm_wf_def)
  have "distinct m" using assms(1) by (auto simp: gm_wf_def distinct_map)
  then have "length m = 1" using s by (metis One_nat_def card.empty card.insert distinct_card empty_iff finite.emptyI)
  then show ?thesis using s by (cases m) auto
qed

lemma same_signed_cert: "same_cert (signed_cert data e s) d \<Longrightarrow> d = signed_cert data e s"
  by (cases d) (auto simp: same_cert_def signed_cert_def fresh_cert_def dest: single_entry [OF _ sym])

lemma same_fresh_cert:
  assumes "same_cert (fresh_cert data e) d"
  shows "d = fresh_cert data e"
proof -
  have "Signatures d = []"
    using assms by (cases "Signatures d") (auto simp: same_cert_def fresh_cert_def gm_get_def fun_eq_iff split: if_splits)
  then show ?thesis using assms by (cases d) (simp add: same_cert_def fresh_cert_def)
qed

lemma sane_fresh: "current < expiration \<Longrightarrow> data \<noteq> [] \<Longrightarrow>
    sanityCheck current (fresh_cert data expiration) = Ok (fresh_cert data expiration)"
  "current < expiration \<Longrightarrow> data \<noteq> [] \<Longrightarrow>
    sanityCheck current (signed_cert data expiration s) = Ok (signed_cert data expiration s)"
  using utf8_PrivateKeyType(2) by (simp_all add: sanityCheck_Ok_iff fresh_cert_def signed_cert_def)

lemma signed_cert_stored:
  assumes "cbor_ok B" "current < expiration" "data \<noteq> []"
  shows "\<exists>raw. cbor_Marshal B (signed_cert data expiration s) = Some raw \<and>
    c_Unmarshal B e current raw = Ok (signed_cert data expiration s)"
proof -
  have "gm_wf (Signatures (signed_cert data expiration s))" "utf8 (KeyType (signed_cert data expiration s))"
    using utf8_PrivateKeyType(1) by (simp_all add: signed_cert_def fresh_cert_def gm_wf_def)
  from store_cert [OF assms(1) this sane_fresh(2) [OF assms(2,3)], of e e] obtain raw d where
    "c_Marshal B e (signed_cert data expiration s) = Ok raw" "c_Unmarshal B e current raw = Ok d"
    "same_cert (signed_cert data expiration s) d" by blast
  then show ?thesis using same_signed_cert by (auto simp: c_Marshal_def split: option.splits)
qed

lemma fresh_cert_stored:
  assumes "cbor_ok B" "current < expiration" "data \<noteq> []"
  shows "\<exists>raw. cbor_Marshal B (fresh_cert data expiration) = Some raw \<and>
    c_Unmarshal B e current raw = Ok (fresh_cert data expiration)"
proof -
  have "gm_wf (Signatures (fresh_cert data expiration))" "utf8 (KeyType (fresh_cert data expiration))"
    using utf8_PrivateKeyType(1) by (simp_all add: fresh_cert_def)
  from store_cert [OF assms(1) this sane_fresh(1) [OF assms(2,3)], of e e] obtain raw d where
    "c_Marshal B e (fresh_cert data expiration) = Ok raw" "c_Unmarshal B e current raw = Ok d"
    "same_cert (fresh_cert data expiration) d" by blast
  then show ?thesis using same_fresh_cert by (auto simp: c_Marshal_def split: option.splits)
qed

text \<open>The certificate that one signer makes, by \<^verbatim>\<open>Sign\<close> or by \<^verbatim>\<open>SignMulti\<close> on an unsigned one.\<close>

lemma signer_certificate:
  assumes "cbor_ok B" "signer_ok P (k, v)" "current < expiration" "data \<noteq> []"
  obtains s raw where "PublicKeySum256 s = pk_Sum256 v"
    and "pk_Verify P v (Payload s) (cert_message (signed_cert data expiration s)) = Ok True"
    and "cbor_Marshal B (signed_cert data expiration s) = Some raw"
    and "\<And>e. c_Unmarshal B e current raw = Ok (signed_cert data expiration s)"
    and "Sign P B current k v data expiration = Ok raw"
    and "\<And>raw0. cbor_Marshal B (fresh_cert data expiration) = Some raw0 \<Longrightarrow>
      SignMulti P B current k v raw0 = Ok raw"
proof -
  let ?c = "fresh_cert data expiration"
  obtain sig where sig: "sk_Sign P k (cert_message ?c) = Ok sig" "pk_Verify P v sig (cert_message ?c) = Ok True"
    using signer_signs [OF assms(2), of "cert_message ?c"] by auto
  define s where "s = \<lparr>PublicKeySum256 = pk_Sum256 v, Payload = sig\<rparr>"
  obtain raw where raw: "cbor_Marshal B (signed_cert data expiration s) = Some raw"
      "c_Unmarshal B ErrBadSignature current raw = Ok (signed_cert data expiration s)"
    using signed_cert_stored [OF assms(1,3,4)] by blast
  have d: "?c\<lparr>Signatures := gm_put (Signatures ?c) (pk_Sum256 v) s\<rparr> = signed_cert data expiration s"
    by (simp add: signed_cert_def s_def fresh_cert_def)
  have m: "cert_message (signed_cert data expiration s) = cert_message ?c"
    by (simp add: cert_message_def signed_cert_def)
  have "Sign P B current k v data expiration = Ok raw"
    using sane_fresh(1) [OF assms(3,4)] sig(1) raw(1) d
    by (simp add: Sign_def s_def c_Marshal_def flip: fresh_cert_def) (simp add: fresh_cert_def)
  moreover have "SignMulti P B current k v raw0 = Ok raw" if "cbor_Marshal B ?c = Some raw0" for raw0
  proof -
    have "c_Unmarshal B ErrImpossibleDecode current raw0 = Ok ?c"
      using fresh_cert_stored [OF assms(1,3,4), of ErrImpossibleDecode] that by auto
    moreover have "KeyType ?c = PrivateKeyType" by (simp add: fresh_cert_def)
    ultimately show ?thesis using sig(1) raw(1) d by (simp add: SignMulti_def s_def c_Marshal_def)
  qed
  ultimately show ?thesis using that [of s raw] raw sig(2) m c_Unmarshal_any [OF raw(2)] by (simp add: s_def)
qed

section \<open>A concrete instance\<close>

text \<open>
  An encoding with the documented behaviour of the CBOR library, for evaluating the model: byte
  strings and lists of entries are written element by element, each element marked by a one and the
  end by a zero.
\<close>

fun toy_put :: "bytes \<Rightarrow> bytes" where
  "toy_put [] = [0]"
| "toy_put (x # xs) = 1 # x # toy_put xs"

fun toy_get :: "bytes \<Rightarrow> (bytes \<times> bytes) option" where
  "toy_get [] = None"
| "toy_get [m] = (if m = 0 then Some ([], []) else None)"
| "toy_get (m # x # r) = (if m = 0 then Some ([], x # r)
     else (case toy_get r of None \<Rightarrow> None | Some (xs, r') \<Rightarrow> Some (x # xs, r')))"

fun toy_put_sigs :: "(bytes, Signature) gomap \<Rightarrow> bytes" where
  "toy_put_sigs [] = [0]"
| "toy_put_sigs ((k, s) # m) = 1 # toy_put k @ toy_put (PublicKeySum256 s) @ toy_put (Payload s) @ toy_put_sigs m"

fun toy_get_sigs :: "nat \<Rightarrow> bytes \<Rightarrow> (bytes, Signature) gomap option" where
  "toy_get_sigs 0 b = None"
| "toy_get_sigs (Suc n) [] = None"
| "toy_get_sigs (Suc n) (m # r) = (if m = 0 then Some []
     else (case toy_get r of None \<Rightarrow> None | Some (k, r) \<Rightarrow>
       (case toy_get r of None \<Rightarrow> None | Some (h, r) \<Rightarrow>
       (case toy_get r of None \<Rightarrow> None | Some (p, r) \<Rightarrow>
       (case toy_get_sigs n r of None \<Rightarrow> None | Some m \<Rightarrow>
         Some ((k, \<lparr>PublicKeySum256 = h, Payload = p\<rparr>) # m))))))"

definition toy_Marshal :: "Certificate \<Rightarrow> bytes option" where
  "toy_Marshal c = Some (put_u32_be (c_Version c) @ put_u64_be (Expiration c) @
     toy_put (string_bytes (KeyType c)) @ toy_put (Certified c) @ toy_put_sigs (Signatures c))"

definition toy_Unmarshal :: "bytes \<Rightarrow> Certificate option" where
  "toy_Unmarshal b =
     (case toy_get (drop 12 b) of None \<Rightarrow> None | Some (k, r) \<Rightarrow>
     (case toy_get r of None \<Rightarrow> None | Some (d, r) \<Rightarrow>
     (case toy_get_sigs (length r) r of None \<Rightarrow> None | Some m \<Rightarrow>
       if gm_wf m \<and> utf8 (bytes_string k)
       then Some \<lparr>c_Version = get_u32_be b, Expiration = get_u64_be (drop 4 b),
         KeyType = bytes_string k, Certified = d, Signatures = m\<rparr>
       else None)))"

definition toy_cbor :: cbor where
  "toy_cbor = \<lparr>cbor_Marshal = toy_Marshal, cbor_Unmarshal = toy_Unmarshal\<rparr>"

lemma toy_get_put [simp]: "toy_get (toy_put xs @ r) = Some (xs, r)"
  by (induction xs) (cases r; simp)+

lemma toy_get_put_sigs [simp]:
  "length m < n \<Longrightarrow> toy_get_sigs n (toy_put_sigs m) = Some m"
proof (induction m arbitrary: n)
  case Nil
  then show ?case by (cases n) simp_all
next
  case (Cons e m)
  obtain k s where e: "e = (k, s)" by (cases e)
  show ?case using Cons by (cases n) (simp_all add: e)
qed

lemma length_toy_put_sigs: "length m < length (toy_put_sigs m)"
  by (induction m rule: toy_put_sigs.induct) auto

lemma toy_roundtrip:
  assumes "gm_wf (Signatures c)" "utf8 (KeyType c)"
  shows "\<exists>b. toy_Marshal c = Some b \<and> toy_Unmarshal b = Some c"
proof -
  let ?s = "toy_put_sigs (Signatures c)"
  let ?r = "toy_put (string_bytes (KeyType c)) @ toy_put (Certified c) @ ?s"
  let ?b = "put_u32_be (c_Version c) @ put_u64_be (Expiration c) @ ?r"
  have "drop 12 ?b = ?r" "drop 4 ?b = put_u64_be (Expiration c) @ ?r" by simp_all
  then have "toy_Unmarshal ?b = Some c"
    using assms length_toy_put_sigs [of "Signatures c"]
    by (simp only: toy_Unmarshal_def toy_get_put toy_get_put_sigs string_bytes_back option.case prod.case
        get_u32_be_append get_u64_be_append if_True conj_absorb simp_thms) simp
  then show ?thesis by (simp only: toy_Marshal_def option.inject ex_simps simp_thms)
qed

lemma toy_Unmarshal_wf: "toy_Unmarshal b = Some d \<Longrightarrow> gm_wf (Signatures d) \<and> utf8 (KeyType d)"
  by (auto simp only: toy_Unmarshal_def Certificate.simps option.inject option.distinct
      split: option.splits prod.splits if_splits)

lemma toy_cbor_ok: "cbor_ok toy_cbor"
proof -
  have "\<exists>b d. cbor_Marshal toy_cbor c = Some b \<and> cbor_Unmarshal toy_cbor b = Some d \<and> same_cert c d"
    if "gm_wf (Signatures c)" "utf8 (KeyType c)" for c
    using toy_roundtrip [OF that] that by (auto simp: toy_cbor_def same_cert_def)
  moreover have "gm_wf (Signatures d) \<and> utf8 (KeyType d)" if "cbor_Unmarshal toy_cbor b = Some d" for b d
    using that toy_Unmarshal_wf by (simp add: toy_cbor_def)
  ultimately show ?thesis unfolding cbor_ok_def by blast
qed

definition toy_signer :: "byte \<Rightarrow> privateKey \<times> publicKey" where
  "toy_signer b = (\<lparr>sk_e = replicate 64 b, sk_s = replicate 128 b\<rparr>,
     \<lparr>pk_e = replicate 32 b, pk_s = replicate 64 b, pk_hash = replicate 32 b\<rparr>)"

lemma toy_signer_ok: "signer_ok toy_prims (toy_signer b)"
  by (simp add: signer_ok_def toy_signer_def keypair_ok_def pk_wf_def sk_wf_def toy_prims_def
      toy_digest_def sign_sizes pk_Bytes_def copy_into_def min_def)

lemma toy_signer_sum [simp]: "pk_Sum256 (snd (toy_signer b)) = replicate 32 b"
  by (simp add: toy_signer_def pk_Sum256_def)

definition toy_cert :: bytes where
  "toy_cert = (case Sign toy_prims toy_cbor 5 (fst (toy_signer 1)) (snd (toy_signer 1)) [7] 9 of
     Ok raw \<Rightarrow> raw | _ \<Rightarrow> [])"

lemma toy_cert_opens:
  "Sign toy_prims toy_cbor 5 (fst (toy_signer 1)) (snd (toy_signer 1)) [7] 9 = Ok toy_cert"
  "opens_to toy_prims toy_cbor 5 toy_cert [7] [snd (toy_signer 1)]"
  using Sign_opens [OF toy_cbor_ok, of toy_prims "fst (toy_signer 1)" "snd (toy_signer 1)" 5 9 "[7]"]
    toy_signer_ok [of 1] by (auto simp: toy_cert_def)

lemma VerifyThreshold_good:
  assumes "VerifyThreshold P B current verifiers threshold raw = Ok r" "vt_err r = None" "0 < threshold"
  shows "\<exists>c. c_Unmarshal B ErrImpossibleDecode current raw = Ok c \<and> vt_certified r = Certified c \<and>
    threshold \<le> int (length (vt_good r)) \<and> distinct (map pk_Sum256 (vt_good r)) \<and>
    set (vt_good r) \<subseteq> set verifiers \<and>
    (\<forall>v\<in>set (vt_good r). \<exists>s\<in>snd ` set (Signatures c). PublicKeySum256 s = pk_Sum256 v \<and>
       pk_Verify P v (Payload s) (cert_message c) = Ok True)"
proof -
  obtain cert good bad where l: "thresholdLoop P B current raw verifiers ([], [], []) = Ok (cert, good, bad)"
    and r: "threshold \<le> int (length good)" "vt_certified r = cert" "vt_good r = map snd good"
    using assms(1,2) by (auto simp: VerifyThreshold_def obind_Ok_iff split: if_splits)
  have g: "gm_wf good" "\<forall>(k, v)\<in>set good. k = pk_Sum256 v \<and> v \<in> set verifiers \<and>
      cert_Verify P B current v raw = Ok cert"
    using thresholdLoop_sound [OF l, of "set verifiers"] by simp_all
  have "map fst good = map pk_Sum256 (map snd good)" using g(2) by auto
  then have d: "distinct (map pk_Sum256 (vt_good r))" using g(1) r(3) by (metis gm_wf_def)
  have V: "cert_Verify P B current v raw = Ok cert" if "v \<in> set (vt_good r)" for v using g(2) r(3) that by auto
  have ne: "vt_good r \<noteq> []" using r(1,3) assms(3) by auto
  then obtain c where c: "c_Unmarshal B ErrImpossibleDecode current raw = Ok c" "cert = Certified c"
    using cert_Verify_OkD [OF V [of "hd (vt_good r)"], of ErrImpossibleDecode] by (cases "vt_good r") auto
  have "\<exists>s\<in>snd ` set (Signatures c). PublicKeySum256 s = pk_Sum256 v \<and>
       pk_Verify P v (Payload s) (cert_message c) = Ok True" if "v \<in> set (vt_good r)" for v
    using cert_Verify_OkD [OF V [OF that], of ErrImpossibleDecode] c(1) by auto
  moreover have "set (vt_good r) \<subseteq> set verifiers" using g(2) r(3) by auto
  ultimately show ?thesis using c d r by auto
qed

text \<open>A certificate carries valid signatures of at least \<open>t\<close> of the verifiers, by different keys.\<close>

definition endorsed_by :: "sign_prims \<Rightarrow> Certificate \<Rightarrow> publicKey list \<Rightarrow> int \<Rightarrow> bool" where
  "endorsed_by P c vs t \<longleftrightarrow> (\<exists>good. t \<le> int (length good) \<and> distinct (map pk_Sum256 good) \<and> set good \<subseteq> set vs \<and>
     (\<forall>v\<in>set good. \<exists>s\<in>snd ` set (Signatures c). PublicKeySum256 s = pk_Sum256 v \<and>
       pk_Verify P v (Payload s) (cert_message c) = Ok True))"

lemma VerifyThreshold_endorsed:
  assumes "VerifyThreshold P B current verifiers threshold raw = Ok r" "vt_err r = None" "0 < threshold"
  obtains c where "c_Unmarshal B ErrImpossibleDecode current raw = Ok c" "vt_certified r = Certified c"
    "endorsed_by P c verifiers threshold"
  using VerifyThreshold_good [OF assms] by (auto simp: endorsed_by_def)

section \<open>Properties\<close>

text \<open>
  a document that several signers sign one after the other (\<^verbatim>\<open>Sign\<close>, then \<^verbatim>\<open>SignMulti\<close> by each) is
  accepted by \<^verbatim>\<open>VerifyThreshold\<close> with any of the signers and any number of other verifiers, up to
  the number of signers asked: it returns the document, the signers as good and the others as bad.
\<close>

theorem signed_by_threshold:
  assumes "cbor_ok B" and "\<forall>kv\<in>set ((k, v) # kvs). signer_ok P kv"
    and "distinct (map (pk_Sum256 \<circ> snd) ((k, v) # kvs))"
    and "current < expiration" "data \<noteq> []"
    and "V \<noteq> []" "set V \<subseteq> snd ` set ((k, v) # kvs)" "distinct (map pk_Sum256 V)"
    and "\<forall>w\<in>set W. pk_Sum256 w \<notin> (pk_Sum256 \<circ> snd) ` set ((k, v) # kvs)"
    and "threshold \<le> int (length V)"
  shows "\<exists>raw. obind (Sign P B current k v data expiration) (signChain P B current kvs) = Ok raw \<and>
    VerifyThreshold P B current (V @ W) threshold raw =
      Ok \<lparr>vt_certified = data, vt_good = V, vt_bad = W, vt_err = None\<rparr>"
proof -
  obtain raw1 where r1: "Sign P B current k v data expiration = Ok raw1" "opens_to P B current raw1 data [v]"
    using Sign_opens [OF assms(1) _ assms(4,5)] assms(2) by (meson list.set_intros(1))
  obtain raw where r: "signChain P B current kvs raw1 = Ok raw"
      "opens_to P B current raw data (rev (map snd kvs) @ [v])"
    using signChain_opens [OF assms(1) _ r1(2), of kvs] assms(2,3) by (auto simp: comp_def)
  have "VerifyThreshold P B current (V @ W) threshold raw =
      Ok \<lparr>vt_certified = data, vt_good = V, vt_bad = W, vt_err = None\<rparr>"
    using VerifyThreshold_signed [OF assms(1) r(2) assms(6) _ assms(8) _ assms(10), of W] assms(7,9)
    by (auto simp: comp_def image_iff)
  then show ?thesis using r1(1) r(1) by auto
qed

theorem signed_by_threshold_witness:
  "\<exists>raw. obind (Sign toy_prims toy_cbor 5 (fst (toy_signer 1)) (snd (toy_signer 1)) [7] 9)
      (signChain toy_prims toy_cbor 5 [(fst (toy_signer 2), snd (toy_signer 2))]) = Ok raw \<and>
    VerifyThreshold toy_prims toy_cbor 5 ([snd (toy_signer 2), snd (toy_signer 1)] @ [snd (toy_signer 3)]) 2 raw =
      Ok \<lparr>vt_certified = [7], vt_good = [snd (toy_signer 2), snd (toy_signer 1)],
        vt_bad = [snd (toy_signer 3)], vt_err = None\<rparr>"
  by (rule signed_by_threshold [OF toy_cbor_ok])
    (use toy_signer_ok [of 1] toy_signer_ok [of 2] in \<open>simp_all\<close>)

text \<open>
  C24: when \<^verbatim>\<open>VerifyThreshold\<close> reports no error for a positive threshold, the data it returns is what
  the certificate certifies, and at least that many of the given verifiers, with pairwise different
  key hashes, have a signature in the certificate that verifies over its message.
\<close>

theorem VerifyThreshold_sound:
  assumes "VerifyThreshold P B current verifiers threshold raw = Ok r" "vt_err r = None" "0 < threshold"
  shows "\<exists>c. c_Unmarshal B ErrImpossibleDecode current raw = Ok c \<and> vt_certified r = Certified c \<and>
    threshold \<le> int (length (vt_good r)) \<and> distinct (map pk_Sum256 (vt_good r)) \<and>
    set (vt_good r) \<subseteq> set verifiers \<and>
    (\<forall>v\<in>set (vt_good r). \<exists>s\<in>snd ` set (Signatures c). PublicKeySum256 s = pk_Sum256 v \<and>
       pk_Verify P v (Payload s) (cert_message c) = Ok True)"
  by (rule VerifyThreshold_good [OF assms])

theorem VerifyThreshold_sound_witness:
  "\<exists>c s. c_Unmarshal toy_cbor ErrImpossibleDecode 5 toy_cert = Ok c \<and> Certified c = [7] \<and>
    s \<in> snd ` set (Signatures c) \<and> PublicKeySum256 s = pk_Sum256 (snd (toy_signer 1)) \<and>
    pk_Verify toy_prims (snd (toy_signer 1)) (Payload s) (cert_message c) = Ok True"
proof -
  have "VerifyThreshold toy_prims toy_cbor 5 [snd (toy_signer 1), snd (toy_signer 2)] 1 toy_cert =
      Ok \<lparr>vt_certified = [7], vt_good = [snd (toy_signer 1)], vt_bad = [snd (toy_signer 2)], vt_err = None\<rparr>"
    using VerifyThreshold_signed [OF toy_cbor_ok toy_cert_opens(2),
        of "[snd (toy_signer 1)]" "[snd (toy_signer 2)]" 1] by simp
  from VerifyThreshold_sound [OF this] show ?thesis by auto
qed

text \<open>
  what \<^verbatim>\<open>AddSignature\<close> does to later checks, for a certificate whose signatures are filed under
  their own hash: the certificate then verifies for the hash that the signature names exactly if the
  added payload verifies under the verifier's key, verification for every other hash is unchanged,
  and any further signature that names this hash is refused as a duplicate.  The verifier passed to
  \<^verbatim>\<open>AddSignature\<close> need not be the one the signature names.
\<close>

theorem AddSignature_later_checks:
  assumes "cbor_ok B" and "c_Unmarshal B ErrImpossibleDecode current raw = Ok c" "keyed c"
    and "AddSignature P B current v s raw = Ok raw'"
  shows "cert_Verify P B current w raw' =
      (if pk_Sum256 w = PublicKeySum256 s
       then obind (scheme_call (pk_Verify P w (Payload s) (cert_message c))) (\<lambda>ok.
         if ok then Ok (Certified c) else Fail ErrBadSignature)
       else cert_Verify P B current w raw) \<and>
    AddSignature P B current w (s\<lparr>Payload := p\<rparr>) raw' = Fail ErrDuplicateSignature"
  using AddSignature_effect [OF assms] by simp

theorem AddSignature_later_checks_witness:
  "\<exists>c s raw'. c_Unmarshal toy_cbor ErrImpossibleDecode 5 toy_cert = Ok c \<and>
    AddSignature toy_prims toy_cbor 5 (snd (toy_signer 2)) s toy_cert = Ok raw' \<and>
    cert_Verify toy_prims toy_cbor 5 (snd (toy_signer 1)) raw' =
      cert_Verify toy_prims toy_cbor 5 (snd (toy_signer 1)) toy_cert \<and>
    AddSignature toy_prims toy_cbor 5 (snd (toy_signer 1)) (s\<lparr>Payload := []\<rparr>) raw' = Fail ErrDuplicateSignature"
proof -
  obtain c where c: "c_Unmarshal toy_cbor ErrImpossibleDecode 5 toy_cert = Ok c" "keyed c"
    using toy_cert_opens(2) by (auto simp: opens_to_def signed_by_def dest: c_Unmarshal_any)
  obtain sig where sig: "pk_Verify toy_prims (snd (toy_signer 2)) sig (cert_message c) = Ok True"
    using signer_signs [OF toy_signer_ok, of "cert_message c" 2] by auto
  define s where "s = \<lparr>PublicKeySum256 = replicate 32 2, Payload = sig\<rparr>"
  obtain raw' where r: "AddSignature toy_prims toy_cbor 5 (snd (toy_signer 2)) s toy_cert = Ok raw'"
    using AddSignature_opens [OF toy_cbor_ok toy_cert_opens(2) c(1), of s "snd (toy_signer 2)"] sig
    by (auto simp: s_def)
  have "PublicKeySum256 s \<noteq> pk_Sum256 (snd (toy_signer 1))" by (simp add: s_def)
  then show ?thesis
    using AddSignature_later_checks [OF toy_cbor_ok c r, of "snd (toy_signer 1)" "[]"] c(1) r by metis
qed

text \<open>
  C37: the signed message does not separate the key type from the certified data.  From every
  certificate whose key type can be cut in two, the first part being valid UTF-8 (as every part of an
  ASCII key type is), anyone can make, without a key, another one that certifies different data, the
  second part followed by the old data, and that verifies for every verifier the first one verifies
  for.
\<close>

theorem certified_data_malleable:
  assumes "cbor_ok B" and "c_Unmarshal B ErrImpossibleDecode current raw = Ok c" "keyed c"
    and "0 < n" "n < length (KeyType c)" "utf8 (take n (KeyType c))"
  shows "\<exists>raw' data. data = string_bytes (drop n (KeyType c)) @ Certified c \<and> data \<noteq> Certified c \<and>
    (\<forall>v. cert_Verify P B current v raw = Ok (Certified c) \<longrightarrow> cert_Verify P B current v raw' = Ok data)"
proof -
  have "string_bytes (drop n (KeyType c)) \<noteq> []" using assms(5) by (simp add: string_bytes_def)
  then show ?thesis using shifted_verifies [OF assms, of P] by (auto simp: shift_boundary_def)
qed

theorem certified_data_malleable_witness:
  "\<exists>raw'. cert_Verify toy_prims toy_cbor 5 (snd (toy_signer 1)) raw' = Ok (string_bytes (tl PrivateKeyType) @ [7])"
proof -
  obtain c where c: "c_Unmarshal toy_cbor ErrImpossibleDecode 5 toy_cert = Ok c" "keyed c" "Certified c = [7]"
      "KeyType c = PrivateKeyType"
    using toy_cert_opens(2) by (auto simp: opens_to_def signed_by_def dest: c_Unmarshal_any)
  have "1 < length (KeyType c)" "utf8 (take 1 (KeyType c))" "drop 1 (KeyType c) = tl PrivateKeyType"
    by (simp_all add: c(4) PrivateKeyType_def utf8_def string_bytes_def)
  from certified_data_malleable [OF toy_cbor_ok c(1,2) _ this(1,2), of toy_prims] c(3) this(3)
    verify_signed(1) [OF toy_cbor_ok toy_cert_opens(2), of "snd (toy_signer 1)"]
  show ?thesis by auto
qed

end
