(* ===== verification/Shared_Random.thy ===== *)
theory Shared_Random
  imports Sign_Scheme
begin

text \<open>
  The commit-and-reveal messages of the authorities (\<^verbatim>\<open>src/core/pki/sharedrandom.go\<close>).  The random
  number that \<^verbatim>\<open>Commit\<close> reads is an argument, \<open>None\<close> when the read fails; the hash is the BLAKE2b of
  the signature primitives.
\<close>

definition SharedRandomLength :: nat where "SharedRandomLength = 40"

record SharedRandom =
  sr_epoch :: u64
  sr_commit :: bytes
  sr_reveal :: bytes

definition newSharedRandom :: SharedRandom where
  "newSharedRandom = \<lparr>sr_epoch = 0, sr_commit = [], sr_reveal = []\<rparr>"

definition sr_Commit ::
  "sign_prims \<Rightarrow> bytes option \<Rightarrow> SharedRandom \<Rightarrow> u64 \<Rightarrow> (unit, SharedRandom \<times> bytes) outcome" where
  "sr_Commit P rand s epoch =
     (case rand of None \<Rightarrow> Fail ()
      | Some rn \<Rightarrow>
          let reveal = copy_at 8 (copy_into (zeros SharedRandomLength) (put_u64_be epoch)) (blake2b_Sum256 P rn);
              commit = copy_at 8 (copy_into (zeros SharedRandomLength) (put_u64_be epoch)) (blake2b_Sum256 P reveal)
          in Ok (\<lparr>sr_epoch = epoch, sr_commit = commit, sr_reveal = reveal\<rparr>, commit))"

definition sr_SetCommit :: "SharedRandom \<Rightarrow> bytes \<Rightarrow> (unit, SharedRandom) outcome" where
  "sr_SetCommit s rawCommit =
     (if length rawCommit < 8 then Panic
      else Ok (s\<lparr>sr_epoch := get_u64_be (take 8 rawCommit), sr_commit := rawCommit\<rparr>))"

definition sr_Verify :: "sign_prims \<Rightarrow> SharedRandom \<Rightarrow> bytes \<Rightarrow> (unit, bool) outcome" where
  "sr_Verify P s reveal =
     (if length reveal \<noteq> SharedRandomLength then Ok False
      else if get_u64_be (take 8 reveal) = sr_epoch s
      then (if length (sr_commit s) < 8 then Panic
            else Ok (drop 8 (sr_commit s) = blake2b_Sum256 P reveal))
      else Ok False)"

section \<open>Lemmas\<close>

text \<open>A documented size of the hash.\<close>

definition hash_ok :: "sign_prims \<Rightarrow> bool" where
  "hash_ok P \<longleftrightarrow> (\<forall>m. length (blake2b_Sum256 P m) = 32)"

lemma stamp_eq:
  assumes "length h = 32"
  shows "copy_at 8 (copy_into (zeros SharedRandomLength) (put_u64_be e)) h = put_u64_be e @ h"
proof -
  have "copy_into (zeros SharedRandomLength) (put_u64_be e) = put_u64_be e @ zeros 32 @ []"
    by (simp add: copy_into_def SharedRandomLength_def)
  then show ?thesis using copy_at_append [of "put_u64_be e" 8 h "zeros 32" "[]"] assms by simp
qed

lemma sr_Commit_eq:
  assumes "hash_ok P"
  shows "sr_Commit P (Some rn) s e =
    (let reveal = put_u64_be e @ blake2b_Sum256 P rn; commit = put_u64_be e @ blake2b_Sum256 P reveal
     in Ok (\<lparr>sr_epoch = e, sr_commit = commit, sr_reveal = reveal\<rparr>, commit))"
  using assms by (simp add: sr_Commit_def hash_ok_def stamp_eq Let_def)

lemma sr_Verify_after_SetCommit:
  "sr_SetCommit s commit = Ok t \<Longrightarrow> sr_Verify P t reveal \<noteq> Panic"
  "sr_SetCommit s commit = Ok t \<Longrightarrow> sr_Verify P t reveal = Ok True \<longleftrightarrow>
     length reveal = SharedRandomLength \<and> take 8 reveal = take 8 commit \<and>
     blake2b_Sum256 P reveal = drop 8 commit"
proof -
  assume t: "sr_SetCommit s commit = Ok t"
  then have len: "8 \<le> length commit" and eq: "sr_epoch t = get_u64_be (take 8 commit)" "sr_commit t = commit"
    by (auto simp: sr_SetCommit_def split: if_splits)
  show "sr_Verify P t reveal \<noteq> Panic" using len eq by (simp add: sr_Verify_def)
  have "get_u64_be (take 8 reveal) = get_u64_be (take 8 commit) \<longleftrightarrow> take 8 reveal = take 8 commit"
    if "length reveal = SharedRandomLength"
    using put_get_u64_be [of reveal] put_get_u64_be [of commit] len that
    by (metis SharedRandomLength_def get_be_take(2) numeral_le_iff semiring_norm(68,71,69,70,76) le_numeral_extra(4))
  then show "sr_Verify P t reveal = Ok True \<longleftrightarrow>
     length reveal = SharedRandomLength \<and> take 8 reveal = take 8 commit \<and>
     blake2b_Sum256 P reveal = drop 8 commit"
    using len eq by (auto simp: sr_Verify_def)
qed

lemma toy_hash_ok: "hash_ok toy_prims"
  by (simp add: hash_ok_def toy_prims_def toy_digest_def)

section \<open>Properties\<close>

text \<open>
  the commit and the reveal that an authority makes for an epoch belong together: the commit has
  40 bytes, a peer that stores it with \<^verbatim>\<open>SetCommit\<close> reads the epoch back and \<^verbatim>\<open>Verify\<close> accepts the
  reveal.  Any other reveal that the peer accepts for this commit is a second preimage of the hash.
\<close>

theorem commit_reveal:
  assumes "hash_ok P" and "sr_Commit P (Some rn) s e = Ok (own, commit)"
  shows "length commit = SharedRandomLength \<and>
    (\<exists>peer. sr_SetCommit newSharedRandom commit = Ok peer \<and> sr_epoch peer = e \<and>
      sr_Verify P peer (sr_reveal own) = Ok True \<and>
      (\<forall>r. sr_Verify P peer r = Ok True \<longrightarrow> blake2b_Sum256 P r = blake2b_Sum256 P (sr_reveal own)))"
proof -
  have c: "commit = put_u64_be e @ blake2b_Sum256 P (sr_reveal own)"
      "sr_reveal own = put_u64_be e @ blake2b_Sum256 P rn"
    using assms(2) by (auto simp: sr_Commit_eq [OF assms(1)] Let_def)
  have h: "length (blake2b_Sum256 P m) = 32" for m using assms(1) by (simp add: hash_ok_def)
  have len: "length commit = SharedRandomLength" by (simp add: c(1) h SharedRandomLength_def)
  obtain peer where p: "sr_SetCommit newSharedRandom commit = Ok peer" "sr_epoch peer = e"
    using len c(1) by (auto simp: sr_SetCommit_def SharedRandomLength_def newSharedRandom_def)
  show ?thesis using p len by (auto simp: sr_Verify_after_SetCommit(2) [OF p(1)] c h SharedRandomLength_def)
qed

theorem commit_reveal_witness:
  "\<exists>own commit peer. sr_Commit toy_prims (Some (replicate 32 9)) newSharedRandom 5 = Ok (own, commit) \<and>
     length commit = SharedRandomLength \<and> sr_SetCommit newSharedRandom commit = Ok peer \<and>
     sr_Verify toy_prims peer (sr_reveal own) = Ok True"
proof -
  obtain own commit where c: "sr_Commit toy_prims (Some (replicate 32 9)) newSharedRandom 5 = Ok (own, commit)"
    by (auto simp: sr_Commit_eq [OF toy_hash_ok] Let_def)
  from commit_reveal [OF toy_hash_ok c] show ?thesis using c by blast
qed

end
