(* ===== verification/Pki_Document.thy ===== *)
theory Pki_Document
  imports Certificates Shared_Random Sphinx_Geometry
begin

text \<open>
  Mix descriptors and PKI documents (\<^verbatim>\<open>src/core/pki/descriptor.go\<close>, \<^verbatim>\<open>src/core/pki/document.go\<close>):
  their signed serialization, the lookups of a document, and the two well-formedness checks.

  The libraries are the parameter \<open>pki_lib\<close>: the CBOR forms of a descriptor, of a document and of a
  signature, URL and IP address parsing, and the IDNA check of a host name.  A descriptor inside a
  document is encoded with its own \<^verbatim>\<open>MarshalBinary\<close>, so the CBOR form of a document is a function of
  the document without its descriptors and of the encoded descriptors.  An entry is never a nil
  pointer.  A nil map is \<open>None\<close> where the code distinguishes it from an empty one.  A
  \<^verbatim>\<open>float64\<close> is its 64-bit pattern.
\<close>

section \<open>Data\<close>

definition DescriptorVersion :: string where "DescriptorVersion = ''v0''"
definition DocumentVersion :: string where "DocumentVersion = ''v0''"
definition LayerProvider :: u8 where "LayerProvider = 255"

text \<open>A parameter of an autoresponder: a string, or a value of another type.\<close>

datatype kparam = KString string | KOther

record MixDescriptor =
  Name :: string
  md_Epoch :: u64
  IdentityKey :: "publicKey option"
  md_Signature :: "Signature option"
  LinkKey :: "bytes option"
  MixKeys :: "(u64, bytes option) gomap"
  Addresses :: "(string, string list) gomap"
  Kaetzchen :: "(string, (string, kparam) gomap option) gomap option"
  Provider :: bool
  LoadWeight :: u8
  AuthenticationType :: string
  md_Version :: string

record Parameters =
  SendRatePerMinute :: u64
  Mu :: u64
  MuMaxDelay :: u64
  LambdaP :: u64
  LambdaPMaxDelay :: u64
  LambdaL :: u64
  LambdaLMaxDelay :: u64
  LambdaD :: u64
  LambdaDMaxDelay :: u64
  LambdaM :: u64
  LambdaMMaxDelay :: u64

record Document = Parameters +
  doc_Epoch :: u64
  GenesisEpoch :: u64
  Topology :: "MixDescriptor list list"
  Providers :: "MixDescriptor list"
  doc_Signatures :: "(bytes, Signature) gomap"
  SharedRandomCommit :: "(bytes, bytes) gomap"
  SharedRandomReveal :: "(bytes, bytes) gomap"
  SharedRandomValue :: bytes
  PriorSharedRandom :: "bytes list"
  SphinxGeometryHash :: bytes
  doc_Version :: string

record pki_lib =
  pl_prims :: sign_prims
  pl_cbor :: cbor
  md_Marshal :: "MixDescriptor \<Rightarrow> bytes option"
  md_Unmarshal :: "bytes \<Rightarrow> MixDescriptor option"
  doc_Marshal :: "Document \<Rightarrow> bytes list list \<Rightarrow> bytes list \<Rightarrow> bytes option"
  doc_Unmarshal :: "bytes \<Rightarrow> (Document \<times> bytes list list \<times> bytes list) option"
  sig_Marshal :: "Signature \<Rightarrow> bytes option"
  sig_Unmarshal :: "bytes \<Rightarrow> Signature option"
  url_Parse :: "string \<Rightarrow> (string \<times> string) option"     \<comment> \<open>scheme and host name\<close>
  ParseIP :: "string \<Rightarrow> bytes option"
  idna_ToASCII :: "string \<Rightarrow> string option"

datatype pki_error = ErrCert cert_error | ErrCodec | ErrDocumentNotSigned
  | ErrNoSignature | ErrTooManySignatures | ErrDescriptorVersion
  | MissingName | NameTooLong | MissingLinkKey | MissingIdentityKey | MissingMixKey | InvalidMixKeyEpoch
  | MissingAddresses | EmptyAddressList | InvalidTransport | NonProviderTransport | InvalidAddress
  | UnsupportedScheme | IPVersionMismatch | KaetzchenOnMix | InvalidKaetzchen
  | InvalidDocumentVersion | InvalidGenesisEpoch | InvalidPriorSharedRandom | UnknownVerifier
  | InvalidSignedCommit | InvalidCommitEpoch | InvalidCommit | InvalidVote | MalformedDocument
  | MissingReveal | InvalidSignedReveal | InvalidReveal | NoTopology | EmptyLayer | MultipleEntries
  | NoProviders | NotAProvider | NodeNotFound | InvalidDescriptors | InvalidLayer

abbreviation cert_call :: "(cert_error, 'a) outcome \<Rightarrow> (pki_error, 'a) outcome" where
  "cert_call r \<equiv> omap_err ErrCert r"

definition from_option :: "'e \<Rightarrow> 'a option \<Rightarrow> ('e, 'a) outcome" where
  "from_option e x = (case x of None \<Rightarrow> Fail e | Some y \<Rightarrow> Ok y)"

section \<open>Descriptors\<close>

text \<open>\<^verbatim>\<open>d.IdentityKey.Sum256()\<close>, a method call on a nil interface when there is no key.\<close>

definition id_Sum256 :: "MixDescriptor \<Rightarrow> ('e, bytes) outcome" where
  "id_Sum256 d = (case IdentityKey d of None \<Rightarrow> Panic | Some k \<Rightarrow> Ok (pk_Sum256 k))"

definition md_UnmarshalBinary :: "pki_lib \<Rightarrow> u64 \<Rightarrow> bytes \<Rightarrow> (pki_error, MixDescriptor) outcome" where
  "md_UnmarshalBinary L current data =
     obind (cert_call (GetCertified (pl_cbor L) current data)) (\<lambda>certified.
     obind (cert_call (GetSignatures (pl_cbor L) current data)) (\<lambda>sigs.
     if length sigs = 0 then Fail ErrNoSignature
     else if length sigs \<noteq> 1 then Fail ErrTooManySignatures
     else obind (from_option ErrCodec (md_Unmarshal L certified)) (\<lambda>d.
       case IdentityKey d of None \<Rightarrow> Panic
       | Some k \<Rightarrow> obind (cert_call (cert_Verify (pl_prims L) (pl_cbor L) current k data)) (\<lambda>_.
           Ok (d\<lparr>md_Signature := Some (sigs ! 0)\<rparr>)))))"

definition md_MarshalBinary :: "pki_lib \<Rightarrow> MixDescriptor \<Rightarrow> (pki_error, bytes) outcome" where
  "md_MarshalBinary L d =
     obind (from_option ErrCodec (md_Marshal L d)) (\<lambda>rawDesc.
     obind (case md_Signature d of None \<Rightarrow> Ok []
            | Some s \<Rightarrow> obind (id_Sum256 d) (\<lambda>h. Ok (gm_put [] h s))) (\<lambda>signatures.
     case cbor_Marshal (pl_cbor L) \<lparr>c_Version = CertVersion, Expiration = md_Epoch d + 5,
        KeyType = PrivateKeyType, Certified = rawDesc, Signatures = signatures\<rparr> of
       None \<Rightarrow> Panic | Some b \<Rightarrow> Ok b))"

definition SignDescriptor ::
  "pki_lib \<Rightarrow> u64 \<Rightarrow> privateKey \<Rightarrow> publicKey \<Rightarrow> MixDescriptor \<Rightarrow> (pki_error, bytes \<times> MixDescriptor) outcome" where
  "SignDescriptor L current signer verifier desc =
     obind (from_option ErrCodec (md_Marshal L desc)) (\<lambda>payload.
     obind (cert_call (Sign (pl_prims L) (pl_cbor L) current signer verifier payload (md_Epoch desc + 5))) (\<lambda>signed.
     obind (cert_call (GetSignature (pl_cbor L) current (pk_Sum256 verifier) signed)) (\<lambda>sig.
       Ok (signed, desc\<lparr>md_Signature := Some sig\<rparr>))))"

definition VerifyDescriptor :: "pki_lib \<Rightarrow> u64 \<Rightarrow> bytes \<Rightarrow> (pki_error, MixDescriptor) outcome" where
  "VerifyDescriptor L current rawDesc =
     obind (md_UnmarshalBinary L current rawDesc) (\<lambda>d.
       if md_Version d \<noteq> DescriptorVersion then Fail ErrDescriptorVersion else Ok d)"

definition GetVerifierFromDescriptor :: "pki_lib \<Rightarrow> u64 \<Rightarrow> bytes \<Rightarrow> (pki_error, publicKey option) outcome" where
  "GetVerifierFromDescriptor L current rawDesc =
     obind (md_UnmarshalBinary L current rawDesc) (\<lambda>d. Ok (IdentityKey d))"

subsection \<open>Well-formedness\<close>

definition TransportInvalid :: string where "TransportInvalid = ''''"
definition TransportTCP :: string where "TransportTCP = ''tcp''"
definition TransportTCPv4 :: string where "TransportTCPv4 = ''tcp4''"
definition TransportTCPv6 :: string where "TransportTCPv6 = ''tcp6''"
definition TransportQUIC :: string where "TransportQUIC = ''quic''"

text \<open>\<^verbatim>\<open>net.IP.To4\<close> and \<^verbatim>\<open>To16\<close>: an IPv4 address has 4 bytes, or 16 with the mapped prefix.\<close>

definition is_To4 :: "bytes \<Rightarrow> bool" where
  "is_To4 ip \<longleftrightarrow> length ip = 4 \<or> length ip = 16 \<and> take 10 ip = zeros 10 \<and> take 2 (drop 10 ip) = [255, 255]"

definition is_To16 :: "bytes \<Rightarrow> bool" where
  "is_To16 ip \<longleftrightarrow> length ip = 4 \<or> length ip = 16"

definition getIPVer :: "pki_lib \<Rightarrow> string \<Rightarrow> (pki_error, nat) outcome" where
  "getIPVer L h = (case ParseIP L h of
     Some ip \<Rightarrow> if is_To4 ip then Ok 4 else if is_To16 ip then Ok 6 else Fail InvalidAddress
   | None \<Rightarrow> Fail InvalidAddress)"

definition checkAddress :: "pki_lib \<Rightarrow> nat \<Rightarrow> string \<Rightarrow> (pki_error, unit) outcome" where
  "checkAddress L expectedIPVer v = (case url_Parse L v of
     None \<Rightarrow> Fail InvalidAddress
   | Some (scheme, hostname) \<Rightarrow>
       if scheme \<notin> {TransportTCP, TransportTCPv4, TransportTCPv6, TransportQUIC} then Fail UnsupportedScheme
       else if expectedIPVer = 4 \<or> expectedIPVer = 6
       then obind (getIPVer L hostname) (\<lambda>ver. if ver \<noteq> expectedIPVer then Fail IPVersionMismatch else Ok ())
       else (case idna_ToASCII L hostname of None \<Rightarrow> Fail InvalidAddress | Some _ \<Rightarrow> Ok ()))"

definition checkTransport :: "pki_lib \<Rightarrow> MixDescriptor \<Rightarrow> string \<times> string list \<Rightarrow> (pki_error, unit) outcome" where
  "checkTransport L d e = (case e of (transport, addrs) \<Rightarrow>
     if length addrs = 0 then Fail EmptyAddressList
     else if transport = TransportInvalid then Fail InvalidTransport
     else if transport = TransportTCPv4 then ocheck (checkAddress L 4) addrs
     else if transport = TransportTCPv6 then ocheck (checkAddress L 6) addrs
     else if transport = TransportQUIC then ocheck (checkAddress L 0) addrs
     else if \<not> Provider d then Fail NonProviderTransport
     else if transport \<noteq> TransportTCP then Ok ()
     else ocheck (checkAddress L 0) addrs)"

definition checkCapability :: "string \<times> (string, kparam) gomap option \<Rightarrow> (pki_error, unit) outcome" where
  "checkCapability e = (case e of (capa, params) \<Rightarrow>
     if length capa = 0 then Fail InvalidKaetzchen
     else (case params of None \<Rightarrow> Fail InvalidKaetzchen
       | Some ps \<Rightarrow> (case gm_get ps ''endpoint'' of
           None \<Rightarrow> Fail InvalidKaetzchen
         | Some KOther \<Rightarrow> Fail InvalidKaetzchen
         | Some (KString ep) \<Rightarrow>
             if length ep = 0 \<or> RecipientIDLength < length ep then Fail InvalidKaetzchen else Ok ())))"

definition validateKaetzchen ::
  "(string, (string, kparam) gomap option) gomap option \<Rightarrow> (pki_error, unit) outcome" where
  "validateKaetzchen m = (case m of None \<Rightarrow> Ok () | Some es \<Rightarrow> ocheck checkCapability es)"

definition IsDescriptorWellFormed :: "pki_lib \<Rightarrow> MixDescriptor \<Rightarrow> u64 \<Rightarrow> (pki_error, unit) outcome" where
  "IsDescriptorWellFormed L d epoch =
     (if Name d = [] then Fail MissingName
      else if NodeIDLength < length (Name d) then Fail NameTooLong
      else if LinkKey d = None then Fail MissingLinkKey
      else if IdentityKey d = None then Fail MissingIdentityKey
      else if gm_get (MixKeys d) epoch \<in> {None, Some None} then Fail MissingMixKey
      else if list_ex (\<lambda>(e, _). e < epoch \<or> epoch + 3 \<le> e) (MixKeys d) then Fail InvalidMixKeyEpoch
      else if length (Addresses d) = 0 then Fail MissingAddresses
      else obind (ocheck (checkTransport L d) (Addresses d)) (\<lambda>_.
        if \<not> Provider d then (if Kaetzchen d \<noteq> None then Fail KaetzchenOnMix else Ok ())
        else omap_err (\<lambda>_. InvalidKaetzchen) (validateKaetzchen (Kaetzchen d))))"

section \<open>Documents\<close>

subsection \<open>Serialization and signatures\<close>

text \<open>\<^verbatim>\<open>ccbor.Marshal((*document)(d))\<close> and the decoding into a new \<^verbatim>\<open>document\<close>.\<close>

definition encodeDocument :: "pki_lib \<Rightarrow> Document \<Rightarrow> (pki_error, bytes) outcome" where
  "encodeDocument L d =
     obind (omapM (omapM (md_MarshalBinary L)) (Topology d)) (\<lambda>ts.
     obind (omapM (md_MarshalBinary L) (Providers d)) (\<lambda>ps.
       from_option ErrCodec (doc_Marshal L (d\<lparr>Topology := [], Providers := [], doc_Signatures := []\<rparr>) ts ps)))"

definition decodeDocument :: "pki_lib \<Rightarrow> u64 \<Rightarrow> bytes \<Rightarrow> (pki_error, Document) outcome" where
  "decodeDocument L current b =
     obind (from_option ErrCodec (doc_Unmarshal L b)) (\<lambda>(d, ts, ps).
     obind (omapM (omapM (md_UnmarshalBinary L current)) ts) (\<lambda>topology.
     obind (omapM (md_UnmarshalBinary L current) ps) (\<lambda>providers.
       Ok (d\<lparr>Topology := topology, Providers := providers\<rparr>))))"

definition doc_MarshalBinary :: "pki_lib \<Rightarrow> Document \<Rightarrow> (pki_error, bytes \<times> Document) outcome" where
  "doc_MarshalBinary L d0 =
     (let d = d0\<lparr>doc_Version := DocumentVersion\<rparr> in
      obind (encodeDocument L d) (\<lambda>payload.
      obind (from_option ErrCodec (cbor_Marshal (pl_cbor L) \<lparr>c_Version = CertVersion,
        Expiration = doc_Epoch d + 5, KeyType = PrivateKeyType, Certified = payload,
        Signatures = doc_Signatures d\<rparr>)) (\<lambda>b. Ok (b, d))))"

definition doc_UnmarshalBinary :: "pki_lib \<Rightarrow> u64 \<Rightarrow> bytes \<Rightarrow> (pki_error, Document) outcome" where
  "doc_UnmarshalBinary L current data =
     obind (cert_call (GetCertified (pl_cbor L) current data)) (\<lambda>certified.
     obind (cert_call (GetSignatures (pl_cbor L) current data)) (\<lambda>sigs.
     if length sigs = 0 then Fail ErrDocumentNotSigned
     else obind (decodeDocument L current certified) (\<lambda>d.
       Ok (d\<lparr>doc_Signatures := fold (\<lambda>s m. gm_put m (PublicKeySum256 s) s) sigs []\<rparr>))))"

definition FromPayload :: "pki_lib \<Rightarrow> u64 \<Rightarrow> publicKey \<Rightarrow> bytes \<Rightarrow> (pki_error, Document) outcome" where
  "FromPayload L current verifier payload =
     obind (cert_call (cert_Verify (pl_prims L) (pl_cbor L) current verifier payload)) (\<lambda>_.
       doc_UnmarshalBinary L current payload)"

definition ParseDocument :: "pki_lib \<Rightarrow> u64 \<Rightarrow> bytes \<Rightarrow> (pki_error, Document) outcome" where
  "ParseDocument L current b = doc_UnmarshalBinary L current b"

text \<open>A call whose error the source turns into a panic.\<close>

definition or_panic :: "('f, 'a) outcome \<Rightarrow> ('e, 'a) outcome" where
  "or_panic r = (case r of Ok x \<Rightarrow> Ok x | _ \<Rightarrow> Panic)"

definition SignDocument ::
  "pki_lib \<Rightarrow> u64 \<Rightarrow> privateKey \<Rightarrow> publicKey \<Rightarrow> Document \<Rightarrow> (pki_error, bytes \<times> Document) outcome" where
  "SignDocument L current signer verifier d =
     obind (or_panic (doc_MarshalBinary L (d\<lparr>doc_Version := DocumentVersion\<rparr>))) (\<lambda>(certified, _).
     obind (or_panic (SignMulti (pl_prims L) (pl_cbor L) current signer verifier certified)) (\<lambda>recertified.
     obind (doc_UnmarshalBinary L current recertified) (\<lambda>d'. Ok (recertified, d'))))"

text \<open>
  \<^verbatim>\<open>cert.AddSignature\<close> with a verifier taken from a map: a missing entry is a nil interface, on which the
  call panics once it has decoded the certificate and found no duplicate.
\<close>

definition addSignatureBy ::
  "pki_lib \<Rightarrow> u64 \<Rightarrow> publicKey option \<Rightarrow> Signature \<Rightarrow> bytes \<Rightarrow> (pki_error, bytes) outcome" where
  "addSignatureBy L current verifier signature rawDoc =
     (case verifier of
        Some v \<Rightarrow> cert_call (AddSignature (pl_prims L) (pl_cbor L) current v signature rawDoc)
      | None \<Rightarrow> obind (cert_call (c_Unmarshal (pl_cbor L) ErrImpossibleDecode current rawDoc)) (\<lambda>c.
          if list_ex (\<lambda>s. PublicKeySum256 s = PublicKeySum256 signature) (map snd (Signatures c))
          then Fail (ErrCert ErrDuplicateSignature) else Panic))"

definition MultiSignDocument ::
  "pki_lib \<Rightarrow> u64 \<Rightarrow> privateKey \<Rightarrow> publicKey \<Rightarrow> Signature list \<Rightarrow> (bytes, publicKey) gomap \<Rightarrow> Document \<Rightarrow>
   (pki_error, bytes) outcome" where
  "MultiSignDocument L current signer verifier peerSignatures verifiers d =
     obind (encodeDocument L (d\<lparr>doc_Version := DocumentVersion\<rparr>)) (\<lambda>payload.
     obind (cert_call (Sign (pl_prims L) (pl_cbor L) current signer verifier payload (doc_Epoch d + 5)))
       (ofold (\<lambda>signature. addSignatureBy L current (gm_get verifiers (PublicKeySum256 signature)) signature)
         peerSignatures))"

definition doc_AddSignature ::
  "pki_lib \<Rightarrow> u64 \<Rightarrow> publicKey option \<Rightarrow> Signature \<Rightarrow> Document \<Rightarrow> (pki_error, Document) outcome" where
  "doc_AddSignature L current verifier signature d0 =
     obind (doc_MarshalBinary L d0) (\<lambda>(payload, d).
     obind (addSignatureBy L current verifier signature payload) (\<lambda>_.
       case verifier of None \<Rightarrow> Panic
       | Some v \<Rightarrow> Ok (d\<lparr>doc_Signatures := gm_put (doc_Signatures d) (pk_Sum256 v) signature\<rparr>)))"

subsection \<open>Lookups\<close>

definition GetProvider :: "Document \<Rightarrow> string \<Rightarrow> (pki_error, MixDescriptor) outcome" where
  "GetProvider d name = from_option NodeNotFound (find (\<lambda>v. Name v = name) (Providers d))"

definition GetMix :: "Document \<Rightarrow> string \<Rightarrow> (pki_error, MixDescriptor) outcome" where
  "GetMix d name = from_option NodeNotFound (find (\<lambda>v. Name v = name) (concat (Topology d)))"

fun findByKeyHash :: "bytes \<Rightarrow> MixDescriptor list \<Rightarrow> (pki_error, MixDescriptor) outcome" where
  "findByKeyHash h [] = Fail NodeNotFound"
| "findByKeyHash h (v # vs) = (case IdentityKey v of None \<Rightarrow> Fail InvalidDescriptors
     | Some k \<Rightarrow> if pk_Sum256 k = h then Ok v else findByKeyHash h vs)"

definition GetProviderByKeyHash :: "Document \<Rightarrow> bytes \<Rightarrow> (pki_error, MixDescriptor) outcome" where
  "GetProviderByKeyHash d keyhash = findByKeyHash keyhash (Providers d)"

definition GetMixByKeyHash :: "Document \<Rightarrow> bytes \<Rightarrow> (pki_error, MixDescriptor) outcome" where
  "GetMixByKeyHash d keyhash = findByKeyHash keyhash (concat (Topology d))"

fun hasKeyHash :: "bytes \<Rightarrow> MixDescriptor list \<Rightarrow> (pki_error, bool) outcome" where
  "hasKeyHash h [] = Ok False"
| "hasKeyHash h (v # vs) = obind (id_Sum256 v) (\<lambda>k. if k = h then Ok True else hasKeyHash h vs)"

fun layerOf :: "bytes \<Rightarrow> nat \<Rightarrow> MixDescriptor list list \<Rightarrow> (pki_error, u8) outcome" where
  "layerOf h n [] = Fail NodeNotFound"
| "layerOf h n (l # ls) = obind (hasKeyHash h l) (\<lambda>found.
     if found then Ok (of_nat n) else layerOf h (Suc n) ls)"

definition GetMixLayer :: "Document \<Rightarrow> bytes \<Rightarrow> (pki_error, u8) outcome" where
  "GetMixLayer d keyhash = obind (hasKeyHash keyhash (Providers d)) (\<lambda>found.
     if found then Ok LayerProvider else layerOf keyhash 0 (Topology d))"

definition GetMixesInLayer :: "Document \<Rightarrow> u8 \<Rightarrow> (pki_error, MixDescriptor list) outcome" where
  "GetMixesInLayer d layer =
     (if int (length (Topology d)) - 1 < int (unat layer) then Fail InvalidLayer
      else Ok (Topology d ! unat layer))"

definition orElse :: "('e, 'a) outcome \<Rightarrow> ('e, 'a) outcome \<Rightarrow> ('e, 'a) outcome" where
  "orElse a b = (case a of Fail _ \<Rightarrow> b | _ \<Rightarrow> a)"

definition GetNode :: "Document \<Rightarrow> string \<Rightarrow> (pki_error, MixDescriptor) outcome" where
  "GetNode d name = orElse (GetMix d name) (orElse (GetProvider d name) (Fail NodeNotFound))"

definition GetNodeByKeyHash :: "Document \<Rightarrow> bytes \<Rightarrow> (pki_error, MixDescriptor) outcome" where
  "GetNodeByKeyHash d keyhash =
     orElse (GetMixByKeyHash d keyhash) (orElse (GetProviderByKeyHash d keyhash) (Fail NodeNotFound))"

subsection \<open>Well-formedness\<close>

text \<open>One turn of the loop over the commits of a document.\<close>

definition checkReveal ::
  "pki_lib \<Rightarrow> u64 \<Rightarrow> Document \<Rightarrow> bytes \<Rightarrow> publicKey \<Rightarrow> bytes \<Rightarrow> (pki_error, unit) outcome" where
  "checkReveal L current d i verifier commit =
     (if length (SharedRandomReveal d) \<noteq> length (SharedRandomCommit d) then Fail MalformedDocument
      else (case gm_get (SharedRandomReveal d) i of
        None \<Rightarrow> Fail MissingReveal
      | Some signedReveal \<Rightarrow>
          obind (omap_err (\<lambda>_. InvalidSignedReveal)
            (cert_Verify (pl_prims L) (pl_cbor L) current verifier signedReveal)) (\<lambda>reveal.
          obind (omap_err (\<lambda>_. InvalidReveal) (sr_SetCommit newSharedRandom commit)) (\<lambda>srv.
          obind (omap_err (\<lambda>_. InvalidReveal) (sr_Verify (pl_prims L) srv reveal)) (\<lambda>ok.
            if \<not> ok then Fail InvalidReveal else Ok ())))))"

definition checkCommit ::
  "pki_lib \<Rightarrow> u64 \<Rightarrow> Document \<Rightarrow> (bytes, publicKey) gomap \<Rightarrow> bytes \<times> bytes \<Rightarrow> (pki_error, unit) outcome" where
  "checkCommit L current d vmap e = (case e of (i, signedCommit) \<Rightarrow>
     (case gm_get vmap i of
        None \<Rightarrow> Fail UnknownVerifier
      | Some verifier \<Rightarrow>
          obind (omap_err (\<lambda>_. InvalidSignedCommit)
            (cert_Verify (pl_prims L) (pl_cbor L) current verifier signedCommit)) (\<lambda>commit.
          if length commit \<noteq> SharedRandomLength then Fail InvalidCommit
          else if get_u64_be (take 8 commit) \<noteq> doc_Epoch d then Fail InvalidCommitEpoch
          else if length (SharedRandomCommit d) = 1
          then (if length (SharedRandomReveal d) \<noteq> 0 then Fail InvalidVote else Ok ())
          else checkReveal L current d i verifier commit)))"

definition checkEntry ::
  "pki_lib \<Rightarrow> u64 \<Rightarrow> bool \<Rightarrow> MixDescriptor \<Rightarrow> (bytes, bool) gomap \<Rightarrow> (pki_error, (bytes, bool) gomap) outcome" where
  "checkEntry L epoch needProvider desc pks =
     obind (IsDescriptorWellFormed L desc epoch) (\<lambda>_.
     if needProvider \<and> \<not> Provider desc then Fail NotAProvider
     else obind (id_Sum256 desc) (\<lambda>pk.
       if gm_has pks pk then Fail MultipleEntries else Ok (gm_put pks pk True)))"

definition checkLayer ::
  "pki_lib \<Rightarrow> u64 \<Rightarrow> MixDescriptor list \<Rightarrow> (bytes, bool) gomap \<Rightarrow> (pki_error, (bytes, bool) gomap) outcome" where
  "checkLayer L epoch nodes pks =
     (if length nodes = 0 then Fail EmptyLayer else ofold (checkEntry L epoch False) nodes pks)"

definition IsDocumentWellFormed :: "pki_lib \<Rightarrow> u64 \<Rightarrow> Document \<Rightarrow> publicKey list \<Rightarrow> (pki_error, unit) outcome" where
  "IsDocumentWellFormed L current d verifiers =
     (if doc_Version d \<noteq> DocumentVersion then Fail InvalidDocumentVersion
      else if GenesisEpoch d = 0 then Fail InvalidGenesisEpoch
      else if length (PriorSharedRandom d) = 0 \<and> GenesisEpoch d \<noteq> doc_Epoch d then Fail InvalidPriorSharedRandom
      else obind (ocheck (checkCommit L current d (fold (\<lambda>v m. gm_put m (pk_Sum256 v) v) verifiers []))
          (SharedRandomCommit d)) (\<lambda>_.
        if length (Topology d) = 0 then Fail NoTopology
        else obind (ofold (checkLayer L (doc_Epoch d)) (Topology d) []) (\<lambda>pks.
          if length (Providers d) = 0 then Fail NoProviders
          else obind (ofold (checkEntry L (doc_Epoch d) True) (Providers d) pks) (\<lambda>_. Ok ()))))"

section \<open>Lemmas: well-formed documents\<close>

definition idhash :: "MixDescriptor \<Rightarrow> bytes" where
  "idhash d = (case IdentityKey d of None \<Rightarrow> [] | Some k \<Rightarrow> pk_Sum256 k)"

lemma id_Sum256_Ok_iff: "id_Sum256 d = Ok h \<longleftrightarrow> IdentityKey d \<noteq> None \<and> h = idhash d"
  by (auto simp: id_Sum256_def idhash_def split: option.splits)

lemma wellformed_identity: "IsDescriptorWellFormed L d e = Ok u \<Longrightarrow> IdentityKey d \<noteq> None"
  by (auto simp: IsDescriptorWellFormed_def split: if_splits)

lemma from_option_Ok_iff [simp]: "from_option e x = Ok y \<longleftrightarrow> x = Some y"
  by (simp add: from_option_def split: option.splits)

lemma from_option_no_panic [simp]: "from_option e x \<noteq> Panic"
  by (simp add: from_option_def split: option.splits)

lemma checkEntry_Ok_iff:
  "checkEntry L e np d pks = Ok pks' \<longleftrightarrow>
     IsDescriptorWellFormed L d e = Ok () \<and> (np \<longrightarrow> Provider d) \<and> \<not> gm_has pks (idhash d) \<and>
     pks' = gm_put pks (idhash d) True"
  using wellformed_identity [of L d e]
  by (auto simp: checkEntry_def obind_Ok_iff id_Sum256_Ok_iff)

lemma checkEntries_sound:
  assumes "ofold (checkEntry L e np) ds pks = Ok pks'"
  shows "(\<forall>d\<in>set ds. IsDescriptorWellFormed L d e = Ok () \<and> (np \<longrightarrow> Provider d)) \<and>
    distinct (map idhash ds) \<and> idhash ` set ds \<inter> gm_keys pks = {} \<and>
    gm_keys pks' = gm_keys pks \<union> idhash ` set ds"
  using assms
proof (induction ds arbitrary: pks)
  case (Cons d ds)
  then have d: "IsDescriptorWellFormed L d e = Ok ()" "np \<longrightarrow> Provider d" "idhash d \<notin> gm_keys pks"
    and r: "ofold (checkEntry L e np) ds (gm_put pks (idhash d) True) = Ok pks'"
    by (auto simp: obind_Ok_iff checkEntry_Ok_iff gm_has_keys)
  from Cons.IH [OF r] d show ?case by auto
qed simp

lemma checkLayers_sound:
  assumes "ofold (checkLayer L e) ls pks = Ok pks'"
  shows "(\<forall>l\<in>set ls. l \<noteq> []) \<and> (\<forall>d\<in>set (concat ls). IsDescriptorWellFormed L d e = Ok ()) \<and>
    distinct (map idhash (concat ls)) \<and> idhash ` set (concat ls) \<inter> gm_keys pks = {} \<and>
    gm_keys pks' = gm_keys pks \<union> idhash ` set (concat ls)"
  using assms
proof (induction ls arbitrary: pks)
  case (Cons l ls)
  then obtain q where q: "checkLayer L e l pks = Ok q" and r: "ofold (checkLayer L e) ls q = Ok pks'"
    by (auto simp: obind_Ok_iff)
  have l: "l \<noteq> []" "ofold (checkEntry L e False) l pks = Ok q"
    using q by (auto simp: checkLayer_def split: if_splits)
  obtain E: "\<forall>d\<in>set l. IsDescriptorWellFormed L d e = Ok ()" "distinct (map idhash l)"
      "idhash ` set l \<inter> gm_keys pks = {}" "gm_keys q = gm_keys pks \<union> idhash ` set l"
    using checkEntries_sound [OF l(2)] by blast
  obtain T: "\<forall>k\<in>set ls. k \<noteq> []" "\<forall>d\<in>set (concat ls). IsDescriptorWellFormed L d e = Ok ()"
      "distinct (map idhash (concat ls))" "idhash ` set (concat ls) \<inter> gm_keys q = {}"
      "gm_keys pks' = gm_keys q \<union> idhash ` set (concat ls)"
    using Cons.IH [OF r] by blast
  have "idhash ` set l \<inter> idhash ` set (concat ls) = {}" using E(4) T(4) by blast
  then have "distinct (map idhash (concat (l # ls)))" using E(2) T(3) by (simp del: set_concat)
  moreover have c: "idhash ` set (concat (l # ls)) = idhash ` set l \<union> idhash ` set (concat ls)" by auto
  have "idhash ` set (concat (l # ls)) \<inter> gm_keys pks = {}"
    "gm_keys pks' = gm_keys pks \<union> idhash ` set (concat (l # ls))"
    unfolding c using E(3,4) T(4,5) by blast+
  moreover have "\<forall>d\<in>set (concat (l # ls)). IsDescriptorWellFormed L d e = Ok ()" using E(1) T(2) by auto
  moreover have "\<forall>k\<in>set (l # ls). k \<noteq> []" using T(1) l(1) by simp
  ultimately show ?case by blast
qed simp

text \<open>The part of well-formedness that the lookups rest on.\<close>

definition nodes_wf :: "Document \<Rightarrow> bool" where
  "nodes_wf d \<longleftrightarrow> Topology d \<noteq> [] \<and> (\<forall>l\<in>set (Topology d). l \<noteq> []) \<and> Providers d \<noteq> [] \<and>
     (\<forall>x\<in>set (concat (Topology d) @ Providers d). IdentityKey x \<noteq> None) \<and>
     distinct (map idhash (concat (Topology d) @ Providers d))"

lemma IsDocumentWellFormed_parts:
  assumes "IsDocumentWellFormed L current d verifiers = Ok ()"
  shows "nodes_wf d"
    and "\<forall>x\<in>set (concat (Topology d) @ Providers d). IsDescriptorWellFormed L x (doc_Epoch d) = Ok ()"
    and "\<forall>x\<in>set (Providers d). Provider x"
    and "\<forall>e\<in>set (SharedRandomCommit d).
      checkCommit L current d (fold (\<lambda>v m. gm_put m (pk_Sum256 v) v) verifiers []) e = Ok ()"
proof -
  obtain pks pks' where c: "\<forall>e\<in>set (SharedRandomCommit d).
      checkCommit L current d (fold (\<lambda>v m. gm_put m (pk_Sum256 v) v) verifiers []) e = Ok ()"
    and t: "Topology d \<noteq> []" "ofold (checkLayer L (doc_Epoch d)) (Topology d) [] = Ok pks"
    and p: "Providers d \<noteq> []" "ofold (checkEntry L (doc_Epoch d) True) (Providers d) pks = Ok pks'"
    using assms by (auto simp: IsDocumentWellFormed_def obind_Ok_iff split: if_splits)
  obtain T: "\<forall>l\<in>set (Topology d). l \<noteq> []"
      "\<forall>x\<in>set (concat (Topology d)). IsDescriptorWellFormed L x (doc_Epoch d) = Ok ()"
      "distinct (map idhash (concat (Topology d)))" "gm_keys pks = idhash ` set (concat (Topology d))"
    using checkLayers_sound [OF t(2)] by (simp del: set_concat)
  obtain Q: "\<forall>x\<in>set (Providers d). IsDescriptorWellFormed L x (doc_Epoch d) = Ok ()"
      "\<forall>x\<in>set (Providers d). Provider x"
      "distinct (map idhash (Providers d))" "idhash ` set (Providers d) \<inter> gm_keys pks = {}"
    using checkEntries_sound [OF p(2)] by simp
  show *: "\<forall>x\<in>set (concat (Topology d) @ Providers d). IsDescriptorWellFormed L x (doc_Epoch d) = Ok ()"
    using T(2) Q(1) by (simp del: set_concat) blast
  show "\<forall>x\<in>set (Providers d). Provider x" by (rule Q(2))
  have "idhash ` set (concat (Topology d)) \<inter> idhash ` set (Providers d) = {}" using T(4) Q(4) by blast
  then have "distinct (map idhash (concat (Topology d) @ Providers d))"
    using T(3) Q(3) by (simp del: set_concat)
  moreover have "\<forall>x\<in>set (concat (Topology d) @ Providers d). IdentityKey x \<noteq> None"
    using * wellformed_identity by blast
  ultimately show "nodes_wf d" using t(1) p(1) T(1) unfolding nodes_wf_def by blast
  show "\<forall>e\<in>set (SharedRandomCommit d).
      checkCommit L current d (fold (\<lambda>v m. gm_put m (pk_Sum256 v) v) verifiers []) e = Ok ()" by (rule c)
qed

lemma verifier_map:
  "gm_get (fold (\<lambda>v m. gm_put m (pk_Sum256 v) v) vs m0) i = Some v \<Longrightarrow>
     v \<in> set vs \<and> pk_Sum256 v = i \<or> gm_get m0 i = Some v"
proof (induction vs arbitrary: m0)
  case (Cons w vs)
  then show ?case by (fastforce split: if_splits)
qed simp

lemma checkCommit_sound:
  assumes "checkCommit L current d (fold (\<lambda>v m. gm_put m (pk_Sum256 v) v) verifiers []) (i, sc) = Ok ()"
  shows "\<exists>v\<in>set verifiers. \<exists>commit. pk_Sum256 v = i \<and>
    cert_Verify (pl_prims L) (pl_cbor L) current v sc = Ok commit \<and>
    length commit = SharedRandomLength \<and> get_u64_be (take 8 commit) = doc_Epoch d \<and>
    (length (SharedRandomCommit d) \<noteq> 1 \<longrightarrow> (\<exists>sr reveal. gm_get (SharedRandomReveal d) i = Some sr \<and>
       cert_Verify (pl_prims L) (pl_cbor L) current v sr = Ok reveal \<and>
       take 8 reveal = take 8 commit \<and> blake2b_Sum256 (pl_prims L) reveal = drop 8 commit))"
proof -
  obtain v commit where v: "gm_get (fold (\<lambda>v m. gm_put m (pk_Sum256 v) v) verifiers []) i = Some v"
    and c: "cert_Verify (pl_prims L) (pl_cbor L) current v sc = Ok commit" "length commit = SharedRandomLength"
      "get_u64_be (take 8 commit) = doc_Epoch d"
    and r: "length (SharedRandomCommit d) \<noteq> 1 \<Longrightarrow> checkReveal L current d i v commit = Ok ()"
    using assms by (auto simp: checkCommit_def obind_Ok_iff split: option.splits if_splits)
  have v': "v \<in> set verifiers" "pk_Sum256 v = i" using verifier_map [OF v] by (auto simp: gm_get_def)
  have "\<exists>sr reveal. gm_get (SharedRandomReveal d) i = Some sr \<and>
       cert_Verify (pl_prims L) (pl_cbor L) current v sr = Ok reveal \<and>
       take 8 reveal = take 8 commit \<and> blake2b_Sum256 (pl_prims L) reveal = drop 8 commit"
    if "length (SharedRandomCommit d) \<noteq> 1"
    using r [OF that] by (auto simp: checkReveal_def obind_Ok_iff sr_Verify_after_SetCommit(2)
        split: option.splits if_splits)
  then show ?thesis using v' c by blast
qed

section \<open>Lemmas: lookups\<close>

lemma findByKeyHash_found:
  assumes "x \<in> set ds" "\<forall>d\<in>set ds. IdentityKey d \<noteq> None" "distinct (map idhash ds)"
  shows "findByKeyHash (idhash x) ds = Ok x"
  using assms
proof (induction ds)
  case (Cons d ds)
  obtain k where k: "IdentityKey d = Some k" "idhash d = pk_Sum256 k"
    using Cons.prems(2) by (auto simp: idhash_def)
  show ?case
  proof (cases "x = d")
    case False
    then have "x \<in> set ds" using Cons.prems(1) by simp
    then have "idhash x \<noteq> idhash d" using Cons.prems(3) by (metis distinct.simps(2) image_eqI list.simps(9) set_map)
    then show ?thesis using Cons k \<open>x \<in> set ds\<close> by simp
  qed (use k in simp)
qed simp

lemma findByKeyHash_absent:
  assumes "h \<notin> idhash ` set ds"
  shows "\<exists>e. findByKeyHash h ds = Fail e"
  using assms by (induction ds) (auto simp: idhash_def split: option.splits)

lemma hasKeyHash_eq:
  assumes "\<forall>d\<in>set ds. IdentityKey d \<noteq> None"
  shows "hasKeyHash h ds = Ok (h \<in> idhash ` set ds)"
  using assms by (induction ds) (auto simp: idhash_def id_Sum256_def split: option.splits)

lemma layerOf_found:
  assumes "n < length ls" "x \<in> set (ls ! n)" "\<forall>d\<in>set (concat ls). IdentityKey d \<noteq> None"
    "distinct (map idhash (concat ls))"
  shows "layerOf (idhash x) m ls = Ok (of_nat (m + n))"
  using assms
proof (induction ls arbitrary: n m)
  case (Cons l ls)
  have h: "hasKeyHash (idhash x) l = Ok (idhash x \<in> idhash ` set l)"
    using Cons.prems(3) by (intro hasKeyHash_eq) auto
  show ?case
  proof (cases n)
    case 0
    then have "idhash x \<in> idhash ` set l" using Cons.prems(2) by simp
    then show ?thesis using h 0 by simp
  next
    case (Suc k)
    then have k: "k < length ls" "x \<in> set (ls ! k)" using Cons.prems(1,2) by simp_all
    then have "x \<in> set (concat ls)" using nth_mem [OF k(1)] by auto
    moreover have "idhash ` set l \<inter> idhash ` set (concat ls) = {}"
      using Cons.prems(4) by (simp del: set_concat)
    ultimately have "idhash x \<notin> idhash ` set l" by blast
    moreover have "layerOf (idhash x) (Suc m) ls = Ok (of_nat (Suc m + k))"
      using Cons.prems(3,4) k by (intro Cons.IH) auto
    ultimately show ?thesis using h Suc by simp
  qed
qed simp

section \<open>Lemmas: signed descriptors and documents\<close>

lemma signed_cert_fields [simp]:
  "Certified (signed_cert data e s) = data" "Signatures (signed_cert data e s) = [(PublicKeySum256 s, s)]"
  by (simp_all add: signed_cert_def fresh_cert_def)

lemma cert_Verify_signed:
  assumes "c_Unmarshal B e current raw = Ok (signed_cert data expiration s)" "PublicKeySum256 s = pk_Sum256 v"
  shows "cert_Verify P B current v raw =
    obind (scheme_call (pk_Verify P v (Payload s) (cert_message (signed_cert data expiration s)))) (\<lambda>ok.
      if ok then Ok data else Fail ErrBadSignature)"
  using cert_Verify_opened [OF assms(1), of P v] assms(2)
  by (simp add: gm_wf_def keyed_def gm_get_def cong: if_cong)

text \<open>The CBOR form of a descriptor: it leaves the signature out, and decoding gives the rest back.\<close>

definition md_codec_ok :: "pki_lib \<Rightarrow> MixDescriptor \<Rightarrow> bool" where
  "md_codec_ok L d \<longleftrightarrow> (\<exists>b. b \<noteq> [] \<and> (\<forall>s. md_Marshal L (d\<lparr>md_Signature := s\<rparr>) = Some b) \<and>
     md_Unmarshal L b = Some (d\<lparr>md_Signature := None\<rparr>))"

text \<open>The same for a document.\<close>

definition doc_codec_ok :: "pki_lib \<Rightarrow> u64 \<Rightarrow> Document \<Rightarrow> bool" where
  "doc_codec_ok L current d \<longleftrightarrow> (\<exists>b. b \<noteq> [] \<and> encodeDocument L d = Ok b \<and>
     decodeDocument L current b = Ok (d\<lparr>doc_Signatures := []\<rparr>))"

lemma descriptor_roundtrip:
  assumes lib: "cbor_ok (pl_cbor L)" "md_codec_ok L d" and key: "signer_ok (pl_prims L) (k, v)"
    and d: "IdentityKey d = Some v" and now: "current < md_Epoch d + 5"
  obtains raw s where "SignDescriptor L current k v d = Ok (raw, d\<lparr>md_Signature := Some s\<rparr>)"
    and "md_UnmarshalBinary L current raw = Ok (d\<lparr>md_Signature := Some s\<rparr>)"
    and "md_MarshalBinary L (d\<lparr>md_Signature := Some s\<rparr>) = Ok raw"
proof -
  obtain b where b: "b \<noteq> []" "\<And>s. md_Marshal L (d\<lparr>md_Signature := s\<rparr>) = Some b"
      "md_Unmarshal L b = Some (d\<lparr>md_Signature := None\<rparr>)"
    using lib(2) by (auto simp: md_codec_ok_def)
  have bd: "md_Marshal L d = Some b" using b(2) [of "md_Signature d"] by simp
  obtain s raw where s: "PublicKeySum256 s = pk_Sum256 v"
      "pk_Verify (pl_prims L) v (Payload s) (cert_message (signed_cert b (md_Epoch d + 5) s)) = Ok True"
      "cbor_Marshal (pl_cbor L) (signed_cert b (md_Epoch d + 5) s) = Some raw"
      "\<And>e. c_Unmarshal (pl_cbor L) e current raw = Ok (signed_cert b (md_Epoch d + 5) s)"
      "Sign (pl_prims L) (pl_cbor L) current k v b (md_Epoch d + 5) = Ok raw"
    using signer_certificate [OF lib(1) key now b(1)] by metis
  have "GetSignature (pl_cbor L) current (pk_Sum256 v) raw = Ok s"
    using s(1,4) by (simp add: GetSignature_def)
  then have 1: "SignDescriptor L current k v d = Ok (raw, d\<lparr>md_Signature := Some s\<rparr>)"
    using bd s(5) by (simp add: SignDescriptor_def from_option_def)
  have "cert_Verify (pl_prims L) (pl_cbor L) current v raw = Ok b"
    using cert_Verify_signed [OF s(4,1)] s(2) by simp
  then have 2: "md_UnmarshalBinary L current raw = Ok (d\<lparr>md_Signature := Some s\<rparr>)"
    using s(4) b(3) d by (simp add: md_UnmarshalBinary_def GetCertified_def GetSignatures_def from_option_def)
  have "cbor_Marshal (pl_cbor L) \<lparr>c_Version = CertVersion, Expiration = md_Epoch d + 5, KeyType = PrivateKeyType,
      Certified = b, Signatures = [(pk_Sum256 v, s)]\<rparr> = Some raw"
    using s(1,3) by (simp add: signed_cert_def fresh_cert_def)
  then have "md_MarshalBinary L (d\<lparr>md_Signature := Some s\<rparr>) = Ok raw"
    using b(2) d by (simp add: md_MarshalBinary_def from_option_def id_Sum256_def)
  with 1 2 show ?thesis by (rule that)
qed

lemma document_roundtrip:
  assumes lib: "cbor_ok (pl_cbor L)" and key: "signer_ok (pl_prims L) (k, v)"
    and d: "doc_Version d = DocumentVersion" "doc_Signatures d = []" "doc_codec_ok L current d"
    and now: "current < doc_Epoch d + 5"
  obtains raw s where "SignDocument L current k v d = Ok (raw, d\<lparr>doc_Signatures := [(pk_Sum256 v, s)]\<rparr>)"
    and "FromPayload L current v raw = Ok (d\<lparr>doc_Signatures := [(pk_Sum256 v, s)]\<rparr>)"
    and "PublicKeySum256 s = pk_Sum256 v"
    and "pk_Verify (pl_prims L) v (Payload s)
      (cert_message (signed_cert (case encodeDocument L d of Ok b \<Rightarrow> b) (doc_Epoch d + 5) s)) = Ok True"
proof -
  obtain b where b: "b \<noteq> []" "encodeDocument L d = Ok b" "decodeDocument L current b = Ok d"
    using d(2,3) by (auto simp: doc_codec_ok_def)
  obtain s raw where s: "PublicKeySum256 s = pk_Sum256 v"
      "pk_Verify (pl_prims L) v (Payload s) (cert_message (signed_cert b (doc_Epoch d + 5) s)) = Ok True"
      "\<And>e. c_Unmarshal (pl_cbor L) e current raw = Ok (signed_cert b (doc_Epoch d + 5) s)"
      "\<And>raw0. cbor_Marshal (pl_cbor L) (fresh_cert b (doc_Epoch d + 5)) = Some raw0 \<Longrightarrow>
        SignMulti (pl_prims L) (pl_cbor L) current k v raw0 = Ok raw"
    using signer_certificate [OF lib key now b(1)] by metis
  obtain raw0 where r0: "cbor_Marshal (pl_cbor L) (fresh_cert b (doc_Epoch d + 5)) = Some raw0"
    using fresh_cert_stored [OF lib now b(1)] by blast
  have dv: "d\<lparr>doc_Version := DocumentVersion\<rparr> = d" using d(1) by simp
  have "doc_MarshalBinary L d = Ok (raw0, d)"
    using r0 b(2) d(2) dv by (simp add: doc_MarshalBinary_def from_option_def fresh_cert_def)
  moreover have u: "doc_UnmarshalBinary L current raw = Ok (d\<lparr>doc_Signatures := [(pk_Sum256 v, s)]\<rparr>)"
    using s(1,3) b(3) by (simp add: doc_UnmarshalBinary_def GetCertified_def GetSignatures_def)
  ultimately have "SignDocument L current k v d = Ok (raw, d\<lparr>doc_Signatures := [(pk_Sum256 v, s)]\<rparr>)"
    using s(4) [OF r0] dv by (simp add: SignDocument_def or_panic_def)
  moreover have "FromPayload L current v raw = Ok (d\<lparr>doc_Signatures := [(pk_Sum256 v, s)]\<rparr>)"
    using cert_Verify_signed [OF s(3,1)] s(2) u by (simp add: FromPayload_def)
  ultimately show ?thesis using that [of raw s] s(1,2) b(2) by simp
qed

text \<open>What a successfully parsed descriptor guarantees.\<close>

lemma md_UnmarshalBinary_sound:
  assumes "md_UnmarshalBinary L current raw = Ok d"
  shows "\<exists>k s c. IdentityKey d = Some k \<and> md_Signature d = Some s \<and>
    c_Unmarshal (pl_cbor L) ErrImpossibleDecode current raw = Ok c \<and> map snd (Signatures c) = [s] \<and>
    PublicKeySum256 s = pk_Sum256 k \<and> pk_Verify (pl_prims L) k (Payload s) (cert_message c) = Ok True \<and>
    md_Unmarshal L (Certified c) = Some (d\<lparr>md_Signature := md_Signature (the (md_Unmarshal L (Certified c)))\<rparr>)"
proof -
  obtain c where c: "c_Unmarshal (pl_cbor L) ErrImpossibleDecode current raw = Ok c"
    using assms by (auto simp: md_UnmarshalBinary_def GetCertified_def obind_Ok_iff)
  obtain s where s: "map snd (Signatures c) = [s]"
    using assms c by (auto simp: md_UnmarshalBinary_def GetCertified_def GetSignatures_def length_Suc_conv
        split: if_splits)
  obtain d0 k where d0: "md_Unmarshal L (Certified c) = Some d0" "IdentityKey d0 = Some k"
      "d = d0\<lparr>md_Signature := Some s\<rparr>"
    and v: "is_ok (cert_Verify (pl_prims L) (pl_cbor L) current k raw)"
    using assms c s
    by (auto simp: md_UnmarshalBinary_def GetCertified_def GetSignatures_def obind_Ok_iff split: option.splits)
  obtain x where x: "cert_Verify (pl_prims L) (pl_cbor L) current k raw = Ok x"
    using v by (cases "cert_Verify (pl_prims L) (pl_cbor L) current k raw") auto
  have "PublicKeySum256 s = pk_Sum256 k \<and> pk_Verify (pl_prims L) k (Payload s) (cert_message c) = Ok True"
    using cert_Verify_OkD [OF x, of ErrImpossibleDecode] c s by (auto simp flip: set_map)
  then show ?thesis using c s d0 by auto
qed

section \<open>Lemmas: lookups in a well-formed document\<close>

lemma nodes_wfD:
  assumes "nodes_wf d"
  shows "\<forall>x\<in>set (concat (Topology d)). IdentityKey x \<noteq> None" "\<forall>x\<in>set (Providers d). IdentityKey x \<noteq> None"
    "distinct (map idhash (concat (Topology d)))" "distinct (map idhash (Providers d))"
    "idhash ` set (concat (Topology d)) \<inter> idhash ` set (Providers d) = {}"
  using assms by (simp_all add: nodes_wf_def del: set_concat)

lemma lookup_mix:
  assumes "nodes_wf d" "n < length (Topology d)" "x \<in> set (Topology d ! n)"
  shows "GetNodeByKeyHash d (idhash x) = Ok x \<and> GetMixLayer d (idhash x) = Ok (of_nat n)"
proof -
  note W = nodes_wfD [OF assms(1)]
  have x: "x \<in> set (concat (Topology d))" using nth_mem [OF assms(2)] assms(3) by auto
  then have "idhash x \<notin> idhash ` set (Providers d)" using W(5) by blast
  then have "hasKeyHash (idhash x) (Providers d) = Ok False" using hasKeyHash_eq [OF W(2)] by simp
  then show ?thesis
    using findByKeyHash_found [OF x W(1,3)] layerOf_found [OF assms(2,3) W(1,3), of 0]
    by (simp add: GetNodeByKeyHash_def GetMixByKeyHash_def orElse_def GetMixLayer_def)
qed

lemma lookup_provider:
  assumes "nodes_wf d" "x \<in> set (Providers d)"
  shows "GetNodeByKeyHash d (idhash x) = Ok x \<and> GetMixLayer d (idhash x) = Ok LayerProvider"
proof -
  note W = nodes_wfD [OF assms(1)]
  have "idhash x \<notin> idhash ` set (concat (Topology d))" using W(5) assms(2) by blast
  from findByKeyHash_absent [OF this] show ?thesis
    using findByKeyHash_found [OF assms(2) W(2,4)] hasKeyHash_eq [OF W(2), of "idhash x"] assms(2)
    by (auto simp: GetNodeByKeyHash_def GetMixByKeyHash_def GetProviderByKeyHash_def orElse_def GetMixLayer_def)
qed

lemma layerOf_absent:
  assumes "\<forall>x\<in>set (concat ls). IdentityKey x \<noteq> None" "h \<notin> idhash ` set (concat ls)"
  shows "layerOf h n ls = Fail NodeNotFound"
  using assms
proof (induction ls arbitrary: n)
  case (Cons l ls)
  then have "hasKeyHash h l = Ok False" by (subst hasKeyHash_eq) auto
  with Cons show ?case by auto
qed simp

lemma lookup_absent:
  assumes "nodes_wf d" "h \<notin> idhash ` set (concat (Topology d) @ Providers d)"
  shows "GetNodeByKeyHash d h = Fail NodeNotFound \<and> GetMixLayer d h = Fail NodeNotFound"
proof -
  note W = nodes_wfD [OF assms(1)]
  have h: "h \<notin> idhash ` set (concat (Topology d))" "h \<notin> idhash ` set (Providers d)" using assms(2) by auto
  show ?thesis
    using findByKeyHash_absent [OF h(1)] findByKeyHash_absent [OF h(2)] hasKeyHash_eq [OF W(2), of h] h(2)
      layerOf_absent [OF W(1) h(1), of 0]
    by (auto simp: GetNodeByKeyHash_def GetMixByKeyHash_def GetProviderByKeyHash_def orElse_def GetMixLayer_def)
qed

section \<open>A concrete instance\<close>

text \<open>
  Library functions for evaluating the model, on descriptors that differ in their key and role only.
\<close>

definition toy_desc :: "byte \<Rightarrow> bool \<Rightarrow> MixDescriptor" where
  "toy_desc b p = \<lparr>Name = ''node'', md_Epoch = 5, IdentityKey = Some (snd (toy_signer b)), md_Signature = None,
     LinkKey = Some [b], MixKeys = [(5, Some [b])], Addresses = [(''tcp4'', [''addr''])], Kaetzchen = None,
     Provider = p, LoadWeight = 0, AuthenticationType = ''oob'', md_Version = DescriptorVersion\<rparr>"

definition toy_params :: Parameters where
  "toy_params = \<lparr>SendRatePerMinute = 1, Mu = 2, MuMaxDelay = 3, LambdaP = 4, LambdaPMaxDelay = 5, LambdaL = 6,
     LambdaLMaxDelay = 7, LambdaD = 8, LambdaDMaxDelay = 9, LambdaM = 10, LambdaMMaxDelay = 11\<rparr>"

definition toy_doc :: "MixDescriptor list list \<Rightarrow> MixDescriptor list \<Rightarrow> Document" where
  "toy_doc t p = Parameters.extend toy_params \<lparr>doc_Epoch = 5, GenesisEpoch = 1, Topology = t, Providers = p,
     doc_Signatures = [], SharedRandomCommit = [], SharedRandomReveal = [], SharedRandomValue = [],
     PriorSharedRandom = [[0]], SphinxGeometryHash = [], doc_Version = DocumentVersion\<rparr>"

definition toy_lib :: pki_lib where
  "toy_lib = \<lparr>pl_prims = toy_prims, pl_cbor = toy_cbor,
     md_Marshal = (\<lambda>d. Some [hd (pk_e (the (IdentityKey d))), if Provider d then 1 else 0]),
     md_Unmarshal = (\<lambda>b. Some (toy_desc (b ! 0) (b ! 1 = 1))),
     doc_Marshal = (\<lambda>d ts ps. Some [1]),
     doc_Unmarshal = (\<lambda>b. Some (toy_doc [] [], [], [])),
     sig_Marshal = (\<lambda>s. Some (toy_put (PublicKeySum256 s) @ Payload s)),
     sig_Unmarshal = (\<lambda>b. map_option (\<lambda>(h, p). \<lparr>PublicKeySum256 = h, Payload = p\<rparr>) (toy_get b)),
     url_Parse = (\<lambda>v. Some (''tcp4'', v)), ParseIP = (\<lambda>h. Some [1, 2, 3, 4]), idna_ToASCII = Some\<rparr>"

lemma toy_lib_fields [simp]: "pl_prims toy_lib = toy_prims" "pl_cbor toy_lib = toy_cbor"
  by (simp_all add: toy_lib_def)

lemma toy_desc_fields [simp]: "IdentityKey (toy_desc b p) = Some (snd (toy_signer b))" "Provider (toy_desc b p) = p"
  "md_Epoch (toy_desc b p) = 5" "md_Version (toy_desc b p) = DescriptorVersion"
  by (simp_all add: toy_desc_def)

lemma toy_desc_codec: "md_codec_ok toy_lib (toy_desc b p)"
  by (simp add: md_codec_ok_def toy_lib_def toy_desc_def toy_signer_def)

lemma toy_desc_wf: "IsDescriptorWellFormed toy_lib (toy_desc b p) 5 = Ok ()"
  by (simp add: IsDescriptorWellFormed_def toy_desc_def NodeIDLength_def gm_get_def checkTransport_def
      TransportInvalid_def TransportTCP_def TransportTCPv4_def TransportTCPv6_def TransportQUIC_def
      checkAddress_def toy_lib_def getIPVer_def is_To4_def validateKaetzchen_def)

definition demo_doc :: Document where
  "demo_doc = toy_doc [[toy_desc 1 False], [toy_desc 2 False]] [toy_desc 3 True]"

lemma demo_doc_fields [simp]: "doc_Epoch demo_doc = 5" "GenesisEpoch demo_doc = 1" "PriorSharedRandom demo_doc = [[0]]"
  "Topology demo_doc = [[toy_desc 1 False], [toy_desc 2 False]]" "Providers demo_doc = [toy_desc 3 True]"
  "SharedRandomCommit demo_doc = []" "doc_Version demo_doc = DocumentVersion"
  by (simp_all add: demo_doc_def toy_doc_def Parameters.defs)

lemma idhash_toy [simp]: "idhash (toy_desc b p) = replicate 32 b"
  by (simp add: idhash_def)

lemma demo_doc_wf: "IsDocumentWellFormed toy_lib 4 demo_doc [] = Ok ()"
  by (simp add: IsDocumentWellFormed_def checkLayer_def checkEntry_def toy_desc_wf id_Sum256_def gm_has_def gm_get_def)

section \<open>Properties\<close>

text \<open>
  C35: a document that passes \<^verbatim>\<open>IsDocumentWellFormed\<close> has a topology without empty layers and at least one
  provider; every descriptor in it is well formed for the document's epoch, every listed provider
  says it is one, and no two entries have the same identity key hash.  Every commit in it is
  signed by the verifier it is filed under and is for the document's epoch, and where there are
  several commits, each comes with a reveal signed by the same verifier that matches it.
\<close>

theorem document_well_formed:
  assumes "IsDocumentWellFormed L current d verifiers = Ok ()"
  shows "Topology d \<noteq> [] \<and> (\<forall>l\<in>set (Topology d). l \<noteq> []) \<and> Providers d \<noteq> [] \<and>
    (\<forall>x\<in>set (concat (Topology d) @ Providers d). IsDescriptorWellFormed L x (doc_Epoch d) = Ok ()) \<and>
    (\<forall>x\<in>set (Providers d). Provider x) \<and>
    distinct (map idhash (concat (Topology d) @ Providers d)) \<and>
    (\<forall>(i, sc)\<in>set (SharedRandomCommit d). \<exists>v\<in>set verifiers. \<exists>commit. pk_Sum256 v = i \<and>
      cert_Verify (pl_prims L) (pl_cbor L) current v sc = Ok commit \<and>
      length commit = SharedRandomLength \<and> get_u64_be (take 8 commit) = doc_Epoch d \<and>
      (length (SharedRandomCommit d) \<noteq> 1 \<longrightarrow> (\<exists>sr reveal. gm_get (SharedRandomReveal d) i = Some sr \<and>
         cert_Verify (pl_prims L) (pl_cbor L) current v sr = Ok reveal \<and>
         take 8 reveal = take 8 commit \<and> blake2b_Sum256 (pl_prims L) reveal = drop 8 commit)))"
proof -
  note W = IsDocumentWellFormed_parts [OF assms]
  show ?thesis
  proof (intro conjI)
    show "\<forall>(i, sc)\<in>set (SharedRandomCommit d). \<exists>v\<in>set verifiers. \<exists>commit. pk_Sum256 v = i \<and>
      cert_Verify (pl_prims L) (pl_cbor L) current v sc = Ok commit \<and>
      length commit = SharedRandomLength \<and> get_u64_be (take 8 commit) = doc_Epoch d \<and>
      (length (SharedRandomCommit d) \<noteq> 1 \<longrightarrow> (\<exists>sr reveal. gm_get (SharedRandomReveal d) i = Some sr \<and>
         cert_Verify (pl_prims L) (pl_cbor L) current v sr = Ok reveal \<and>
         take 8 reveal = take 8 commit \<and> blake2b_Sum256 (pl_prims L) reveal = drop 8 commit))"
      using W(4) checkCommit_sound by (intro ballI) (simp only: split_paired_all prod.case)
  qed (use W(1-3) in \<open>simp_all add: nodes_wf_def del: set_concat set_append\<close>)
qed

theorem document_well_formed_witness:
  "distinct (map idhash (concat (Topology demo_doc) @ Providers demo_doc)) \<and>
    Provider (hd (Providers demo_doc)) \<and> IsDocumentWellFormed toy_lib 4 demo_doc [] = Ok ()"
proof -
  have "hd (Providers demo_doc) \<in> set (Providers demo_doc)" by simp
  then show ?thesis using document_well_formed [OF demo_doc_wf] demo_doc_wf by blast
qed

text \<open>
  in a well-formed document the lookups by identity key hash agree with the layout: a mix of
  layer \<open>n\<close> is found by \<^verbatim>\<open>GetNodeByKeyHash\<close> and \<^verbatim>\<open>GetMixLayer\<close> returns \<open>n\<close> (as a byte), a provider is
  found and has the provider layer, and an unknown hash is an error in both.
\<close>

theorem lookups_by_key_hash:
  assumes "IsDocumentWellFormed L current d verifiers = Ok ()"
  shows "(\<forall>n x. n < length (Topology d) \<longrightarrow> x \<in> set (Topology d ! n) \<longrightarrow>
      GetNodeByKeyHash d (idhash x) = Ok x \<and> GetMixLayer d (idhash x) = Ok (of_nat n)) \<and>
    (\<forall>x\<in>set (Providers d). GetNodeByKeyHash d (idhash x) = Ok x \<and> GetMixLayer d (idhash x) = Ok LayerProvider) \<and>
    (\<forall>h. h \<notin> idhash ` set (concat (Topology d) @ Providers d) \<longrightarrow>
      GetNodeByKeyHash d h = Fail NodeNotFound \<and> GetMixLayer d h = Fail NodeNotFound)"
proof -
  note W = IsDocumentWellFormed_parts(1) [OF assms]
  show ?thesis by (intro conjI allI ballI impI)
    (simp_all only: lookup_mix [OF W] lookup_provider [OF W] lookup_absent [OF W] not_False_eq_True)
qed

theorem lookups_by_key_hash_witness:
  "GetNodeByKeyHash demo_doc (idhash (toy_desc 2 False)) = Ok (toy_desc 2 False) \<and>
    GetMixLayer demo_doc (idhash (toy_desc 2 False)) = Ok 1 \<and>
    GetMixLayer demo_doc (idhash (toy_desc 3 True)) = Ok LayerProvider"
proof -
  have "(1 :: nat) < length (Topology demo_doc)" "toy_desc 2 False \<in> set (Topology demo_doc ! 1)"
    "toy_desc 3 True \<in> set (Providers demo_doc)" by simp_all
  then show ?thesis using lookups_by_key_hash [OF demo_doc_wf] by (metis of_nat_1)
qed

text \<open>
  a descriptor that its owner signs with \<^verbatim>\<open>SignDescriptor\<close> is accepted by \<^verbatim>\<open>VerifyDescriptor\<close>, which
  returns it with the signature attached, and \<^verbatim>\<open>MarshalBinary\<close> of the result reproduces the signed
  bytes, so an unchanged second upload is recognised as such.
\<close>

theorem descriptor_sign_verify:
  assumes "cbor_ok (pl_cbor L)" "md_codec_ok L d" "signer_ok (pl_prims L) (k, v)"
    and "IdentityKey d = Some v" "md_Version d = DescriptorVersion" "current < md_Epoch d + 5"
  shows "\<exists>raw d'. SignDescriptor L current k v d = Ok (raw, d') \<and> VerifyDescriptor L current raw = Ok d' \<and>
    md_MarshalBinary L d' = Ok raw \<and> d' = d\<lparr>md_Signature := md_Signature d'\<rparr>"
proof -
  obtain raw s where r: "SignDescriptor L current k v d = Ok (raw, d\<lparr>md_Signature := Some s\<rparr>)"
      "md_UnmarshalBinary L current raw = Ok (d\<lparr>md_Signature := Some s\<rparr>)"
      "md_MarshalBinary L (d\<lparr>md_Signature := Some s\<rparr>) = Ok raw"
    by (rule descriptor_roundtrip [OF assms(1-4,6)])
  moreover have "VerifyDescriptor L current raw = Ok (d\<lparr>md_Signature := Some s\<rparr>)"
    using r(2) assms(5) by (simp add: VerifyDescriptor_def)
  ultimately show ?thesis by fastforce
qed

theorem descriptor_sign_verify_witness:
  "\<exists>raw d'. SignDescriptor toy_lib 4 (fst (toy_signer 1)) (snd (toy_signer 1)) (toy_desc 1 False) = Ok (raw, d') \<and>
    VerifyDescriptor toy_lib 4 raw = Ok d' \<and> md_MarshalBinary toy_lib d' = Ok raw"
proof -
  have "cbor_ok (pl_cbor toy_lib)" "signer_ok (pl_prims toy_lib) (fst (toy_signer 1), snd (toy_signer 1))"
    using toy_cbor_ok toy_signer_ok [of 1] by simp_all
  from descriptor_sign_verify [OF this(1) toy_desc_codec this(2), of 1 False 4] show ?thesis by auto
qed

end
