(* ===== verification/Det_Rand.thy ===== *)
theory Det_Rand
  imports Mix_Prelude "HOL-Library.Multiset"
begin

text \<open>
  The deterministic random reader with which the authorities shuffle the mixes
  (\<^verbatim>\<open>src/core/crypto/rand/deterministic_rand_reader.go\<close>).  The ChaCha20 key stream under a key and the zero nonce
  is the parameter \<open>chacha\<close>, a function from positions to bytes.  \<^verbatim>\<open>Perm\<close> hands the reader to
  \<^verbatim>\<open>math/rand\<close>, whose \<^verbatim>\<open>Perm\<close>, \<^verbatim>\<open>Intn\<close>, \<^verbatim>\<open>Int31n\<close> and \<^verbatim>\<open>Int63n\<close> are written out.  Their rejection loop
  need not end, so these functions return an option.
\<close>

section \<open>The reader\<close>

record reader =
  rd_stream :: "nat \<Rightarrow> byte"
  rd_pos :: nat

definition chacha20_KeySize :: nat where "chacha20_KeySize = 32"

definition NewDeterministicRandReader ::
  "(bytes \<Rightarrow> nat \<Rightarrow> byte) \<Rightarrow> bytes \<Rightarrow> (unit, reader) outcome" where
  "NewDeterministicRandReader chacha key =
     (if length key \<noteq> chacha20_KeySize then Fail () else Ok \<lparr>rd_stream = chacha key, rd_pos = 0\<rparr>)"

definition rd_Read :: "reader \<Rightarrow> nat \<Rightarrow> bytes \<times> reader" where
  "rd_Read r n = (map (rd_stream r) [rd_pos r..<rd_pos r + n], r\<lparr>rd_pos := rd_pos r + n\<rparr>)"

definition rd_Int63 :: "reader \<Rightarrow> nat \<times> reader" where
  "rd_Int63 r = (case rd_Read r 8 of (tmp, r') \<Rightarrow>
     (unat (get_u64_be (rev (tmp[7 := tmp ! 7 AND 0x7F]))), r'))"

section \<open>math/rand over the reader\<close>

definition rd_Int31 :: "reader \<Rightarrow> nat \<times> reader" where
  "rd_Int31 r = (case rd_Int63 r of (v, r') \<Rightarrow> (v div 2 ^ 32, r'))"

partial_function (option) rejectLoop :: "(reader \<Rightarrow> nat \<times> reader) \<Rightarrow> nat \<Rightarrow> reader \<Rightarrow> (nat \<times> reader) option" where
  "rejectLoop draw mx r = (case draw r of (v, r') \<Rightarrow>
     if mx < v then rejectLoop draw mx r' else Some (v, r'))"

text \<open>\<^verbatim>\<open>Int31n\<close> (with 31 bits) and \<^verbatim>\<open>Int63n\<close> (with 63), for a positive argument.\<close>

definition drawBelow :: "(reader \<Rightarrow> nat \<times> reader) \<Rightarrow> nat \<Rightarrow> reader \<Rightarrow> nat \<Rightarrow> (nat \<times> reader) option" where
  "drawBelow draw bits r n =
     (if n AND (n - 1) = 0 then Some (case draw r of (v, r') \<Rightarrow> (v AND (n - 1), r'))
      else (case rejectLoop draw (2 ^ bits - 1 - 2 ^ bits mod n) r of
        None \<Rightarrow> None | Some (v, r') \<Rightarrow> Some (v mod n, r')))"

definition rd_Intn :: "reader \<Rightarrow> nat \<Rightarrow> (nat \<times> reader) option" where
  "rd_Intn r n = (if n \<le> 2 ^ 31 - 1 then drawBelow rd_Int31 31 r n else drawBelow rd_Int63 63 r n)"

function permLoop :: "nat \<Rightarrow> nat \<Rightarrow> nat list \<Rightarrow> reader \<Rightarrow> (nat list \<times> reader) option" where
  "permLoop n i m r =
     (if i < n then (case rd_Intn r (i + 1) of None \<Rightarrow> None
        | Some (j, r') \<Rightarrow> permLoop n (i + 1) ((m[i := m ! j])[j := i]) r')
      else Some (m, r))"
  by pat_completeness auto
termination by (relation "measure (\<lambda>(n, i, _, _). n - i)") auto

declare permLoop.simps [simp del]

definition rd_Perm :: "reader \<Rightarrow> nat \<Rightarrow> (nat list \<times> reader) option" where
  "rd_Perm r n = permLoop n 0 (replicate n 0) r"

section \<open>Lemmas\<close>

text \<open>The key stream never stops producing values that the rejection loop accepts.\<close>

definition productive :: "reader \<Rightarrow> bool" where
  "productive r \<longleftrightarrow> (\<forall>p. \<exists>k. fst (rd_Int63 (r\<lparr>rd_pos := p + 8 * k\<rparr>)) < 2 ^ 62)"

lemma productive_pos [simp]: "productive (r\<lparr>rd_pos := p\<rparr>) = productive r"
  by (simp add: productive_def)

lemma snd_Int63: "snd (rd_Int63 r) = r\<lparr>rd_pos := rd_pos r + 8\<rparr>"
  by (simp add: rd_Int63_def rd_Read_def)

lemma snd_Int31: "snd (rd_Int31 r) = r\<lparr>rd_pos := rd_pos r + 8\<rparr>"
  using snd_Int63 [of r] by (cases "rd_Int63 r") (simp add: rd_Int31_def)

lemma rejectLoop_bound:
  assumes "rejectLoop draw mx r = Some vr"
  shows "fst vr \<le> mx"
  by (rule rejectLoop.raw_induct [OF _ assms, of "\<lambda>_ mx _ vr. fst vr \<le> mx"])
    (auto split: prod.splits if_splits)

lemma rejectLoop_productive:
  assumes step: "\<And>r. snd (draw r) = r\<lparr>rd_pos := rd_pos r + 8\<rparr>"
    and ex: "fst (draw (r\<lparr>rd_pos := rd_pos r + 8 * k\<rparr>)) \<le> mx"
  shows "\<exists>v p. rejectLoop draw mx r = Some (v, r\<lparr>rd_pos := p\<rparr>)"
  using ex
proof (induction k arbitrary: r)
  case 0
  then show ?case using step [of r] by (subst rejectLoop.simps) (auto split: prod.splits)
next
  case (Suc k)
  let ?r = "r\<lparr>rd_pos := rd_pos r + 8\<rparr>"
  have "fst (draw (?r\<lparr>rd_pos := rd_pos ?r + 8 * k\<rparr>)) \<le> mx" using Suc.prems by (simp add: algebra_simps)
  from Suc.IH [OF this] have "\<exists>v p. rejectLoop draw mx ?r = Some (v, r\<lparr>rd_pos := p\<rparr>)" by simp
  then show ?case using step [of r] by (subst rejectLoop.simps) (auto split: prod.splits)
qed

lemma nat_and_le: "(a AND b :: nat) \<le> b"
proof -
  have "int (a AND b) = int a AND int b" by (rule of_nat_and_eq)
  also have "\<dots> \<le> int b" by (rule AND_upper2) simp
  finally show ?thesis by simp
qed

lemma accept_room:
  fixes m :: nat
  assumes "0 < n" "n \<le> m"
  shows "m div 2 \<le> m - m mod n"
proof -
  have "m mod n < n" "1 \<le> m div n" using assms by (simp_all add: div_greater_zero_iff Suc_leI)
  then have "m mod n < m div n * n" by (metis less_le_trans mult.left_neutral mult_le_mono1)
  moreover have "m div n * n + m mod n = m" by simp
  ultimately show ?thesis by linarith
qed

lemma drawBelow_bound:
  assumes "drawBelow draw bits r n = Some (j, r')" "0 < n"
  shows "j < n"
proof (cases "n AND (n - 1) = 0")
  case True
  then have "j = fst (draw r) AND (n - 1)" using assms(1) by (auto simp: drawBelow_def split: prod.splits)
  then have "j \<le> n - 1" by (simp add: nat_and_le)
  then show ?thesis using assms(2) by simp
next
  case False
  then show ?thesis using assms by (auto simp: drawBelow_def split: option.splits prod.splits)
qed

lemma rd_Intn_bound: "rd_Intn r n = Some (j, r') \<Longrightarrow> 0 < n \<Longrightarrow> j < n"
  by (auto simp: rd_Intn_def dest: drawBelow_bound split: if_splits)

lemma drawBelow_total:
  assumes step: "\<And>r. snd (draw r) = r\<lparr>rd_pos := rd_pos r + 8\<rparr>"
    and ex: "\<exists>k. fst (draw (r\<lparr>rd_pos := rd_pos r + 8 * k\<rparr>)) < 2 ^ bits div 2" and n: "0 < n" "n \<le> 2 ^ bits"
  shows "\<exists>j p. drawBelow draw bits r n = Some (j, r\<lparr>rd_pos := p\<rparr>)"
proof -
  obtain k where k: "fst (draw (r\<lparr>rd_pos := rd_pos r + 8 * k\<rparr>)) < 2 ^ bits div 2" using ex by blast
  have "fst (draw (r\<lparr>rd_pos := rd_pos r + 8 * k\<rparr>)) \<le> 2 ^ bits - 1 - 2 ^ bits mod n"
    using k accept_room [OF n] by linarith
  from rejectLoop_productive [where draw = draw and r = r, OF step this]
  show ?thesis using step [of r] by (auto simp: drawBelow_def split: prod.splits)
qed

lemma Int31_half: "fst (rd_Int63 r) < 2 ^ 62 \<Longrightarrow> fst (rd_Int31 r) < 2 ^ 31 div 2"
  by (cases "rd_Int63 r") (simp add: rd_Int31_def less_mult_imp_div_less)

lemma rd_Intn_total:
  assumes "productive r" "0 < n" "n \<le> 2 ^ 63"
  shows "\<exists>j p. rd_Intn r n = Some (j, r\<lparr>rd_pos := p\<rparr>)"
proof -
  obtain k where k: "fst (rd_Int63 (r\<lparr>rd_pos := rd_pos r + 8 * k\<rparr>)) < 2 ^ 62"
    using assms(1) by (auto simp: productive_def)
  show ?thesis
  proof (cases "n \<le> 2 ^ 31 - 1")
    case True
    then show ?thesis using drawBelow_total [of rd_Int31 r 31 n, OF snd_Int31 _ assms(2)] Int31_half [OF k]
      by (auto simp: rd_Intn_def)
  next
    case False
    then show ?thesis using drawBelow_total [of rd_Int63 r 63 n, OF snd_Int63 _ assms(2,3)] k
      by (auto simp: rd_Intn_def)
  qed
qed

lemma perm_step:
  assumes "i < length m" "j < i + 1" "mset (take i m) = mset [0..<i]"
  shows "mset (take (i + 1) ((m[i := m ! j])[j := i])) = mset [0..<i + 1]"
proof -
  have t: "take (i + 1) ((m[i := m ! j])[j := i]) = ((take i m @ [m ! j])[j := i])"
    using assms(1,2) by (simp add: take_Suc_conv_app_nth list_update_append nth_list_update take_update_swap
        split: nat.splits)
  show ?thesis
  proof (cases "j = i")
    case True
    then show ?thesis using assms unfolding t by (simp add: list_update_append)
  next
    case False
    then have j: "j < i" using assms(2) by simp
    then have "(take i m @ [m ! j])[j := i] = (take i m)[j := i] @ [m ! j]"
      using assms(1) by (simp add: list_update_append)
    moreover have "mset ((take i m)[j := i]) = add_mset i (mset (take i m) - {# m ! j #})"
      using j assms(1) by (simp add: mset_update)
    moreover have "m ! j \<in># mset (take i m)" using j assms(1) by (auto simp: in_set_conv_nth)
    ultimately show ?thesis unfolding t using assms(3) by simp
  qed
qed

lemma permLoop_mset:
  "permLoop n i m r = Some (m', r') \<Longrightarrow> length m = n \<Longrightarrow> i \<le> n \<Longrightarrow> mset (take i m) = mset [0..<i] \<Longrightarrow>
     mset m' = mset [0..<n]"
proof (induction n i m r rule: permLoop.induct)
  case (1 n i m r)
  show ?case
  proof (cases "i < n")
    case True
    then obtain j r1 where j: "rd_Intn r (i + 1) = Some (j, r1)"
        "permLoop n (i + 1) ((m[i := m ! j])[j := i]) r1 = Some (m', r')"
      using "1.prems"(1) by (subst (asm) permLoop.simps) (auto split: option.splits prod.splits)
    have "mset (take (i + 1) ((m[i := m ! j])[j := i])) = mset [0..<i + 1]"
      using perm_step [of i m j] rd_Intn_bound [OF j(1)] True "1.prems" by simp
    then show ?thesis using "1.IH" [OF True j(1) refl j(2)] "1.prems" True by simp
  next
    case False
    then show ?thesis using "1.prems" by (subst (asm) permLoop.simps) simp
  qed
qed

lemma permLoop_total:
  "productive r \<Longrightarrow> n \<le> 2 ^ 63 \<Longrightarrow> \<exists>m' p. permLoop n i m r = Some (m', r\<lparr>rd_pos := p\<rparr>)"
proof (induction n i m r rule: permLoop.induct)
  case (1 n i m r)
  show ?case
  proof (cases "i < n")
    case True
    then obtain j p where j: "rd_Intn r (i + 1) = Some (j, r\<lparr>rd_pos := p\<rparr>)"
      using rd_Intn_total [of r "i + 1"] "1.prems" by auto
    have "\<exists>m' q. permLoop n (i + 1) ((m[i := m ! j])[j := i]) (r\<lparr>rd_pos := p\<rparr>) = Some (m', r\<lparr>rd_pos := q\<rparr>)"
      using "1.IH" [OF True j refl] "1.prems" by simp
    then show ?thesis using True j by (subst permLoop.simps) simp
  next
    case False
    then show ?thesis by (subst permLoop.simps) (auto intro: exI [of _ "rd_pos r"])
  qed
qed

lemma rd_Perm_ok:
  assumes "productive r" "n \<le> 2 ^ 63"
  shows "\<exists>m p. rd_Perm r n = Some (m, r\<lparr>rd_pos := p\<rparr>) \<and> mset m = mset [0..<n]"
  using permLoop_total [OF assms, of 0 "replicate n 0"] permLoop_mset [of n 0 "replicate n 0" r]
  by (fastforce simp: rd_Perm_def)

section \<open>The interface of a shuffler\<close>

text \<open>
  What the users of a random reader rely on: from a good state, \<^verbatim>\<open>Perm(n)\<close> is a permutation of the
  numbers below \<open>n\<close>, and the state stays good.
\<close>

locale shuffler =
  fixes perm :: "'r \<Rightarrow> nat \<Rightarrow> nat list \<times> 'r" and good :: "'r \<Rightarrow> bool"
  assumes perm_mset: "good r \<Longrightarrow> n \<le> 2 ^ 63 \<Longrightarrow> mset (fst (perm r n)) = mset [0..<n]"
    and perm_good: "good r \<Longrightarrow> n \<le> 2 ^ 63 \<Longrightarrow> good (snd (perm r n))"
begin

lemma perm_length: "good r \<Longrightarrow> n \<le> 2 ^ 63 \<Longrightarrow> length (fst (perm r n)) = n"
  using perm_mset [of r n] by (metis length_upt diff_zero size_mset)

lemma perm_set: "good r \<Longrightarrow> n \<le> 2 ^ 63 \<Longrightarrow> set (fst (perm r n)) = {..<n}"
  using perm_mset [of r n] by (metis mset_eq_setD atLeast_upt)

lemma shuffled_mset:
  assumes "good r" "length xs \<le> 2 ^ 63"
  shows "mset (map ((!) xs) (fst (perm r (length xs)))) = mset xs"
proof -
  have "mset (map ((!) xs) (fst (perm r (length xs)))) = image_mset ((!) xs) (mset [0..<length xs])"
    using perm_mset [OF assms] by simp
  also have "\<dots> = mset (map ((!) xs) [0..<length xs])" by simp
  finally show ?thesis by (simp add: map_nth)
qed

end

definition det_Perm :: "reader \<Rightarrow> nat \<Rightarrow> nat list \<times> reader" where
  "det_Perm r n = the (rd_Perm r n)"

interpretation det: shuffler det_Perm productive
proof
  fix r n assume "productive r" "(n :: nat) \<le> 2 ^ 63"
  from rd_Perm_ok [OF this] \<open>productive r\<close>
  show "mset (fst (det_Perm r n)) = mset [0..<n]" "productive (snd (det_Perm r n))"
    by (auto simp: det_Perm_def)
qed

section \<open>Properties\<close>

text \<open>
  over a key stream that keeps producing values the rejection loop accepts, \<^verbatim>\<open>Perm\<close> returns and its
  result is a permutation of the numbers below \<open>n\<close>.
\<close>

theorem Perm_permutes:
  assumes "productive r" "n \<le> 2 ^ 63"
  shows "\<exists>m p. rd_Perm r n = Some (m, r\<lparr>rd_pos := p\<rparr>) \<and> mset m = mset [0..<n]"
  using assms by (rule rd_Perm_ok)

definition zero_stream :: "bytes \<Rightarrow> nat \<Rightarrow> byte" where
  "zero_stream key p = 0"

lemma zero_stream_productive: "productive \<lparr>rd_stream = zero_stream key, rd_pos = p\<rparr>"
proof -
  have "(put_u64_be 0) = replicate 8 (0 :: byte)" by (simp add: put_u64_be_def numeral_eq_Suc)
  then have "get_u64_be (replicate 8 0) = 0" by (metis get_put_u64_be)
  moreover have "map (zero_stream key) [a..<a + 8] = replicate 8 0" for a
    by (rule nth_equalityI) (simp_all add: zero_stream_def)
  moreover have "(replicate 8 (0 :: byte))[7 := 0] = replicate 8 0" by (simp add: list_update_same_conv)
  ultimately show ?thesis by (simp add: productive_def rd_Int63_def rd_Read_def)
qed

theorem Perm_permutes_witness:
  "\<exists>m p. rd_Perm \<lparr>rd_stream = zero_stream (zeros 32), rd_pos = 0\<rparr> 5 =
     Some (m, \<lparr>rd_stream = zero_stream (zeros 32), rd_pos = p\<rparr>) \<and> mset m = mset [0..<5]"
  using Perm_permutes [OF zero_stream_productive, of 5 "zeros 32" 0] by simp

end
