(* ===== verification/Topology_Gen.thy ===== *)
theory Topology_Gen
  imports Pki_Document Det_Rand
begin

text \<open>
  How the voting authority lays the mixes out in layers
  (\<^verbatim>\<open>generateTopology\<close>, \<^verbatim>\<open>generateFixedTopology\<close>, \<^verbatim>\<open>generateRandomTopology\<close>, \<^verbatim>\<open>sortNodesByPublicKey\<close> and
  \<^verbatim>\<open>verifyTopology\<close> of \<^verbatim>\<open>src/authority/voting/server/state.go\<close>).  The random reader is the argument
  \<open>perm\<close> with its state; \<open>det_Perm\<close> is the one the code uses.  The lemmas hold for every shuffler.
  The keys that \<^verbatim>\<open>generateFixedTopology\<close> loads from PEM files are given by their hashes.
\<close>

section \<open>Definitions\<close>

definition sortNodesByPublicKey :: "MixDescriptor list \<Rightarrow> MixDescriptor list" where
  "sortNodesByPublicKey nodes = sort_key idhash nodes"

text \<open>The map from identity key hashes to descriptors.\<close>

definition nodeIndex :: "MixDescriptor list \<Rightarrow> (unit, (bytes, MixDescriptor) gomap) outcome" where
  "nodeIndex nodes = ofold (\<lambda>v m. obind (id_Sum256 v) (\<lambda>i. Ok (gm_put m i v))) nodes []"

text \<open>Round-robin assignment, starting at a layer.\<close>

fun assignRound :: "'a list \<Rightarrow> nat \<Rightarrow> 'a list list \<Rightarrow> (unit, 'a list list) outcome" where
  "assignRound [] layer topology = Ok topology"
| "assignRound (n # ns) layer topology =
     (if length topology \<le> layer then Panic
      else assignRound ns ((layer + 1) mod length topology) (topology[layer := topology ! layer @ [n]]))"

definition generateRandomTopology ::
  "('r \<Rightarrow> nat \<Rightarrow> nat list \<times> 'r) \<Rightarrow> 'r \<Rightarrow> nat \<Rightarrow> MixDescriptor list \<Rightarrow> (unit, MixDescriptor list list) outcome" where
  "generateRandomTopology perm rng layers nodes =
     (case perm rng (length nodes) of (nodeIndexes, _) \<Rightarrow>
        assignRound (map ((!) nodes) nodeIndexes) 0 (replicate layers []))"

text \<open>The nodes of one layer of the previous document that are still there, up to the target size.\<close>

fun keepNodes ::
  "MixDescriptor list \<Rightarrow> nat \<Rightarrow> nat list \<Rightarrow> MixDescriptor list \<times> (bytes, MixDescriptor) gomap \<Rightarrow>
   (unit, MixDescriptor list \<times> (bytes, MixDescriptor) gomap) outcome" where
  "keepNodes nodes target [] st = Ok st"
| "keepNodes nodes target (idx # idxs) (l, m) =
     (if target \<le> length l then Ok (l, m)
      else obind (id_Sum256 (nodes ! idx)) (\<lambda>i. case gm_get m i of
        Some n \<Rightarrow> keepNodes nodes target idxs (l @ [n], gm_del m i)
      | None \<Rightarrow> keepNodes nodes target idxs (l, m)))"

fun keepLayers ::
  "('r \<Rightarrow> nat \<Rightarrow> nat list \<times> 'r) \<Rightarrow> nat \<Rightarrow> nat \<Rightarrow> MixDescriptor list list \<Rightarrow>
   MixDescriptor list list \<times> (bytes, MixDescriptor) gomap \<times> 'r \<Rightarrow>
   (unit, MixDescriptor list list \<times> (bytes, MixDescriptor) gomap \<times> 'r) outcome" where
  "keepLayers perm target layer [] st = Ok st"
| "keepLayers perm target layer (nodes # rest) (topology, m, rng) =
     (case perm rng (length nodes) of (nodeIndexes, rng') \<Rightarrow>
        if length topology \<le> layer
        then (if nodeIndexes = [] then keepLayers perm target (Suc layer) rest (topology, m, rng') else Panic)
        else obind (keepNodes nodes target nodeIndexes (topology ! layer, m)) (\<lambda>(l, m').
          keepLayers perm target (Suc layer) rest (topology[layer := l], m', rng')))"

text \<open>Filling a layer up to the target size from the list of pending nodes.\<close>

fun fillLayer :: "nat \<Rightarrow> 'a list \<Rightarrow> 'a list \<Rightarrow> (unit, 'a list \<times> 'a list) outcome" where
  "fillLayer target [] l = (if length l < target then Panic else Ok (l, []))"
| "fillLayer target (n # ns) l = (if length l < target then fillLayer target ns (l @ [n]) else Ok (l, n # ns))"

fun fillLayers :: "nat \<Rightarrow> nat list \<Rightarrow> 'a list list \<times> 'a list \<Rightarrow> (unit, 'a list list \<times> 'a list) outcome" where
  "fillLayers target [] st = Ok st"
| "fillLayers target (layer # ls) (topology, pending) =
     (if length topology \<le> layer then Panic
      else obind (fillLayer target pending (topology ! layer)) (\<lambda>(l, pending').
        fillLayers target ls (topology[layer := l], pending')))"

definition generateTopology ::
  "('r \<Rightarrow> nat \<Rightarrow> nat list \<times> 'r) \<Rightarrow> 'r \<Rightarrow> nat \<Rightarrow> MixDescriptor list \<Rightarrow> Document \<Rightarrow>
   (unit, MixDescriptor list list) outcome" where
  "generateTopology perm rng layers nodeList doc =
     obind (nodeIndex nodeList) (\<lambda>nodeMap.
     if layers = 0 then Panic
     else let target = length nodeList div layers in
       obind (keepLayers perm target 0 (Topology doc) (replicate layers [], nodeMap, rng)) (\<lambda>(topology, nodeMap', rng').
       let toAssign = sortNodesByPublicKey (map snd nodeMap') in
       case perm rng' (length toAssign) of (assignIndexes, _) \<Rightarrow>
       obind (fillLayers target [0..<length (Topology doc)] (topology, map ((!) toAssign) assignIndexes))
         (\<lambda>(topology', pending). assignRound pending 0 topology')))"

definition generateFixedTopology ::
  "bytes list list \<Rightarrow> MixDescriptor list \<Rightarrow> (unit, MixDescriptor list list) outcome" where
  "generateFixedTopology layers nodes =
     obind (nodeIndex nodes) (\<lambda>nodeMap.
       Ok (map (\<lambda>layer. List.map_filter (gm_get nodeMap) layer) layers))"

definition verifyTopology :: "nat \<Rightarrow> nat \<Rightarrow> MixDescriptor list list \<Rightarrow> bool" where
  "verifyTopology layers minNodesPerLayer topology \<longleftrightarrow>
     \<not> length topology < layers \<and> (\<forall>nodes\<in>set topology. \<not> length nodes < minNodesPerLayer)"

section \<open>Lemmas: round-robin assignment\<close>

lemma mset_concat_update:
  "i < length t \<Longrightarrow> mset (concat (t[i := t ! i @ xs])) = mset (concat t) + mset xs"
  by (induction t arbitrary: i) (auto split: nat.splits simp: nth_Cons')

lemma assignRound_ok:
  assumes "layer < length t"
  shows "\<exists>t'. assignRound ns layer t = Ok t' \<and> length t' = length t \<and> mset (concat t') = mset (concat t) + mset ns \<and>
    (\<forall>i<length t. length (t ! i) \<le> length (t' ! i))"
  using assms
proof (induction ns arbitrary: layer t)
  case (Cons n ns)
  let ?t = "t[layer := t ! layer @ [n]]"
  have "(layer + 1) mod length t < length ?t"
    using mod_less_divisor [OF order.strict_trans1 [OF zero_le Cons.prems], of "layer + 1"] by simp
  from Cons.IH [OF this] obtain t' where t': "assignRound ns ((layer + 1) mod length t) ?t = Ok t'"
      "length t' = length t" "mset (concat t') = mset (concat ?t) + mset ns"
      "\<forall>i<length t. length (?t ! i) \<le> length (t' ! i)" by auto
  moreover have "length (t ! i) \<le> length (?t ! i)" for i
    using Cons.prems by (cases "i = layer") simp_all
  ultimately show ?case using Cons.prems mset_concat_update [OF Cons.prems, of "[n]"]
    by (auto intro: order_trans)
qed simp

text \<open>Layers before the next one to be filled have one node more than the others.\<close>

definition balanced_at :: "nat \<Rightarrow> 'a list list \<Rightarrow> bool" where
  "balanced_at layer t \<longleftrightarrow> (\<exists>k. \<forall>i<length t. length (t ! i) = (if i < layer then Suc k else k))"

lemma assignRound_balanced:
  assumes "layer < length t" "balanced_at layer t"
  shows "\<exists>t' l. assignRound ns layer t = Ok t' \<and> balanced_at l t'"
  using assms
proof (induction ns arbitrary: layer t)
  case (Cons n ns)
  let ?t = "t[layer := t ! layer @ [n]]" and ?l = "(layer + 1) mod length t"
  obtain k where k: "\<forall>i<length t. length (t ! i) = (if i < layer then Suc k else k)"
    using Cons.prems(2) by (auto simp: balanced_at_def)
  have "balanced_at ?l ?t"
  proof (cases "layer + 1 = length t")
    case True
    then have "\<forall>i<length ?t. length (?t ! i) = Suc k" using k Cons.prems(1) by (auto simp: nth_list_update)
    then show ?thesis using True by (auto simp: balanced_at_def intro!: exI [of _ "Suc k"])
  next
    case False
    then have "?l = layer + 1" using Cons.prems(1) by simp
    then show ?thesis using k Cons.prems(1) by (auto simp: balanced_at_def nth_list_update intro!: exI [of _ k])
  qed
  moreover have "?l < length ?t"
    using mod_less_divisor [OF order.strict_trans1 [OF zero_le Cons.prems(1)], of "layer + 1"] by simp
  ultimately show ?case using Cons.IH [of ?l ?t] Cons.prems(1) by simp
qed auto

section \<open>Lemmas: keeping and filling layers\<close>

lemma concat_update_length:
  "i < length t \<Longrightarrow> length (concat (t[i := l])) + length (t ! i) = length (concat t) + length l"
  by (induction t arbitrary: i) (auto split: nat.splits simp: nth_Cons')

lemma concat_update_mset:
  "i < length t \<Longrightarrow> mset (concat (t[i := l])) + mset (t ! i) = mset (concat t) + mset l"
  by (induction t arbitrary: i) (auto split: nat.splits simp: nth_Cons' add_ac)

lemma mset_exchange:
  fixes a :: "'a multiset"
  assumes "a' + l = a + l'" "l' + m' = l + m"
  shows "a' + m' = a + m"
proof -
  have "(a' + m') + l = (a' + l) + m'" by (simp add: add_ac)
  also have "\<dots> = a + (l' + m')" by (simp add: assms(1) add.assoc)
  also have "\<dots> = (a + m) + l" by (simp add: assms(2) add_ac)
  finally show ?thesis by simp
qed

lemma concat_length_bound:
  "\<forall>l\<in>set t. length l \<le> c \<Longrightarrow> length (concat t) \<le> c * length t"
  by (induction t) auto

lemma concat_length_bound_at:
  assumes "\<forall>l\<in>set t. length l \<le> c" "i < length t"
  shows "length (concat t) + c \<le> length (t ! i) + c * length t"
proof -
  have "\<forall>l\<in>set (t[i := []]). length l \<le> c" using assms(1) set_update_subset_insert [of t i "[]"] by auto
  from concat_length_bound [OF this] have b: "length (concat (t[i := []])) \<le> c * length t" by simp
  have "length (concat (t[i := []])) + c \<le> c * length t"
    using assms
  proof (induction t arbitrary: i)
    case (Cons l t)
    have l: "length l \<le> c" "\<forall>l\<in>set t. length l \<le> c" using Cons.prems(1) by simp_all
    show ?case
    proof (cases i)
      case 0
      then show ?thesis using concat_length_bound [OF l(2)] by simp
    next
      case (Suc j)
      then have "length (concat (t[j := []])) + c \<le> c * length t" using Cons.IH [OF l(2), of j] Cons.prems(2) by simp
      then show ?thesis using Suc l(1) by simp
    qed
  qed simp
  then show ?thesis using concat_update_length [OF assms(2), of "[]"] by simp
qed

lemma nodeIndex_distinct:
  assumes "\<forall>v\<in>set nodes. IdentityKey v \<noteq> None" "distinct (map idhash nodes)"
  shows "nodeIndex nodes = Ok (map (\<lambda>v. (idhash v, v)) nodes)"
proof -
  have "ofold (\<lambda>v m. obind (id_Sum256 v) (\<lambda>i. Ok (gm_put m i v))) nodes m =
      (Ok (m @ map (\<lambda>v. (idhash v, v)) nodes) :: (unit, (bytes, MixDescriptor) gomap) outcome)"
    if "gm_keys m \<inter> idhash ` set nodes = {}" for m :: "(bytes, MixDescriptor) gomap"
    using assms that
  proof (induction nodes arbitrary: m)
    case (Cons v nodes)
    have i: "id_Sum256 v = (Ok (idhash v) :: (unit, bytes) outcome)" using Cons.prems(1) by (simp add: id_Sum256_Ok_iff)
    have "gm_put m (idhash v) v = m @ [(idhash v, v)]" using Cons.prems(3) by (intro gm_put_new) auto
    moreover have "gm_keys (m @ [(idhash v, v)]) \<inter> idhash ` set nodes = {}"
      using Cons.prems(2,3) by (auto simp: gm_keys_def)
    ultimately show ?case using Cons i by simp
  qed simp
  from this [of "[]"] show ?thesis by (simp add: nodeIndex_def)
qed

lemma gm_del_mset:
  assumes "gm_wf m" "gm_get m i = Some n"
  shows "mset (map snd (gm_del m i)) + {#n#} = mset (map snd m)"
  using assms
proof (induction m)
  case (Cons e m)
  show ?case
  proof (cases "fst e = i")
    case True
    then have "gm_del m i = m" using Cons.prems(1)
      by (auto simp: gm_wf_def gm_del_def filter_id_conv image_iff)
    then show ?thesis using True Cons.prems(2) by (cases e) (simp add: gm_del_def gm_get_def)
  next
    case False
    then show ?thesis using Cons by (cases e) (auto simp: gm_del_def gm_get_def gm_wf_def)
  qed
qed (simp add: gm_get_def)

lemma keepNodes_ok:
  assumes "gm_wf m" "\<forall>i\<in>set idxs. i < length nodes" "\<forall>v\<in>set nodes. IdentityKey v \<noteq> None" "length l \<le> target"
  shows "\<exists>l' m'. keepNodes nodes target idxs (l, m) = Ok (l', m') \<and> gm_wf m' \<and> length l' \<le> target \<and>
    mset l' + mset (map snd m') = mset l + mset (map snd m)"
  using assms
proof (induction idxs arbitrary: l m)
  case (Cons i idxs)
  have id: "id_Sum256 (nodes ! i) = (Ok (idhash (nodes ! i)) :: (unit, bytes) outcome)"
    using Cons.prems(2,3) by (simp add: id_Sum256_Ok_iff)
  show ?case
  proof (cases "target \<le> length l")
    case False
    show ?thesis
    proof (cases "gm_get m (idhash (nodes ! i))")
      case None
      then show ?thesis using Cons id False by simp
    next
      case (Some n)
      have "\<exists>l' m'. keepNodes nodes target idxs (l @ [n], gm_del m (idhash (nodes ! i))) = Ok (l', m') \<and> gm_wf m' \<and>
          length l' \<le> target \<and> mset l' + mset (map snd m') = mset (l @ [n]) + mset (map snd (gm_del m (idhash (nodes ! i))))"
        using Cons.prems False by (intro Cons.IH) simp_all
      then show ?thesis using gm_del_mset [OF Cons.prems(1) Some] Some id False by (auto simp: add_ac)
    qed
  qed (use Cons.prems in simp)
qed simp

lemma fillLayer_ok:
  assumes "target \<le> length l + length pending" "length l \<le> target"
  shows "\<exists>l' p'. fillLayer target pending l = Ok (l', p') \<and> l' @ p' = l @ pending \<and> length l' = target"
  using assms
proof (induction pending arbitrary: l)
  case (Cons n pending)
  show ?case
  proof (cases "length l < target")
    case True
    then show ?thesis using Cons.IH [of "l @ [n]"] Cons.prems by simp
  qed (use Cons.prems in simp)
qed simp

lemma fillLayers_ok:
  assumes "\<forall>l\<in>set t. length l \<le> target" "target * length t \<le> length (concat t) + length pending"
    "set ls \<subseteq> {..<length t}"
  shows "\<exists>t' p'. fillLayers target ls (t, pending) = Ok (t', p') \<and> length t' = length t \<and>
    mset (concat t') + mset p' = mset (concat t) + mset pending \<and>
    (\<forall>l\<in>set t'. length l \<le> target) \<and> (\<forall>i\<in>set ls. length (t' ! i) = target) \<and>
    (\<forall>i<length t. length (t ! i) = target \<longrightarrow> length (t' ! i) = target)"
  using assms
proof (induction ls arbitrary: t pending)
  case (Cons i ls)
  have i: "i < length t" using Cons.prems(3) by simp
  have "target \<le> length (t ! i) + length pending"
    using concat_length_bound_at [OF Cons.prems(1) i] Cons.prems(2) by linarith
  moreover have "length (t ! i) \<le> target" using Cons.prems(1) i by simp
  ultimately obtain l' p where l: "fillLayer target pending (t ! i) = Ok (l', p)" "l' @ p = t ! i @ pending"
      "length l' = target" using fillLayer_ok by blast
  let ?t = "t[i := l']"
  have len: "length l' + length p = length (t ! i) + length pending" using l(2) by (metis length_append)
  have m: "mset l' + mset p = mset (t ! i) + mset pending" using l(2) by (metis mset_append)
  have "\<forall>k\<in>set ?t. length k \<le> target" using Cons.prems(1) l(3) set_update_subset_insert [of t i l'] by auto
  moreover have "target * length ?t \<le> length (concat ?t) + length p"
    using Cons.prems(2) concat_update_length [OF i, of l'] len by simp
  moreover have "set ls \<subseteq> {..<length ?t}" using Cons.prems(3) by simp
  ultimately obtain t' p' where t': "fillLayers target ls (?t, p) = Ok (t', p')" "length t' = length t"
      "mset (concat t') + mset p' = mset (concat ?t) + mset p" "\<forall>l\<in>set t'. length l \<le> target"
      "\<forall>i\<in>set ls. length (t' ! i) = target" "\<forall>j<length t. length (?t ! j) = target \<longrightarrow> length (t' ! j) = target"
    using Cons.IH [of ?t p] by auto
  have "mset (concat t') + mset p' = mset (concat t) + mset pending"
    using t'(3) mset_exchange [OF concat_update_mset [OF i, of l'] m] by simp
  moreover have "length (t' ! i) = target" using t'(6) i l(3) by simp
  moreover have "length (t' ! j) = target" if "j < length t" "length (t ! j) = target" for j
    using t'(6) l(3) that by (cases "j = i") simp_all
  ultimately show ?case using i l(1) t' by simp
qed simp

section \<open>The topologies, for every shuffler\<close>

context shuffler
begin

lemma keepLayers_ok:
  assumes "good rng" "gm_wf m" "\<forall>nodes\<in>set prev. length nodes \<le> 2 ^ 63 \<and> (\<forall>v\<in>set nodes. IdentityKey v \<noteq> None)"
    "layer + length prev \<le> length t" "\<forall>l\<in>set t. length l \<le> target"
  shows "\<exists>t' m' rng'. keepLayers perm target layer prev (t, m, rng) = Ok (t', m', rng') \<and> good rng' \<and> gm_wf m' \<and>
    length t' = length t \<and> (\<forall>l\<in>set t'. length l \<le> target) \<and>
    mset (concat t') + mset (map snd m') = mset (concat t) + mset (map snd m)"
  using assms
proof (induction prev arbitrary: layer t m rng)
  case (Cons nodes prev)
  obtain idxs rng1 where p: "perm rng (length nodes) = (idxs, rng1)" by fastforce
  have n: "length nodes \<le> 2 ^ 63" "\<forall>v\<in>set nodes. IdentityKey v \<noteq> None" using Cons.prems(3) by simp_all
  have g: "good rng1" "\<forall>i\<in>set idxs. i < length nodes"
    using perm_good [OF Cons.prems(1) n(1)] perm_set [OF Cons.prems(1) n(1)] p by auto
  have i: "layer < length t" using Cons.prems(4) by simp
  then have "length (t ! layer) \<le> target" using Cons.prems(5) by simp
  from keepNodes_ok [OF Cons.prems(2) g(2) n(2) this] obtain l m1 where
    l: "keepNodes nodes target idxs (t ! layer, m) = Ok (l, m1)" "gm_wf m1" "length l \<le> target"
      "mset l + mset (map snd m1) = mset (t ! layer) + mset (map snd m)" by blast
  let ?t = "t[layer := l]"
  have "\<forall>k\<in>set ?t. length k \<le> target" using Cons.prems(5) l(3) set_update_subset_insert [of t layer l] by auto
  then have "\<exists>t' m' rng'. keepLayers perm target (Suc layer) prev (?t, m1, rng1) = Ok (t', m', rng') \<and> good rng' \<and>
      gm_wf m' \<and> length t' = length ?t \<and> (\<forall>l\<in>set t'. length l \<le> target) \<and>
      mset (concat t') + mset (map snd m') = mset (concat ?t) + mset (map snd m1)"
    using Cons.prems(3,4) g(1) l(2) by (intro Cons.IH) simp_all
  then obtain t' m' rng' where r: "keepLayers perm target (Suc layer) prev (?t, m1, rng1) = Ok (t', m', rng')"
      "good rng'" "gm_wf m'" "length t' = length t" "\<forall>l\<in>set t'. length l \<le> target"
      "mset (concat t') + mset (map snd m') = mset (concat ?t) + mset (map snd m1)" by auto
  have "mset (concat ?t) + mset (map snd m1) = mset (concat t) + mset (map snd m)"
    by (rule mset_exchange [OF concat_update_mset [OF i] l(4)])
  then show ?case using p i l(1) r by simp
qed simp

lemma generateTopology_ok:
  assumes rng: "good rng" and layers: "0 < layers" "length (Topology doc) \<le> layers"
    and prev: "\<forall>nodes\<in>set (Topology doc). length nodes \<le> 2 ^ 63 \<and> (\<forall>v\<in>set nodes. IdentityKey v \<noteq> None)"
    and nodes: "\<forall>v\<in>set nodeList. IdentityKey v \<noteq> None" "distinct (map idhash nodeList)" "length nodeList \<le> 2 ^ 63"
  shows "\<exists>t. generateTopology perm rng layers nodeList doc = Ok t \<and> length t = layers \<and>
    mset (concat t) = mset nodeList \<and> (\<forall>i<length (Topology doc). length nodeList div layers \<le> length (t ! i))"
proof -
  let ?target = "length nodeList div layers"
  obtain mm where m: "nodeIndex nodeList = Ok mm" "gm_wf mm" "map snd mm = nodeList"
    using nodeIndex_distinct [OF nodes(1,2)] nodes(2) by (simp add: gm_wf_def comp_def)
  obtain t1 m1 rng1 where k: "keepLayers perm ?target 0 (Topology doc) (replicate layers [], mm, rng) = Ok (t1, m1, rng1)"
      "good rng1" "length t1 = layers" "\<forall>l\<in>set t1. length l \<le> ?target"
      "mset (concat t1) + mset (map snd m1) = mset nodeList"
    using keepLayers_ok [OF rng m(2) prev, of 0 "replicate layers []" ?target] layers(2) m(3)
    by (auto simp: concat_replicate_trivial)
  define toAssign where "toAssign = sortNodesByPublicKey (map snd m1)"
  have a: "mset toAssign = mset (map snd m1)" by (simp add: toAssign_def sortNodesByPublicKey_def)
  then have sz: "length (concat t1) + length toAssign = length nodeList"
    using k(5) by (metis size_mset size_union)
  obtain idxs rng2 where p: "perm rng1 (length toAssign) = (idxs, rng2)" by fastforce
  define pending where "pending = map ((!) toAssign) idxs"
  have pm: "mset pending = mset toAssign"
    using shuffled_mset [OF k(2), of toAssign] sz nodes(3) p by (simp add: pending_def)
  then have "?target * length t1 \<le> length (concat t1) + length pending"
    using sz k(3) mset_eq_length [OF pm] by simp
  from fillLayers_ok [OF k(4) this, of "[0..<length (Topology doc)]"] obtain t2 p2 where
    f: "fillLayers ?target [0..<length (Topology doc)] (t1, pending) = Ok (t2, p2)" "length t2 = layers"
      "mset (concat t2) + mset p2 = mset (concat t1) + mset pending"
      "\<forall>i<length (Topology doc). length (t2 ! i) = ?target"
    using k(3) layers(2) by (auto simp: atLeast0LessThan lessThan_subset_iff)
  from assignRound_ok [of 0 t2 p2] obtain t where t: "assignRound p2 0 t2 = Ok t" "length t = layers"
      "mset (concat t) = mset (concat t2) + mset p2" "\<forall>i<layers. length (t2 ! i) \<le> length (t ! i)"
    using f(2) layers(1) by auto
  have "generateTopology perm rng layers nodeList doc = Ok t"
    using m(1) layers(1) k(1) p f(1) t(1)
    by (simp add: generateTopology_def Let_def toAssign_def [symmetric] pending_def [symmetric])
  moreover have "mset (concat t) = mset nodeList" using t(3) f(3) pm a k(5) by simp
  moreover have "?target \<le> length (t ! i)" if "i < length (Topology doc)" for i
    using t(4) f(4) that layers(2) by (metis less_le_trans)
  ultimately show ?thesis using t(2) by blast
qed

lemma generateRandomTopology_ok:
  assumes "good rng" "0 < layers" "length nodes \<le> 2 ^ 63"
  shows "\<exists>t l. generateRandomTopology perm rng layers nodes = Ok t \<and> length t = layers \<and>
    mset (concat t) = mset nodes \<and> balanced_at l t"
proof -
  obtain idxs rng1 where p: "perm rng (length nodes) = (idxs, rng1)" by fastforce
  have m: "mset (map ((!) nodes) idxs) = mset nodes" using shuffled_mset [OF assms(1,3)] p by simp
  have "balanced_at 0 (replicate layers ([] :: MixDescriptor list))" by (simp add: balanced_at_def)
  from assignRound_balanced [OF _ this, of "map ((!) nodes) idxs"]
    assignRound_ok [of 0 "replicate layers ([] :: MixDescriptor list)" "map ((!) nodes) idxs"]
  show ?thesis using assms(2) p m by (auto simp: generateRandomTopology_def concat_replicate_trivial)
qed

end

section \<open>Properties\<close>

text \<open>
  C23: with a previous document of at most as many layers, \<^verbatim>\<open>generateTopology\<close> returns without a panic and
  lays out exactly the given mixes, each once, in the configured number of layers, and every layer
  of the previous topology gets at least its fair share \<^verbatim>\<open>len(nodeList)/Layers\<close>.
\<close>

theorem topology_partition:
  assumes "productive rng" "0 < layers" "length (Topology doc) \<le> layers"
    and "\<forall>nodes\<in>set (Topology doc). length nodes \<le> 2 ^ 63 \<and> (\<forall>v\<in>set nodes. IdentityKey v \<noteq> None)"
    and "\<forall>v\<in>set nodeList. IdentityKey v \<noteq> None" "distinct (map idhash nodeList)" "length nodeList \<le> 2 ^ 63"
  shows "\<exists>t. generateTopology det_Perm rng layers nodeList doc = Ok t \<and> length t = layers \<and>
    mset (concat t) = mset nodeList \<and> (\<forall>i<length (Topology doc). length nodeList div layers \<le> length (t ! i))"
  using assms by (rule det.generateTopology_ok)

theorem topology_partition_witness:
  "\<exists>t. generateTopology det_Perm \<lparr>rd_stream = zero_stream (zeros 32), rd_pos = 0\<rparr> 2
      (map (\<lambda>b. toy_desc b False) [1, 3, 4, 5]) demo_doc = Ok t \<and> length t = 2 \<and>
    mset (concat t) = mset (map (\<lambda>b. toy_desc b False) [1, 3, 4, 5]) \<and>
    (\<forall>i<length (Topology demo_doc). length (map (\<lambda>b. toy_desc b False) [1, 3, 4, 5]) div 2 \<le> length (t ! i))"
  by (rule topology_partition [OF zero_stream_productive]) simp_all

text \<open>
  without a previous document \<^verbatim>\<open>generateRandomTopology\<close> lays out exactly the given mixes, each once, and
  the sizes of any two layers differ by at most one.
\<close>

theorem random_topology_balanced:
  assumes "productive rng" "0 < layers" "length nodes \<le> 2 ^ 63"
  shows "\<exists>t. generateRandomTopology det_Perm rng layers nodes = Ok t \<and> length t = layers \<and>
    mset (concat t) = mset nodes \<and>
    (\<forall>i<layers. \<forall>j<layers. length (t ! i) \<le> length (t ! j) + 1)"
  using det.generateRandomTopology_ok [OF assms] by (fastforce simp: balanced_at_def)

theorem random_topology_balanced_witness:
  "\<exists>t. generateRandomTopology det_Perm \<lparr>rd_stream = zero_stream (zeros 32), rd_pos = 0\<rparr> 2
      (map (\<lambda>b. toy_desc b False) [1, 2, 3]) = Ok t \<and> length t = 2 \<and>
    mset (concat t) = mset (map (\<lambda>b. toy_desc b False) [1, 2, 3]) \<and>
    (\<forall>i<2. \<forall>j<2. length (t ! i) \<le> length (t ! j) + 1)"
  by (rule random_topology_balanced [OF zero_stream_productive]) simp_all

end
