(* ===== verification/Wire_Commands.thy ===== *)
theory Wire_Commands
  imports Sphinx_Geometry Sign_Scheme
begin

text \<open>
  The commands of the link-layer wire protocol, \<^verbatim>\<open>src/core/wire/commands/commands.go\<close>: every
  command structure with its \<^verbatim>\<open>ToBytes\<close>, every \<^verbatim>\<open>...FromBytes\<close> parser and the dispatcher
  \<^verbatim>\<open>Commands.FromBytes\<close>.  The interface \<^verbatim>\<open>Command\<close> is a datatype with one constructor per
  structure.  A nil \<^verbatim>\<open>*geo.Geometry\<close> or \<^verbatim>\<open>*Commands\<close> is \<open>None\<close>, and reading through it
  panics.  A nil byte slice and an empty one are both \<open>[]\<close>: nothing here tells them apart.
\<close>

section \<open>Constants\<close>

definition cmdOverhead :: nat where "cmdOverhead = 1 + 1 + 4"
definition retreiveMessageLength :: nat where "retreiveMessageLength = 4"
definition messageBaseLength :: nat where "messageBaseLength = 1 + 1 + 4"
definition getConsensusLength :: nat where "getConsensusLength = 8"
definition consensusBaseLength :: nat where "consensusBaseLength = 1"
definition postDescriptorStatusLength :: nat where "postDescriptorStatusLength = 1"
definition postDescriptorLength :: nat where "postDescriptorLength = 8"
definition certStatusLength :: nat where "certStatusLength = 1"
definition revealStatusLength :: nat where "revealStatusLength = 1"
definition sigStatusLength :: nat where "sigStatusLength = 1"
definition voteStatusLength :: nat where "voteStatusLength = 1"

definition voteOverhead :: nat where "voteOverhead = 8 + PublicKeySize"
definition revealOverhead :: nat where "revealOverhead = 8 + PublicKeySize"
definition certOverhead :: nat where "certOverhead = 8 + PublicKeySize"
definition sigOverhead :: nat where "sigOverhead = 8 + PublicKeySize"

lemmas wire_lengths = cmdOverhead_def retreiveMessageLength_def messageBaseLength_def
  getConsensusLength_def consensusBaseLength_def postDescriptorStatusLength_def
  postDescriptorLength_def certStatusLength_def revealStatusLength_def sigStatusLength_def
  voteStatusLength_def voteOverhead_def revealOverhead_def certOverhead_def sigOverhead_def
  sign_sizes

definition messageTypeMessage :: byte where "messageTypeMessage = 0"
definition messageTypeACK :: byte where "messageTypeACK = 1"
definition messageTypeEmpty :: byte where "messageTypeEmpty = 2"

definition id_noOp :: byte where "id_noOp = 0"
definition id_disconnect :: byte where "id_disconnect = 1"
definition id_sendPacket :: byte where "id_sendPacket = 2"
definition id_retreiveMessage :: byte where "id_retreiveMessage = 16"
definition id_message :: byte where "id_message = 17"
definition id_getConsensus :: byte where "id_getConsensus = 18"
definition id_consensus :: byte where "id_consensus = 19"
definition id_postDescriptor :: byte where "id_postDescriptor = 20"
definition id_postDescriptorStatus :: byte where "id_postDescriptorStatus = 21"
definition id_vote :: byte where "id_vote = 22"
definition id_voteStatus :: byte where "id_voteStatus = 23"
definition id_getVote :: byte where "id_getVote = 24"
definition id_reveal :: byte where "id_reveal = 25"
definition id_revealStatus :: byte where "id_revealStatus = 26"
definition id_sig :: byte where "id_sig = 27"
definition id_sigStatus :: byte where "id_sigStatus = 28"
definition id_certificate :: byte where "id_certificate = 29"
definition id_certStatus :: byte where "id_certStatus = 30"

lemmas wire_ids = messageTypeMessage_def messageTypeACK_def messageTypeEmpty_def id_noOp_def
  id_disconnect_def id_sendPacket_def id_retreiveMessage_def id_message_def id_getConsensus_def
  id_consensus_def id_postDescriptor_def id_postDescriptorStatus_def id_vote_def
  id_voteStatus_def id_getVote_def id_reveal_def id_revealStatus_def id_sig_def id_sigStatus_def
  id_certificate_def id_certStatus_def

text \<open>Status codes carried by the replies.\<close>

definition ConsensusOk :: u8 where "ConsensusOk = 0"
definition ConsensusNotFound :: u8 where "ConsensusNotFound = 1"
definition ConsensusGone :: u8 where "ConsensusGone = 2"
definition DescriptorOk :: u8 where "DescriptorOk = 0"
definition DescriptorInvalid :: u8 where "DescriptorInvalid = 1"
definition DescriptorConflict :: u8 where "DescriptorConflict = 2"
definition DescriptorForbidden :: u8 where "DescriptorForbidden = 3"
definition VoteOk :: u8 where "VoteOk = 0"
definition VoteTooLate :: u8 where "VoteTooLate = 1"
definition VoteTooEarly :: u8 where "VoteTooEarly = 2"
definition VoteNotAuthorized :: u8 where "VoteNotAuthorized = 3"
definition VoteNotSigned :: u8 where "VoteNotSigned = 4"
definition VoteMalformed :: u8 where "VoteMalformed = 5"
definition VoteAlreadyReceived :: u8 where "VoteAlreadyReceived = 6"
definition VoteNotFound :: u8 where "VoteNotFound = 7"
definition RevealOk :: u8 where "RevealOk = 8"
definition RevealTooEarly :: u8 where "RevealTooEarly = 9"
definition RevealNotAuthorized :: u8 where "RevealNotAuthorized = 10"
definition RevealNotSigned :: u8 where "RevealNotSigned = 11"
definition RevealAlreadyReceived :: u8 where "RevealAlreadyReceived = 12"
definition RevealTooLate :: u8 where "RevealTooLate = 13"
definition CertOk :: u8 where "CertOk = 14"
definition CertTooEarly :: u8 where "CertTooEarly = 15"
definition CertNotAuthorized :: u8 where "CertNotAuthorized = 16"
definition CertNotSigned :: u8 where "CertNotSigned = 17"
definition CertAlreadyReceived :: u8 where "CertAlreadyReceived = 18"
definition CertTooLate :: u8 where "CertTooLate = 19"
definition SigOk :: u8 where "SigOk = 20"
definition SigNotAuthorized :: u8 where "SigNotAuthorized = 21"
definition SigNotSigned :: u8 where "SigNotSigned = 22"
definition SigTooEarly :: u8 where "SigTooEarly = 23"
definition SigTooLate :: u8 where "SigTooLate = 24"
definition SigAlreadyReceived :: u8 where "SigAlreadyReceived = 25"
definition SigInvalid :: u8 where "SigInvalid = 26"

lemmas status_codes = ConsensusOk_def ConsensusNotFound_def ConsensusGone_def DescriptorOk_def
  DescriptorInvalid_def DescriptorConflict_def DescriptorForbidden_def VoteOk_def VoteTooLate_def
  VoteTooEarly_def VoteNotAuthorized_def VoteNotSigned_def VoteMalformed_def
  VoteAlreadyReceived_def VoteNotFound_def RevealOk_def RevealTooEarly_def RevealNotAuthorized_def
  RevealNotSigned_def RevealAlreadyReceived_def RevealTooLate_def CertOk_def CertTooEarly_def
  CertNotAuthorized_def CertNotSigned_def CertAlreadyReceived_def CertTooLate_def SigOk_def
  SigNotAuthorized_def SigNotSigned_def SigTooEarly_def SigTooLate_def SigAlreadyReceived_def
  SigInvalid_def

section \<open>Commands\<close>

record Commands =
  c_geo :: "geometry option"

definition NewPKICommands :: Commands where "NewPKICommands = \<lparr>c_geo = None\<rparr>"
definition NewCommands :: "geometry \<Rightarrow> Commands" where "NewCommands g = \<lparr>c_geo = Some g\<rparr>"

text \<open>The structure shared by \<^verbatim>\<open>Vote\<close>, \<^verbatim>\<open>Reveal\<close>, \<^verbatim>\<open>Cert\<close> and \<^verbatim>\<open>Sig\<close>.\<close>

record upload =
  up_Epoch :: u64
  up_PublicKey :: publicKey
  up_Payload :: bytes

record message_ack =
  ack_Geo :: "geometry option"
  ack_QueueSizeHint :: u8
  ack_Sequence :: u32
  ack_ID :: bytes
  ack_Payload :: bytes

record message_msg =
  msg_Geo :: "geometry option"
  msg_Cmds :: "Commands option"
  msg_QueueSizeHint :: u8
  msg_Sequence :: u32
  msg_Payload :: bytes

record message_empty =
  empty_Cmds :: "Commands option"
  empty_Sequence :: u32

datatype command =
    NoOp
  | Disconnect
  | SendPacket bytes
  | RetrieveMessage u32
  | MessageACK message_ack
  | Message message_msg
  | MessageEmpty message_empty
  | GetConsensus u64
  | Consensus u8 bytes
  | PostDescriptor u64 bytes
  | PostDescriptorStatus u8
  | GetVote u64 publicKey
  | Vote upload
  | VoteStatus u8
  | Reveal upload
  | RevealStatus u8
  | Sig upload
  | SigStatus u8
  | Cert upload
  | CertStatus u8

datatype wire_error = errInvalidCommand | errWtfInvalidCommand | errKey key_error

section \<open>Lengths of the message replies\<close>

definition messageACKLength :: nat where
  "messageACKLength = messageBaseLength + SURBIDLength"

definition messageMsgPaddingLength :: "geometry \<Rightarrow> nat" where
  "messageMsgPaddingLength g =
     SURBIDLength + SphinxPlaintextHeaderLength g + SURBLength g + PayloadTagLength g"

definition messageMsgLength :: "geometry \<Rightarrow> nat" where
  "messageMsgLength g = messageBaseLength + messageMsgPaddingLength g"

definition messageEmptyLength :: "geometry \<Rightarrow> nat" where
  "messageEmptyLength g = messageACKLength + PayloadTagLength g + ForwardPayloadLength g"

text \<open>Reading the geometry through a \<^verbatim>\<open>*Commands\<close>.\<close>

definition cmds_geo :: "Commands option \<Rightarrow> geometry option" where
  "cmds_geo co = (case co of None \<Rightarrow> None | Some c \<Rightarrow> c_geo c)"

section \<open>Serialization\<close>

text \<open>The common header: identifier, reserved zero byte, body length as 32 bits.\<close>

definition cmd_header :: "byte \<Rightarrow> nat \<Rightarrow> bytes" where
  "cmd_header i len = [i, 0] @ put_u32_be (of_nat len)"

definition MessageACK_ToBytes :: "message_ack \<Rightarrow> (wire_error, bytes) outcome" where
  "MessageACK_ToBytes c =
     (case ack_Geo c of None \<Rightarrow> Panic
      | Some g \<Rightarrow>
        if length (ack_Payload c) \<noteq> PayloadTagLength g + ForwardPayloadLength g then Panic
        else Ok (cmd_header id_message (messageACKLength + length (ack_Payload c))
               @ [messageTypeACK, ack_QueueSizeHint c] @ put_u32_be (ack_Sequence c)
               @ copy_into (zeros SURBIDLength) (ack_ID c) @ ack_Payload c))"

definition Message_ToBytes :: "message_msg \<Rightarrow> (wire_error, bytes) outcome" where
  "Message_ToBytes c =
     (case msg_Geo c of None \<Rightarrow> Panic
      | Some g \<Rightarrow>
        if length (msg_Payload c) \<noteq> UserForwardPayloadLength g then Panic
        else (case cmds_geo (msg_Cmds c) of None \<Rightarrow> Panic
              | Some cg \<Rightarrow>
                Ok (cmd_header id_message (messageMsgLength cg + length (msg_Payload c))
                  @ [messageTypeMessage, msg_QueueSizeHint c] @ put_u32_be (msg_Sequence c)
                  @ msg_Payload c @ zeros (messageMsgLength cg - messageBaseLength))))"

definition MessageEmpty_ToBytes :: "message_empty \<Rightarrow> (wire_error, bytes) outcome" where
  "MessageEmpty_ToBytes c =
     (case cmds_geo (empty_Cmds c) of None \<Rightarrow> Panic
      | Some cg \<Rightarrow>
        Ok (cmd_header id_message (messageEmptyLength cg)
          @ [messageTypeEmpty, 0] @ put_u32_be (empty_Sequence c)
          @ zeros (messageEmptyLength cg - messageBaseLength)))"

text \<open>
  \<^verbatim>\<open>Vote\<close>, \<^verbatim>\<open>Cert\<close> and \<^verbatim>\<open>Sig\<close> append the key; \<^verbatim>\<open>Reveal\<close> copies it into a field of the
  scheme's key size.
\<close>

definition upload_ToBytes :: "byte \<Rightarrow> nat \<Rightarrow> upload \<Rightarrow> bytes" where
  "upload_ToBytes i overhead u =
     cmd_header i (overhead + length (up_Payload u)) @ put_u64_be (up_Epoch u)
       @ pk_Bytes (up_PublicKey u) @ up_Payload u"

definition Reveal_ToBytes :: "upload \<Rightarrow> bytes" where
  "Reveal_ToBytes u =
     cmd_header id_reveal (revealOverhead + length (up_Payload u)) @ put_u64_be (up_Epoch u)
       @ copy_into (zeros PublicKeySize) (pk_Bytes (up_PublicKey u)) @ up_Payload u"

definition NoOp_ToBytes :: "bytes" where
  "NoOp_ToBytes = cmd_header id_noOp 0"

definition Disconnect_ToBytes :: "bytes" where
  "Disconnect_ToBytes = cmd_header id_disconnect 0"

definition SendPacket_ToBytes :: "bytes \<Rightarrow> bytes" where
  "SendPacket_ToBytes pkt = cmd_header id_sendPacket (length pkt) @ pkt"

definition RetrieveMessage_ToBytes :: "u32 \<Rightarrow> bytes" where
  "RetrieveMessage_ToBytes sq = cmd_header id_retreiveMessage retreiveMessageLength @ put_u32_be sq"

definition GetConsensus_ToBytes :: "u64 \<Rightarrow> bytes" where
  "GetConsensus_ToBytes e = cmd_header id_getConsensus getConsensusLength @ put_u64_be e"

definition GetVote_ToBytes :: "u64 \<Rightarrow> publicKey \<Rightarrow> bytes" where
  "GetVote_ToBytes e pk = cmd_header id_getVote voteOverhead @ put_u64_be e @ pk_Bytes pk"

definition Consensus_ToBytes :: "u8 \<Rightarrow> bytes \<Rightarrow> bytes" where
  "Consensus_ToBytes code payload =
     cmd_header id_consensus (consensusBaseLength + length payload) @ [code] @ payload"

definition PostDescriptor_ToBytes :: "u64 \<Rightarrow> bytes \<Rightarrow> bytes" where
  "PostDescriptor_ToBytes e payload =
     cmd_header id_postDescriptor (postDescriptorLength + length payload) @ put_u64_be e @ payload"

definition PostDescriptorStatus_ToBytes :: "u8 \<Rightarrow> bytes" where
  "PostDescriptorStatus_ToBytes code =
     cmd_header id_postDescriptorStatus postDescriptorStatusLength @ [code]"

definition RevealStatus_ToBytes :: "u8 \<Rightarrow> bytes" where
  "RevealStatus_ToBytes code = cmd_header id_revealStatus revealStatusLength @ [code]"

definition Vote_ToBytes :: "upload \<Rightarrow> bytes" where
  "Vote_ToBytes u = upload_ToBytes id_vote voteOverhead u"

definition VoteStatus_ToBytes :: "u8 \<Rightarrow> bytes" where
  "VoteStatus_ToBytes code = cmd_header id_voteStatus voteStatusLength @ [code]"

definition Cert_ToBytes :: "upload \<Rightarrow> bytes" where
  "Cert_ToBytes u = upload_ToBytes id_certificate certOverhead u"

definition CertStatus_ToBytes :: "u8 \<Rightarrow> bytes" where
  "CertStatus_ToBytes code = cmd_header id_certStatus certStatusLength @ [code]"

definition Sig_ToBytes :: "upload \<Rightarrow> bytes" where
  "Sig_ToBytes u = upload_ToBytes id_sig sigOverhead u"

definition SigStatus_ToBytes :: "u8 \<Rightarrow> bytes" where
  "SigStatus_ToBytes code = cmd_header id_sigStatus sigStatusLength @ [code]"

text \<open>The method of the \<^verbatim>\<open>Command\<close> interface: dispatch on the dynamic type.\<close>

fun ToBytes :: "command \<Rightarrow> (wire_error, bytes) outcome" where
  "ToBytes NoOp = Ok (NoOp_ToBytes)"
| "ToBytes Disconnect = Ok (Disconnect_ToBytes)"
| "ToBytes (SendPacket pkt) = Ok (SendPacket_ToBytes pkt)"
| "ToBytes (RetrieveMessage sq) = Ok (RetrieveMessage_ToBytes sq)"
| "ToBytes (MessageACK c) = MessageACK_ToBytes c"
| "ToBytes (Message c) = Message_ToBytes c"
| "ToBytes (MessageEmpty c) = MessageEmpty_ToBytes c"
| "ToBytes (GetConsensus e) = Ok (GetConsensus_ToBytes e)"
| "ToBytes (Consensus code payload) = Ok (Consensus_ToBytes code payload)"
| "ToBytes (PostDescriptor e payload) = Ok (PostDescriptor_ToBytes e payload)"
| "ToBytes (PostDescriptorStatus code) = Ok (PostDescriptorStatus_ToBytes code)"
| "ToBytes (GetVote e pk) = Ok (GetVote_ToBytes e pk)"
| "ToBytes (Vote u) = Ok (Vote_ToBytes u)"
| "ToBytes (VoteStatus code) = Ok (VoteStatus_ToBytes code)"
| "ToBytes (Reveal u) = Ok (Reveal_ToBytes u)"
| "ToBytes (RevealStatus code) = Ok (RevealStatus_ToBytes code)"
| "ToBytes (Sig u) = Ok (Sig_ToBytes u)"
| "ToBytes (SigStatus code) = Ok (SigStatus_ToBytes code)"
| "ToBytes (Cert u) = Ok (Cert_ToBytes u)"
| "ToBytes (CertStatus code) = Ok (CertStatus_ToBytes code)"

lemmas simple_ToBytes [simp] = NoOp_ToBytes_def Disconnect_ToBytes_def SendPacket_ToBytes_def RetrieveMessage_ToBytes_def
  GetConsensus_ToBytes_def GetVote_ToBytes_def Consensus_ToBytes_def PostDescriptor_ToBytes_def
  PostDescriptorStatus_ToBytes_def RevealStatus_ToBytes_def Vote_ToBytes_def VoteStatus_ToBytes_def
  Cert_ToBytes_def CertStatus_ToBytes_def Sig_ToBytes_def SigStatus_ToBytes_def

section \<open>Parsing\<close>

text \<open>
  Indexing and slicing a buffer panics out of range.  The upper bound is the length here, also where Go
  would let a slice grow up to the capacity of its array.
\<close>

definition index_at :: "nat \<Rightarrow> bytes \<Rightarrow> ('e, byte) outcome" where
  "index_at i b = (if i < length b then Ok (b ! i) else Panic)"

definition slice_of :: "nat \<Rightarrow> nat \<Rightarrow> bytes \<Rightarrow> ('e, bytes) outcome" where
  "slice_of i j b = (if i \<le> j \<and> j \<le> length b then Ok (slice i j b) else Panic)"

definition slice_from :: "nat \<Rightarrow> bytes \<Rightarrow> ('e, bytes) outcome" where
  "slice_from i b = slice_of i (length b) b"

definition getConsensusFromBytes :: "bytes \<Rightarrow> (wire_error, command) outcome" where
  "getConsensusFromBytes b =
     (if length b \<noteq> getConsensusLength then Fail errInvalidCommand
      else obind (slice_of 0 8 b) (\<lambda>e. Ok (GetConsensus (get_u64_be e))))"

definition getVoteFromBytes :: "sign_prims \<Rightarrow> bytes \<Rightarrow> (wire_error, command) outcome" where
  "getVoteFromBytes P b =
     (if length b \<noteq> voteOverhead then Fail errInvalidCommand
      else obind (slice_of 0 8 b) (\<lambda>e.
           obind (slice_of 8 (PublicKeySize + 8) b) (\<lambda>k.
           obind (omap_err errKey (UnmarshalBinaryPublicKey P k)) (\<lambda>pk.
           Ok (GetVote (get_u64_be e) pk)))))"

definition consensusFromBytes :: "bytes \<Rightarrow> (wire_error, command) outcome" where
  "consensusFromBytes b =
     (if length b < consensusBaseLength then Fail errInvalidCommand
      else obind (index_at 0 b) (\<lambda>code.
           obind (if 0 < length b - consensusBaseLength then slice_from consensusBaseLength b else Ok []) (\<lambda>payload.
           Ok (Consensus code payload))))"

definition postDescriptorFromBytes :: "bytes \<Rightarrow> (wire_error, command) outcome" where
  "postDescriptorFromBytes b =
     (if length b < postDescriptorLength then Fail errInvalidCommand
      else obind (slice_of 0 8 b) (\<lambda>e.
           obind (slice_from postDescriptorLength b) (\<lambda>payload.
           Ok (PostDescriptor (get_u64_be e) payload))))"

definition postDescriptorStatusFromBytes :: "bytes \<Rightarrow> (wire_error, command) outcome" where
  "postDescriptorStatusFromBytes b =
     (if length b \<noteq> postDescriptorStatusLength then Fail errInvalidCommand
      else obind (index_at 0 b) (\<lambda>code. Ok (PostDescriptorStatus code)))"

definition revealFromBytes :: "sign_prims \<Rightarrow> bytes \<Rightarrow> (wire_error, command) outcome" where
  "revealFromBytes P b =
     (if length b < revealOverhead then Fail errWtfInvalidCommand
      else obind (slice_of 0 8 b) (\<lambda>e.
           obind (slice_of 8 (8 + PublicKeySize) b) (\<lambda>k.
           obind (omap_err errKey (UnmarshalBinaryPublicKey P k)) (\<lambda>pk.
           obind (slice_from revealOverhead b) (\<lambda>payload.
           Ok (Reveal \<lparr>up_Epoch = get_u64_be e, up_PublicKey = pk, up_Payload = payload\<rparr>))))))"

definition revealStatusFromBytes :: "bytes \<Rightarrow> (wire_error, command) outcome" where
  "revealStatusFromBytes b =
     (if length b \<noteq> revealStatusLength then Fail errWtfInvalidCommand
      else obind (index_at 0 b) (\<lambda>code. Ok (RevealStatus code)))"

definition voteFromBytes :: "sign_prims \<Rightarrow> bytes \<Rightarrow> (wire_error, command) outcome" where
  "voteFromBytes P b =
     (if length b < voteOverhead then Fail errInvalidCommand
      else obind (slice_of 0 8 b) (\<lambda>e.
           obind (slice_of 8 (8 + PublicKeySize) b) (\<lambda>k.
           obind (omap_err errKey (UnmarshalBinaryPublicKey P k)) (\<lambda>pk.
           obind (slice_from voteOverhead b) (\<lambda>payload.
           Ok (Vote \<lparr>up_Epoch = get_u64_be e, up_PublicKey = pk, up_Payload = payload\<rparr>))))))"

definition voteStatusFromBytes :: "bytes \<Rightarrow> (wire_error, command) outcome" where
  "voteStatusFromBytes b =
     (if length b \<noteq> voteStatusLength then Fail errInvalidCommand
      else obind (index_at 0 b) (\<lambda>code. Ok (VoteStatus code)))"

definition certFromBytes :: "sign_prims \<Rightarrow> bytes \<Rightarrow> (wire_error, command) outcome" where
  "certFromBytes P b =
     (if length b < certOverhead then Fail errInvalidCommand
      else obind (slice_of 0 8 b) (\<lambda>e.
           obind (slice_of 8 (8 + PublicKeySize) b) (\<lambda>k.
           obind (omap_err errKey (UnmarshalBinaryPublicKey P k)) (\<lambda>pk.
           obind (slice_from certOverhead b) (\<lambda>payload.
           Ok (Cert \<lparr>up_Epoch = get_u64_be e, up_PublicKey = pk, up_Payload = payload\<rparr>))))))"

definition certStatusFromBytes :: "bytes \<Rightarrow> (wire_error, command) outcome" where
  "certStatusFromBytes b =
     (if length b \<noteq> certStatusLength then Fail errInvalidCommand
      else obind (index_at 0 b) (\<lambda>code. Ok (CertStatus code)))"

definition sigFromBytes :: "sign_prims \<Rightarrow> bytes \<Rightarrow> (wire_error, command) outcome" where
  "sigFromBytes P b =
     (if length b < sigOverhead then Fail errInvalidCommand
      else obind (slice_of 0 8 b) (\<lambda>e.
           obind (slice_of 8 (8 + PublicKeySize) b) (\<lambda>k.
           obind (omap_err errKey (UnmarshalBinaryPublicKey P k)) (\<lambda>pk.
           obind (slice_from sigOverhead b) (\<lambda>payload.
           Ok (Sig \<lparr>up_Epoch = get_u64_be e, up_PublicKey = pk, up_Payload = payload\<rparr>))))))"

definition sigStatusFromBytes :: "bytes \<Rightarrow> (wire_error, command) outcome" where
  "sigStatusFromBytes b =
     (if length b \<noteq> sigStatusLength then Fail errInvalidCommand
      else obind (index_at 0 b) (\<lambda>code. Ok (SigStatus code)))"

definition sendPacketFromBytes :: "bytes \<Rightarrow> (wire_error, command) outcome" where
  "sendPacketFromBytes b = Ok (SendPacket b)"

definition retreiveMessageFromBytes :: "bytes \<Rightarrow> (wire_error, command) outcome" where
  "retreiveMessageFromBytes b =
     (if length b \<noteq> retreiveMessageLength then Fail errInvalidCommand
      else obind (slice_of 0 4 b) (\<lambda>e. Ok (RetrieveMessage (get_u32_be e))))"

text \<open>A parsed message command has its \<^verbatim>\<open>Geo\<close> and \<^verbatim>\<open>Cmds\<close> pointers nil.\<close>

definition messageFromBytes :: "Commands \<Rightarrow> bytes \<Rightarrow> (wire_error, command) outcome" where
  "messageFromBytes c b0 =
     (if length b0 < messageBaseLength then Fail errInvalidCommand
      else
        obind (index_at 0 b0) (\<lambda>t. obind (index_at 1 b0) (\<lambda>hint. obind (slice_of 2 6 b0) (\<lambda>e.
        obind (slice_from messageBaseLength b0) (\<lambda>b.
        let sq = get_u32_be e in
        if t = messageTypeACK then
          (case c_geo c of None \<Rightarrow> Panic
           | Some g \<Rightarrow>
             if length b \<noteq> SURBIDLength + PayloadTagLength g + ForwardPayloadLength g
             then Fail errInvalidCommand
             else obind (slice_of 0 SURBIDLength b) (\<lambda>surbID. obind (slice_from SURBIDLength b) (\<lambda>payload.
               Ok (MessageACK \<lparr>ack_Geo = None, ack_QueueSizeHint = hint, ack_Sequence = sq,
                               ack_ID = surbID, ack_Payload = payload\<rparr>))))
        else if t = messageTypeMessage then
          (case c_geo c of None \<Rightarrow> Panic
           | Some g \<Rightarrow>
             if length b \<noteq> messageMsgPaddingLength g + UserForwardPayloadLength g
             then Fail errInvalidCommand
             else obind (slice_from (UserForwardPayloadLength g) b) (\<lambda>padding.
               if \<not> CtIsZero padding then Fail errInvalidCommand
               else obind (slice_of 0 (UserForwardPayloadLength g) b) (\<lambda>payload.
                 Ok (Message \<lparr>msg_Geo = None, msg_Cmds = None, msg_QueueSizeHint = hint,
                              msg_Sequence = sq, msg_Payload = payload\<rparr>))))
        else if t = messageTypeEmpty then
          (case c_geo c of None \<Rightarrow> Panic
           | Some g \<Rightarrow>
             if length b \<noteq> messageEmptyLength g - messageBaseLength then Fail errInvalidCommand
             else if \<not> CtIsZero b then Fail errInvalidCommand
             else Ok (MessageEmpty \<lparr>empty_Cmds = None, empty_Sequence = sq\<rparr>))
        else Fail errInvalidCommand)))))"

text \<open>The second switch of the dispatcher, on the body cut to the announced length.\<close>

definition parse_body :: "sign_prims \<Rightarrow> Commands \<Rightarrow> byte \<Rightarrow> bytes \<Rightarrow> (wire_error, command) outcome" where
  "parse_body P c i b =
     (if i = id_sendPacket then sendPacketFromBytes b
      else if i = id_retreiveMessage then retreiveMessageFromBytes b
      else if i = id_message then messageFromBytes c b
      else if i = id_getConsensus then getConsensusFromBytes b
      else if i = id_consensus then consensusFromBytes b
      else if i = id_postDescriptor then postDescriptorFromBytes b
      else if i = id_postDescriptorStatus then postDescriptorStatusFromBytes b
      else if i = id_getVote then getVoteFromBytes P b
      else if i = id_vote then voteFromBytes P b
      else if i = id_voteStatus then voteStatusFromBytes b
      else if i = id_certificate then certFromBytes P b
      else if i = id_certStatus then certStatusFromBytes b
      else if i = id_reveal then revealFromBytes P b
      else if i = id_revealStatus then revealStatusFromBytes b
      else if i = id_sig then sigFromBytes P b
      else if i = id_sigStatus then sigStatusFromBytes b
      else Fail errInvalidCommand)"

text \<open>\<^verbatim>\<open>Commands.FromBytes\<close>; the buffer length is compared as a \<^verbatim>\<open>uint32\<close>.\<close>

definition FromBytes :: "sign_prims \<Rightarrow> Commands \<Rightarrow> bytes \<Rightarrow> (wire_error, command) outcome" where
  "FromBytes P c b0 =
     (if length b0 < cmdOverhead then Fail errInvalidCommand
      else
        obind (index_at 0 b0) (\<lambda>i. obind (index_at 1 b0) (\<lambda>reserved.
        if reserved \<noteq> 0 then Fail errInvalidCommand
        else obind (slice_of 2 6 b0) (\<lambda>e. obind (slice_from cmdOverhead b0) (\<lambda>b.
        let cmdLen = get_u32_be e in
        if (of_nat (length b) :: u32) < cmdLen then Fail errInvalidCommand
        else obind (slice_from (unat cmdLen) b) (\<lambda>padding.
        if \<not> CtIsZero padding then Fail errInvalidCommand
        else if cmdLen = 0 \<and> i = id_noOp then Ok NoOp
        else if cmdLen = 0 \<and> i = id_disconnect then Ok Disconnect
        else if cmdLen = 0 \<and> i \<noteq> id_sendPacket \<and> i \<noteq> id_postDescriptor
        then Fail errInvalidCommand
        else obind (slice_of 0 (unat cmdLen) b) (\<lambda>body. parse_body P c i body)))))))"

section \<open>Well-formed commands\<close>

text \<open>
  The commands a peer with geometry \<open>g\<close> and working identity keys can send, and the view of a
  command that survives the wire: the \<^verbatim>\<open>Geo\<close> and \<^verbatim>\<open>Cmds\<close> pointers are not transmitted.
\<close>

definition upload_wf :: "sign_prims \<Rightarrow> upload \<Rightarrow> bool" where
  "upload_wf P u \<longleftrightarrow> pk_wf P (up_PublicKey u)"

fun cmd_wf :: "sign_prims \<Rightarrow> geometry \<Rightarrow> command \<Rightarrow> bool" where
  "cmd_wf P g (MessageACK c) \<longleftrightarrow> ack_Geo c = Some g \<and> length (ack_ID c) = SURBIDLength \<and>
     length (ack_Payload c) = PayloadTagLength g + ForwardPayloadLength g"
| "cmd_wf P g (Message c) \<longleftrightarrow> msg_Geo c = Some g \<and> msg_Cmds c = Some (NewCommands g) \<and>
     length (msg_Payload c) = UserForwardPayloadLength g"
| "cmd_wf P g (MessageEmpty c) \<longleftrightarrow> empty_Cmds c = Some (NewCommands g)"
| "cmd_wf P g (GetVote e pk) \<longleftrightarrow> pk_wf P pk"
| "cmd_wf P g (Vote u) \<longleftrightarrow> upload_wf P u"
| "cmd_wf P g (Reveal u) \<longleftrightarrow> upload_wf P u"
| "cmd_wf P g (Cert u) \<longleftrightarrow> upload_wf P u"
| "cmd_wf P g (Sig u) \<longleftrightarrow> upload_wf P u"
| "cmd_wf P g _ \<longleftrightarrow> True"

fun wire_view :: "command \<Rightarrow> command" where
  "wire_view (MessageACK c) = MessageACK (c\<lparr>ack_Geo := None\<rparr>)"
| "wire_view (Message c) = Message (c\<lparr>msg_Geo := None, msg_Cmds := None\<rparr>)"
| "wire_view (MessageEmpty c) = MessageEmpty (c\<lparr>empty_Cmds := None\<rparr>)"
| "wire_view c = c"

section \<open>Serialize, then parse\<close>

section \<open>The checks before each access\<close>

text \<open>
  Every index_at and every slice of a parser is in range, because of the checks before it: the parsers
  are equal to ones whose accesses cannot fail.
\<close>

lemma accesses_in_range:
  "i < length b \<Longrightarrow> index_at i b = Ok (b ! i)"
  "i \<le> j \<Longrightarrow> j \<le> length b \<Longrightarrow> slice_of i j b = Ok (slice i j b)" "i \<le> length b \<Longrightarrow> slice_from i b = Ok (drop i b)"
  by (simp_all add: index_at_def slice_of_def slice_from_def slice_def)

lemma slice_0: "slice 0 n b = take n b"
  by (simp add: slice_def)

lemma getConsensusFromBytes_eq:
  "getConsensusFromBytes b =
     (if length b \<noteq> getConsensusLength then Fail errInvalidCommand
      else Ok (GetConsensus (get_u64_be b)))"
  by (simp add: getConsensusFromBytes_def accesses_in_range wire_lengths slice_0 get_be_take)

lemma getVoteFromBytes_eq:
  "getVoteFromBytes P b =
     (if length b \<noteq> voteOverhead then Fail errInvalidCommand
      else obind (omap_err errKey (UnmarshalBinaryPublicKey P (slice 8 (PublicKeySize + 8) b)))
             (\<lambda>pk. Ok (GetVote (get_u64_be b) pk)))"
  by (simp add: getVoteFromBytes_def accesses_in_range wire_lengths slice_0 get_be_take)

lemma consensusFromBytes_eq:
  "consensusFromBytes b =
     (if length b < consensusBaseLength then Fail errInvalidCommand
      else Ok (Consensus (b ! 0) (drop consensusBaseLength b)))"
  by (simp add: consensusFromBytes_def accesses_in_range wire_lengths slice_0 get_be_take)

lemma postDescriptorFromBytes_eq:
  "postDescriptorFromBytes b =
     (if length b < postDescriptorLength then Fail errInvalidCommand
      else Ok (PostDescriptor (get_u64_be b) (drop postDescriptorLength b)))"
  by (simp add: postDescriptorFromBytes_def accesses_in_range wire_lengths slice_0 get_be_take)

lemma postDescriptorStatusFromBytes_eq:
  "postDescriptorStatusFromBytes b =
     (if length b \<noteq> postDescriptorStatusLength then Fail errInvalidCommand
      else Ok (PostDescriptorStatus (b ! 0)))"
  by (simp add: postDescriptorStatusFromBytes_def accesses_in_range wire_lengths slice_0 get_be_take)

lemma revealFromBytes_eq:
  "revealFromBytes P b =
     (if length b < revealOverhead then Fail errWtfInvalidCommand
      else obind (omap_err errKey (UnmarshalBinaryPublicKey P (slice 8 (8 + PublicKeySize) b)))
             (\<lambda>pk. Ok (Reveal \<lparr>up_Epoch = get_u64_be b, up_PublicKey = pk,
                              up_Payload = drop revealOverhead b\<rparr>)))"
  by (simp add: revealFromBytes_def accesses_in_range wire_lengths slice_0 get_be_take)

lemma revealStatusFromBytes_eq:
  "revealStatusFromBytes b =
     (if length b \<noteq> revealStatusLength then Fail errWtfInvalidCommand
      else Ok (RevealStatus (b ! 0)))"
  by (simp add: revealStatusFromBytes_def accesses_in_range wire_lengths slice_0 get_be_take)

lemma voteFromBytes_eq:
  "voteFromBytes P b =
     (if length b < voteOverhead then Fail errInvalidCommand
      else obind (omap_err errKey (UnmarshalBinaryPublicKey P (slice 8 (8 + PublicKeySize) b)))
             (\<lambda>pk. Ok (Vote \<lparr>up_Epoch = get_u64_be b, up_PublicKey = pk,
                            up_Payload = drop voteOverhead b\<rparr>)))"
  by (simp add: voteFromBytes_def accesses_in_range wire_lengths slice_0 get_be_take)

lemma voteStatusFromBytes_eq:
  "voteStatusFromBytes b =
     (if length b \<noteq> voteStatusLength then Fail errInvalidCommand else Ok (VoteStatus (b ! 0)))"
  by (simp add: voteStatusFromBytes_def accesses_in_range wire_lengths slice_0 get_be_take)

lemma certFromBytes_eq:
  "certFromBytes P b =
     (if length b < certOverhead then Fail errInvalidCommand
      else obind (omap_err errKey (UnmarshalBinaryPublicKey P (slice 8 (8 + PublicKeySize) b)))
             (\<lambda>pk. Ok (Cert \<lparr>up_Epoch = get_u64_be b, up_PublicKey = pk,
                            up_Payload = drop certOverhead b\<rparr>)))"
  by (simp add: certFromBytes_def accesses_in_range wire_lengths slice_0 get_be_take)

lemma certStatusFromBytes_eq:
  "certStatusFromBytes b =
     (if length b \<noteq> certStatusLength then Fail errInvalidCommand else Ok (CertStatus (b ! 0)))"
  by (simp add: certStatusFromBytes_def accesses_in_range wire_lengths slice_0 get_be_take)

lemma sigFromBytes_eq:
  "sigFromBytes P b =
     (if length b < sigOverhead then Fail errInvalidCommand
      else obind (omap_err errKey (UnmarshalBinaryPublicKey P (slice 8 (8 + PublicKeySize) b)))
             (\<lambda>pk. Ok (Sig \<lparr>up_Epoch = get_u64_be b, up_PublicKey = pk,
                           up_Payload = drop sigOverhead b\<rparr>)))"
  by (simp add: sigFromBytes_def accesses_in_range wire_lengths slice_0 get_be_take)

lemma sigStatusFromBytes_eq:
  "sigStatusFromBytes b =
     (if length b \<noteq> sigStatusLength then Fail errInvalidCommand else Ok (SigStatus (b ! 0)))"
  by (simp add: sigStatusFromBytes_def accesses_in_range wire_lengths slice_0 get_be_take)

lemma retreiveMessageFromBytes_eq:
  "retreiveMessageFromBytes b =
     (if length b \<noteq> retreiveMessageLength then Fail errInvalidCommand
      else Ok (RetrieveMessage (get_u32_be b)))"
  by (simp add: retreiveMessageFromBytes_def accesses_in_range wire_lengths slice_0 get_be_take)

lemma messageFromBytes_eq:
  "messageFromBytes c b0 =
     (if length b0 < messageBaseLength then Fail errInvalidCommand
      else
        let t = b0 ! 0; hint = b0 ! 1; sq = get_u32_be (drop 2 b0); b = drop messageBaseLength b0 in
        if t = messageTypeACK then
          (case c_geo c of None \<Rightarrow> Panic
           | Some g \<Rightarrow>
             if length b \<noteq> SURBIDLength + PayloadTagLength g + ForwardPayloadLength g
             then Fail errInvalidCommand
             else Ok (MessageACK \<lparr>ack_Geo = None, ack_QueueSizeHint = hint, ack_Sequence = sq,
                                  ack_ID = take SURBIDLength b, ack_Payload = drop SURBIDLength b\<rparr>))
        else if t = messageTypeMessage then
          (case c_geo c of None \<Rightarrow> Panic
           | Some g \<Rightarrow>
             if length b \<noteq> messageMsgPaddingLength g + UserForwardPayloadLength g
             then Fail errInvalidCommand
             else if \<not> CtIsZero (drop (UserForwardPayloadLength g) b) then Fail errInvalidCommand
             else Ok (Message \<lparr>msg_Geo = None, msg_Cmds = None, msg_QueueSizeHint = hint,
                               msg_Sequence = sq, msg_Payload = take (UserForwardPayloadLength g) b\<rparr>))
        else if t = messageTypeEmpty then
          (case c_geo c of None \<Rightarrow> Panic
           | Some g \<Rightarrow>
             if length b \<noteq> messageEmptyLength g - messageBaseLength then Fail errInvalidCommand
             else if \<not> CtIsZero b then Fail errInvalidCommand
             else Ok (MessageEmpty \<lparr>empty_Cmds = None, empty_Sequence = sq\<rparr>))
        else Fail errInvalidCommand)"
proof (cases "length b0 < messageBaseLength")
  case False
  then have h: "index_at 0 b0 = Ok (b0 ! 0)" "index_at 1 b0 = Ok (b0 ! 1)" "slice_of 2 6 b0 = Ok (slice 2 6 b0)"
    "slice_from messageBaseLength b0 = Ok (drop messageBaseLength b0)" "get_u32_be (slice 2 6 b0) = get_u32_be (drop 2 b0)"
    using get_be_take(1) [of "drop 2 b0"]
    by (auto simp: index_at_def slice_of_def slice_from_def messageBaseLength_def slice_def)
  define b where "b = drop messageBaseLength b0"
  show ?thesis
    unfolding messageFromBytes_def Let_def h obind.simps if_not_P [OF False] b_def [symmetric]
    by (cases "c_geo c") (simp_all add: accesses_in_range slice_0)
qed (simp add: messageFromBytes_def)

lemma FromBytes_eq:
  "FromBytes P c b0 =
     (if length b0 < cmdOverhead then Fail errInvalidCommand
      else if b0 ! 1 \<noteq> 0 then Fail errInvalidCommand
      else
        let i = b0 ! 0; cmdLen = get_u32_be (drop 2 b0); b = drop cmdOverhead b0 in
        if (of_nat (length b) :: u32) < cmdLen then Fail errInvalidCommand
        else if \<not> CtIsZero (drop (unat cmdLen) b) then Fail errInvalidCommand
        else if cmdLen = 0 \<and> i = id_noOp then Ok NoOp
        else if cmdLen = 0 \<and> i = id_disconnect then Ok Disconnect
        else if cmdLen = 0 \<and> i \<noteq> id_sendPacket \<and> i \<noteq> id_postDescriptor
        then Fail errInvalidCommand
        else parse_body P c i (take (unat cmdLen) b))"
proof (cases "length b0 < cmdOverhead")
  case False
  then have h: "index_at 0 b0 = Ok (b0 ! 0)" "index_at 1 b0 = Ok (b0 ! 1)" "slice_of 2 6 b0 = Ok (slice 2 6 b0)"
    "slice_from cmdOverhead b0 = Ok (drop cmdOverhead b0)" "get_u32_be (slice 2 6 b0) = get_u32_be (drop 2 b0)"
    using get_be_take(1) [of "drop 2 b0"]
    by (auto simp: index_at_def slice_of_def slice_from_def cmdOverhead_def slice_def)
  let ?b = "drop cmdOverhead b0" and ?n = "get_u32_be (drop 2 b0)"
  have "unat ?n \<le> length ?b" if "\<not> (of_nat (length ?b) :: u32) < ?n"
  proof -
    have "unat ?n \<le> unat (of_nat (length ?b) :: u32)" using that by (simp only: word_less_nat_alt not_less)
    also have "\<dots> \<le> length ?b" by (simp add: unat_of_nat take_bit_nat_def)
    finally show ?thesis .
  qed
  then have c: "slice_from (unat ?n) ?b = Ok (drop (unat ?n) ?b)" "slice_of 0 (unat ?n) ?b = Ok (take (unat ?n) ?b)"
    if "\<not> (of_nat (length ?b) :: u32) < ?n" using that accesses_in_range(2,3) slice_0 by (metis le0)+
  show ?thesis
  proof (cases "(of_nat (length ?b) :: u32) < ?n")
    case True
    show ?thesis unfolding FromBytes_def Let_def h obind.simps by (simp only: False True if_True if_False)
  next
    case fits: False
    show ?thesis unfolding FromBytes_def Let_def h obind.simps by (simp only: False fits if_False c [OF fits] obind.simps)
  qed
qed (simp add: FromBytes_def)

lemma length_cmd_header [simp, bytes_simps]: "length (cmd_header i n) = cmdOverhead"
  by (simp add: cmd_header_def cmdOverhead_def)

lemma cmd_header_nth [simp]: "cmd_header i n ! 0 = i" "cmd_header i n ! Suc 0 = 0"
  by (simp_all add: cmd_header_def)

lemma get_cmd_header [simp]: "get_u32_be (drop 2 (cmd_header i n) @ r) = of_nat n"
  by (simp add: cmd_header_def)

lemma FromBytes_frame:
  assumes n: "length body = n" and small: "n + k < 2 ^ 32"
    and nz: "n \<noteq> 0 \<or> i = id_sendPacket \<or> i = id_postDescriptor"
  shows "FromBytes P c (cmd_header i n @ body @ zeros k) = parse_body P c i body"
proof -
  let ?b = "cmd_header i n @ body @ zeros k"
  have un: "unat (of_nat n :: u32) = n"
    using small by (simp add: unat_of_nat take_bit_nat_def)
  have ub: "unat (of_nat (n + k) :: u32) = n + k"
    using small by (simp only: unat_of_nat take_bit_nat_def) simp
  have ge: "\<not> (of_nat (n + k) :: u32) < of_nat n"
    using un ub by (simp only: word_less_nat_alt)
  have z: "(of_nat n :: u32) = 0 \<longleftrightarrow> n = 0"
  proof
    assume "(of_nat n :: u32) = 0"
    then have "unat (of_nat n :: u32) = 0" by (simp only: unat_0)
    with un show "n = 0" by simp
  qed simp
  have ids: "id_noOp \<noteq> id_sendPacket" "id_noOp \<noteq> id_postDescriptor"
    "id_disconnect \<noteq> id_sendPacket" "id_disconnect \<noteq> id_postDescriptor"
    by (simp_all add: wire_ids)
  have h: "\<not> length ?b < cmdOverhead" "?b ! 1 = 0" "?b ! 0 = i"
    "get_u32_be (drop 2 ?b) = of_nat n" "drop cmdOverhead ?b = body @ zeros k"
    by (simp_all add: nth_append cmdOverhead_def)
  have "length (body @ zeros k) = n + k" using n by simp
  then show ?thesis
    unfolding FromBytes_eq Let_def h(2-5)
    using h(1) ge un z nz ids n by (auto simp del: of_nat_add)
qed

lemmas parse_defs = parse_body_def sendPacketFromBytes_def retreiveMessageFromBytes_eq
  messageFromBytes_eq getConsensusFromBytes_eq consensusFromBytes_eq
  postDescriptorFromBytes_eq postDescriptorStatusFromBytes_eq getVoteFromBytes_eq
  voteFromBytes_eq voteStatusFromBytes_eq certFromBytes_eq certStatusFromBytes_eq
  revealFromBytes_eq revealStatusFromBytes_eq sigFromBytes_eq sigStatusFromBytes_eq

lemma upload_body:
  assumes "upload_wf P u"
  shows "UnmarshalBinaryPublicKey P (slice 8 (8 + PublicKeySize)
           (put_u64_be (up_Epoch u) @ pk_Bytes (up_PublicKey u) @ r)) = Ok (up_PublicKey u)"
    and "drop (8 + PublicKeySize) (put_u64_be (up_Epoch u) @ pk_Bytes (up_PublicKey u) @ r) = r"
    and "copy_into (zeros PublicKeySize) (pk_Bytes (up_PublicKey u)) = pk_Bytes (up_PublicKey u)"
  using assms
  by (simp_all add: upload_wf_def slice_def UnmarshalBinaryPublicKey_def pk_FromBytes_Bytes
      pk_Bytes_length copy_into_same)

lemma parse_upload:
  assumes "upload_wf P u"
    and "b = put_u64_be (up_Epoch u) @ pk_Bytes (up_PublicKey u) @ up_Payload u"
  shows "voteFromBytes P b = Ok (Vote u)" "certFromBytes P b = Ok (Cert u)"
    "revealFromBytes P b = Ok (Reveal u)" "sigFromBytes P b = Ok (Sig u)"
  using assms upload_body [OF assms(1)] pk_Bytes_length [of P "up_PublicKey u"]
  by (simp_all add: voteFromBytes_eq certFromBytes_eq revealFromBytes_eq sigFromBytes_eq
      voteOverhead_def certOverhead_def revealOverhead_def sigOverhead_def upload_wf_def)

text \<open>
  An abstract description of the encoding, independent of the per-command code: the identifier
  and the body of every command.  \<open>ToBytes\<close> implements it and \<open>parse_body\<close> inverts it.
\<close>

fun frame_of :: "geometry \<Rightarrow> command \<Rightarrow> byte \<times> bytes" where
  "frame_of g NoOp = (id_noOp, [])"
| "frame_of g Disconnect = (id_disconnect, [])"
| "frame_of g (SendPacket p) = (id_sendPacket, p)"
| "frame_of g (RetrieveMessage s) = (id_retreiveMessage, put_u32_be s)"
| "frame_of g (MessageACK c) = (id_message, [messageTypeACK, ack_QueueSizeHint c]
     @ put_u32_be (ack_Sequence c) @ ack_ID c @ ack_Payload c)"
| "frame_of g (Message c) = (id_message, [messageTypeMessage, msg_QueueSizeHint c]
     @ put_u32_be (msg_Sequence c) @ msg_Payload c @ zeros (messageMsgPaddingLength g))"
| "frame_of g (MessageEmpty c) = (id_message, [messageTypeEmpty, 0]
     @ put_u32_be (empty_Sequence c)
     @ zeros (SURBIDLength + PayloadTagLength g + ForwardPayloadLength g))"
| "frame_of g (GetConsensus e) = (id_getConsensus, put_u64_be e)"
| "frame_of g (Consensus s p) = (id_consensus, s # p)"
| "frame_of g (PostDescriptor e p) = (id_postDescriptor, put_u64_be e @ p)"
| "frame_of g (PostDescriptorStatus s) = (id_postDescriptorStatus, [s])"
| "frame_of g (GetVote e pk) = (id_getVote, put_u64_be e @ pk_Bytes pk)"
| "frame_of g (Vote u) =
     (id_vote, put_u64_be (up_Epoch u) @ pk_Bytes (up_PublicKey u) @ up_Payload u)"
| "frame_of g (VoteStatus s) = (id_voteStatus, [s])"
| "frame_of g (Reveal u) =
     (id_reveal, put_u64_be (up_Epoch u) @ pk_Bytes (up_PublicKey u) @ up_Payload u)"
| "frame_of g (RevealStatus s) = (id_revealStatus, [s])"
| "frame_of g (Sig u) =
     (id_sig, put_u64_be (up_Epoch u) @ pk_Bytes (up_PublicKey u) @ up_Payload u)"
| "frame_of g (SigStatus s) = (id_sigStatus, [s])"
| "frame_of g (Cert u) =
     (id_certificate, put_u64_be (up_Epoch u) @ pk_Bytes (up_PublicKey u) @ up_Payload u)"
| "frame_of g (CertStatus s) = (id_certStatus, [s])"

lemma ToBytes_frame:
  assumes "cmd_wf P g cmd" "frame_of g cmd = (i, body)"
  shows "ToBytes cmd = Ok (cmd_header i (length body) @ body)"
  using assms
  by (cases cmd)
     (auto simp: MessageACK_ToBytes_def Message_ToBytes_def MessageEmpty_ToBytes_def
      upload_ToBytes_def Reveal_ToBytes_def cmds_geo_def NewCommands_def messageMsgLength_def
      messageEmptyLength_def messageACKLength_def wire_lengths upload_wf_def pk_wf_def
      pk_Bytes_def copy_into_same ac_simps)

lemma parse_upload_frame:
  assumes "upload_wf P u"
  shows "parse_body P c id_vote (snd (frame_of g (Vote u))) = Ok (Vote u)"
    "parse_body P c id_certificate (snd (frame_of g (Cert u))) = Ok (Cert u)"
    "parse_body P c id_reveal (snd (frame_of g (Reveal u))) = Ok (Reveal u)"
    "parse_body P c id_sig (snd (frame_of g (Sig u))) = Ok (Sig u)"
  using parse_upload [OF assms refl] by (simp_all add: parse_body_def wire_ids)

lemma parse_message_frame:
  "length (ack_ID a) = SURBIDLength \<Longrightarrow>
   length (ack_Payload a) = PayloadTagLength g + ForwardPayloadLength g \<Longrightarrow>
   messageFromBytes (NewCommands g) (snd (frame_of g (MessageACK a))) = Ok (wire_view (MessageACK a))"
  "length (msg_Payload m) = UserForwardPayloadLength g \<Longrightarrow>
   messageFromBytes (NewCommands g) (snd (frame_of g (Message m))) = Ok (wire_view (Message m))"
  "messageFromBytes (NewCommands g) (snd (frame_of g (MessageEmpty e))) = Ok (wire_view (MessageEmpty e))"
  by (simp_all add: messageFromBytes_eq Let_def wire_ids NewCommands_def messageBaseLength_def
      messageEmptyLength_def messageACKLength_def)

lemma parse_status_frame:
  "parse_body P c id_postDescriptorStatus [s] = Ok (PostDescriptorStatus s)"
  "parse_body P c id_voteStatus [s] = Ok (VoteStatus s)"
  "parse_body P c id_certStatus [s] = Ok (CertStatus s)"
  "parse_body P c id_revealStatus [s] = Ok (RevealStatus s)"
  "parse_body P c id_sigStatus [s] = Ok (SigStatus s)"
  by (simp_all add: parse_body_def wire_ids postDescriptorStatusFromBytes_eq
      voteStatusFromBytes_eq certStatusFromBytes_eq revealStatusFromBytes_eq
      sigStatusFromBytes_eq wire_lengths)

lemma parse_value_frame:
  "parse_body P c id_sendPacket p = Ok (SendPacket p)"
  "parse_body P c id_retreiveMessage (put_u32_be q) = Ok (RetrieveMessage q)"
  "parse_body P c id_getConsensus (put_u64_be e) = Ok (GetConsensus e)"
  "parse_body P c id_consensus (s # p) = Ok (Consensus s p)"
  "parse_body P c id_postDescriptor (put_u64_be e @ p) = Ok (PostDescriptor e p)"
  "pk_wf P pk \<Longrightarrow> parse_body P c id_getVote (put_u64_be e @ pk_Bytes pk) = Ok (GetVote e pk)"
  by (simp_all add: parse_body_def wire_ids sendPacketFromBytes_def retreiveMessageFromBytes_eq
      getConsensusFromBytes_eq consensusFromBytes_eq postDescriptorFromBytes_eq
      getVoteFromBytes_eq retreiveMessageLength_def getConsensusLength_def
      consensusBaseLength_def postDescriptorLength_def voteOverhead_def pk_Bytes_length slice_def
      UnmarshalBinaryPublicKey_def pk_FromBytes_Bytes)

lemma parse_frame:
  assumes wf: "cmd_wf P g cmd" and "cmd \<noteq> NoOp" "cmd \<noteq> Disconnect"
  shows "parse_body P (NewCommands g) (fst (frame_of g cmd)) (snd (frame_of g cmd))
           = Ok (wire_view cmd)"
proof -
  have msg: "\<And>b. parse_body P (NewCommands g) id_message b = messageFromBytes (NewCommands g) b"
    by (simp add: parse_body_def wire_ids)
  show ?thesis
    using assms parse_upload_frame parse_message_frame parse_status_frame parse_value_frame
    by (cases cmd) (simp_all del: wire_view.simps add: msg wire_view.simps(4-))
qed
lemma frame_nonempty:
  assumes "frame_of g cmd = (i, body)" "cmd \<noteq> NoOp" "cmd \<noteq> Disconnect"
  shows "length body \<noteq> 0 \<or> i = id_sendPacket \<or> i = id_postDescriptor"
  using assms by (cases cmd) (auto simp: put_u32_be_def put_u64_be_def)

lemma FromBytes_nullary:
  "k < 2 ^ 32 \<Longrightarrow> FromBytes P c (cmd_header id_noOp 0 @ zeros k) = Ok NoOp"
  "k < 2 ^ 32 \<Longrightarrow> FromBytes P c (cmd_header id_disconnect 0 @ zeros k) = Ok Disconnect"
  by (simp_all add: FromBytes_eq Let_def nth_append cmdOverhead_def wire_ids)

lemma wire_roundtrip:
  assumes wf: "cmd_wf P g cmd" and enc: "ToBytes cmd = Ok b" and small: "length b + k < 2 ^ 32"
  shows "FromBytes P (NewCommands g) (b @ zeros k) = Ok (wire_view cmd)"
proof -
  obtain i body where f: "frame_of g cmd = (i, body)" by (cases "frame_of g cmd")
  have b: "b = cmd_header i (length body) @ body"
    using ToBytes_frame [OF wf f] enc by simp
  show ?thesis
  proof (cases "cmd = NoOp \<or> cmd = Disconnect")
    case True
    then show ?thesis using f b small FromBytes_nullary [of k] by auto
  next
    case False
    then show ?thesis
      using b small f parse_frame [OF wf] frame_nonempty [OF f]
      by (simp add: FromBytes_frame)
  qed
qed

section \<open>Parsing untrusted buffers\<close>

lemma parsers_no_panic:
  "getConsensusFromBytes b \<noteq> Panic" "consensusFromBytes b \<noteq> Panic"
  "postDescriptorFromBytes b \<noteq> Panic" "postDescriptorStatusFromBytes b \<noteq> Panic"
  "voteStatusFromBytes b \<noteq> Panic" "certStatusFromBytes b \<noteq> Panic"
  "revealStatusFromBytes b \<noteq> Panic" "sigStatusFromBytes b \<noteq> Panic"
  "sendPacketFromBytes b \<noteq> Panic" "retreiveMessageFromBytes b \<noteq> Panic"
  "getVoteFromBytes P b \<noteq> Panic" "voteFromBytes P b \<noteq> Panic" "certFromBytes P b \<noteq> Panic"
  "revealFromBytes P b \<noteq> Panic" "sigFromBytes P b \<noteq> Panic"
  by (simp_all add: getConsensusFromBytes_eq consensusFromBytes_eq postDescriptorFromBytes_eq
      postDescriptorStatusFromBytes_eq voteStatusFromBytes_eq certStatusFromBytes_eq
      revealStatusFromBytes_eq sigStatusFromBytes_eq sendPacketFromBytes_def
      retreiveMessageFromBytes_eq getVoteFromBytes_eq voteFromBytes_eq certFromBytes_eq
      revealFromBytes_eq sigFromBytes_eq obind_Panic_iff UnmarshalBinaryPublicKey_def
      pk_FromBytes_no_panic)

lemma messageFromBytes_no_panic: "c_geo c \<noteq> None \<Longrightarrow> messageFromBytes c b \<noteq> Panic"
  by (auto simp: messageFromBytes_eq Let_def split: option.split)

lemma parse_body_no_panic:
  assumes "i \<noteq> id_message \<or> c_geo c \<noteq> None"
  shows "parse_body P c i b \<noteq> Panic"
proof (cases "i = id_message")
  case True
  then show ?thesis
    using assms messageFromBytes_no_panic [of c b] by (simp add: parse_body_def wire_ids)
next
  case False
  have "\<And>q x y. x \<noteq> Panic \<Longrightarrow> y \<noteq> Panic \<Longrightarrow> (if q then x else y) \<noteq> (Panic :: (wire_error, command) outcome)"
    by simp
  with False show ?thesis
    by (simp only: parse_body_def if_False parsers_no_panic outcome.distinct not_False_eq_True
        simp_thms)
qed

lemma FromBytes_no_panic: "FromBytes P (NewCommands g) b \<noteq> Panic"
  using parse_body_no_panic [of _ "NewCommands g"]
  by (simp add: FromBytes_eq Let_def NewCommands_def)

lemma FromBytes_pki_panic:
  assumes "6 \<le> length body" "length body + k < 2 ^ 32" "body ! 0 \<in> {0, 1, 2}"
  shows "FromBytes P NewPKICommands (cmd_header id_message (length body) @ body @ zeros k) = Panic"
proof -
  have "FromBytes P NewPKICommands (cmd_header id_message (length body) @ body @ zeros k)
          = parse_body P NewPKICommands id_message body"
    using assms by (intro FromBytes_frame) auto
  also have "\<dots> = Panic"
    using assms by (auto simp: parse_body_def wire_ids messageFromBytes_eq Let_def
        NewPKICommands_def messageBaseLength_def)
  finally show ?thesis .
qed

lemma FromBytes_pki_panic_only_message:
  assumes "FromBytes P NewPKICommands b = Panic"
  shows "b ! 0 = id_message"
  using assms parse_body_no_panic [of "b ! 0" NewPKICommands]
  by (auto simp: FromBytes_eq Let_def split: if_splits)

lemma one_plus_overhead: "(1::nat) + 1 + 4 = 6"
  by simp

text \<open>What an accepted buffer looks like: header, body of the announced length, zero padding.\<close>

lemma FromBytes_shape:
  assumes "FromBytes P c b = Ok cmd"
  shows "\<exists>i body k. b = cmd_header i (length body) @ body @ zeros k \<and>
           (body = [] \<and> (i, cmd) \<in> {(id_noOp, NoOp), (id_disconnect, Disconnect)} \<or>
            parse_body P c i body = Ok cmd)"
proof -
  define i n rest where "i = b ! 0" and "n = unat (get_u32_be (drop 2 b))" and "rest = drop 6 b"
  have z: "get_u32_be (drop 2 b) = 0 \<longleftrightarrow> n = 0" by (simp add: n_def unat_eq_zero)
  note unf = assms [unfolded FromBytes_eq Let_def cmdOverhead_def one_plus_overhead z,
      folded i_def n_def rest_def]
  have len: "6 \<le> length b" and b1: "b ! 1 = 0"
    and fits: "\<not> (of_nat (length rest) :: u32) < get_u32_be (drop 2 b)"
    and pad: "CtIsZero (drop n rest)"
    using unf by (simp_all split: if_split_asm)
  have res: "(n = 0 \<and> (i, cmd) \<in> {(id_noOp, NoOp), (id_disconnect, Disconnect)}) \<or>
              parse_body P c i (take n rest) = Ok cmd"
    using unf by (simp split: if_split_asm)
  have "n \<le> unat (of_nat (length rest) :: u32)"
    using fits by (simp add: n_def word_less_nat_alt)
  also have "\<dots> \<le> length rest"
    by (simp add: unat_of_nat take_bit_nat_def)
  finally have n: "n \<le> length rest" .
  then have body: "length (take n rest) = n" by simp
  obtain x y r where b: "b = x # y # r" using len by (cases b; cases "tl b") auto
  have "cmd_header i n = take 6 b"
    using len b1 by (simp add: b i_def n_def cmd_header_def put_get_u32_be)
  moreover have "rest = take n rest @ zeros (length rest - n)"
    using pad by (metis CtIsZero_eq_zeros append_take_drop_id length_drop)
  ultimately have "b = cmd_header i n @ take n rest @ zeros (length rest - n)"
    unfolding rest_def by (metis append_take_drop_id)
  with res body show ?thesis
    by (intro exI [of _ i] exI [of _ "take n rest"] exI [of _ "length rest - n"]) auto
qed

text \<open>Putting the receiver's geometry back into a parsed message command.\<close>

fun attach_geo :: "geometry \<Rightarrow> command \<Rightarrow> command" where
  "attach_geo g (MessageACK c) = MessageACK (c\<lparr>ack_Geo := Some g\<rparr>)"
| "attach_geo g (Message c) = Message (c\<lparr>msg_Geo := Some g, msg_Cmds := Some (NewCommands g)\<rparr>)"
| "attach_geo g (MessageEmpty c) = MessageEmpty (c\<lparr>empty_Cmds := Some (NewCommands g)\<rparr>)"
| "attach_geo g c = c"

definition reencodes :: "sign_prims \<Rightarrow> geometry \<Rightarrow> byte \<Rightarrow> bytes \<Rightarrow> command \<Rightarrow> bool" where
  "reencodes P g i b cmd \<longleftrightarrow> (\<exists>m. cmd = MessageEmpty m) \<or>
     frame_of g (attach_geo g cmd) = (i, b) \<and> cmd_wf P g (attach_geo g cmd)"

lemma take_append_slice: "take n b @ slice n (n + m) b @ drop (n + m) b = b"
  by (metis add_diff_cancel_left' append_take_drop_id drop_drop add.commute slice_def)

lemma upload_split:
  assumes "UnmarshalBinaryPublicKey P (slice 8 (8 + PublicKeySize) b) = Ok pk"
    "8 + PublicKeySize \<le> length b"
  shows "pk_wf P pk" "put_u64_be (get_u64_be b) @ pk_Bytes pk @ drop (8 + PublicKeySize) b = b"
proof -
  have pk: "pk_wf P pk" "pk_Bytes pk = slice 8 (8 + PublicKeySize) b"
    using assms(1) pk_FromBytes_wf [of P] by (simp_all add: UnmarshalBinaryPublicKey_def)
  then show "pk_wf P pk" by simp
  show "put_u64_be (get_u64_be b) @ pk_Bytes pk @ drop (8 + PublicKeySize) b = b"
    using assms(2) take_append_slice [of 8 b PublicKeySize]
    by (simp only: pk put_get_u64_be)
qed

lemma reencode_uploads:
  "voteFromBytes P b = Ok cmd \<Longrightarrow> reencodes P g id_vote b cmd"
  "certFromBytes P b = Ok cmd \<Longrightarrow> reencodes P g id_certificate b cmd"
  "revealFromBytes P b = Ok cmd \<Longrightarrow> reencodes P g id_reveal b cmd"
  "sigFromBytes P b = Ok cmd \<Longrightarrow> reencodes P g id_sig b cmd"
  using upload_split [of P b]
  by (auto simp: voteFromBytes_eq certFromBytes_eq revealFromBytes_eq sigFromBytes_eq
      voteOverhead_def certOverhead_def revealOverhead_def sigOverhead_def reencodes_def
      obind_Ok_iff upload_wf_def split: if_splits)

lemma reencode_getVote: "getVoteFromBytes P b = Ok cmd \<Longrightarrow> reencodes P g id_getVote b cmd"
  using upload_split [of P b]
  by (auto simp: getVoteFromBytes_eq voteOverhead_def reencodes_def obind_Ok_iff add.commute
      split: if_splits)

lemma singleton_nth: "length b = 1 \<Longrightarrow> [b ! 0] = b"
  by (cases b) auto

lemma reencode_status:
  "postDescriptorStatusFromBytes b = Ok cmd \<Longrightarrow> reencodes P g id_postDescriptorStatus b cmd"
  "voteStatusFromBytes b = Ok cmd \<Longrightarrow> reencodes P g id_voteStatus b cmd"
  "certStatusFromBytes b = Ok cmd \<Longrightarrow> reencodes P g id_certStatus b cmd"
  "revealStatusFromBytes b = Ok cmd \<Longrightarrow> reencodes P g id_revealStatus b cmd"
  "sigStatusFromBytes b = Ok cmd \<Longrightarrow> reencodes P g id_sigStatus b cmd"
  using singleton_nth [of b]
  by (auto simp: postDescriptorStatusFromBytes_eq voteStatusFromBytes_eq certStatusFromBytes_eq
      revealStatusFromBytes_eq sigStatusFromBytes_eq postDescriptorStatusLength_def
      voteStatusLength_def certStatusLength_def revealStatusLength_def sigStatusLength_def
      reencodes_def split: if_splits)

lemma reencode_values:
  "sendPacketFromBytes b = Ok cmd \<Longrightarrow> reencodes P g id_sendPacket b cmd"
  "retreiveMessageFromBytes b = Ok cmd \<Longrightarrow> reencodes P g id_retreiveMessage b cmd"
  "getConsensusFromBytes b = Ok cmd \<Longrightarrow> reencodes P g id_getConsensus b cmd"
  "postDescriptorFromBytes b = Ok cmd \<Longrightarrow> reencodes P g id_postDescriptor b cmd"
  by (auto simp: sendPacketFromBytes_def retreiveMessageFromBytes_eq getConsensusFromBytes_eq
      postDescriptorFromBytes_eq retreiveMessageLength_def getConsensusLength_def
      postDescriptorLength_def reencodes_def put_get_u32_be put_get_u64_be split: if_splits)

lemma reencode_consensus: "consensusFromBytes b = Ok cmd \<Longrightarrow> reencodes P g id_consensus b cmd"
  by (cases b) (auto simp: consensusFromBytes_eq consensusBaseLength_def reencodes_def)

lemma message_prefix:
  assumes "6 \<le> length b"
  shows "b = [b ! 0, b ! 1] @ put_u32_be (get_u32_be (drop 2 b)) @ drop 6 b"
proof -
  obtain x y r where "b = x # y # r" using assms by (cases b; cases "tl b") auto
  with assms show ?thesis by (simp add: put_get_u32_be)
qed

lemma reencode_message:
  assumes "messageFromBytes (NewCommands g) b = Ok cmd"
  shows "reencodes P g id_message b cmd"
proof -
  have "6 \<le> length b"
    using assms by (simp add: messageFromBytes_eq messageBaseLength_def split: if_split_asm)
  note b0 = message_prefix [OF this]
  define r where "r = drop 6 b"
  note b = b0 [folded r_def]
  note unf = assms [unfolded messageFromBytes_eq NewCommands_def Let_def messageBaseLength_def
      one_plus_overhead Commands.select_convs option.case, folded r_def]
  consider (ack) "b ! 0 = messageTypeACK" | (msg) "b ! 0 = messageTypeMessage" "b ! 0 \<noteq> messageTypeACK"
    | (empty) "\<exists>m. cmd = MessageEmpty m"
    using unf by (simp split: if_split_asm) blast
  then show ?thesis
  proof cases
    case ack
    then have cmd: "cmd = MessageACK \<lparr>ack_Geo = None, ack_QueueSizeHint = b ! 1,
        ack_Sequence = get_u32_be (drop 2 b), ack_ID = take SURBIDLength r,
        ack_Payload = drop SURBIDLength r\<rparr>"
      and "length r = SURBIDLength + PayloadTagLength g + ForwardPayloadLength g"
      using unf by (simp_all split: if_split_asm)
    then show ?thesis using ack b by (simp add: reencodes_def)
  next
    case msg
    then have z: "CtIsZero (drop (UserForwardPayloadLength g) r)"
      "length r = messageMsgPaddingLength g + UserForwardPayloadLength g"
      and cmd: "cmd = Message \<lparr>msg_Geo = None, msg_Cmds = None, msg_QueueSizeHint = b ! 1,
        msg_Sequence = get_u32_be (drop 2 b), msg_Payload = take (UserForwardPayloadLength g) r\<rparr>"
      using unf by (simp_all split: if_split_asm)
    then have "r = take (UserForwardPayloadLength g) r @ zeros (messageMsgPaddingLength g)"
      using CtIsZero_eq_zeros [of "drop (UserForwardPayloadLength g) r"]
      by (metis append_take_drop_id diff_add_inverse2 length_drop)
    then show ?thesis using msg z cmd b by (simp add: reencodes_def)
  qed (simp add: reencodes_def)
qed

lemma if_okE:
  "(if q then x else y) = Ok r \<Longrightarrow> (q \<Longrightarrow> x = Ok r \<Longrightarrow> R) \<Longrightarrow> (\<not> q \<Longrightarrow> y = Ok r \<Longrightarrow> R) \<Longrightarrow> R"
  by (simp split: if_split_asm)

lemma reencode_body:
  assumes "parse_body P (NewCommands g) i b = Ok cmd"
  shows "reencodes P g i b cmd"
  using assms unfolding parse_body_def
  by (elim if_okE)
     (simp_all only: reencode_values reencode_message reencode_consensus reencode_status
      reencode_uploads reencode_getVote outcome.distinct)

lemma wire_canonical:
  assumes "FromBytes P (NewCommands g) b = Ok cmd" "\<And>m. cmd \<noteq> MessageEmpty m"
  shows "\<exists>b' k. ToBytes (attach_geo g cmd) = Ok b' \<and> b = b' @ zeros k"
proof -
  obtain i body k where b: "b = cmd_header i (length body) @ body @ zeros k"
    and c: "body = [] \<and> (i, cmd) \<in> {(id_noOp, NoOp), (id_disconnect, Disconnect)} \<or>
            parse_body P (NewCommands g) i body = Ok cmd"
    using FromBytes_shape [OF assms(1)] by blast
  have "ToBytes (attach_geo g cmd) = Ok (cmd_header i (length body) @ body)"
    using c reencode_body [of P g i body cmd] assms(2) ToBytes_frame [of P g "attach_geo g cmd"]
    by (auto simp: reencodes_def)
  with b show ?thesis by (intro exI conjI) auto
qed

section \<open>The three replies to a retrieval have one size\<close>

lemma message_reply_sizes:
  assumes "geo_has_surb g" "ack_Geo a = Some g" "msg_Geo m = Some g" "msg_Cmds m = Some (NewCommands g)"
    "empty_Cmds e = Some (NewCommands g)"
    "ToBytes (MessageACK a) = Ok ba" "ToBytes (Message m) = Ok bm" "ToBytes (MessageEmpty e) = Ok be"
  shows "length ba = length be" "length bm = length be"
  using assms
  by (auto simp: geo_has_surb_def MessageACK_ToBytes_def Message_ToBytes_def MessageEmpty_ToBytes_def
      cmds_geo_def NewCommands_def messageACKLength_def messageMsgLength_def messageEmptyLength_def
      messageMsgPaddingLength_def split: if_splits)

section \<open>The wire format as a codec\<close>

definition sendable :: "sign_prims \<Rightarrow> geometry \<Rightarrow> command \<Rightarrow> bool" where
  "sendable P g cmd \<longleftrightarrow> cmd_wf P g cmd \<and> (\<forall>b. ToBytes cmd = Ok b \<longrightarrow> length b < 2 ^ 32)"

interpretation wire: byte_codec ToBytes "FromBytes P (NewCommands g)" "sendable P g" wire_view
  for P :: sign_prims and g :: geometry
proof unfold_locales
  fix a assume "sendable P g a"
  then show "\<exists>b. ToBytes a = Ok b"
    using ToBytes_frame [of P g a "fst (frame_of g a)" "snd (frame_of g a)"]
    by (auto simp: sendable_def)
next
  fix a b assume "sendable P g a" "ToBytes a = Ok b"
  then show "FromBytes P (NewCommands g) b = Ok (wire_view a)"
    using wire_roundtrip [of P g a b 0] by (simp add: sendable_def)
qed

section \<open>Properties\<close>

text \<open>
  C30: serializing a well-formed command always succeeds, and the bytes, with any zero padding
  appended, are parsed back into the same command (up to the local pointers that are not sent).
\<close>

theorem FromBytes_ToBytes:
  assumes "cmd_wf P g cmd"
  shows "\<exists>b. ToBytes cmd = Ok b \<and>
    (\<forall>k. length b + k < 2 ^ 32 \<longrightarrow> FromBytes P (NewCommands g) (b @ zeros k) = Ok (wire_view cmd))"
proof -
  obtain b where "ToBytes cmd = Ok b"
    using ToBytes_frame [OF assms, of "fst (frame_of g cmd)" "snd (frame_of g cmd)"] by auto
  with wire_roundtrip [OF assms] show ?thesis by blast
qed

theorem FromBytes_ToBytes_witness:
  "\<exists>b. ToBytes (Vote \<lparr>up_Epoch = 5, up_PublicKey = toy_pk, up_Payload = [1, 2]\<rparr>) = Ok b \<and>
    (\<forall>k. length b + k < 2 ^ 32 \<longrightarrow>
      FromBytes toy_prims (NewCommands demo_geo) (b @ zeros k)
        = Ok (Vote \<lparr>up_Epoch = 5, up_PublicKey = toy_pk, up_Payload = [1, 2]\<rparr>))"
  using FromBytes_ToBytes [of toy_prims demo_geo
      "Vote \<lparr>up_Epoch = 5, up_PublicKey = toy_pk, up_Payload = [1, 2]\<rparr>"] toy_pk_wf
  by (simp add: upload_wf_def)

text \<open>
  C31: parsing is canonical.  Every buffer a session with a geometry accepts is the
  serialization of the command it returns, followed by zero padding.  (The one exception is a
  \<^verbatim>\<open>MessageEmpty\<close>, whose queue-size byte the parser ignores.)
\<close>

theorem FromBytes_canonical:
  assumes "FromBytes P (NewCommands g) b = Ok cmd" "\<forall>m. cmd \<noteq> MessageEmpty m"
  shows "\<exists>b' k. ToBytes (attach_geo g cmd) = Ok b' \<and> b = b' @ zeros k"
  using wire_canonical [of P g b cmd] assms by blast

theorem FromBytes_canonical_witness:
  "\<exists>b' k. ToBytes (attach_geo demo_geo (VoteStatus 3)) = Ok b' \<and>
     [23, 0, 0, 0, 0, 1, 3, 0, 0] = b' @ zeros k"
  by (rule FromBytes_canonical [of toy_prims]) (code_simp, simp)

text \<open>
  C32: a session created with a geometry never panics while parsing, whatever the peer sends: every
  index and every slice that the parsers take is within the buffer they were given.
\<close>

theorem FromBytes_safe: "FromBytes P (NewCommands g) b \<noteq> Panic"
  by (rule FromBytes_no_panic)

text \<open>
  C33: a PKI session, which has no geometry, panics on every well-framed \<^verbatim>\<open>message\<close> command of
  one of the three known types, and on no other command: a directory authority that accepts
  unauthenticated clients can be stopped by one such command.
\<close>

theorem FromBytes_pki_panics:
  "(\<forall>body k. 6 \<le> length body \<and> length body + k < 2 ^ 32 \<and> body ! 0 \<in> {0, 1, 2} \<longrightarrow>
      FromBytes P NewPKICommands (cmd_header id_message (length body) @ body @ zeros k) = Panic) \<and>
   (\<forall>b. FromBytes P NewPKICommands b = Panic \<longrightarrow> b ! 0 = id_message)"
  using FromBytes_pki_panic [of _ _ P] FromBytes_pki_panic_only_message [of P] by blast

theorem FromBytes_pki_panics_witness:
  "FromBytes toy_prims NewPKICommands [17, 0, 0, 0, 0, 6, 2, 0, 0, 0, 0, 0] = Panic"
proof -
  have "cmd_header id_message (length [2::byte, 0, 0, 0, 0, 0]) @ [2, 0, 0, 0, 0, 0] @ zeros 0
        = [17, 0, 0, 0, 0, 6, 2, 0, 0, 0, 0, 0]"
    by code_simp
  moreover have "FromBytes toy_prims NewPKICommands (cmd_header id_message
      (length [2::byte, 0, 0, 0, 0, 0]) @ [2, 0, 0, 0, 0, 0] @ zeros 0) = Panic"
    by (rule FromBytes_pki_panics [THEN conjunct1, rule_format]) simp
  ultimately show ?thesis by simp
qed

text \<open>
  the three replies to a \<^verbatim>\<open>retrieve_message\<close> (a message, an acknowledgement, an empty
  queue) have the same length on the wire when the geometry reserves room for a SURB, so an
  observer of the link cannot tell them apart by size.
\<close>

theorem message_replies_same_length:
  assumes "geo_has_surb g"
    and "cmd_wf P g (MessageACK a)" "cmd_wf P g (Message m)" "cmd_wf P g (MessageEmpty e)"
  shows "\<exists>ba bm be. ToBytes (MessageACK a) = Ok ba \<and> ToBytes (Message m) = Ok bm \<and>
    ToBytes (MessageEmpty e) = Ok be \<and> length ba = length be \<and> length bm = length be"
proof -
  obtain ba bm be where *: "ToBytes (MessageACK a) = Ok ba" "ToBytes (Message m) = Ok bm"
    "ToBytes (MessageEmpty e) = Ok be"
    using ToBytes_frame [OF assms(2)] ToBytes_frame [OF assms(3)] ToBytes_frame [OF assms(4)]
    by fastforce
  moreover have "length ba = length be" "length bm = length be"
    using message_reply_sizes [of g a m e ba bm be] assms * by auto
  ultimately show ?thesis by blast
qed

theorem message_replies_same_length_witness:
  "\<exists>ba bm be.
    ToBytes (MessageACK \<lparr>ack_Geo = Some demo_geo, ack_QueueSizeHint = 1, ack_Sequence = 2,
      ack_ID = zeros 16, ack_Payload = zeros 8\<rparr>) = Ok ba \<and>
    ToBytes (Message \<lparr>msg_Geo = Some demo_geo, msg_Cmds = Some (NewCommands demo_geo),
      msg_QueueSizeHint = 0, msg_Sequence = 2, msg_Payload = [1, 2]\<rparr>) = Ok bm \<and>
    ToBytes (MessageEmpty \<lparr>empty_Cmds = Some (NewCommands demo_geo), empty_Sequence = 2\<rparr>) = Ok be \<and>
    length ba = length be \<and> length bm = length be"
  by (rule message_replies_same_length [of demo_geo toy_prims])
     (simp_all add: geo_has_surb_def demo_geo_def SURBIDLength_def)

text \<open>
  the wire format is unambiguous: two commands a peer may send that have the same bytes
  are the same command for the receiver.
\<close>

theorem ToBytes_unambiguous:
  assumes "sendable P g a" "sendable P g a'" "ToBytes a = ToBytes a'"
  shows "wire_view a = wire_view a'"
  using assms by (rule wire.enc_unambiguous)

theorem ToBytes_unambiguous_witness:
  "wire_view (GetConsensus 4) = wire_view (GetConsensus 4)"
  by (rule ToBytes_unambiguous [of toy_prims demo_geo])
     (simp_all add: sendable_def wire_lengths)

end
