(* ===== verification/Epoch_Time.thy ===== *)
theory Epoch_Time
  imports Mix_Prelude
begin

text \<open>
  Epoch arithmetic (\<^verbatim>\<open>src/core/epochtime/time.go\<close>).  Instants are integers, in nanoseconds since the Unix
  epoch; a \<^verbatim>\<open>time.Duration\<close> is a signed 64-bit count of nanoseconds, so products of durations wrap and
  \<^verbatim>\<open>Time.Sub\<close> saturates.
\<close>

definition int64_max :: int where "int64_max = 2 ^ 63 - 1"
definition int64_min :: int where "int64_min = - (2 ^ 63)"

definition wrap64 :: "int \<Rightarrow> int" where
  "wrap64 x = (x + 2 ^ 63) mod 2 ^ 64 - 2 ^ 63"

definition sat64 :: "int \<Rightarrow> int" where
  "sat64 x = max int64_min (min int64_max x)"

text \<open>\<^verbatim>\<open>Period\<close> is 20 minutes, or 2 minutes in builds with \<^verbatim>\<open>WarpedEpoch\<close>.\<close>

definition Period :: "bool \<Rightarrow> int" where
  "Period warped = (if warped then 2 else 20) * 60 * 1000000000"

definition Epoch :: int where
  "Epoch = 1496275200 * 1000000000"

definition unix_time :: "int \<Rightarrow> int" where
  "unix_time s = s * 1000000000"

definition getEpoch :: "bool \<Rightarrow> int \<Rightarrow> (unit, u64 \<times> int \<times> int) outcome" where
  "getEpoch w t =
     (let fromEpoch = sat64 (t - Epoch)
      in if fromEpoch < 0 then Panic
         else
           let current = fromEpoch div Period w;
               base = Epoch + wrap64 (current * Period w);
               elapsed = sat64 (t - base);
               till = sat64 (base + Period w - t)
           in Ok (word_of_int current, elapsed, till))"

definition FromUnix :: "bool \<Rightarrow> int \<Rightarrow> (unit, u64 \<times> int \<times> int) outcome" where
  "FromUnix w t = getEpoch w (unix_time t)"

definition IsInEpoch :: "bool \<Rightarrow> u64 \<Rightarrow> u64 \<Rightarrow> bool" where
  "IsInEpoch w e t =
     (let deltaStart = wrap64 (sint e * Period w);
          deltaEnd = wrap64 (sint (e + 1) * Period w);
          startTime = Epoch + deltaStart;
          endTime = Epoch + deltaEnd;
          tt = unix_time (sint t)
      in if tt = startTime then True else startTime < tt \<and> tt < endTime)"

section \<open>Lemmas\<close>

lemma wrap64_id: "int64_min \<le> x \<Longrightarrow> x \<le> int64_max \<Longrightarrow> wrap64 x = x"
  by (simp add: wrap64_def int64_min_def int64_max_def)

lemma sat64_id: "int64_min \<le> x \<Longrightarrow> x \<le> int64_max \<Longrightarrow> sat64 x = x"
  by (simp add: sat64_def)

lemma Period_pos: "0 < Period w" "Period w \<le> 1200000000000"
  by (simp_all add: Period_def)

lemma getEpoch_eq:
  assumes "Epoch \<le> t" "t - Epoch \<le> int64_max"
  shows "getEpoch w t = Ok (word_of_int ((t - Epoch) div Period w), (t - Epoch) mod Period w,
    Period w - (t - Epoch) mod Period w)"
proof -
  define d where "d = t - Epoch"
  define c where "c = d div Period w"
  have d: "0 \<le> d" "d \<le> int64_max" using assms by (simp_all add: d_def)
  have m: "0 \<le> d mod Period w" "d mod Period w < Period w" "c * Period w + d mod Period w = d"
    using Period_pos [of w] by (simp_all add: c_def)
  have c: "0 \<le> c" using d(1) Period_pos [of w] by (simp add: c_def pos_imp_zdiv_nonneg_iff)
  have "0 \<le> c * Period w" "c * Period w \<le> d" using c Period_pos(1) [of w] m by simp_all
  then have "wrap64 (c * Period w) = c * Period w"
    using d(2) by (intro wrap64_id) (simp_all add: int64_min_def)
  moreover have "sat64 d = d" using d by (intro sat64_id) (simp_all add: int64_min_def)
  moreover have "sat64 x = x" if "0 \<le> x" "x \<le> Period w" for x
    using that Period_pos [of w] by (intro sat64_id) (simp_all add: int64_min_def int64_max_def)
  from this [of "d mod Period w"] this [of "Period w - d mod Period w"]
  have "sat64 (d mod Period w) = d mod Period w"
    "sat64 (Period w - d mod Period w) = Period w - d mod Period w"
    using m(1,2) by linarith+
  moreover have s: "t - (Epoch + c * Period w) = d mod Period w"
    "Epoch + c * Period w + Period w - t = Period w - d mod Period w"
    using m(3) by (simp_all add: d_def)
  moreover have "\<not> d < 0" using d by simp
  ultimately show ?thesis
    unfolding getEpoch_def Let_def d_def [symmetric]
    by (simp only: c_def [symmetric] s if_False)
qed

lemma getEpoch_before: "t < Epoch \<Longrightarrow> getEpoch w t = Panic"
  by (simp add: getEpoch_def sat64_def int64_min_def)

lemma div_eq_bounds:
  assumes "0 < (p::int)"
  shows "x div p = c \<longleftrightarrow> c * p \<le> x \<and> x < (c + 1) * p"
proof
  assume "x div p = c"
  then have "c * p + x mod p = x" by (metis div_mult_mod_eq)
  with pos_mod_sign [OF assms, of x] pos_mod_bound [OF assms, of x]
  show "c * p \<le> x \<and> x < (c + 1) * p" by (simp add: distrib_right)
next
  assume *: "c * p \<le> x \<and> x < (c + 1) * p"
  then have "x - c * p < p" "0 \<le> x - c * p" by (simp_all add: distrib_right)
  then have "(x - c * p + c * p) div p = c"
    using assms by (subst div_mult_self1) simp_all
  then show "x div p = c" by simp
qed

lemma epoch_count:
  assumes "0 \<le> d" "d < 2 ^ 63"
  shows "uint (word_of_int (d div Period w) :: u64) = d div Period w"
proof -
  have "d div Period w \<le> d div 1" using assms(1) Period_pos [of w] by (intro zdiv_mono2) auto
  moreover have "0 \<le> d div Period w" using assms(1) Period_pos [of w] by (simp add: pos_imp_zdiv_nonneg_iff)
  ultimately show ?thesis using assms(2) by (simp add: uint_word_of_int)
qed

lemma sint_small: "uint (e::u64) < 2 ^ 63 \<Longrightarrow> sint e = uint e"
  unfolding sint_uint
  by (rule signed_take_bit_int_eq_self) (use order_trans [OF _ uint_nonnegative [of e]] in simp_all)

lemma epoch_agree:
  assumes e: "(uint e + 1) * Period w \<le> int64_max"
    and t: "uint t < 2 ^ 63" "Epoch \<le> unix_time (uint t)" "unix_time (uint t) - Epoch \<le> int64_max"
  shows "IsInEpoch w e t \<longleftrightarrow> (\<exists>elapsed till. FromUnix w (sint t) = Ok (e, elapsed, till))"
proof -
  define d where "d = unix_time (uint t) - Epoch"
  have st: "sint t = uint t" using sint_small [OF t(1)] .
  have p: "60 * 1000000000 < Period w" by (simp add: Period_def)
  have "uint e + 1 \<le> (uint e + 1) * Period w"
    using p uint_nonnegative [of e] by (subst mult_le_cancel_left1) linarith
  then have es: "uint e + 1 < 2 ^ 63" using e unfolding int64_max_def by linarith
  then have e1: "uint (e + 1) = uint e + 1" by (simp add: uint_word_ariths)
  have se: "sint e = uint e" "sint (e + 1) = uint e + 1"
    using sint_small [of e] sint_small [of "e + 1"] es e1 by simp_all
  have "0 \<le> uint e * Period w" "uint e * Period w \<le> (uint e + 1) * Period w"
    using p uint_nonnegative [of e] by (simp_all add: distrib_right)
  then have w: "wrap64 (uint e * Period w) = uint e * Period w"
    "wrap64 ((uint e + 1) * Period w) = (uint e + 1) * Period w"
    using e by (intro wrap64_id; simp add: int64_min_def)+
  have in_iff: "IsInEpoch w e t \<longleftrightarrow> uint e * Period w \<le> d \<and> d < (uint e + 1) * Period w"
  proof -
    have "IsInEpoch w e t \<longleftrightarrow> unix_time (uint t) = Epoch + uint e * Period w \<or>
      Epoch + uint e * Period w < unix_time (uint t) \<and> unix_time (uint t) < Epoch + (uint e + 1) * Period w"
      by (simp only: IsInEpoch_def Let_def se w st) auto
    moreover have "uint e * Period w < (uint e + 1) * Period w" using p by (simp add: distrib_right)
    ultimately show ?thesis unfolding d_def by linarith
  qed
  have g: "FromUnix w (sint t) = Ok (word_of_int (d div Period w), d mod Period w, Period w - d mod Period w)"
    using getEpoch_eq [OF t(2,3)] by (simp add: FromUnix_def st d_def)
  have dd: "0 \<le> d" "d < 2 ^ 63" using t by (simp_all add: d_def int64_max_def)
  then have "word_of_int (d div Period w) = e \<longleftrightarrow> d div Period w = uint e"
    using epoch_count [OF dd, of w] by (metis word_of_int_uint)
  then show ?thesis
    using g in_iff div_eq_bounds [of "Period w" d "uint e"] p by auto
qed

section \<open>Properties\<close>

text \<open>
  for a time in the first 292 years of the network, \<^verbatim>\<open>getEpoch\<close> splits the time since the start into
  whole epochs, the time elapsed in the current epoch and the time left in it.
\<close>

theorem getEpoch_splits:
  assumes "Epoch \<le> t" "t - Epoch \<le> int64_max"
  shows "\<exists>current elapsed till. getEpoch w t = Ok (current, elapsed, till) \<and>
    t = Epoch + uint current * Period w + elapsed \<and> 0 \<le> elapsed \<and> elapsed < Period w \<and>
    elapsed + till = Period w"
proof -
  define d where "d = t - Epoch"
  have d: "0 \<le> d" "d < 2 ^ 63" using assms by (simp_all add: d_def int64_max_def)
  have u: "uint (word_of_int (d div Period w) :: u64) = d div Period w" using epoch_count [OF d] .
  have "t = Epoch + (d div Period w * Period w + d mod Period w)"
    unfolding div_mult_mod_eq by (simp add: d_def)
  then have "t = Epoch + uint (word_of_int (d div Period w) :: u64) * Period w + d mod Period w"
    unfolding u by (simp only: add.assoc)
  moreover have "getEpoch w t = Ok (word_of_int (d div Period w), d mod Period w, Period w - d mod Period w)"
    using getEpoch_eq [OF assms] by (simp only: d_def)
  moreover have "0 \<le> d mod Period w" "d mod Period w < Period w" using Period_pos(1) [of w] by simp_all
  ultimately show ?thesis by (intro exI conjI) (assumption | simp)+
qed

theorem getEpoch_splits_witness:
  "\<exists>current elapsed till. getEpoch False (Epoch + 5) = Ok (current, elapsed, till) \<and>
    Epoch + 5 = Epoch + uint current * Period False + elapsed \<and> 0 \<le> elapsed \<and> elapsed < Period False \<and>
    elapsed + till = Period False"
  by (rule getEpoch_splits) (simp_all add: int64_max_def)

text \<open>
  \<^verbatim>\<open>IsInEpoch\<close> and \<^verbatim>\<open>FromUnix\<close> agree: a Unix time lies in epoch \<open>e\<close> exactly when \<open>e\<close> is the epoch
  computed from it, for epochs and times whose distance from the start fits a \<^verbatim>\<open>Duration\<close>.
\<close>

theorem IsInEpoch_FromUnix:
  assumes "(uint e + 1) * Period w \<le> int64_max"
    and "uint t < 2 ^ 63" "Epoch \<le> unix_time (uint t)" "unix_time (uint t) - Epoch \<le> int64_max"
  shows "IsInEpoch w e t \<longleftrightarrow> (\<exists>elapsed till. FromUnix w (sint t) = Ok (e, elapsed, till))"
  by (rule epoch_agree [OF assms])

theorem IsInEpoch_FromUnix_witness:
  "IsInEpoch False 1 1496276400 \<longleftrightarrow>
     (\<exists>elapsed till. FromUnix False (sint (1496276400 :: u64)) = Ok (1, elapsed, till))"
  by (rule IsInEpoch_FromUnix) (simp_all add: Period_def int64_max_def Epoch_def unix_time_def)

end
