(* ===== verification/Voting_State.thy ===== *)
theory Voting_State
  imports Topology_Gen Wire_Commands Epoch_Time
begin

text \<open>
  The state of a voting authority and what it computes from it
  (\<^verbatim>\<open>src/authority/voting/server/state.go\<close>): its own vote, the commit and reveal, the tally of the votes,
  the verification of the commits, the shared random value, the certificate, its view of the consensus,
  and the consensus that a threshold of authorities signed.

  A method runs under the state's lock, so it is a function from the state to a result and the new
  state; \<open>None\<close> is a panic, and a returned error is \<open>Inl\<close>, together with the state as it is at that
  point.  Clock readings and random bytes are arguments; within one call the epoch does not change.
  A fatal error that is sent to the server's channel sets \<open>st_fatal\<close>.  Logging and the network
  calls that send a result to the peers are left out.
\<close>

section \<open>Data\<close>

datatype phase = Bootstrap | AcceptDescriptor | AcceptVote | AcceptReveal | AcceptCert | AcceptSignature

text \<open>The parts of the server and its configuration that the state uses.\<close>

record server =
  s_lib :: pki_lib
  s_chacha :: "bytes \<Rightarrow> nat \<Rightarrow> byte"
  identityPrivateKey :: privateKey
  identityPublicKey :: publicKey
  cfg_Parameters :: Parameters
  cfg_Topology :: "bytes list list option"
  cfg_Layers :: nat
  cfg_MinNodesPerLayer :: nat
  cfg_Authorities :: "(publicKey \<times> bytes) list"     \<comment> \<open>identity and link key\<close>
  cfg_Mixes :: "publicKey list"
  cfg_Providers :: "(publicKey \<times> string) list"      \<comment> \<open>identity and identifier\<close>
  geo_Hash :: bytes
  warpedEpoch :: bool
  dbWritable :: bool

text \<open>The peer tables, which never change after \<^verbatim>\<open>newState\<close>.\<close>

record peer_tables =
  verifiers :: "(bytes, publicKey) gomap"
  threshold :: int
  dissenters :: int
  reverseHash :: "(bytes, publicKey) gomap"
  authorizedMixes :: "(bytes, bool) gomap"
  authorizedProviders :: "(bytes, string) gomap"
  authorizedAuthorities :: "(bytes, bool) gomap"
  authorityLinkKeys :: "(bytes, bytes) gomap"

record state = peer_tables +
  documents :: "(u64, Document) gomap"
  myconsensus :: "(u64, Document) gomap"
  descriptors :: "(u64, (bytes, MixDescriptor) gomap) gomap"
  votes :: "(u64, (bytes, Document) gomap) gomap"
  certificates :: "(u64, (bytes, Document) gomap) gomap"
  st_signatures :: "(u64, (bytes, Signature) gomap) gomap"
  priorSRV :: "bytes list"
  reveals :: "(u64, (bytes, bytes) gomap) gomap"
  commits :: "(u64, (bytes, bytes) gomap) gomap"
  votingEpoch :: u64
  genesisEpoch :: u64
  st_phase :: phase
  db_documents :: "(u64, bytes) gomap"
  db_descriptors :: "(u64, (bytes, bytes) gomap) gomap"
  st_fatal :: bool

datatype voting_error = VPki pki_error | VRandom | VAlreadyPresent | VNoCertificates | VTooFewCertificates
  | VTooFewCommits | VInsufficientCommits | VNoVotes | VNotEnoughVotes | VConsensusFailure
  | VNoView | VNoConsensus | VGone | VNotYet | VInvalidEpoch | VConflict | VLate

section \<open>Computations on the state\<close>

type_synonym 'a vm = "state \<Rightarrow> ((voting_error + 'a) \<times> state) option"

definition vret :: "'a \<Rightarrow> 'a vm" where
  "vret x s = Some (Inr x, s)"

definition vfail :: "voting_error \<Rightarrow> 'a vm" where
  "vfail e s = Some (Inl e, s)"

definition vbind :: "'a vm \<Rightarrow> ('a \<Rightarrow> 'b vm) \<Rightarrow> 'b vm" where
  "vbind f g s = (case f s of
     None \<Rightarrow> None
   | Some (Inl e, s') \<Rightarrow> Some (Inl e, s')
   | Some (Inr x, s') \<Rightarrow> g x s')"

definition vmod :: "(state \<Rightarrow> state) \<Rightarrow> unit vm" where
  "vmod f s = Some (Inr (), f s)"

definition vget :: "(state \<Rightarrow> 'a) \<Rightarrow> 'a vm" where
  "vget f s = Some (Inr (f s), s)"

definition vcall :: "('e \<Rightarrow> voting_error) \<Rightarrow> ('e, 'a) outcome \<Rightarrow> 'a vm" where
  "vcall h r s = (case r of Ok x \<Rightarrow> Some (Inr x, s) | Fail e \<Rightarrow> Some (Inl (h e), s) | Panic \<Rightarrow> None)"

definition vpanic :: "'a vm" where
  "vpanic s = None"

text \<open>Maps of maps: reading a missing inner map is reading an empty one; writing creates it.\<close>

definition inner :: "('e, ('k, 'v) gomap) gomap \<Rightarrow> 'e \<Rightarrow> ('k, 'v) gomap" where
  "inner m e = (case gm_get m e of None \<Rightarrow> [] | Some x \<Rightarrow> x)"

definition ensure :: "('e, ('k, 'v) gomap) gomap \<Rightarrow> 'e \<Rightarrow> ('e, ('k, 'v) gomap) gomap" where
  "ensure m e = (if gm_has m e then m else gm_put m e [])"

definition put2 :: "('e, ('k, 'v) gomap) gomap \<Rightarrow> 'e \<Rightarrow> 'k \<Rightarrow> 'v \<Rightarrow> ('e, ('k, 'v) gomap) gomap" where
  "put2 m e k v = gm_put m e (gm_put (inner m e) k v)"

definition identityPubKeyHash :: "server \<Rightarrow> bytes" where
  "identityPubKeyHash S = pk_Sum256 (identityPublicKey S)"

definition getVerifiers :: "'a peer_tables_scheme \<Rightarrow> publicKey list" where
  "getVerifiers s = map snd (verifiers s)"

definition weekOfEpochs :: "server \<Rightarrow> u64" where
  "weekOfEpochs S = of_int (7 * 24 * 60 * 60 * 1000000000 div Period (warpedEpoch S))"

section \<open>Start-up\<close>

definition newTables :: "server \<Rightarrow> peer_tables" where
  "newTables S =
     (let vs = gm_put (fold (\<lambda>(pk, _) m. gm_put m (pk_Sum256 pk) pk) (cfg_Authorities S) [])
                 (pk_Sum256 (identityPublicKey S)) (identityPublicKey S);
          rh0 = fold (\<lambda>pk m. gm_put m (pk_Sum256 pk) pk) (cfg_Mixes S) [];
          rh1 = fold (\<lambda>(pk, _) m. gm_put m (pk_Sum256 pk) pk) (cfg_Providers S) rh0;
          rh2 = fold (\<lambda>(pk, _) m. gm_put m (pk_Sum256 pk) pk) (cfg_Authorities S) rh1
      in \<lparr>verifiers = vs,
          threshold = int (length vs) div 2 + 1,
          dissenters = int (length (cfg_Authorities S)) div 2 - 1,
          reverseHash = gm_put rh2 (pk_Sum256 (identityPublicKey S)) (identityPublicKey S),
          authorizedMixes = fold (\<lambda>pk m. gm_put m (pk_Sum256 pk) True) (cfg_Mixes S) [],
          authorizedProviders = fold (\<lambda>(pk, n) m. gm_put m (pk_Sum256 pk) n) (cfg_Providers S) [],
          authorizedAuthorities = fold (\<lambda>(pk, _) m. gm_put m (pk_Sum256 pk) True) (cfg_Authorities S) [],
          authorityLinkKeys = fold (\<lambda>(pk, lk) m. gm_put m (pk_Sum256 pk) lk) (cfg_Authorities S) []\<rparr>)"

definition emptyState :: "server \<Rightarrow> state" where
  "emptyState S = peer_tables.extend (newTables S)
     \<lparr>documents = [], myconsensus = [], descriptors = [], votes = [], certificates = [], st_signatures = [],
      priorSRV = [], reveals = [], commits = [], votingEpoch = 0, genesisEpoch = 0, st_phase = Bootstrap,
      db_documents = [], db_descriptors = [], st_fatal = False\<rparr>"

section \<open>Building a document\<close>

definition isDescriptorAuthorized :: "'a peer_tables_scheme \<Rightarrow> MixDescriptor \<Rightarrow> ('e, bool) outcome" where
  "isDescriptorAuthorized s desc =
     obind (id_Sum256 desc) (\<lambda>pk.
     if \<not> Provider desc then Ok (gm_get (authorizedMixes s) pk = Some True)
     else (case gm_get (authorizedProviders s) pk of None \<Rightarrow> Ok False | Some name \<Rightarrow> Ok (name = Name desc)))"

definition hasEnoughDescriptors :: "server \<Rightarrow> (bytes, MixDescriptor) gomap \<Rightarrow> bool" where
  "hasEnoughDescriptors S m =
     (let nrProviders = length (filter (\<lambda>(_, v). Provider v) m) in
      0 < nrProviders \<and> cfg_Layers S * cfg_MinNodesPerLayer S \<le> length m - nrProviders)"

text \<open>Without a reader (a shared random value of the wrong length) the code reports a fatal error and
  then calls a method of the nil reader.\<close>

definition newTopology :: "server \<Rightarrow> state \<Rightarrow> MixDescriptor list \<Rightarrow> bytes \<Rightarrow> (unit, MixDescriptor list list) outcome" where
  "newTopology S s nodes srv =
     (case cfg_Topology S of
        Some layers \<Rightarrow> generateFixedTopology layers nodes
      | None \<Rightarrow> (case NewDeterministicRandReader (s_chacha S) srv of
          Ok rng \<Rightarrow> (case gm_get (documents s) (votingEpoch s - 1) of
              Some d \<Rightarrow> generateTopology det_Perm rng (cfg_Layers S) nodes d
            | None \<Rightarrow> generateRandomTopology det_Perm rng (cfg_Layers S) nodes)
        | _ \<Rightarrow> Panic))"

definition getDocument ::
  "server \<Rightarrow> state \<Rightarrow> MixDescriptor list \<Rightarrow> Parameters \<Rightarrow> bytes \<Rightarrow> (unit, Document) outcome" where
  "getDocument S s descs params srv =
     obind (newTopology S s (filter (\<lambda>v. \<not> Provider v) descs) srv) (\<lambda>topology.
       Ok (Parameters.extend params \<lparr>doc_Epoch = votingEpoch s, GenesisEpoch = genesisEpoch s,
         Topology = topology, Providers = filter Provider descs, doc_Signatures = [],
         SharedRandomCommit = [], SharedRandomReveal = [], SharedRandomValue = srv,
         PriorSharedRandom = priorSRV s, SphinxGeometryHash = geo_Hash S, doc_Version = ''''\<rparr>))"

definition doSignDocument :: "server \<Rightarrow> u64 \<Rightarrow> Document \<Rightarrow> Document vm" where
  "doSignDocument S now d =
     vbind (vcall VPki (SignDocument (s_lib S) now (identityPrivateKey S) (identityPublicKey S) d))
       (\<lambda>(_, d'). vret d')"

section \<open>Votes, commits and reveals\<close>

definition signOwn :: "server \<Rightarrow> u64 \<Rightarrow> bytes \<Rightarrow> u64 \<Rightarrow> bytes vm" where
  "signOwn S now data expiration =
     vcall (\<lambda>e. VPki (ErrCert e)) (Sign (pl_prims (s_lib S)) (pl_cbor (s_lib S)) now
       (identityPrivateKey S) (identityPublicKey S) data expiration)"

definition doCommit :: "server \<Rightarrow> u64 \<Rightarrow> bytes option \<Rightarrow> u64 \<Rightarrow> bytes vm" where
  "doCommit S now rand epoch =
     vbind (vcall (\<lambda>_. VRandom) (sr_Commit (pl_prims (s_lib S)) rand newSharedRandom epoch)) (\<lambda>(srv, commit).
     vbind (signOwn S now commit epoch) (\<lambda>signedCommit.
     vbind (signOwn S now (sr_reveal srv) epoch) (\<lambda>signedReveal.
     vbind (vmod (\<lambda>s. s\<lparr>commits := put2 (commits s) epoch (identityPubKeyHash S) signedCommit,
                       reveals := put2 (reveals s) epoch (identityPubKeyHash S) signedReveal\<rparr>)) (\<lambda>_.
       vret signedCommit))))"

definition getVote :: "server \<Rightarrow> u64 \<Rightarrow> bytes option \<Rightarrow> u64 \<Rightarrow> Document vm" where
  "getVote S now rand epoch =
     vbind (vmod (\<lambda>s. case gm_get (documents s) (votingEpoch s - 1) of
        Some d \<Rightarrow> s\<lparr>genesisEpoch := GenesisEpoch d, priorSRV := PriorSharedRandom d\<rparr>
      | None \<Rightarrow> s\<lparr>genesisEpoch := votingEpoch s\<rparr>)) (\<lambda>_.
     vbind (\<lambda>s. vcall (\<lambda>_. VPki ErrCodec)
        (getDocument S s (map snd (inner (descriptors s) epoch)) (cfg_Parameters S) (zeros 32)) s) (\<lambda>vote.
     vbind (doCommit S now rand epoch) (\<lambda>signedCommit.
     vbind (doSignDocument S now (vote\<lparr>SharedRandomCommit := [(identityPubKeyHash S, signedCommit)]\<rparr>)) (\<lambda>vote'.
     vbind (vmod (\<lambda>s. s\<lparr>votes := ensure (votes s) epoch\<rparr>)) (\<lambda>_.
     vbind (vget votes) (\<lambda>vs.
     if gm_has (inner vs epoch) (identityPubKeyHash S) then vfail VAlreadyPresent
     else vbind (vmod (\<lambda>s. s\<lparr>votes := put2 (votes s) epoch (identityPubKeyHash S) vote'\<rparr>)) (\<lambda>_.
       vret vote')))))))"

definition st_reveal :: "server \<Rightarrow> u64 \<Rightarrow> bytes vm" where
  "st_reveal S epoch s =
     (case gm_get (inner (reveals s) epoch) (identityPubKeyHash S) of
        None \<Rightarrow> Some (Inr [], s\<lparr>st_fatal := True\<rparr>)
      | Some b \<Rightarrow> Some (Inr b, s))"

section \<open>Tallying the votes\<close>

text \<open>
  The parameters of a vote are counted by their \<^verbatim>\<open>gob\<close> encoding and decoded again.  The encoding
  leaves out fields that compare equal to zero, so a negative zero comes back as zero; it is otherwise
  faithful.
\<close>

definition gobFloat :: "u64 \<Rightarrow> u64" where
  "gobFloat w = (if w = 0x8000000000000000 then 0 else w)"

definition gobParameters :: "Parameters \<Rightarrow> Parameters" where
  "gobParameters p = p\<lparr>Mu := gobFloat (Mu p), LambdaP := gobFloat (LambdaP p), LambdaL := gobFloat (LambdaL p),
     LambdaD := gobFloat (LambdaD p), LambdaM := gobFloat (LambdaM p)\<rparr>"

definition voteParameters :: "Document \<Rightarrow> Parameters" where
  "voteParameters vote = Parameters.truncate vote"

definition appendTo :: "('k, 'v list) gomap \<Rightarrow> 'k \<Rightarrow> 'v \<Rightarrow> ('k, 'v list) gomap" where
  "appendTo m k v = gm_put m k ((case gm_get m k of None \<Rightarrow> [] | Some vs \<Rightarrow> vs) @ [v])"

definition tallyDescriptor ::
  "pki_lib \<Rightarrow> Document \<Rightarrow> MixDescriptor \<Rightarrow> (bytes, Document list) gomap \<Rightarrow> (pki_error, (bytes, Document list) gomap) outcome" where
  "tallyDescriptor L vote desc m = (case md_MarshalBinary L desc of
     Ok rawDesc \<Rightarrow> Ok (appendTo m rawDesc vote) | Fail _ \<Rightarrow> Ok m | Panic \<Rightarrow> Panic)"

definition tallyVote ::
  "pki_lib \<Rightarrow> bytes \<times> Document \<Rightarrow> (bytes, Document list) gomap \<times> (Parameters, Document list) gomap \<Rightarrow>
   (pki_error, (bytes, Document list) gomap \<times> (Parameters, Document list) gomap) outcome" where
  "tallyVote L e tallies = (case (e, tallies) of ((_, vote), mixTally, mixParams) \<Rightarrow>
     obind (ofold (tallyDescriptor L vote) (Providers vote @ concat (Topology vote)) mixTally) (\<lambda>mixTally'.
       Ok (mixTally', appendTo mixParams (gobParameters (voteParameters vote)) vote)))"

definition includeNode ::
  "pki_lib \<Rightarrow> u64 \<Rightarrow> 'a peer_tables_scheme \<Rightarrow> bytes \<times> Document list \<Rightarrow> MixDescriptor list \<Rightarrow>
   (pki_error, MixDescriptor list) outcome" where
  "includeNode L now s e nodes = (case e of (rawDesc, vs) \<Rightarrow>
     if threshold s \<le> int (length vs)
     then obind (md_UnmarshalBinary L now rawDesc) (\<lambda>desc.
          obind (isDescriptorAuthorized s desc) (\<lambda>ok. Ok (if ok then nodes @ [desc] else nodes)))
     else Ok nodes)"

definition tallyVotes :: "server \<Rightarrow> u64 \<Rightarrow> u64 \<Rightarrow> (MixDescriptor list \<times> Parameters) vm" where
  "tallyVotes S now epoch s =
     (if \<not> gm_has (votes s) epoch then vfail VNoVotes s
      else if int (length (inner (votes s) epoch)) < threshold s then vfail VNotEnoughVotes s
      else vbind (vcall VPki (ofold (tallyVote (s_lib S)) (inner (votes s) epoch) ([], []))) (\<lambda>(mixTally, mixParams).
           vbind (vcall VPki (ofold (includeNode (s_lib S) now s) mixTally [])) (\<lambda>nodes.
           case find (\<lambda>(_, vs). threshold s \<le> int (length vs)) mixParams of
             Some (params, _) \<Rightarrow> vret (sortNodesByPublicKey nodes, params)
           | None \<Rightarrow> vfail VConsensusFailure)) s)"

section \<open>Shared random values\<close>

text \<open>
  The authority's own certificate shares its two maps with the state: the document is built with
  \<^verbatim>\<open>s.commits[epoch]\<close> and \<^verbatim>\<open>s.reveals[epoch]\<close>, and decoding the signed form writes into these maps.
\<close>

definition certificateView :: "server \<Rightarrow> state \<Rightarrow> u64 \<Rightarrow> bytes \<times> Document \<Rightarrow> bytes \<times> Document" where
  "certificateView S s epoch e = (case e of (pk, c) \<Rightarrow>
     (pk, if pk = identityPubKeyHash S
          then c\<lparr>SharedRandomCommit := inner (commits s) epoch, SharedRandomReveal := inner (reveals s) epoch\<rparr>
          else c))"

record commit_check =
  badnodes :: "(bytes, bool) gomap"
  comitted :: "(bytes, bytes) gomap"
  revealed :: "(bytes, bytes) gomap"

definition markBad :: "bytes list \<Rightarrow> commit_check \<Rightarrow> commit_check" where
  "markBad pks k = k\<lparr>badnodes := fold (\<lambda>pk m. gm_put m pk True) pks (badnodes k)\<rparr>"

text \<open>One commit of a certificate: stop checking this certificate (\<^verbatim>\<open>break\<close>), or go on.\<close>

datatype loop_step = Break commit_check | Continue commit_check

definition recordCommit :: "bytes \<Rightarrow> bytes \<Rightarrow> commit_check \<Rightarrow> (unit, commit_check) outcome" where
  "recordCommit pk2 signedCommit k = (case gm_get (comitted k) pk2 of
     Some signedCommit2 \<Rightarrow>
       if signedCommit \<noteq> signedCommit2
       then (if length signedCommit < 32 \<or> length signedCommit2 < 32 then Panic else Ok (markBad [pk2] k))
       else Ok k
   | None \<Rightarrow> Ok (k\<lparr>comitted := gm_put (comitted k) pk2 signedCommit\<rparr>))"

definition recordReveal :: "bytes \<Rightarrow> bytes \<Rightarrow> commit_check \<Rightarrow> commit_check" where
  "recordReveal pk2 signedReveal k = (case gm_get (revealed k) pk2 of
     Some signedReveal2 \<Rightarrow> if signedReveal \<noteq> signedReveal2 then markBad [pk2] k else k
   | None \<Rightarrow> k\<lparr>revealed := gm_put (revealed k) pk2 signedReveal\<rparr>)"

definition checkPeerCommit ::
  "pki_lib \<Rightarrow> u64 \<Rightarrow> u64 \<Rightarrow> bytes \<Rightarrow> publicKey \<Rightarrow> bytes \<Rightarrow> bytes \<Rightarrow> bytes \<Rightarrow> bytes \<Rightarrow> commit_check \<Rightarrow>
   (unit, loop_step) outcome" where
  "checkPeerCommit L now epoch pk v pk2 signedCommit commit signedReveal k =
     (case cert_Verify (pl_prims L) (pl_cbor L) now v signedReveal of
        Panic \<Rightarrow> Panic
      | Fail _ \<Rightarrow> Ok (Break (markBad [pk] k))
      | Ok reveal \<Rightarrow>
          obind (sr_SetCommit newSharedRandom commit) (\<lambda>srv.
          if sr_epoch srv \<noteq> epoch then Ok (Break (markBad [pk, pk2] k))
          else obind (sr_Verify (pl_prims L) srv reveal) (\<lambda>ok.
            if \<not> ok then Ok (Break (markBad [pk, pk2] k))
            else obind (recordCommit pk2 signedCommit k) (\<lambda>k'.
              Ok (Continue (recordReveal pk2 signedReveal k'))))))"

definition checkCommitOf ::
  "pki_lib \<Rightarrow> u64 \<Rightarrow> u64 \<Rightarrow> 'a peer_tables_scheme \<Rightarrow> bytes \<Rightarrow> Document \<Rightarrow> bytes \<times> bytes \<Rightarrow> commit_check \<Rightarrow>
   (unit, loop_step) outcome" where
  "checkCommitOf L now epoch s pk certificate e k = (case e of (pk2, signedCommit) \<Rightarrow>
     if gm_has (badnodes k) pk2 then Ok (Continue k)
     else (case gm_get (reverseHash s) pk2 of
        None \<Rightarrow> Ok (Break (markBad [pk] k))
      | Some v \<Rightarrow> (case cert_Verify (pl_prims L) (pl_cbor L) now v signedCommit of
          Panic \<Rightarrow> Panic
        | Fail _ \<Rightarrow> Ok (Break (markBad [pk] k))
        | Ok commit \<Rightarrow> (case gm_get (SharedRandomReveal certificate) pk2 of
            None \<Rightarrow> Ok (Break (markBad [pk] k))
          | Some signedReveal \<Rightarrow> checkPeerCommit L now epoch pk v pk2 signedCommit commit signedReveal k))))"

fun commitLoop ::
  "pki_lib \<Rightarrow> u64 \<Rightarrow> u64 \<Rightarrow> 'a peer_tables_scheme \<Rightarrow> bytes \<Rightarrow> Document \<Rightarrow> (bytes, bytes) gomap \<Rightarrow> commit_check \<Rightarrow>
   (unit, commit_check) outcome" where
  "commitLoop L now epoch s pk certificate [] k = Ok k"
| "commitLoop L now epoch s pk certificate (e # es) k =
     obind (checkCommitOf L now epoch s pk certificate e k) (\<lambda>r. case r of
        Break k' \<Rightarrow> Ok k'
      | Continue k' \<Rightarrow> commitLoop L now epoch s pk certificate es k')"

definition checkCertificate ::
  "pki_lib \<Rightarrow> u64 \<Rightarrow> u64 \<Rightarrow> 'a peer_tables_scheme \<Rightarrow> bytes \<times> Document \<Rightarrow> commit_check \<Rightarrow> (unit, commit_check) outcome" where
  "checkCertificate L now epoch s e k = (case e of (pk, certificate) \<Rightarrow>
     if gm_has (badnodes k) pk then Ok k
     else commitLoop L now epoch s pk certificate (SharedRandomCommit certificate) k)"

definition verifyCommits ::
  "server \<Rightarrow> u64 \<Rightarrow> u64 \<Rightarrow> state \<Rightarrow> (unit, (bytes, bytes) gomap \<times> (bytes, bytes) gomap) outcome" where
  "verifyCommits S now epoch s =
     obind (ofold (checkCertificate (s_lib S) now epoch s)
         (map (certificateView S s epoch) (inner (certificates s) epoch))
         \<lparr>badnodes = [], comitted = [], revealed = []\<rparr>) (\<lambda>k.
       Ok (fold (\<lambda>(pk, _) m. gm_del m pk) (badnodes k) (comitted k),
           fold (\<lambda>(pk, _) m. gm_del m pk) (badnodes k) (revealed k)))"

text \<open>
  \<^verbatim>\<open>sort.Slice\<close> by decreasing digest; up to twelve elements it is an insertion sort, which keeps the
  order of equal ones.
\<close>

definition sortReveals :: "(bytes \<times> bytes) list \<Rightarrow> (bytes \<times> bytes) list" where
  "sortReveals xs = rev (sort_key snd (rev xs))"

definition computeSharedRandom ::
  "server \<Rightarrow> u64 \<Rightarrow> state \<Rightarrow> u64 \<Rightarrow> (bytes, bytes) gomap \<Rightarrow> (bytes, bytes) gomap \<Rightarrow> (voting_error, bytes) outcome" where
  "computeSharedRandom S now s epoch cs rs =
     (if int (length cs) < threshold s then Fail VInsufficientCommits
      else obind (omapM (\<lambda>(pk, srr). obind (omap_err (\<lambda>e. VPki (ErrCert e))
          (GetCertified (pl_cbor (s_lib S)) now srr)) (\<lambda>digest. Ok (pk, digest))) rs) (\<lambda>sortedreveals.
        Ok (blake2b_Sum256 (pl_prims (s_lib S))
          (string_bytes ''shared-random'' @ put_u64_be epoch @
           concat (map (\<lambda>(pk, digest). pk @ digest) (sortReveals sortedreveals)) @
           (case gm_get (documents s) (votingEpoch s - 1) of
              Some vot \<Rightarrow> SharedRandomValue vot | None \<Rightarrow> zeros 32)))))"

section \<open>Certificate and consensus\<close>

definition getCertificate :: "server \<Rightarrow> u64 \<Rightarrow> u64 \<Rightarrow> Document vm" where
  "getCertificate S now epoch =
     vbind (tallyVotes S now epoch) (\<lambda>(mixes, params).
     vbind (\<lambda>s. vcall (\<lambda>_. VPki ErrCodec) (getDocument S s mixes params (zeros 32)) s) (\<lambda>doc.
     vbind (vget (\<lambda>s. doc\<lparr>SharedRandomCommit := inner (commits s) epoch,
        SharedRandomReveal := inner (reveals s) epoch\<rparr>)) (\<lambda>certificate.
     vbind (vmod (\<lambda>s. if length (priorSRV s) = 0 then s\<lparr>priorSRV := [zeros 32, zeros 32]\<rparr>
        else if (genesisEpoch s - epoch) mod weekOfEpochs S = 0 then s\<lparr>priorSRV := [zeros 32, priorSRV s ! 0]\<rparr>
        else s)) (\<lambda>_.
     vbind (doSignDocument S now certificate) (\<lambda>certificate'.
     vbind (\<lambda>s. vcall VPki (IsDocumentWellFormed (s_lib S) now certificate' (getVerifiers s)) s) (\<lambda>_.
     vbind (vmod (\<lambda>s. s\<lparr>certificates := ensure (certificates s) epoch\<rparr>)) (\<lambda>_.
     vbind (vget certificates) (\<lambda>cs.
     if gm_has (inner cs epoch) (identityPubKeyHash S) then vfail VAlreadyPresent
     else vbind (vmod (\<lambda>s. s\<lparr>certificates := put2 (certificates s) epoch (identityPubKeyHash S) certificate'\<rparr>))
       (\<lambda>_. vret certificate')))))))))"

definition rotatePriorSRV :: "server \<Rightarrow> u64 \<Rightarrow> bytes \<Rightarrow> unit vm" where
  "rotatePriorSRV S epoch srv s =
     (if epoch = genesisEpoch s then Some (Inr (), s\<lparr>priorSRV := [srv, srv]\<rparr>)
      else if (genesisEpoch s - epoch) mod weekOfEpochs S = 0
      then (case priorSRV s of [] \<Rightarrow> None | p # _ \<Rightarrow> Some (Inr (), s\<lparr>priorSRV := [srv, p]\<rparr>))
      else Some (Inr (), s))"

definition getMyConsensus :: "server \<Rightarrow> u64 \<Rightarrow> u64 \<Rightarrow> Document vm" where
  "getMyConsensus S now epoch s =
     (if \<not> gm_has (certificates s) epoch then vfail VNoCertificates s
      else if int (length (inner (certificates s) epoch)) < threshold s then vfail VTooFewCertificates s
      else vbind (vcall (\<lambda>_. VPki ErrCodec) (verifyCommits S now epoch s)) (\<lambda>(cs, rs).
        if int (length cs) < threshold s then vfail VTooFewCommits
        else if length cs \<noteq> length rs then vpanic
        else vbind (vcall id (computeSharedRandom S now s epoch cs rs)) (\<lambda>srv.
          vbind (rotatePriorSRV S epoch srv) (\<lambda>_.
          vbind (tallyVotes S now epoch) (\<lambda>(mixes, params).
          vbind (\<lambda>s. vcall (\<lambda>_. VPki ErrCodec) (getDocument S s mixes params srv) s) (\<lambda>doc.
          vbind (doSignDocument S now doc) (\<lambda>consensusOfOne.
          vbind (vmod (\<lambda>s. s\<lparr>myconsensus := gm_put (myconsensus s) epoch consensusOfOne\<rparr>)) (\<lambda>_.
            vret consensusOfOne))))))) s)"

text \<open>The signatures received from the peers, each added to the consensus if it verifies.\<close>

fun addSignatures ::
  "pki_lib \<Rightarrow> u64 \<Rightarrow> 'a peer_tables_scheme \<Rightarrow> (bytes, Signature) gomap \<Rightarrow> Document \<Rightarrow> (pki_error, Document) outcome" where
  "addSignatures L now s [] d = Ok d"
| "addSignatures L now s ((pk, sig) # sigs) d =
     (case doc_AddSignature L now (gm_get (reverseHash s) pk) sig d of
        Ok d' \<Rightarrow> addSignatures L now s sigs d'
      | Fail _ \<Rightarrow> addSignatures L now s sigs d
      | Panic \<Rightarrow> Panic)"

definition persistDocument :: "server \<Rightarrow> u64 \<Rightarrow> bytes \<Rightarrow> state \<Rightarrow> state" where
  "persistDocument S epoch doc s =
     (if dbWritable S then s\<lparr>db_documents := gm_put (db_documents s) epoch doc\<rparr> else s\<lparr>st_fatal := True\<rparr>)"

definition getThresholdConsensus :: "server \<Rightarrow> u64 \<Rightarrow> u64 \<Rightarrow> Document vm" where
  "getThresholdConsensus S now epoch s =
     (case gm_get (myconsensus s) epoch of
        None \<Rightarrow> vfail VNoView s
      | Some ourConsensus \<Rightarrow>
          vbind (vcall VPki (addSignatures (s_lib S) now s (inner (st_signatures s) epoch) ourConsensus)) (\<lambda>d.
          vbind (vmod (\<lambda>s. s\<lparr>myconsensus := gm_put (myconsensus s) epoch d\<rparr>)) (\<lambda>_.
          vbind (vcall VPki (doc_MarshalBinary (s_lib S) d)) (\<lambda>(signedConsensus, d').
          vbind (vmod (\<lambda>s. s\<lparr>myconsensus := gm_put (myconsensus s) epoch d'\<rparr>)) (\<lambda>_.
          vbind (vcall (\<lambda>e. VPki (ErrCert e)) (VerifyThreshold (pl_prims (s_lib S)) (pl_cbor (s_lib S)) now
             (getVerifiers s) (threshold s) signedConsensus)) (\<lambda>r.
          if vt_err r = None
          then vbind (vmod (\<lambda>s. (persistDocument S epoch signedConsensus s)\<lparr>documents := gm_put (documents s) epoch d'\<rparr>))
                 (\<lambda>_. vret d')
          else vfail VNoConsensus))))) s)"

end
