(* ===== verification/Voting_Uploads.thy ===== *)
theory Voting_Uploads
  imports Voting_State
begin

text \<open>
  How a voting authority handles what its peers upload: votes, reveals, certificates and signatures
  of other authorities (\<^verbatim>\<open>onVoteUpload\<close>, \<^verbatim>\<open>onRevealUpload\<close>, \<^verbatim>\<open>onCertUpload\<close>, \<^verbatim>\<open>onSigUpload\<close> of
  \<^verbatim>\<open>src/authority/voting/server/state.go\<close>) and descriptors of mixes and providers
  (\<^verbatim>\<open>onDescriptorUpload\<close>), with the dispatch of a received command by the kind of peer
  (\<^verbatim>\<open>src/authority/voting/server/wire_handler.go\<close>).

  A handler returns the status code and the new state; \<open>None\<close> is a panic.  The four uploads of
  authorities share one contract, the locale \<open>upload_handler\<close>.
\<close>

section \<open>Uploads of authorities\<close>

type_synonym handler = "upload \<Rightarrow> state \<Rightarrow> (u8 \<times> state) option"

definition up_hash :: "upload \<Rightarrow> bytes" where
  "up_hash u = pk_Sum256 (up_PublicKey u)"

definition up_verify :: "server \<Rightarrow> u64 \<Rightarrow> upload \<Rightarrow> (cert_error, bytes) outcome" where
  "up_verify S now u = cert_Verify (pl_prims (s_lib S)) (pl_cbor (s_lib S)) now (up_PublicKey u) (up_Payload u)"

definition onCertUpload :: "server \<Rightarrow> u64 \<Rightarrow> handler" where
  "onCertUpload S now u s =
     (let pk = up_hash u; e = votingEpoch s in
      if \<not> gm_has (authorizedAuthorities s) pk then Some (CertNotAuthorized, s)
      else if up_Epoch u < e then Some (CertTooEarly, s)
      else if e < up_Epoch u then Some (CertTooLate, s)
      else (case up_verify S now u of Panic \<Rightarrow> None | Fail _ \<Rightarrow> Some (CertNotSigned, s)
        | Ok _ \<Rightarrow> (case ParseDocument (s_lib S) now (up_Payload u) of Panic \<Rightarrow> None | Fail _ \<Rightarrow> Some (CertNotSigned, s)
        | Ok doc \<Rightarrow>
          if \<not> gm_has (inner (votes s) e) pk then Some (CertTooEarly, s)
          else let s' = s\<lparr>certificates := ensure (certificates s) e\<rparr> in
            if gm_has (inner (certificates s') e) pk then Some (CertAlreadyReceived, s')
            else Some (CertOk, s'\<lparr>certificates := put2 (certificates s') e pk doc\<rparr>))))"

definition epochFromBytes :: "bytes \<Rightarrow> (unit, u64) outcome" where
  "epochFromBytes b = (if length b < 8 then Panic else Ok (get_u64_be (take 8 b)))"

definition onRevealUpload :: "server \<Rightarrow> u64 \<Rightarrow> handler" where
  "onRevealUpload S now u s =
     (let pk = up_hash u; ve = votingEpoch s in
      if \<not> gm_has (authorizedAuthorities s) pk then Some (RevealNotAuthorized, s)
      else (case up_verify S now u of Panic \<Rightarrow> None | Fail _ \<Rightarrow> Some (RevealNotSigned, s)
        | Ok certified \<Rightarrow> (case epochFromBytes certified of
            Ok e \<Rightarrow>
              if e < ve then Some (RevealTooLate, s)
              else if ve < e then Some (RevealTooEarly, s)
              else if \<not> gm_has (commits s) ve then Some (RevealTooEarly, s)
              else if \<not> gm_has (inner (commits s) ve) pk then Some (RevealTooEarly, s)
              else let s' = s\<lparr>reveals := ensure (reveals s) ve\<rparr> in
                if gm_has (inner (reveals s') ve) pk then Some (RevealAlreadyReceived, s')
                else Some (RevealOk, s'\<lparr>reveals := put2 (reveals s') ve pk (up_Payload u)\<rparr>)
          | _ \<Rightarrow> None)))"

definition onVoteUpload :: "server \<Rightarrow> u64 \<Rightarrow> handler" where
  "onVoteUpload S now u s =
     (let pk = up_hash u; e = votingEpoch s in
      if \<not> gm_has (authorizedAuthorities s) pk then Some (VoteNotAuthorized, s)
      else if up_Epoch u < e then Some (VoteTooEarly, s)
      else if e < up_Epoch u then Some (VoteTooLate, s)
      else let s' = s\<lparr>votes := ensure (votes s) e, commits := ensure (commits s) e\<rparr> in
        if gm_has (inner (votes s') e) pk then Some (VoteAlreadyReceived, s')
        else (case up_verify S now u of Panic \<Rightarrow> None | Fail _ \<Rightarrow> Some (VoteNotSigned, s')
          | Ok _ \<Rightarrow> (case ParseDocument (s_lib S) now (up_Payload u) of Panic \<Rightarrow> None | Fail _ \<Rightarrow> Some (VoteNotSigned, s')
          | Ok doc \<Rightarrow>
            if doc_Epoch doc \<noteq> e then Some (VoteMalformed, s')
            else (case gm_get (SharedRandomCommit doc) pk of
                None \<Rightarrow> Some (VoteMalformed, s')
              | Some commit \<Rightarrow> Some (VoteOk, s'\<lparr>votes := put2 (votes s') e pk doc,
                  commits := put2 (commits s') e pk commit\<rparr>)))))"

definition dupSig :: "upload \<Rightarrow> state \<Rightarrow> bool" where
  "dupSig u s = gm_has (inner (st_signatures s) (votingEpoch s)) (up_hash u)"

definition dupVote :: "upload \<Rightarrow> state \<Rightarrow> bool" where
  "dupVote u s = gm_has (inner (votes s) (votingEpoch s)) (up_hash u)"

definition onSigUpload :: "server \<Rightarrow> u64 \<Rightarrow> handler" where
  "onSigUpload S now u s =
     (let pk = up_hash u; e = votingEpoch s in
      if up_Epoch u < e then Some (SigTooEarly, s)
      else if e < up_Epoch u then Some (SigTooLate, s)
      else if \<not> gm_has (authorizedAuthorities s) pk then Some (SigNotAuthorized, s)
      else (case up_verify S now u of Panic \<Rightarrow> None | Fail _ \<Rightarrow> Some (SigNotSigned, s)
        | Ok verified \<Rightarrow>
          let s' = s\<lparr>st_signatures := ensure (st_signatures s) e\<rparr> in
          if \<not> dupSig u s'
          then (case sig_Unmarshal (s_lib S) verified of
              None \<Rightarrow> Some (SigInvalid, s')
            | Some csig \<Rightarrow> Some (SigOk, s'\<lparr>st_signatures := put2 (st_signatures s') e pk csig\<rparr>))
          else Some (SigAlreadyReceived, s')))"

section \<open>Descriptors\<close>

definition persistDescriptor :: "server \<Rightarrow> u64 \<Rightarrow> bytes \<Rightarrow> bytes \<Rightarrow> state \<Rightarrow> state" where
  "persistDescriptor S epoch pk rawDesc s =
     (if dbWritable S then s\<lparr>db_descriptors := put2 (db_descriptors s) epoch pk rawDesc\<rparr> else s\<lparr>st_fatal := True\<rparr>)"

definition onDescriptorUpload :: "server \<Rightarrow> bytes \<Rightarrow> MixDescriptor \<Rightarrow> u64 \<Rightarrow> unit vm" where
  "onDescriptorUpload S rawDesc desc epoch =
     vbind (vcall VPki (id_Sum256 desc)) (\<lambda>pk.
     vbind (vmod (\<lambda>s. s\<lparr>descriptors := ensure (descriptors s) epoch\<rparr>)) (\<lambda>_ s.
     case gm_get (inner (descriptors s) epoch) pk of
       Some d \<Rightarrow> vbind (vcall VPki (md_MarshalBinary (s_lib S) d)) (\<lambda>serialized.
         if serialized \<noteq> rawDesc then vfail VConflict else vret ()) s
     | None \<Rightarrow>
         if gm_has (documents s) epoch then vfail VLate s
         else vmod (\<lambda>s. (persistDescriptor S epoch pk rawDesc s)\<lparr>descriptors := put2 (descriptors s) epoch pk desc\<rparr>) s))"

section \<open>Serving documents\<close>

definition generationDeadline :: "server \<Rightarrow> int" where
  "generationDeadline S = 7 * (Period (warpedEpoch S) div 8)"

definition documentForEpoch :: "server \<Rightarrow> u64 \<Rightarrow> int \<Rightarrow> u64 \<Rightarrow> state \<Rightarrow> (voting_error, bytes) outcome" where
  "documentForEpoch S now elapsed epoch s =
     (case gm_get (documents s) epoch of
        Some d \<Rightarrow> obind (omap_err VPki (doc_MarshalBinary (s_lib S) d)) (\<lambda>(raw, _). Ok raw)
      | None \<Rightarrow>
          if epoch = now then Fail VGone
          else if epoch = now + 1 then (if generationDeadline S < elapsed then Fail VGone else Fail VNotYet)
          else if epoch < now then Fail VGone
          else Fail VInvalidEpoch)"

section \<open>Dispatch\<close>

definition PublicKeyHashSize :: nat where "PublicKeyHashSize = 32"

datatype peer_kind = IsClient | IsMix bytes | IsAuthority

text \<open>
  \<^verbatim>\<open>wireAuthenticator.IsPeerValid\<close>: what the peer's additional data and link key make it, or \<open>None\<close>
  when it is rejected.
\<close>

definition wire_IsPeerValid :: "state \<Rightarrow> bytes \<Rightarrow> bytes option \<Rightarrow> peer_kind option" where
  "wire_IsPeerValid s ad linkPub =
     (if length ad = 0 then Some IsClient
      else if length ad \<noteq> PublicKeyHashSize then None
      else if gm_has (authorizedMixes s) ad \<or> gm_has (authorizedProviders s) ad then Some (IsMix ad)
      else if gm_has (authorizedAuthorities s) ad
      then (case (gm_get (authorityLinkKeys s) ad, linkPub) of
          (Some linkKey, Some k) \<Rightarrow> if linkKey = k then Some IsAuthority else None
        | _ \<Rightarrow> None)
      else None)"

text \<open>\<^verbatim>\<open>state.IsPeerValid\<close>, for connections the authority opens itself.\<close>

definition st_IsPeerValid :: "state \<Rightarrow> bytes \<Rightarrow> (unit, bool) outcome" where
  "st_IsPeerValid s ad =
     (if length ad < PublicKeyHashSize then Panic
      else Ok (gm_has (authorizedAuthorities s) (take PublicKeyHashSize ad)))"

definition onGetConsensus :: "server \<Rightarrow> u64 \<Rightarrow> int \<Rightarrow> u64 \<Rightarrow> state \<Rightarrow> (command \<times> state) option" where
  "onGetConsensus S now elapsed epoch s =
     (case documentForEpoch S now elapsed epoch s of
        Panic \<Rightarrow> None
      | Fail e \<Rightarrow> Some (Consensus (if e = VGone then ConsensusGone else ConsensusNotFound) [], s)
      | Ok doc \<Rightarrow> Some (Consensus ConsensusOk doc, s))"

definition onPostDescriptor :: "server \<Rightarrow> u64 \<Rightarrow> u64 \<Rightarrow> bytes \<Rightarrow> bytes \<Rightarrow> state \<Rightarrow> (u8 \<times> state) option" where
  "onPostDescriptor S now epoch payload pubKeyHash s =
     (if epoch \<noteq> now - 1 \<and> epoch \<noteq> now \<and> epoch \<noteq> now + 1 then Some (DescriptorInvalid, s)
      else (case md_UnmarshalBinary (s_lib S) now payload of
          Panic \<Rightarrow> None
        | Fail _ \<Rightarrow> Some (DescriptorInvalid, s)
        | Ok desc \<Rightarrow> (case (id_Sum256 desc :: (unit, bytes) outcome, isDescriptorAuthorized s desc :: (unit, bool) outcome) of
            (Ok identityKeyHash, Ok authorized) \<Rightarrow>
              if identityKeyHash \<noteq> pubKeyHash then Some (DescriptorForbidden, s)
              else if \<not> authorized then Some (DescriptorForbidden, s)
              else (case onDescriptorUpload S payload desc epoch s of
                  None \<Rightarrow> None
                | Some (Inl _, s') \<Rightarrow> Some (DescriptorConflict, s')
                | Some (Inr _, s') \<Rightarrow> Some (DescriptorOk, s'))
          | _ \<Rightarrow> None)))"

definition reply :: "(u8 \<Rightarrow> command) \<Rightarrow> (u8 \<times> state) option \<Rightarrow> (command option \<times> state) option" where
  "reply c r = map_option (\<lambda>(code, s). (Some (c code), s)) r"

definition onClient :: "server \<Rightarrow> u64 \<Rightarrow> int \<Rightarrow> command \<Rightarrow> state \<Rightarrow> (command option \<times> state) option" where
  "onClient S now elapsed cmd s = (case cmd of
     GetConsensus e \<Rightarrow> map_option (map_prod Some id) (onGetConsensus S now elapsed e s)
   | _ \<Rightarrow> Some (None, s))"

definition onMix :: "server \<Rightarrow> u64 \<Rightarrow> int \<Rightarrow> bytes \<Rightarrow> command \<Rightarrow> state \<Rightarrow> (command option \<times> state) option" where
  "onMix S now elapsed peerIdentityKeyHash cmd s = (case cmd of
     GetConsensus e \<Rightarrow> map_option (map_prod Some id) (onGetConsensus S now elapsed e s)
   | PostDescriptor e payload \<Rightarrow> reply PostDescriptorStatus (onPostDescriptor S now e payload peerIdentityKeyHash s)
   | _ \<Rightarrow> Some (None, s))"

definition onAuthority :: "server \<Rightarrow> u64 \<Rightarrow> int \<Rightarrow> command \<Rightarrow> state \<Rightarrow> (command option \<times> state) option" where
  "onAuthority S now elapsed cmd s = (case cmd of
     GetConsensus e \<Rightarrow> map_option (map_prod Some id) (onGetConsensus S now elapsed e s)
   | Vote u \<Rightarrow> reply VoteStatus (onVoteUpload S now u s)
   | Cert u \<Rightarrow> reply CertStatus (onCertUpload S now u s)
   | Reveal u \<Rightarrow> reply RevealStatus (onRevealUpload S now u s)
   | Sig u \<Rightarrow> reply SigStatus (onSigUpload S now u s)
   | _ \<Rightarrow> Some (None, s))"

text \<open>The part of \<^verbatim>\<open>onConn\<close> between the handshake and the reply.\<close>

definition onConn ::
  "server \<Rightarrow> u64 \<Rightarrow> int \<Rightarrow> peer_kind \<Rightarrow> command \<Rightarrow> state \<Rightarrow> (command option \<times> state) option" where
  "onConn S now elapsed peer cmd s = (case peer of
     IsClient \<Rightarrow> onClient S now elapsed cmd s
   | IsMix h \<Rightarrow> onMix S now elapsed h cmd s
   | IsAuthority \<Rightarrow> onAuthority S now elapsed cmd s)"

section \<open>Lemmas: maps of maps\<close>

lemma inner_ensure [simp]: "inner (ensure m e) e' = inner m e'"
  by (auto simp: inner_def ensure_def gm_has_def)

lemma inner_ensure_fun [simp]: "inner (ensure m e) = inner m"
  by (rule ext) simp

lemma inner_put2: "inner (put2 m e k v) = (inner m)(e := gm_put (inner m e) k v)"
  by (rule ext) (simp add: inner_def put2_def)

lemma has_ensure [simp]: "gm_has (ensure m e) e' \<longleftrightarrow> e' = e \<or> gm_has m e'"
  by (auto simp: ensure_def)

section \<open>The contract of the uploads\<close>

text \<open>
  A handler files an accepted upload in a table per epoch.  It accepts only uploads of authorised
  authorities that are not in the table of the voting epoch yet, adds exactly one entry under the
  hash of the uploader's key, and leaves the table alone when it refuses.  Peers and voting epoch
  never change.
\<close>

definition same_peers :: "state \<Rightarrow> state \<Rightarrow> bool" where
  "same_peers s s' \<longleftrightarrow> peer_tables.truncate s' = peer_tables.truncate s"

lemma same_peersD:
  assumes "same_peers s s'"
  shows "verifiers s' = verifiers s" "threshold s' = threshold s" "reverseHash s' = reverseHash s"
    "authorizedMixes s' = authorizedMixes s" "authorizedProviders s' = authorizedProviders s"
    "authorizedAuthorities s' = authorizedAuthorities s" "authorityLinkKeys s' = authorityLinkKeys s"
  using assms by (simp_all add: same_peers_def peer_tables.defs)

lemma same_peers_refl [simp]: "same_peers s s"
  by (simp add: same_peers_def)

lemma same_peers_trans: "same_peers s s' \<Longrightarrow> same_peers s' s'' \<Longrightarrow> same_peers s s''"
  by (simp add: same_peers_def)

lemma same_peers_updates [simp]:
  "same_peers s (s0\<lparr>votes := a\<rparr>) = same_peers s s0" "same_peers s (s0\<lparr>commits := b\<rparr>) = same_peers s s0"
  "same_peers s (s0\<lparr>reveals := b\<rparr>) = same_peers s s0" "same_peers s (s0\<lparr>certificates := a\<rparr>) = same_peers s s0"
  "same_peers s (s0\<lparr>st_signatures := c\<rparr>) = same_peers s s0" "same_peers s (s0\<lparr>descriptors := d\<rparr>) = same_peers s s0"
  "same_peers s (s0\<lparr>documents := f\<rparr>) = same_peers s s0" "same_peers s (s0\<lparr>myconsensus := f\<rparr>) = same_peers s s0"
  "same_peers s (s0\<lparr>priorSRV := g\<rparr>) = same_peers s s0" "same_peers s (s0\<lparr>votingEpoch := h\<rparr>) = same_peers s s0"
  "same_peers s (s0\<lparr>genesisEpoch := h\<rparr>) = same_peers s s0" "same_peers s (s0\<lparr>st_phase := i\<rparr>) = same_peers s s0"
  "same_peers s (s0\<lparr>db_documents := j\<rparr>) = same_peers s s0" "same_peers s (s0\<lparr>db_descriptors := k\<rparr>) = same_peers s s0"
  "same_peers s (s0\<lparr>st_fatal := l\<rparr>) = same_peers s s0"
  by (simp_all add: same_peers_def peer_tables.defs)

text \<open>A sequence of uploads, each with the epoch of its arrival, and the status codes of the replies.\<close>

fun uploads :: "(u64 \<Rightarrow> handler) \<Rightarrow> (u64 \<times> upload) list \<Rightarrow> state \<Rightarrow> (u8 list \<times> state) option" where
  "uploads h [] s = Some ([], s)"
| "uploads h ((now, u) # us) s = (case h now u s of None \<Rightarrow> None
     | Some (c, s') \<Rightarrow> map_option (\<lambda>(cs, s''). (c # cs, s'')) (uploads h us s'))"

lemma uploads_Cons_iff:
  "uploads h ((now, u) # us) s = Some (cs, t) \<longleftrightarrow>
     (\<exists>c cs' s'. h now u s = Some (c, s') \<and> uploads h us s' = Some (cs', t) \<and> cs = c # cs')"
  by (auto split: option.splits)

locale upload_handler =
  fixes handle :: "u64 \<Rightarrow> handler" and okCode :: u8 and table :: "state \<Rightarrow> u64 \<Rightarrow> (bytes, 'v) gomap"
  assumes frame: "handle now u s = Some (c, s') \<Longrightarrow> same_peers s s' \<and> votingEpoch s' = votingEpoch s"
    and refused: "handle now u s = Some (c, s') \<Longrightarrow> c \<noteq> okCode \<Longrightarrow> table s' = table s"
    and accepted: "handle now u s = Some (okCode, s') \<Longrightarrow>
      gm_has (authorizedAuthorities s) (up_hash u) \<and> \<not> gm_has (table s (votingEpoch s)) (up_hash u) \<and>
      (\<exists>v. table s' = (table s)(votingEpoch s := gm_put (table s (votingEpoch s)) (up_hash u) v))"
begin

lemma table_cases:
  assumes "handle now u s = Some (c, s')"
  obtains "c \<noteq> okCode" "table s' = table s"
  | v where "c = okCode" "gm_has (authorizedAuthorities s) (up_hash u)" "\<not> gm_has (table s (votingEpoch s)) (up_hash u)"
      "table s' = (table s)(votingEpoch s := gm_put (table s (votingEpoch s)) (up_hash u) v)"
  using refused [OF assms] accepted assms by blast

lemma step_wf:
  assumes "handle now u s = Some (c, s')" "gm_wf (table s e)"
  shows "gm_wf (table s' e)"
  using assms(1) by (cases rule: table_cases) (use assms(2) in auto)

lemma step_keys:
  assumes "handle now u s = Some (c, s')"
  shows "gm_keys (table s' e) \<subseteq> gm_keys (table s e) \<union> gm_keys (authorizedAuthorities s)"
  using assms by (cases rule: table_cases) (auto simp: gm_has_keys)

lemma step_mono:
  assumes "handle now u s = Some (c, s')"
  shows "gm_keys (table s e) \<subseteq> gm_keys (table s' e)"
  using assms by (cases rule: table_cases) auto

lemma step_keeps:
  assumes "handle now u s = Some (c, s')" "gm_get (table s e) h = Some x"
  shows "gm_get (table s' e) h = Some x"
  using assms(1) by (cases rule: table_cases) (use assms(2) in \<open>auto simp: gm_has_def\<close>)

lemma uploads_frame:
  assumes "uploads handle us s = Some (cs, t)"
  shows "same_peers s t \<and> votingEpoch t = votingEpoch s \<and> length cs = length us"
  using assms
proof (induction us arbitrary: s cs)
  case (Cons nu us)
  then obtain now u where [simp]: "nu = (now, u)" by (cases nu)
  from Cons.prems obtain c cs' s' where "handle now u s = Some (c, s')" "uploads handle us s' = Some (cs', t)"
    "cs = c # cs'" by (auto simp: uploads_Cons_iff simp del: uploads.simps)
  then show ?case using Cons.IH frame same_peers_trans by fastforce
qed simp

lemma uploads_keeps:
  assumes "uploads handle us s = Some (cs, t)" "gm_get (table s e) h = Some x"
  shows "gm_get (table t e) h = Some x"
  using assms
proof (induction us arbitrary: s cs)
  case (Cons nu us)
  then show ?case by (cases nu) (auto simp: uploads_Cons_iff simp del: uploads.simps dest: step_keeps)
qed simp

text \<open>The replies to the uploads of one authority, and at most one of them is an acceptance.\<close>

lemma uploads_once:
  assumes "uploads handle us s = Some (cs, t)"
  shows "length (filter (\<lambda>((_, u), c). up_hash u = h \<and> c = okCode) (zip us cs)) =
    (if gm_has (table t (votingEpoch s)) h \<and> \<not> gm_has (table s (votingEpoch s)) h then 1 else 0)"
  using assms
proof (induction us arbitrary: s cs)
  case (Cons nu us)
  then obtain now u where [simp]: "nu = (now, u)" by (cases nu)
  from Cons.prems obtain c cs' s' where
    1: "handle now u s = Some (c, s')" "uploads handle us s' = Some (cs', t)" "cs = c # cs'"
    by (auto simp: uploads_Cons_iff simp del: uploads.simps)
  note IH = Cons.IH [OF 1(2)] and E = frame [OF 1(1), THEN conjunct2]
  have keep: "gm_has (table t (votingEpoch s)) k" if "gm_has (table s' (votingEpoch s)) k" for k
    using that uploads_keeps [OF 1(2)] by (auto simp: gm_has_def)
  from 1(1) show ?case
    by (cases rule: table_cases) (use IH E 1(3) keep [of "up_hash u"] in auto)
qed simp

lemma uploads_keys:
  assumes "uploads handle us s = Some (cs, t)"
  shows "gm_keys (table t e) \<subseteq> gm_keys (table s e) \<union> gm_keys (authorizedAuthorities s)"
  using assms
proof (induction us arbitrary: s cs)
  case (Cons nu us)
  then obtain now u where [simp]: "nu = (now, u)" by (cases nu)
  from Cons.prems obtain c cs' s' where
    1: "handle now u s = Some (c, s')" "uploads handle us s' = Some (cs', t)"
    by (auto simp: uploads_Cons_iff simp del: uploads.simps)
  show ?case
    using step_keys [OF 1(1), of e] Cons.IH [OF 1(2)] same_peersD(6) [OF frame [OF 1(1), THEN conjunct1]] by auto
qed simp

end

text \<open>The four handlers implement the contract.\<close>

lemmas upload_splits = if_splits option.splits outcome.splits

interpretation vote_up: upload_handler "onVoteUpload S" VoteOk "\<lambda>s. inner (votes s)" for S
  by unfold_locales (auto simp: onVoteUpload_def Let_def inner_put2 status_codes split: upload_splits)

interpretation cert_up: upload_handler "onCertUpload S" CertOk "\<lambda>s. inner (certificates s)" for S
  by unfold_locales (auto simp: onCertUpload_def Let_def inner_put2 status_codes split: upload_splits)

interpretation reveal_up: upload_handler "onRevealUpload S" RevealOk "\<lambda>s. inner (reveals s)" for S
  by unfold_locales (auto simp: onRevealUpload_def Let_def inner_put2 status_codes split: upload_splits)

interpretation sig_up: upload_handler "onSigUpload S" SigOk "\<lambda>s. inner (st_signatures s)" for S
  by unfold_locales (auto simp: onSigUpload_def Let_def inner_put2 status_codes dupSig_def split: upload_splits)

end
