(* ===== verification/Voting_Client.thy ===== *)
theory Voting_Client
  imports Pki_Document Wire_Commands
begin

text \<open>
  The client of the voting authorities, with which nodes post descriptors and everybody fetches the
  consensus (\<^verbatim>\<open>src/authority/voting/client/client.go\<close>).  The network is a parameter: for each configured
  authority, whether a session could be opened, whether the round trip failed, or the reply.  The
  random start index is an argument.
\<close>

section \<open>Configuration\<close>

record authority_cfg =
  au_Addresses :: "string list"
  au_Identity :: "publicKey option"
  au_Link :: "bytes option"

record client_cfg =
  cl_LogBackend :: bool
  cl_Authorities :: "authority_cfg list"

datatype client_error = CNoConfig | CNoLogBackend | CInvalidAddress | CNoIdentity | CNoLink | CNoAuthorities
  | CSession | CNoResponses | CUnexpected | CRejected u8 | CNoDocument | CInvalidConsensus cert_error
  | CPki pki_error | CInvalidPostEpoch | CWrongEpoch | CPostFailed nat

record client =
  cl_verifiers :: "publicKey list"
  cl_threshold :: int
  cl_size :: nat

definition authority_validate :: "authority_cfg \<Rightarrow> (client_error, unit) outcome" where
  "authority_validate v =
     (if [] \<in> set (au_Addresses v) then Fail CInvalidAddress
      else if au_Identity v = None then Fail CNoIdentity
      else if au_Link v = None then Fail CNoLink
      else Ok ())"

definition cfg_validate :: "client_cfg \<Rightarrow> (client_error, unit) outcome" where
  "cfg_validate cfg = (if \<not> cl_LogBackend cfg then Fail CNoLogBackend
     else ocheck authority_validate (cl_Authorities cfg))"

definition NewClient :: "client_cfg option \<Rightarrow> (client_error, client) outcome" where
  "NewClient co = (case co of None \<Rightarrow> Fail CNoConfig
     | Some cfg \<Rightarrow> obind (cfg_validate cfg) (\<lambda>_.
         let vs = map (the \<circ> au_Identity) (cl_Authorities cfg) in
         Ok \<lparr>cl_verifiers = vs, cl_threshold = int (length vs) div 2 + 1, cl_size = length (cl_Authorities cfg)\<rparr>))"

definition authority_IsPeerValid :: "publicKey \<Rightarrow> bytes \<Rightarrow> bytes \<Rightarrow> bytes \<Rightarrow> (unit, bool) outcome" where
  "authority_IsPeerValid identity linkKey ad peerKey =
     (if length ad < 32 then Panic
      else Ok (pk_Sum256 identity = take 32 ad \<and> linkKey = peerKey))"

section \<open>Requests\<close>

datatype exchange = NoSession | NoReply | Reply command

fun tryAuthorities :: "(nat \<Rightarrow> exchange) \<Rightarrow> nat list \<Rightarrow> (client_error, u8 \<times> bytes) outcome" where
  "tryAuthorities net [] = Fail CNoDocument"
| "tryAuthorities net (i # is) = (case net i of
     NoSession \<Rightarrow> Fail CSession
   | Reply (Consensus code payload) \<Rightarrow> Ok (code, payload)
   | _ \<Rightarrow> tryAuthorities net is)"

definition fetchConsensus :: "client \<Rightarrow> (nat \<Rightarrow> exchange) \<Rightarrow> nat \<Rightarrow> (client_error, u8 \<times> bytes) outcome" where
  "fetchConsensus c net peerIndex =
     (if cl_size c = 0 then Fail CNoAuthorities
      else tryAuthorities net (map (\<lambda>i. (peerIndex + i) mod cl_size c) [0..<cl_size c]))"

fun allPeersRoundTrip :: "(nat \<Rightarrow> exchange) \<Rightarrow> nat list \<Rightarrow> command list" where
  "allPeersRoundTrip net [] = []"
| "allPeersRoundTrip net (i # is) = (case net i of
     Reply resp \<Rightarrow> resp # allPeersRoundTrip net is
   | _ \<Rightarrow> allPeersRoundTrip net is)"

definition postErrors :: "command list \<Rightarrow> client_error list" where
  "postErrors rs = List.map_filter (\<lambda>r. case r of
     PostDescriptorStatus code \<Rightarrow>
       if code = DescriptorOk then None
       else if code = DescriptorConflict then Some CInvalidPostEpoch
       else Some (CRejected code)
   | _ \<Rightarrow> Some CUnexpected) rs"

text \<open>
  \<^verbatim>\<open>Post\<close>; the network is given the serialized command, since what the authorities answer depends
  on it.
\<close>

definition Post ::
  "pki_lib \<Rightarrow> u64 \<Rightarrow> client \<Rightarrow> (command \<Rightarrow> nat \<Rightarrow> exchange) \<Rightarrow> u64 \<Rightarrow> privateKey \<Rightarrow> publicKey \<Rightarrow> MixDescriptor \<Rightarrow>
   (client_error, unit) outcome" where
  "Post L now c net epoch sk pk d =
     obind (omap_err CPki (IsDescriptorWellFormed L d epoch)) (\<lambda>_.
     obind (omap_err CPki (SignDescriptor L now sk pk d)) (\<lambda>(raw, _).
     let responses = allPeersRoundTrip (net (PostDescriptor epoch raw)) [0..<cl_size c];
         errs = postErrors responses in
     if responses = [] then Fail CNoResponses
     else if errs = [] then Ok ()
     else Fail (CPostFailed (length errs))))"

definition client_Get ::
  "pki_lib \<Rightarrow> u64 \<Rightarrow> client \<Rightarrow> (nat \<Rightarrow> exchange) \<Rightarrow> nat \<Rightarrow> u64 \<Rightarrow> (client_error, Document \<times> bytes) outcome" where
  "client_Get L now c net peerIndex epoch =
     obind (fetchConsensus c net peerIndex) (\<lambda>(code, payload).
     if code = ConsensusGone then Fail CNoDocument
     else if code \<noteq> ConsensusOk then Fail (CRejected code)
     else obind (omap_err CInvalidConsensus (VerifyThreshold (pl_prims L) (pl_cbor L) now (cl_verifiers c)
            (cl_threshold c) payload)) (\<lambda>r. case vt_err r of
         Some e \<Rightarrow> Fail (CInvalidConsensus e)
       | None \<Rightarrow>
           obind (omap_err CPki (ParseDocument L now payload)) (\<lambda>doc.
           obind (omap_err CPki (IsDocumentWellFormed L now doc (cl_verifiers c))) (\<lambda>_.
           if doc_Epoch doc \<noteq> epoch then Fail CWrongEpoch else Ok (doc, payload)))))"

definition Deserialize :: "pki_lib \<Rightarrow> u64 \<Rightarrow> client \<Rightarrow> bytes \<Rightarrow> (client_error, Document) outcome" where
  "Deserialize L now c raw =
     obind (omap_err CInvalidConsensus (VerifyThreshold (pl_prims L) (pl_cbor L) now (cl_verifiers c)
       (cl_threshold c) raw)) (\<lambda>r. case vt_err r of
         Some e \<Rightarrow> Fail (CInvalidConsensus e)
       | None \<Rightarrow> omap_err CPki (ParseDocument L now raw))"

section \<open>Lemmas\<close>

lemma tryAuthorities_sound:
  "tryAuthorities net is = Ok (code, payload) \<Longrightarrow> \<exists>j\<in>set is. net j = Reply (Consensus code payload)"
  by (induction "is") (auto split: exchange.splits command.splits)

lemma fetchConsensus_sound:
  assumes "fetchConsensus c net i = Ok (code, payload)"
  shows "\<exists>j<cl_size c. net j = Reply (Consensus code payload)"
proof -
  have "cl_size c \<noteq> 0" using assms by (auto simp: fetchConsensus_def split: if_splits)
  moreover from this have "tryAuthorities net (map (\<lambda>j. (i + j) mod cl_size c) [0..<cl_size c]) = Ok (code, payload)"
    using assms by (simp add: fetchConsensus_def)
  from tryAuthorities_sound [OF this] obtain j where "net ((i + j) mod cl_size c) = Reply (Consensus code payload)"
    by auto
  ultimately show ?thesis by (intro exI [of _ "(i + j) mod cl_size c"]) simp
qed

text \<open>The authority tried first decides when no session with it can be opened.\<close>

lemma fetchConsensus_unreachable:
  assumes "0 < cl_size c" "net (i mod cl_size c) = NoSession"
  shows "fetchConsensus c net i = Fail CSession"
  using assms by (simp add: fetchConsensus_def upt_conv_Cons)

text \<open>It also decides when it answers with a consensus command.\<close>

lemma fetchConsensus_first:
  assumes "0 < cl_size c" "net (i mod cl_size c) = Reply (Consensus code payload)"
  shows "fetchConsensus c net i = Ok (code, payload)"
  using assms by (simp add: fetchConsensus_def upt_conv_Cons)

lemma NewClient_threshold:
  assumes "NewClient (Some cfg) = Ok c"
  shows "length (cl_verifiers c) = cl_size c" "cl_threshold c = int (cl_size c) div 2 + 1" "0 < cl_threshold c"
    "int (cl_size c) < 2 * cl_threshold c" "cl_size c = length (cl_Authorities cfg)"
  using assms by (auto simp: NewClient_def Let_def obind_Ok_iff)

lemma ParseDocument_opened:
  assumes "cbor_ok (pl_cbor L)" "opens_to P (pl_cbor L) current raw data V" "V \<noteq> []" "decodeDocument L current data = Ok d"
  shows "\<exists>sigs. ParseDocument L current raw = Ok (d\<lparr>doc_Signatures := sigs\<rparr>)"
proof -
  obtain c where c: "c_Unmarshal (pl_cbor L) ErrBadSignature current raw = Ok c" "Certified c = data" "signed_by P V c"
    using assms(2) by (auto simp: opens_to_def)
  have "gm_get (Signatures c) (pk_Sum256 (hd V)) \<noteq> None" using c(3) assms(3) by (auto simp: signed_by_def)
  then have "Signatures c \<noteq> []" by (auto simp: gm_get_def)
  then show ?thesis using c_Unmarshal_any [OF c(1), of ErrImpossibleDecode] c(2) assms(4)
    by (auto simp: ParseDocument_def doc_UnmarshalBinary_def GetCertified_def GetSignatures_def)
qed

lemma client_Get_Ok_iff:
  "client_Get L now c net i epoch = Ok (doc, raw) \<longleftrightarrow>
     fetchConsensus c net i = Ok (ConsensusOk, raw) \<and>
     (\<exists>r. VerifyThreshold (pl_prims L) (pl_cbor L) now (cl_verifiers c) (cl_threshold c) raw = Ok r \<and> vt_err r = None) \<and>
     ParseDocument L now raw = Ok doc \<and> IsDocumentWellFormed L now doc (cl_verifiers c) = Ok () \<and> doc_Epoch doc = epoch"
    (is "?get \<longleftrightarrow> ?parts")
proof
  assume "client_Get L now c net i epoch = Ok (doc, raw)"
  then show ?parts
    by (auto simp: client_Get_def obind_Ok_iff split: option.splits if_splits)
qed (auto simp: client_Get_def status_codes)

section \<open>A concrete instance\<close>

text \<open>A document that a library returns whatever the bytes, with descriptors signed by their owners.\<close>

definition toy_rawdesc :: "byte \<Rightarrow> bool \<Rightarrow> bytes \<times> MixDescriptor" where
  "toy_rawdesc b p = (case SignDescriptor toy_lib 5 (fst (toy_signer b)) (snd (toy_signer b)) (toy_desc b p) of
     Ok r \<Rightarrow> r | _ \<Rightarrow> ([], toy_desc b p))"

definition demo_lib :: pki_lib where
  "demo_lib = toy_lib\<lparr>doc_Unmarshal := (\<lambda>_. Some (demo_doc\<lparr>Topology := [], Providers := []\<rparr>,
     [[fst (toy_rawdesc 1 False)], [fst (toy_rawdesc 2 False)]], [fst (toy_rawdesc 3 True)]))\<rparr>"

lemma demo_lib_fields: "pl_prims demo_lib = pl_prims toy_lib" "pl_cbor demo_lib = pl_cbor toy_lib"
  "md_Unmarshal demo_lib = md_Unmarshal toy_lib" "url_Parse demo_lib = url_Parse toy_lib"
  "ParseIP demo_lib = ParseIP toy_lib" "idna_ToASCII demo_lib = idna_ToASCII toy_lib"
  "doc_Unmarshal demo_lib b = Some (demo_doc\<lparr>Topology := [], Providers := []\<rparr>,
     [[fst (toy_rawdesc 1 False)], [fst (toy_rawdesc 2 False)]], [fst (toy_rawdesc 3 True)])"
  by (simp_all add: demo_lib_def)

lemma md_UnmarshalBinary_lib: "md_UnmarshalBinary demo_lib = md_UnmarshalBinary toy_lib"
  by (intro ext) (simp only: md_UnmarshalBinary_def demo_lib_fields)

lemma IsDescriptorWellFormed_lib: "IsDescriptorWellFormed demo_lib = IsDescriptorWellFormed toy_lib"
proof (intro ext)
  fix d e
  have "checkAddress demo_lib = checkAddress toy_lib"
    by (intro ext) (simp only: checkAddress_def getIPVer_def demo_lib_fields)
  then have "checkTransport demo_lib = checkTransport toy_lib"
    by (intro ext) (simp only: checkTransport_def)
  then show "IsDescriptorWellFormed demo_lib d e = IsDescriptorWellFormed toy_lib d e"
    by (simp only: IsDescriptorWellFormed_def)
qed

lemma toy_rawdesc_ok:
  "\<exists>s. md_UnmarshalBinary demo_lib 5 (fst (toy_rawdesc b p)) = Ok ((toy_desc b p)\<lparr>md_Signature := Some s\<rparr>)"
proof -
  have "cbor_ok (pl_cbor toy_lib)" "signer_ok (pl_prims toy_lib) (fst (toy_signer b), snd (toy_signer b))"
    using toy_cbor_ok toy_signer_ok [of b] by simp_all
  then obtain raw s where
    "SignDescriptor toy_lib 5 (fst (toy_signer b)) (snd (toy_signer b)) (toy_desc b p) =
       Ok (raw, (toy_desc b p)\<lparr>md_Signature := Some s\<rparr>)"
    "md_UnmarshalBinary toy_lib 5 raw = Ok ((toy_desc b p)\<lparr>md_Signature := Some s\<rparr>)"
    by (rule descriptor_roundtrip [OF _ toy_desc_codec _, of _ _ _ _ 5]) simp_all
  then show ?thesis by (auto simp: toy_rawdesc_def md_UnmarshalBinary_lib)
qed

lemma md_sig_fields:
  "Name (d\<lparr>md_Signature := s\<rparr>) = Name d"
  "md_Epoch (d\<lparr>md_Signature := s\<rparr>) = md_Epoch d"
  "IdentityKey (d\<lparr>md_Signature := s\<rparr>) = IdentityKey d"
  "LinkKey (d\<lparr>md_Signature := s\<rparr>) = LinkKey d"
  "MixKeys (d\<lparr>md_Signature := s\<rparr>) = MixKeys d"
  "Addresses (d\<lparr>md_Signature := s\<rparr>) = Addresses d"
  "Kaetzchen (d\<lparr>md_Signature := s\<rparr>) = Kaetzchen d"
  "Provider (d\<lparr>md_Signature := s\<rparr>) = Provider d"
  by simp_all

lemma toy_desc_signed_wf: "IsDescriptorWellFormed demo_lib ((toy_desc b p)\<lparr>md_Signature := s\<rparr>) 5 = Ok ()"
proof -
  have "checkTransport toy_lib (d\<lparr>md_Signature := s\<rparr>) = checkTransport toy_lib d" for d
    by (intro ext) (simp only: checkTransport_def md_sig_fields)
  then have "IsDescriptorWellFormed toy_lib (d\<lparr>md_Signature := s\<rparr>) 5 = IsDescriptorWellFormed toy_lib d 5" for d
    by (simp only: IsDescriptorWellFormed_def md_sig_fields)
  then show ?thesis using toy_desc_wf by (simp add: IsDescriptorWellFormed_lib)
qed

text \<open>The document decoded from any certificate that somebody signed is well formed.\<close>

lemma demo_parses:
  assumes "opens_to P toy_cbor 5 raw data V" "V \<noteq> []"
  shows "\<exists>d. ParseDocument demo_lib 5 raw = Ok d \<and> doc_Epoch d = 5 \<and> IsDocumentWellFormed demo_lib 5 d vs = Ok ()"
proof -
  obtain s1 s2 s3 where
    "md_UnmarshalBinary demo_lib 5 (fst (toy_rawdesc 1 False)) = Ok ((toy_desc 1 False)\<lparr>md_Signature := Some s1\<rparr>)"
    "md_UnmarshalBinary demo_lib 5 (fst (toy_rawdesc 2 False)) = Ok ((toy_desc 2 False)\<lparr>md_Signature := Some s2\<rparr>)"
    "md_UnmarshalBinary demo_lib 5 (fst (toy_rawdesc 3 True)) = Ok ((toy_desc 3 True)\<lparr>md_Signature := Some s3\<rparr>)"
    using toy_rawdesc_ok by metis
  then have "decodeDocument demo_lib 5 data = Ok (demo_doc\<lparr>
      Topology := [[(toy_desc 1 False)\<lparr>md_Signature := Some s1\<rparr>], [(toy_desc 2 False)\<lparr>md_Signature := Some s2\<rparr>]],
      Providers := [(toy_desc 3 True)\<lparr>md_Signature := Some s3\<rparr>]\<rparr>)" (is "_ = Ok ?d")
    by (simp add: decodeDocument_def demo_lib_fields from_option_def)
  from ParseDocument_opened [OF _ _ assms(2) this] assms(1) toy_cbor_ok
  obtain sigs where "ParseDocument demo_lib 5 raw = Ok (?d\<lparr>doc_Signatures := sigs\<rparr>)"
    by (auto simp: demo_lib_fields)
  moreover have "IsDocumentWellFormed demo_lib 5 (?d\<lparr>doc_Signatures := sigs\<rparr>) vs = Ok ()"
    by (simp add: IsDocumentWellFormed_def checkLayer_def checkEntry_def toy_desc_signed_wf id_Sum256_def gm_has_def
        gm_get_def)
  ultimately show ?thesis by simp
qed

definition demo_cfg :: client_cfg where
  "demo_cfg = \<lparr>cl_LogBackend = True, cl_Authorities =
     [\<lparr>au_Addresses = [''tcp://a''], au_Identity = Some (snd (toy_signer 1)), au_Link = Some [1]\<rparr>]\<rparr>"

definition demo_client :: client where
  "demo_client = \<lparr>cl_verifiers = [snd (toy_signer 1)], cl_threshold = 1, cl_size = 1\<rparr>"

lemma demo_client_new: "NewClient (Some demo_cfg) = Ok demo_client"
  by (simp add: NewClient_def cfg_validate_def demo_cfg_def authority_validate_def demo_client_def)

lemma demo_threshold:
  "VerifyThreshold toy_prims toy_cbor 5 [snd (toy_signer 1)] 1 toy_cert =
     Ok \<lparr>vt_certified = [7], vt_good = [snd (toy_signer 1)], vt_bad = [], vt_err = None\<rparr>"
  using VerifyThreshold_signed [OF toy_cbor_ok toy_cert_opens(2), of "[snd (toy_signer 1)]" "[]" 1] by simp

section \<open>Properties\<close>

text \<open>
  C12: a document that \<^verbatim>\<open>Get\<close> of a client made by \<^verbatim>\<open>New\<close> returns was sent by one of the configured
  authorities, is for the requested epoch, is well formed, and its certificate carries valid
  signatures of a strict majority of the configured authorities, by different keys.
\<close>

theorem Get_sound:
  assumes "NewClient (Some cfg) = Ok c" "client_Get L now c net i epoch = Ok (doc, raw)"
  shows "doc_Epoch doc = epoch \<and> IsDocumentWellFormed L now doc (cl_verifiers c) = Ok () \<and>
    ParseDocument L now raw = Ok doc \<and> (\<exists>j<length (cl_Authorities cfg). net j = Reply (Consensus ConsensusOk raw)) \<and>
    (\<exists>crt t. c_Unmarshal (pl_cbor L) ErrImpossibleDecode now raw = Ok crt \<and>
       endorsed_by (pl_prims L) crt (cl_verifiers c) t \<and> int (length (cl_Authorities cfg)) < 2 * t)"
proof -
  note G = assms(2) [unfolded client_Get_Ok_iff] and N = NewClient_threshold [OF assms(1)]
  obtain r where "VerifyThreshold (pl_prims L) (pl_cbor L) now (cl_verifiers c) (cl_threshold c) raw = Ok r"
    "vt_err r = None" using G by auto
  from VerifyThreshold_endorsed [OF this N(3)] obtain crt where
    "c_Unmarshal (pl_cbor L) ErrImpossibleDecode now raw = Ok crt"
    "endorsed_by (pl_prims L) crt (cl_verifiers c) (cl_threshold c)" by auto
  then show ?thesis using G N(4,5) fetchConsensus_sound [of c net i] by auto
qed

theorem Get_sound_witness:
  "\<exists>doc crt t. client_Get demo_lib 5 demo_client (\<lambda>_. Reply (Consensus ConsensusOk toy_cert)) 0 5 = Ok (doc, toy_cert) \<and>
    doc_Epoch doc = 5 \<and> c_Unmarshal (pl_cbor demo_lib) ErrImpossibleDecode 5 toy_cert = Ok crt \<and>
    endorsed_by (pl_prims demo_lib) crt (cl_verifiers demo_client) t \<and> 1 < 2 * t"
proof -
  obtain doc where "ParseDocument demo_lib 5 toy_cert = Ok doc" "doc_Epoch doc = 5"
      "IsDocumentWellFormed demo_lib 5 doc [snd (toy_signer 1)] = Ok ()"
    using demo_parses [OF toy_cert_opens(2)] by auto
  then have "client_Get demo_lib 5 demo_client (\<lambda>_. Reply (Consensus ConsensusOk toy_cert)) 0 5 = Ok (doc, toy_cert)"
    using demo_threshold by (simp add: client_Get_Ok_iff fetchConsensus_first demo_client_def demo_lib_fields)
  from Get_sound [OF demo_client_new this] this show ?thesis by (auto simp: demo_cfg_def)
qed

text \<open>
  \<^verbatim>\<open>Get\<close> fails as soon as no session can be opened with the authority it happens to try first,
  whatever the other authorities would answer.
\<close>

theorem Get_unreachable:
  assumes "0 < cl_size c" "net (i mod cl_size c) = NoSession"
  shows "client_Get L now c net i epoch = Fail CSession"
  using fetchConsensus_unreachable [of c net i] assms by (simp add: client_Get_def)

theorem Get_unreachable_witness:
  "client_Get demo_lib 5 \<lparr>cl_verifiers = replicate 3 (snd (toy_signer 1)), cl_threshold = 2, cl_size = 3\<rparr>
     (\<lambda>j. if j = 1 then NoSession else Reply (Consensus ConsensusOk toy_cert)) 4 5 = Fail CSession"
  by (rule Get_unreachable) simp_all

end
