(* ===== verification/Voting_Fsm.thy ===== *)
theory Voting_Fsm
  imports Voting_Uploads Voting_Client
begin

text \<open>
  The voting schedule of an authority (\<^verbatim>\<open>fsm\<close>, \<^verbatim>\<open>pruneDocuments\<close>, \<^verbatim>\<open>backgroundFetchConsensus\<close>,
  \<^verbatim>\<open>restorePersistence\<close>, \<^verbatim>\<open>newState\<close> and the sending of the results, of
  \<^verbatim>\<open>src/authority/voting/server/state.go\<close>), and the authority as a transition system: received commands,
  wake-ups of the schedule, and documents that a background fetch obtained.

  A wake-up reads the clock at its start and again before it computes the time to sleep; its
  epoch is the one of the first reading.
\<close>

section \<open>Deadlines\<close>

definition MixPublishDeadline :: "server \<Rightarrow> int" where
  "MixPublishDeadline S = Period (warpedEpoch S) div 8"

definition AuthorityVoteDeadline :: "server \<Rightarrow> int" where
  "AuthorityVoteDeadline S = MixPublishDeadline S + Period (warpedEpoch S) div 8"

definition AuthorityRevealDeadline :: "server \<Rightarrow> int" where
  "AuthorityRevealDeadline S = AuthorityVoteDeadline S + Period (warpedEpoch S) div 8"

definition AuthorityCertDeadline :: "server \<Rightarrow> int" where
  "AuthorityCertDeadline S = AuthorityRevealDeadline S + Period (warpedEpoch S) div 8"

definition PublishConsensusDeadline :: "server \<Rightarrow> int" where
  "PublishConsensusDeadline S = AuthorityCertDeadline S + Period (warpedEpoch S) div 8"

lemmas deadlines = MixPublishDeadline_def AuthorityVoteDeadline_def AuthorityRevealDeadline_def
  AuthorityCertDeadline_def PublishConsensusDeadline_def

section \<open>Pruning\<close>

definition preserveForPastEpochs :: u64 where "preserveForPastEpochs = 3"

definition pruneBefore :: "u64 \<Rightarrow> (u64, 'v) gomap \<Rightarrow> (u64, 'v) gomap" where
  "pruneBefore cmpEpoch m = filter (\<lambda>(e, _). \<not> e < cmpEpoch) m"

definition pruneDocuments :: "u64 \<Rightarrow> state \<Rightarrow> state" where
  "pruneDocuments now s = (let cmpEpoch = now - preserveForPastEpochs in
     s\<lparr>documents := pruneBefore cmpEpoch (documents s), descriptors := pruneBefore cmpEpoch (descriptors s),
       votes := pruneBefore cmpEpoch (votes s), certificates := pruneBefore cmpEpoch (certificates s),
       myconsensus := pruneBefore cmpEpoch (myconsensus s)\<rparr>)"

section \<open>Sending\<close>

text \<open>The peers a result is sent to, with the command.\<close>

definition sendToAuthorities :: "server \<Rightarrow> command \<Rightarrow> (publicKey \<times> command) list" where
  "sendToAuthorities S cmd =
     map (\<lambda>(pk, _). (pk, cmd)) (filter (\<lambda>(pk, _). \<not> pk_Equal pk (identityPublicKey S)) (cfg_Authorities S))"

definition own_upload :: "server \<Rightarrow> bytes \<Rightarrow> u64 \<Rightarrow> upload" where
  "own_upload S payload epoch = \<lparr>up_Epoch = epoch, up_PublicKey = identityPublicKey S, up_Payload = payload\<rparr>"

definition sendVoteToAuthorities :: "server \<Rightarrow> bytes \<Rightarrow> u64 \<Rightarrow> (publicKey \<times> command) list" where
  "sendVoteToAuthorities S vote epoch = sendToAuthorities S (Vote (own_upload S vote epoch))"

definition sendRevealToAuthorities :: "server \<Rightarrow> bytes \<Rightarrow> u64 \<Rightarrow> (publicKey \<times> command) list" where
  "sendRevealToAuthorities S r epoch = sendToAuthorities S (Reveal (own_upload S r epoch))"

definition sendCertToAuthorities :: "server \<Rightarrow> bytes \<Rightarrow> u64 \<Rightarrow> (publicKey \<times> command) list" where
  "sendCertToAuthorities S c epoch = sendToAuthorities S (Cert (own_upload S c epoch))"

definition sendSigToAuthorities :: "server \<Rightarrow> bytes \<Rightarrow> u64 \<Rightarrow> (publicKey \<times> command) list" where
  "sendSigToAuthorities S sig epoch = sendToAuthorities S (Sig (own_upload S sig epoch))"

section \<open>Fetching the consensus of earlier epochs\<close>

text \<open>Whether a fetch is started, and what its completion does.\<close>

definition backgroundFetchConsensus :: "u64 \<Rightarrow> state \<Rightarrow> u64 list" where
  "backgroundFetchConsensus epoch s = (if gm_has (documents s) epoch then [] else [epoch])"

definition fetchedConsensus :: "u64 \<Rightarrow> Document \<Rightarrow> state \<Rightarrow> state" where
  "fetchedConsensus epoch doc s =
     (if gm_has (documents s) epoch then s else s\<lparr>documents := gm_put (documents s) epoch doc\<rparr>)"

definition authority_client :: "server \<Rightarrow> client" where
  "authority_client S = (let vs = map fst (cfg_Authorities S) in
     \<lparr>cl_verifiers = vs, cl_threshold = int (length vs) div 2 + 1, cl_size = length (cfg_Authorities S)\<rparr>)"

section \<open>The schedule\<close>

record tick =
  tk_epoch :: u64
  tk_elapsed :: int
  tk_nextEpoch :: int
  tk_nowelapsed :: int      \<comment> \<open>of the second reading\<close>
  tk_till :: int            \<comment> \<open>of the second reading\<close>
  tk_rand :: "bytes option"

record effects =
  ef_sleep :: int
  ef_fetch :: "u64 list"
  ef_sent :: "(publicKey \<times> command) list"

definition quiet :: "int \<Rightarrow> effects" where
  "quiet t = \<lparr>ef_sleep = t, ef_fetch = [], ef_sent = []\<rparr>"

text \<open>Sending a document if it could be made and serialized.\<close>

definition sendDocument ::
  "server \<Rightarrow> (server \<Rightarrow> bytes \<Rightarrow> u64 \<Rightarrow> (publicKey \<times> command) list) \<Rightarrow> voting_error + Document \<Rightarrow> u64 \<Rightarrow>
   (publicKey \<times> command) list option" where
  "sendDocument S send r epoch = (case r of
     Inl _ \<Rightarrow> Some []
   | Inr d \<Rightarrow> (case doc_MarshalBinary (s_lib S) d of
       Ok (serialized, _) \<Rightarrow> Some (send S serialized epoch)
     | Fail _ \<Rightarrow> Some []
     | Panic \<Rightarrow> None))"

definition fsm_Bootstrap :: "server \<Rightarrow> tick \<Rightarrow> state \<Rightarrow> effects \<times> state" where
  "fsm_Bootstrap S tk s =
     (let fetch = backgroundFetchConsensus (tk_epoch tk - 1) s @ backgroundFetchConsensus (tk_epoch tk) s in
      if MixPublishDeadline S < tk_elapsed tk
      then (\<lparr>ef_sleep = tk_nextEpoch tk, ef_fetch = fetch, ef_sent = []\<rparr>,
            s\<lparr>genesisEpoch := 0, votingEpoch := tk_epoch tk + 2, st_phase := Bootstrap\<rparr>)
      else (\<lparr>ef_sleep = max 0 (MixPublishDeadline S - tk_elapsed tk), ef_fetch = fetch, ef_sent = []\<rparr>,
            s\<lparr>genesisEpoch := 0, votingEpoch := tk_epoch tk + 1, st_phase := AcceptDescriptor\<rparr>))"

definition fsm_AcceptDescriptor :: "server \<Rightarrow> tick \<Rightarrow> state \<Rightarrow> (effects \<times> state) option" where
  "fsm_AcceptDescriptor S tk s = (case getVote S (tk_epoch tk) (tk_rand tk) (votingEpoch s) s of
     None \<Rightarrow> None
   | Some (r, s') \<Rightarrow> (case sendDocument S sendVoteToAuthorities r (votingEpoch s') of None \<Rightarrow> None
     | Some sent \<Rightarrow> Some ((quiet (AuthorityVoteDeadline S - tk_nowelapsed tk))\<lparr>ef_sent := sent\<rparr>,
         s'\<lparr>st_phase := AcceptVote\<rparr>)))"

definition fsm_AcceptVote :: "server \<Rightarrow> tick \<Rightarrow> state \<Rightarrow> (effects \<times> state) option" where
  "fsm_AcceptVote S tk s = (case st_reveal S (votingEpoch s) s of
     Some (Inr b, s') \<Rightarrow> Some ((quiet (AuthorityRevealDeadline S - tk_nowelapsed tk))
         \<lparr>ef_sent := sendRevealToAuthorities S b (votingEpoch s')\<rparr>, s'\<lparr>st_phase := AcceptReveal\<rparr>)
   | _ \<Rightarrow> None)"

definition fsm_AcceptReveal :: "server \<Rightarrow> tick \<Rightarrow> state \<Rightarrow> (effects \<times> state) option" where
  "fsm_AcceptReveal S tk s = (case getCertificate S (tk_epoch tk) (votingEpoch s) s of
     None \<Rightarrow> None
   | Some (r, s') \<Rightarrow> (case sendDocument S sendCertToAuthorities r (votingEpoch s') of None \<Rightarrow> None
     | Some sent \<Rightarrow> Some ((quiet (AuthorityCertDeadline S - tk_nowelapsed tk))\<lparr>ef_sent := sent\<rparr>,
         s'\<lparr>st_phase := AcceptCert\<rparr>)))"

text \<open>
  The detached signature over the own view of the consensus, signed.  Without it the server is told of
  a fatal error and the phase stays, with no time to sleep.
\<close>

definition detachedSignature :: "server \<Rightarrow> u64 \<Rightarrow> u64 \<Rightarrow> Document \<Rightarrow> (unit, bytes) outcome" where
  "detachedSignature S now epoch doc = (case gm_get (doc_Signatures doc) (identityPubKeyHash S) of
     None \<Rightarrow> Fail ()
   | Some sig \<Rightarrow> (case sig_Marshal (s_lib S) sig of
       None \<Rightarrow> Fail ()
     | Some serialized \<Rightarrow> omap_err (\<lambda>_. ()) (Sign (pl_prims (s_lib S)) (pl_cbor (s_lib S)) now
         (identityPrivateKey S) (identityPublicKey S) serialized epoch)))"

definition fsm_AcceptCert :: "server \<Rightarrow> tick \<Rightarrow> state \<Rightarrow> (effects \<times> state) option" where
  "fsm_AcceptCert S tk s = (case getMyConsensus S (tk_epoch tk) (votingEpoch s) s of
     None \<Rightarrow> None
   | Some (Inl _, s') \<Rightarrow> Some (quiet (PublishConsensusDeadline S - tk_nowelapsed tk), s'\<lparr>st_phase := AcceptSignature\<rparr>)
   | Some (Inr doc, s') \<Rightarrow> (case detachedSignature S (tk_epoch tk) (votingEpoch s') doc of
       Panic \<Rightarrow> None
     | Fail _ \<Rightarrow> Some (quiet 0, s'\<lparr>st_fatal := True\<rparr>)
     | Ok signature \<Rightarrow> Some ((quiet (PublishConsensusDeadline S - tk_nowelapsed tk))
         \<lparr>ef_sent := sendSigToAuthorities S signature (votingEpoch s')\<rparr>, s'\<lparr>st_phase := AcceptSignature\<rparr>)))"

definition fsm_AcceptSignature :: "server \<Rightarrow> tick \<Rightarrow> state \<Rightarrow> (effects \<times> state) option" where
  "fsm_AcceptSignature S tk s = (case getThresholdConsensus S (tk_epoch tk) (votingEpoch s) s of
     None \<Rightarrow> None
   | Some (Inr _, s') \<Rightarrow> Some (quiet (MixPublishDeadline S + tk_till tk),
       s'\<lparr>st_phase := AcceptDescriptor, votingEpoch := votingEpoch s' + 1\<rparr>)
   | Some (Inl _, s') \<Rightarrow> Some (quiet (tk_till tk),
       s'\<lparr>st_phase := Bootstrap, votingEpoch := tk_epoch tk + 2\<rparr>))"

definition fsm :: "server \<Rightarrow> tick \<Rightarrow> state \<Rightarrow> (effects \<times> state) option" where
  "fsm S tk s =
     map_option (\<lambda>(ef, s'). (ef, pruneDocuments (tk_epoch tk) s'))
       (case st_phase s of
          Bootstrap \<Rightarrow> Some (fsm_Bootstrap S tk s)
        | AcceptDescriptor \<Rightarrow> fsm_AcceptDescriptor S tk s
        | AcceptVote \<Rightarrow> fsm_AcceptVote S tk s
        | AcceptReveal \<Rightarrow> fsm_AcceptReveal S tk s
        | AcceptCert \<Rightarrow> fsm_AcceptCert S tk s
        | AcceptSignature \<Rightarrow> fsm_AcceptSignature S tk s)"

section \<open>Start-up from the database\<close>

text \<open>A persisted document: \<open>None\<close> ends the restoration of all further epochs.\<close>

definition restoreDocument :: "server \<Rightarrow> u64 \<Rightarrow> u64 \<Rightarrow> bytes \<Rightarrow> state \<Rightarrow> (unit, state option) outcome" where
  "restoreDocument S now epoch rawDoc s =
     (case VerifyThreshold (pl_prims (s_lib S)) (pl_cbor (s_lib S)) now (getVerifiers s) (threshold s) rawDoc of
        Panic \<Rightarrow> Panic
      | Fail _ \<Rightarrow> Ok None
      | Ok r \<Rightarrow> if vt_err r \<noteq> None then Ok None
          else (case ParseDocument (s_lib S) now rawDoc of
              Panic \<Rightarrow> Panic
            | Fail _ \<Rightarrow> Ok (Some s)
            | Ok doc \<Rightarrow> Ok (Some (if doc_Epoch doc \<noteq> epoch then s
                else s\<lparr>documents := gm_put (documents s) epoch doc\<rparr>))))"

definition restoreDescriptor :: "server \<Rightarrow> u64 \<Rightarrow> u64 \<Rightarrow> bytes \<times> bytes \<Rightarrow> state \<Rightarrow> (unit, state) outcome" where
  "restoreDescriptor S now epoch e s = (case e of (wantHash, rawDesc) \<Rightarrow>
     if length wantHash \<noteq> PublicKeyHashSize then Panic
     else (case md_UnmarshalBinary (s_lib S) now rawDesc of
         Panic \<Rightarrow> Panic
       | Fail _ \<Rightarrow> Ok s
       | Ok desc \<Rightarrow> obind (id_Sum256 desc) (\<lambda>idHash.
           if wantHash \<noteq> idHash then Ok s
           else obind (isDescriptorAuthorized s desc) (\<lambda>ok.
             if \<not> ok then Ok s else Ok (s\<lparr>descriptors := put2 (descriptors s) epoch idHash desc\<rparr>)))))"

fun restoreEpochs :: "server \<Rightarrow> u64 \<Rightarrow> u64 list \<Rightarrow> state \<Rightarrow> (unit, state) outcome" where
  "restoreEpochs S now [] s = Ok s"
| "restoreEpochs S now (epoch # epochs) s =
     obind (case gm_get (db_documents s) epoch of None \<Rightarrow> Ok (Some s) | Some rawDoc \<Rightarrow> restoreDocument S now epoch rawDoc s)
       (\<lambda>r. case r of None \<Rightarrow> Ok s
        | Some s' \<Rightarrow> obind (ofold (restoreDescriptor S now epoch) (inner (db_descriptors s') epoch) s')
            (restoreEpochs S now epochs))"

text \<open>The persistence store: its version entry if there is one, and the two buckets.\<close>

record database =
  db_version :: "bytes option"
  db_docs :: "(u64, bytes) gomap"
  db_descs :: "(u64, (bytes, bytes) gomap) gomap"

definition newState :: "server \<Rightarrow> u64 \<Rightarrow> database \<Rightarrow> (unit, state) outcome" where
  "newState S now db =
     (let s = (emptyState S)\<lparr>db_documents := db_docs db, db_descriptors := db_descs db\<rparr> in
      case db_version db of
        None \<Rightarrow> Ok s
      | Some b \<Rightarrow> if b = [] then Panic
          else if length b \<noteq> 1 \<or> hd b \<noteq> 0 then Fail ()
          else restoreEpochs S now [now - 1, now, now + 1] s)"

section \<open>The authority as a transition system\<close>

inductive authority_step :: "server \<Rightarrow> state \<Rightarrow> state \<Rightarrow> bool" for S where
  command: "wire_IsPeerValid s ad linkKey = Some peer \<Longrightarrow> onConn S now elapsed peer cmd s = Some (r, s') \<Longrightarrow>
    authority_step S s s'"
| wakeup: "fsm S tk s = Some (ef, s') \<Longrightarrow> authority_step S s s'"
| fetched: "client_Get (s_lib S) now (authority_client S) net i epoch = Ok (doc, raw) \<Longrightarrow>
    authority_step S s (fetchedConsensus epoch doc s)"

inductive reachable :: "server \<Rightarrow> state \<Rightarrow> bool" for S where
  start: "newState S now db = Ok s \<Longrightarrow> reachable S s"
| step: "reachable S s \<Longrightarrow> authority_step S s s' \<Longrightarrow> reachable S s'"

section \<open>Lemmas: the tables\<close>

lemma put_put [simp]: "gm_put (gm_put m k a) k b = gm_put m k b"
  by (induction m) (auto split: prod.splits)

lemma put_same: "gm_get m k = Some v \<Longrightarrow> gm_put m k v = m"
  by (induction m) (auto simp: gm_get_def split: if_splits)

lemma put2_ensure [simp]: "put2 (ensure m e) e k v = put2 m e k v"
  by (simp add: put2_def) (simp add: ensure_def)

lemma get_prune: "gm_get (pruneBefore c m) e = (if e < c then None else gm_get m e)"
  by (induction m) (auto simp: pruneBefore_def gm_get_def)

lemma inner_prune: "inner (pruneBefore c m) e = (if e < c then [] else inner m e)"
  by (simp add: inner_def get_prune)

text \<open>Every table of the authority has at most one entry per member and epoch.\<close>

definition table_ok :: "'k set \<Rightarrow> ('e, ('k, 'v) gomap) gomap \<Rightarrow> bool" where
  "table_ok M t \<longleftrightarrow> (\<forall>e. gm_wf (inner t e) \<and> gm_keys (inner t e) \<subseteq> M)"

lemma table_ok_Nil [simp]: "table_ok M []"
  by (simp add: table_ok_def inner_def gm_get_def)

lemma table_ok_ensure [simp]: "table_ok M (ensure t e) = table_ok M t"
  by (simp add: table_ok_def)

lemma table_ok_put2: "table_ok M t \<Longrightarrow> k \<in> M \<Longrightarrow> table_ok M (put2 t e k v)"
  by (auto simp: table_ok_def inner_put2)

lemma table_ok_prune: "table_ok M t \<Longrightarrow> table_ok M (pruneBefore c t)"
  by (simp add: table_ok_def inner_prune)

definition members :: "server \<Rightarrow> bytes set" where
  "members S = gm_keys (verifiers (emptyState S))"

lemma fold_put_keys:
  "gm_keys (fold (\<lambda>x m. gm_put m (f x) (g x)) xs m) = gm_keys m \<union> f ` set xs"
  by (induction xs arbitrary: m) auto

lemma fold_put_wf: "gm_wf m \<Longrightarrow> gm_wf (fold (\<lambda>x m. gm_put m (f x) (g x)) xs m)"
  by (induction xs arbitrary: m) auto

lemma emptyState_tables:
  "verifiers (emptyState S) = verifiers (newTables S)" "threshold (emptyState S) = threshold (newTables S)"
  "authorizedAuthorities (emptyState S) = authorizedAuthorities (newTables S)"
  "authorizedMixes (emptyState S) = authorizedMixes (newTables S)"
  "authorizedProviders (emptyState S) = authorizedProviders (newTables S)"
  "reverseHash (emptyState S) = reverseHash (newTables S)"
  by (simp_all add: emptyState_def peer_tables.defs)

lemma members_eq: "members S = insert (identityPubKeyHash S) ((pk_Sum256 \<circ> fst) ` set (cfg_Authorities S))"
  using fold_put_keys [of "pk_Sum256 \<circ> fst" fst "cfg_Authorities S" "[]"]
  by (simp add: members_def emptyState_tables newTables_def Let_def identityPubKeyHash_def case_prod_unfold)

lemma self_member [simp]: "identityPubKeyHash S \<in> members S"
  by (simp add: members_eq)

lemma authorised_members: "gm_keys (authorizedAuthorities (emptyState S)) \<subseteq> members S"
  using fold_put_keys [of "pk_Sum256 \<circ> fst" "\<lambda>_. True" "cfg_Authorities S" "[]"]
  by (auto simp: members_eq emptyState_tables newTables_def Let_def case_prod_unfold)

lemma verifiers_wf: "gm_wf (verifiers (emptyState S))"
  using fold_put_wf [of "[]" "pk_Sum256 \<circ> fst" fst "cfg_Authorities S"]
  by (simp add: emptyState_tables newTables_def Let_def case_prod_unfold)

lemma threshold_positive: "0 < threshold (emptyState S)"
  by (simp add: emptyState_tables newTables_def Let_def)

lemma threshold_majority:
  "int (card (members S)) < 2 * threshold (emptyState S)" "threshold (emptyState S) \<le> int (card (members S))"
proof -
  have "card (members S) = length (verifiers (newTables S))"
    using verifiers_wf [of S] distinct_card [of "map fst (verifiers (newTables S))"]
    by (simp add: members_def gm_keys_def gm_wf_def emptyState_tables)
  moreover have "threshold (emptyState S) = int (length (verifiers (newTables S))) div 2 + 1"
    by (simp add: emptyState_tables newTables_def Let_def)
  moreover have "verifiers (newTables S) \<noteq> []"
    using self_member [of S] by (auto simp: members_def emptyState_tables)
  ultimately show "int (card (members S)) < 2 * threshold (emptyState S)"
    "threshold (emptyState S) \<le> int (card (members S))"
    by (cases "verifiers (newTables S)"; simp)+
qed

text \<open>A table never has more entries for an epoch than there are members.\<close>

lemma table_ok_length:
  assumes "table_ok (members S) t"
  shows "length (inner t e) \<le> card (members S)"
proof -
  have "distinct (map fst (inner t e))" "set (map fst (inner t e)) \<subseteq> members S" "finite (members S)"
    using assms by (auto simp: table_ok_def gm_wf_def gm_keys_def members_def)
  then show ?thesis by (metis card_mono distinct_card length_map)
qed

text \<open>
  What the configuration check requires of the list of authorities (the own key is in it), and that no
  two entries have the same key hash.
\<close>

definition cfg_ok :: "server \<Rightarrow> bool" where
  "cfg_ok S \<longleftrightarrow> identityPublicKey S \<in> fst ` set (cfg_Authorities S) \<and>
     distinct (map (pk_Sum256 \<circ> fst) (cfg_Authorities S))"

lemma cfg_verifiers:
  assumes "cfg_ok S"
  shows "getVerifiers (emptyState S) = cl_verifiers (authority_client S)"
    "threshold (emptyState S) = cl_threshold (authority_client S)"
proof -
  let ?as = "cfg_Authorities S" and ?m = "map (\<lambda>a. (pk_Sum256 (fst a), fst a)) (cfg_Authorities S)"
  have f: "fold (\<lambda>(pk, _) m. gm_put m (pk_Sum256 pk) pk) ?as [] = ?m"
    using fold_put_new [of "pk_Sum256 \<circ> fst" ?as "[]" fst] assms by (simp add: cfg_ok_def case_prod_unfold)
  have "gm_wf ?m" using assms by (simp add: cfg_ok_def gm_wf_def comp_def)
  moreover have "(pk_Sum256 (identityPublicKey S), identityPublicKey S) \<in> set ?m"
    using assms by (force simp: cfg_ok_def)
  ultimately have "gm_put ?m (pk_Sum256 (identityPublicKey S)) (identityPublicKey S) = ?m"
    by (intro put_same) (simp only: gm_get_in_set)
  then have "verifiers (newTables S) = ?m"
    by (simp only: newTables_def Let_def f peer_tables.simps)
  moreover have "threshold (newTables S) = int (length (verifiers (newTables S))) div 2 + 1"
    by (simp add: newTables_def Let_def)
  ultimately show "getVerifiers (emptyState S) = cl_verifiers (authority_client S)"
    "threshold (emptyState S) = cl_threshold (authority_client S)"
    by (simp_all add: getVerifiers_def emptyState_tables authority_client_def comp_def)
qed

end
