(* ===== verification/Voting_Safety.thy ===== *)
theory Voting_Safety
  imports Voting_Fsm
begin

text \<open>
  What holds in every state a voting authority can reach from an arbitrary database, whatever its
  peers send: who can have entries in its tables, that uploads are filed once, which descriptors it
  may include, and that every document it serves is signed by a majority of the authorities.
\<close>

section \<open>Computations that keep a predicate\<close>

definition keeps :: "(state \<Rightarrow> bool) \<Rightarrow> 'a vm \<Rightarrow> bool" where
  "keeps P m \<longleftrightarrow> (\<forall>s r s'. P s \<longrightarrow> m s = Some (r, s') \<longrightarrow> P s')"

lemma keepsD: "keeps P m \<Longrightarrow> P s \<Longrightarrow> m s = Some (r, s') \<Longrightarrow> P s'"
  by (auto simp: keeps_def)

lemma keeps_atoms [simp]: "keeps P (vret x)" "keeps P (vfail e)" "keeps P (vget f)" "keeps P (vcall h r)"
  "keeps P vpanic" "keeps P (\<lambda>s. vcall h (g s) s)"
  by (auto simp: keeps_def vret_def vfail_def vget_def vcall_def vpanic_def split: outcome.splits)

lemma keeps_vbind: "keeps P f \<Longrightarrow> (\<And>x. keeps P (g x)) \<Longrightarrow> keeps P (vbind f g)"
  unfolding keeps_def [of P "vbind f g"]
  by (auto simp: vbind_def split: option.splits prod.splits sum.splits dest: keepsD)

text \<open>The success of the first part may establish more than it is given.\<close>

lemma keeps_vbind_then:
  assumes "keeps P f" "\<And>s x s'. P s \<Longrightarrow> f s = Some (Inr x, s') \<Longrightarrow> Q s'" "\<And>x. keeps Q (g x)" "\<And>s. Q s \<Longrightarrow> P s"
  shows "keeps P (vbind f g)"
  unfolding keeps_def [of P "vbind f g"]
proof (intro allI impI)
  fix s r s' assume P: "P s" and m: "vbind f g s = Some (r, s')"
  show "P s'"
  proof (cases "f s")
    case (Some q)
    then obtain a t where "f s = Some (a, t)" by (cases q) auto
    then show ?thesis using P m assms(4) keepsD [OF assms(1) P] keepsD [OF assms(3) assms(2) [OF P]]
      by (cases a) (auto simp: vbind_def)
  qed (use m in \<open>simp add: vbind_def\<close>)
qed

lemma keeps_vmod: "(\<And>s. P s \<Longrightarrow> P (f s)) \<Longrightarrow> keeps P (vmod f)"
  by (simp add: keeps_def vmod_def)

lemma keeps_if: "(b \<Longrightarrow> keeps P f) \<Longrightarrow> (\<not> b \<Longrightarrow> keeps P g) \<Longrightarrow> keeps P (if b then f else g)"
  by simp

lemma keeps_prod: "(\<And>a b. keeps P (f a b)) \<Longrightarrow> keeps P (case x of (a, b) \<Rightarrow> f a b)"
  by (cases x) simp

lemmas keeps_rules = keeps_vbind keeps_vmod keeps_if keeps_prod

lemma keeps_option: "keeps P f \<Longrightarrow> (\<And>x. keeps P (g x)) \<Longrightarrow> keeps P (case y of None \<Rightarrow> f | Some x \<Rightarrow> g x)"
  by (cases y) simp_all

lemma tallyVotes_state: "tallyVotes S now epoch s = Some (r, s') \<Longrightarrow> s' = s"
  by (auto simp: tallyVotes_def vbind_def vcall_def vret_def vfail_def
      split: if_splits outcome.splits option.splits prod.splits)

lemma keeps_tallyVotes [simp]: "keeps P (tallyVotes S now epoch)"
  by (auto simp: keeps_def dest: tallyVotes_state)

lemma keeps_doSignDocument [simp]: "keeps P (doSignDocument S now d)"
  unfolding doSignDocument_def by (intro keeps_rules) simp_all

section \<open>The invariant\<close>

text \<open>A document is endorsed when some serialization of it carries valid signatures of a threshold of members.\<close>

definition endorsed_doc :: "server \<Rightarrow> Document \<Rightarrow> bool" where
  "endorsed_doc S d \<longleftrightarrow> (\<exists>now raw crt. c_Unmarshal (pl_cbor (s_lib S)) ErrImpossibleDecode now raw = Ok crt \<and>
     endorsed_by (pl_prims (s_lib S)) crt (getVerifiers (emptyState S)) (threshold (emptyState S)) \<and>
     (ParseDocument (s_lib S) now raw = Ok d \<or> (\<exists>d0. doc_MarshalBinary (s_lib S) d0 = Ok (raw, d))))"

definition docs_ok :: "server \<Rightarrow> (u64, Document) gomap \<Rightarrow> bool" where
  "docs_ok S m \<longleftrightarrow> (\<forall>e d. gm_get m e = Some d \<longrightarrow> endorsed_doc S d)"

definition descs_ok :: "server \<Rightarrow> (u64, (bytes, MixDescriptor) gomap) gomap \<Rightarrow> bool" where
  "descs_ok S t \<longleftrightarrow> (\<forall>e. gm_wf (inner t e) \<and> (\<forall>h d. gm_get (inner t e) h = Some d \<longrightarrow>
     IdentityKey d \<noteq> None \<and> idhash d = h \<and> isDescriptorAuthorized (emptyState S) d = (Ok True :: (unit, bool) outcome)))"

text \<open>Whoever has voted or revealed has committed.\<close>

definition committed :: "state \<Rightarrow> bool" where
  "committed s \<longleftrightarrow> (\<forall>e. gm_keys (inner (votes s) e) \<union> gm_keys (inner (reveals s) e) \<subseteq> gm_keys (inner (commits s) e))"

definition authority_inv :: "server \<Rightarrow> state \<Rightarrow> bool" where
  "authority_inv S s \<longleftrightarrow> same_peers (emptyState S) s \<and>
     table_ok (members S) (votes s) \<and> table_ok (members S) (certificates s) \<and>
     table_ok (members S) (st_signatures s) \<and> table_ok (members S) (commits s) \<and>
     table_ok (members S) (reveals s) \<and> committed s \<and> docs_ok S (documents s) \<and> descs_ok S (descriptors s)"

lemma docs_ok_put: "docs_ok S m \<Longrightarrow> endorsed_doc S d \<Longrightarrow> docs_ok S (gm_put m e d)"
  by (auto simp: docs_ok_def)

lemma docs_ok_prune: "docs_ok S m \<Longrightarrow> docs_ok S (pruneBefore c m)"
  by (auto simp: docs_ok_def get_prune)

lemma descs_ok_ensure [simp]: "descs_ok S (ensure t e) = descs_ok S t"
  by (simp add: descs_ok_def)

lemma descs_ok_put2:
  "descs_ok S t \<Longrightarrow> IdentityKey d \<noteq> None \<Longrightarrow> isDescriptorAuthorized (emptyState S) d = (Ok True :: (unit, bool) outcome) \<Longrightarrow>
     descs_ok S (put2 t e (idhash d) d)"
  by (simp add: descs_ok_def inner_put2)

lemma descs_ok_prune: "descs_ok S t \<Longrightarrow> descs_ok S (pruneBefore c t)"
  by (simp add: descs_ok_def inner_prune gm_get_def)

text \<open>Updates that the invariant does not depend on.\<close>

lemma inv_unrelated [simp]:
  "authority_inv S (s\<lparr>priorSRV := a\<rparr>) = authority_inv S s" "authority_inv S (s\<lparr>votingEpoch := b\<rparr>) = authority_inv S s"
  "authority_inv S (s\<lparr>genesisEpoch := b\<rparr>) = authority_inv S s" "authority_inv S (s\<lparr>st_phase := c\<rparr>) = authority_inv S s"
  "authority_inv S (s\<lparr>db_documents := f\<rparr>) = authority_inv S s" "authority_inv S (s\<lparr>db_descriptors := g\<rparr>) = authority_inv S s"
  "authority_inv S (s\<lparr>st_fatal := h\<rparr>) = authority_inv S s" "authority_inv S (s\<lparr>myconsensus := i\<rparr>) = authority_inv S s"
  by (simp_all add: authority_inv_def committed_def)

lemma inv_ensure [simp]:
  "authority_inv S (s\<lparr>votes := ensure (votes s) e\<rparr>) = authority_inv S s"
  "authority_inv S (s\<lparr>certificates := ensure (certificates s) e\<rparr>) = authority_inv S s"
  "authority_inv S (s\<lparr>reveals := ensure (reveals s) e\<rparr>) = authority_inv S s"
  "authority_inv S (s\<lparr>st_signatures := ensure (st_signatures s) e\<rparr>) = authority_inv S s"
  "authority_inv S (s\<lparr>descriptors := ensure (descriptors s) e\<rparr>) = authority_inv S s"
  "authority_inv S (s\<lparr>votes := ensure (votes s) e, commits := ensure (commits s) e\<rparr>) = authority_inv S s"
  by (simp_all add: authority_inv_def committed_def)

lemma inv_vote:
  "authority_inv S s \<Longrightarrow> h \<in> members S \<Longrightarrow>
     authority_inv S (s\<lparr>votes := put2 (votes s) e h d, commits := put2 (commits s) e h c\<rparr>)"
  by (auto simp: authority_inv_def committed_def inner_put2 intro: table_ok_put2)

lemma inv_own_vote:
  "authority_inv S s \<Longrightarrow> h \<in> members S \<Longrightarrow> h \<in> gm_keys (inner (commits s) e) \<Longrightarrow>
     authority_inv S (s\<lparr>votes := put2 (votes s) e h d\<rparr>)"
  by (auto simp: authority_inv_def committed_def inner_put2 intro: table_ok_put2)

lemma inv_commit:
  "authority_inv S s \<Longrightarrow> h \<in> members S \<Longrightarrow>
     authority_inv S (s\<lparr>commits := put2 (commits s) e h c, reveals := put2 (reveals s) e h r\<rparr>)"
  by (auto simp: authority_inv_def committed_def inner_put2 intro: table_ok_put2)

lemma inv_reveal:
  "authority_inv S s \<Longrightarrow> h \<in> members S \<Longrightarrow> h \<in> gm_keys (inner (commits s) e) \<Longrightarrow>
     authority_inv S (s\<lparr>reveals := put2 (reveals s) e h d\<rparr>)"
  by (auto simp: authority_inv_def committed_def inner_put2 intro: table_ok_put2)

lemma inv_certificate:
  "authority_inv S s \<Longrightarrow> h \<in> members S \<Longrightarrow> authority_inv S (s\<lparr>certificates := put2 (certificates s) e h d\<rparr>)"
  by (auto simp: authority_inv_def committed_def intro: table_ok_put2)

lemma inv_signature:
  "authority_inv S s \<Longrightarrow> h \<in> members S \<Longrightarrow> authority_inv S (s\<lparr>st_signatures := put2 (st_signatures s) e h d\<rparr>)"
  by (auto simp: authority_inv_def committed_def intro: table_ok_put2)

lemma inv_document:
  "authority_inv S s \<Longrightarrow> endorsed_doc S d \<Longrightarrow> authority_inv S (s\<lparr>documents := gm_put (documents s) e d\<rparr>)"
  by (auto simp: authority_inv_def committed_def intro: docs_ok_put)

lemma inv_descriptor:
  "authority_inv S s \<Longrightarrow> IdentityKey d \<noteq> None \<Longrightarrow> isDescriptorAuthorized (emptyState S) d = (Ok True :: (unit, bool) outcome) \<Longrightarrow>
     authority_inv S (s\<lparr>descriptors := put2 (descriptors s) e (idhash d) d\<rparr>)"
  by (auto simp: authority_inv_def committed_def intro: descs_ok_put2)

lemma inv_prune: "authority_inv S s \<Longrightarrow> authority_inv S (pruneDocuments now s)"
  by (auto simp: authority_inv_def pruneDocuments_def Let_def committed_def inner_prune
      intro: table_ok_prune docs_ok_prune descs_ok_prune)

lemma inv_authorised:
  "authority_inv S s \<Longrightarrow> gm_has (authorizedAuthorities s) h \<Longrightarrow> h \<in> members S"
  using authorised_members [of S] by (auto simp: authority_inv_def same_peersD gm_has_keys)

section \<open>Every operation keeps the invariant\<close>

lemma inv_onVoteUpload:
  "authority_inv S s \<Longrightarrow> onVoteUpload S now u s = Some (c, s') \<Longrightarrow> authority_inv S s'"
  by (auto simp: onVoteUpload_def Let_def split: upload_splits intro: inv_vote inv_authorised)

lemma inv_onCertUpload:
  "authority_inv S s \<Longrightarrow> onCertUpload S now u s = Some (c, s') \<Longrightarrow> authority_inv S s'"
  by (auto simp: onCertUpload_def Let_def split: upload_splits intro: inv_certificate inv_authorised)

lemma inv_onRevealUpload:
  "authority_inv S s \<Longrightarrow> onRevealUpload S now u s = Some (c, s') \<Longrightarrow> authority_inv S s'"
  by (auto simp: onRevealUpload_def Let_def gm_has_keys split: upload_splits intro!: inv_reveal
      intro: inv_authorised [unfolded gm_has_keys])

lemma inv_onSigUpload:
  "authority_inv S s \<Longrightarrow> onSigUpload S now u s = Some (c, s') \<Longrightarrow> authority_inv S s'"
  by (auto simp: onSigUpload_def Let_def split: upload_splits intro: inv_signature inv_authorised)

lemma isDescriptorAuthorized_cong:
  assumes "same_peers s t"
  shows "isDescriptorAuthorized t d = isDescriptorAuthorized s d"
  by (simp only: isDescriptorAuthorized_def same_peersD(4,5) [OF assms])

lemma isDescriptorAuthorized_any:
  "isDescriptorAuthorized s d = (Ok b :: ('e, bool) outcome) \<Longrightarrow> isDescriptorAuthorized s d = (Ok b :: ('f, bool) outcome)"
  by (auto simp: isDescriptorAuthorized_def id_Sum256_def split: option.splits if_splits)

lemma persistDescriptor_ensure [simp]:
  "descriptors (persistDescriptor S e h raw s) = descriptors s"
  "persistDescriptor S e h raw (s\<lparr>descriptors := t\<rparr>)\<lparr>descriptors := t'\<rparr> =
     persistDescriptor S e h raw s\<lparr>descriptors := t'\<rparr>"
  by (simp_all add: persistDescriptor_def)

lemma inv_onDescriptorUpload:
  assumes "authority_inv S s" "isDescriptorAuthorized s d = (Ok True :: (unit, bool) outcome)"
    and "onDescriptorUpload S raw d epoch s = Some (r, s')"
  shows "authority_inv S s'"
proof -
  have a: "isDescriptorAuthorized (emptyState S) d = (Ok True :: (unit, bool) outcome)"
    using assms(1,2) isDescriptorAuthorized_cong by (metis authority_inv_def)
  then have k: "IdentityKey d \<noteq> None" by (auto simp: isDescriptorAuthorized_def id_Sum256_def split: option.splits)
  then have h: "id_Sum256 d = (Ok (idhash d) :: ('z, bytes) outcome)" by (simp add: id_Sum256_Ok_iff)
  have "authority_inv S (persistDescriptor S epoch h' raw s)" for h' using assms(1) by (simp add: persistDescriptor_def)
  from inv_descriptor [OF this k a, of _ epoch] have I: "authority_inv S
      ((persistDescriptor S epoch h' raw s)\<lparr>descriptors := put2 (descriptors s) epoch (idhash d) d\<rparr>)" for h'
    by simp
  show ?thesis using assms(1,3) I
    by (auto simp: onDescriptorUpload_def h vbind_def vcall_def vmod_def vret_def vfail_def put2_ensure persistDescriptor_ensure
        split: option.splits outcome.splits if_splits)
qed

lemma inv_onPostDescriptor:
  "authority_inv S s \<Longrightarrow> onPostDescriptor S now epoch payload h s = Some (c, s') \<Longrightarrow> authority_inv S s'"
  by (auto simp: onPostDescriptor_def split: upload_splits prod.splits sum.splits dest: inv_onDescriptorUpload)

lemma inv_onGetConsensus: "onGetConsensus S now elapsed e s = Some (c, s') \<Longrightarrow> s' = s"
  by (auto simp: onGetConsensus_def split: outcome.splits)

lemma inv_onConn:
  assumes "authority_inv S s" "onConn S now elapsed peer cmd s = Some (r, s')"
  shows "authority_inv S s'"
  using assms
  by (auto simp: onConn_def onClient_def onMix_def onAuthority_def reply_def split: peer_kind.splits command.splits
      dest: inv_onGetConsensus inv_onPostDescriptor inv_onVoteUpload inv_onCertUpload inv_onRevealUpload inv_onSigUpload)

text \<open>The results the authority computes itself.\<close>

lemma keeps_signOwn [simp]: "keeps P (signOwn S now data e)"
  by (simp add: signOwn_def)

definition committed_self :: "server \<Rightarrow> u64 \<Rightarrow> state \<Rightarrow> bool" where
  "committed_self S e s \<longleftrightarrow> authority_inv S s \<and> identityPubKeyHash S \<in> gm_keys (inner (commits s) e)"

lemma doCommit_commits:
  assumes "authority_inv S s" "doCommit S now rand epoch s = Some (Inr c, s')"
  shows "committed_self S epoch s'"
  using assms inv_commit [OF assms(1) self_member]
  by (auto simp: doCommit_def signOwn_def vbind_def vcall_def vmod_def vret_def committed_self_def inner_put2
      split: outcome.splits option.splits prod.splits sum.splits)

lemma keeps_doCommit: "keeps (authority_inv S) (doCommit S now rand epoch)"
  unfolding doCommit_def by (intro keeps_rules) (auto intro: inv_commit)

lemma keeps_own_vote:
  "keeps (committed_self S epoch) (vbind (doSignDocument S now v) (\<lambda>vote'.
     vbind (vmod (\<lambda>s. s\<lparr>votes := ensure (votes s) epoch\<rparr>)) (\<lambda>_.
     vbind (vget votes) (\<lambda>vs.
     if gm_has (inner vs epoch) (identityPubKeyHash S) then vfail VAlreadyPresent
     else vbind (vmod (\<lambda>s. s\<lparr>votes := put2 (votes s) epoch (identityPubKeyHash S) vote'\<rparr>)) (\<lambda>_. vret vote')))))"
  by (intro keeps_rules) (auto simp: committed_self_def intro: inv_own_vote)

lemma keeps_getVote: "keeps (authority_inv S) (getVote S now rand epoch)"
  unfolding getVote_def
  by (rule keeps_vbind, rule keeps_vmod, simp split: option.splits, rule keeps_vbind [OF keeps_atoms(6)],
      rule keeps_vbind_then [OF keeps_doCommit doCommit_commits keeps_own_vote])
    (simp_all add: committed_self_def)

lemma keeps_getCertificate: "keeps (authority_inv S) (getCertificate S now epoch)"
  unfolding getCertificate_def by (intro keeps_rules) (auto intro: inv_certificate)

lemma keeps_rotatePriorSRV: "keeps (authority_inv S) (rotatePriorSRV S epoch srv)"
  by (auto simp: keeps_def rotatePriorSRV_def split: if_splits list.splits)

lemma inv_getMyConsensus:
  assumes "authority_inv S s" "getMyConsensus S now epoch s = Some (r, s')"
  shows "authority_inv S s'"
proof -
  have "keeps (authority_inv S) (vbind (vcall (\<lambda>_. VPki ErrCodec) (verifyCommits S now epoch s)) (\<lambda>(cs, rs).
        if int (length cs) < threshold s then vfail VTooFewCommits
        else if length cs \<noteq> length rs then vpanic
        else vbind (vcall id (computeSharedRandom S now s epoch cs rs)) (\<lambda>srv.
          vbind (rotatePriorSRV S epoch srv) (\<lambda>_.
          vbind (tallyVotes S now epoch) (\<lambda>(mixes, params).
          vbind (\<lambda>s. vcall (\<lambda>_. VPki ErrCodec) (getDocument S s mixes params srv) s) (\<lambda>doc.
          vbind (doSignDocument S now doc) (\<lambda>consensusOfOne.
          vbind (vmod (\<lambda>s. s\<lparr>myconsensus := gm_put (myconsensus s) epoch consensusOfOne\<rparr>)) (\<lambda>_.
            vret consensusOfOne))))))))"
    by (intro keeps_rules keeps_rotatePriorSRV) simp_all
  from keepsD [OF this assms(1)] assms show ?thesis
    by (auto simp: getMyConsensus_def vfail_def split: if_splits)
qed

lemma inv_st_reveal: "authority_inv S s \<Longrightarrow> st_reveal S epoch s = Some (r, s') \<Longrightarrow> authority_inv S s'"
  by (auto simp: st_reveal_def split: option.splits)

lemma inv_verifiers:
  "authority_inv S s \<Longrightarrow> getVerifiers s = getVerifiers (emptyState S) \<and> threshold s = threshold (emptyState S)"
  using same_peersD(1,2) [of "emptyState S" s] by (simp add: authority_inv_def getVerifiers_def)

lemma endorsed_marshal:
  assumes "VerifyThreshold (pl_prims (s_lib S)) (pl_cbor (s_lib S)) now (getVerifiers (emptyState S))
      (threshold (emptyState S)) raw = Ok r" "vt_err r = None"
    and "ParseDocument (s_lib S) now raw = Ok d \<or> doc_MarshalBinary (s_lib S) d0 = Ok (raw, d)"
  shows "endorsed_doc S d"
  using VerifyThreshold_endorsed [OF assms(1,2) threshold_positive] assms(3)
  unfolding endorsed_doc_def by metis

lemma persistDocument_fields [simp]:
  "authority_inv S (persistDocument S' e raw s) = authority_inv S s" "documents (persistDocument S' e raw s) = documents s"
  by (simp_all add: persistDocument_def)

lemma inv_getThresholdConsensus:
  assumes I: "authority_inv S s" and "getThresholdConsensus S now epoch s = Some (r, s')"
  shows "authority_inv S s'"
proof -
  note V = inv_verifiers [OF I, THEN conjunct1] inv_verifiers [OF I, THEN conjunct2]
  have D: "authority_inv S (persistDocument S epoch raw (s\<lparr>myconsensus := m\<rparr>)\<lparr>documents := gm_put (documents s) epoch d'\<rparr>)"
    if "doc_MarshalBinary (s_lib S) d = Ok (raw, d')" "vt_err q = None"
      "VerifyThreshold (pl_prims (s_lib S)) (pl_cbor (s_lib S)) now (getVerifiers (emptyState S))
         (threshold (emptyState S)) raw = Ok q" for m d raw d' q
    using inv_document [of S "persistDocument S epoch raw (s\<lparr>myconsensus := m\<rparr>)" d' epoch]
      endorsed_marshal [OF that(3,2) disjI2 [OF that(1)]] I by simp
  show ?thesis using assms
    by (auto simp: getThresholdConsensus_def vbind_def vcall_def vmod_def vret_def vfail_def V
        split: option.splits outcome.splits if_splits prod.splits) (rule D; assumption)
qed

section \<open>Reachable states\<close>

lemma inv_fsm:
  assumes I: "authority_inv S s" and "fsm S tk s = Some (ef, s')"
  shows "authority_inv S s'"
proof -
  have "authority_inv S t" if "fsm_Bootstrap S tk s = (ef', t)" for ef' t
    using I that by (auto simp: fsm_Bootstrap_def Let_def split: if_splits)
  moreover have "authority_inv S t" if "fsm_AcceptDescriptor S tk s = Some (ef', t)" for ef' t
    using that keepsD [OF keeps_getVote I] by (auto simp: fsm_AcceptDescriptor_def split: option.splits)
  moreover have "authority_inv S t" if "fsm_AcceptVote S tk s = Some (ef', t)" for ef' t
    using that inv_st_reveal [OF I] by (auto simp: fsm_AcceptVote_def split: option.splits sum.splits)
  moreover have "authority_inv S t" if "fsm_AcceptReveal S tk s = Some (ef', t)" for ef' t
    using that keepsD [OF keeps_getCertificate I] by (auto simp: fsm_AcceptReveal_def split: option.splits)
  moreover have "authority_inv S t" if "fsm_AcceptCert S tk s = Some (ef', t)" for ef' t
    using that inv_getMyConsensus [OF I]
    by (auto simp: fsm_AcceptCert_def split: option.splits sum.splits outcome.splits)
  moreover have "authority_inv S t" if "fsm_AcceptSignature S tk s = Some (ef', t)" for ef' t
    using that inv_getThresholdConsensus [OF I] by (auto simp: fsm_AcceptSignature_def split: option.splits sum.splits)
  ultimately show ?thesis using assms(2) inv_prune
    by (auto simp: fsm_def split: phase.splits)
qed

lemma inv_emptyState: "authority_inv S (emptyState S)"
  by (simp add: authority_inv_def committed_def docs_ok_def descs_ok_def)
    (simp add: emptyState_def peer_tables.defs inner_def gm_get_def)

lemma inv_restoreDescriptor:
  assumes I: "authority_inv S s" and "restoreDescriptor S now epoch e s = Ok s'"
  shows "authority_inv S s'"
proof -
  have "IdentityKey d \<noteq> None \<and> h = idhash d \<and> isDescriptorAuthorized (emptyState S) d = (Ok True :: (unit, bool) outcome)"
    if "id_Sum256 d = (Ok h :: (unit, bytes) outcome)" "isDescriptorAuthorized s d = (Ok True :: (unit, bool) outcome)" for d h
    using that I by (auto simp: id_Sum256_Ok_iff authority_inv_def isDescriptorAuthorized_cong)
  then show ?thesis using assms
    by (auto simp: restoreDescriptor_def obind_Ok_iff split: prod.splits if_splits outcome.splits intro!: inv_descriptor)
qed

lemma inv_restoreDocument:
  assumes I: "authority_inv S s" and "restoreDocument S now epoch raw s = Ok (Some s')"
  shows "authority_inv S s'"
  using assms inv_verifiers [OF I]
  by (auto simp: restoreDocument_def split: outcome.splits if_splits intro!: inv_document endorsed_marshal)

lemma inv_restoreEpochs:
  "authority_inv S s \<Longrightarrow> restoreEpochs S now epochs s = Ok s' \<Longrightarrow> authority_inv S s'"
proof (induction epochs arbitrary: s)
  case (Cons epoch epochs)
  obtain q where q: "(case gm_get (db_documents s) epoch of None \<Rightarrow> Ok (Some s)
      | Some rawDoc \<Rightarrow> restoreDocument S now epoch rawDoc s) = Ok q"
    using Cons.prems(2) by (auto simp: obind_Ok_iff)
  show ?case
  proof (cases q)
    case (Some t)
    then have "authority_inv S t" using q Cons.prems(1) inv_restoreDocument by (auto split: option.splits)
    moreover obtain u where u: "ofold (restoreDescriptor S now epoch) (inner (db_descriptors t) epoch) t = Ok u"
        "restoreEpochs S now epochs u = Ok s'"
      using Cons.prems(2) q Some by (auto simp: obind_Ok_iff)
    ultimately have "authority_inv S u"
      using ofold_invariant [OF u(1), of "authority_inv S"] inv_restoreDescriptor by blast
    then show ?thesis using Cons.IH u(2) by blast
  qed (use Cons.prems q in auto)
qed simp

lemma inv_newState: "newState S now db = Ok s \<Longrightarrow> authority_inv S s"
  using inv_emptyState [of S]
  by (auto simp: newState_def Let_def split: option.splits if_splits simp del: restoreEpochs.simps
      elim!: inv_restoreEpochs [rotated])

lemma inv_fetched:
  assumes cfg: "cfg_ok S" and I: "authority_inv S s"
    and get: "client_Get (s_lib S) now (authority_client S) net i epoch = Ok (doc, raw)"
  shows "authority_inv S (fetchedConsensus epoch doc s)"
proof -
  have "endorsed_doc S doc" using get endorsed_marshal [of S now raw _ doc] cfg_verifiers [OF cfg]
    by (auto simp: client_Get_Ok_iff)
  then show ?thesis using I by (simp add: fetchedConsensus_def inv_document)
qed

lemma inv_reachable:
  assumes "reachable S s" "cfg_ok S"
  shows "authority_inv S s"
  using assms
proof (induction rule: reachable.induct)
  case (step s s')
  have I: "authority_inv S s" by (rule step.IH [OF step.prems])
  from step.hyps(2) show ?case
    by cases (auto intro: inv_onConn [OF I] inv_fsm [OF I] inv_fetched [OF step.prems I])
qed (rule inv_newState)

section \<open>Quorums\<close>

text \<open>
  The signatures a certificate carries, and the certificate a held document was read from or written as.
\<close>

definition carries_signature :: "sign_prims \<Rightarrow> publicKey \<Rightarrow> Certificate \<Rightarrow> bool" where
  "carries_signature P v c \<longleftrightarrow> (\<exists>s\<in>snd ` set (Signatures c). PublicKeySum256 s = pk_Sum256 v \<and>
     pk_Verify P v (Payload s) (cert_message c) = Ok True)"

definition held_as :: "pki_lib \<Rightarrow> Document \<Rightarrow> Certificate \<Rightarrow> bool" where
  "held_as L d crt \<longleftrightarrow> (\<exists>now raw. c_Unmarshal (pl_cbor L) ErrImpossibleDecode now raw = Ok crt \<and>
     (ParseDocument L now raw = Ok d \<or> (\<exists>d0. doc_MarshalBinary L d0 = Ok (raw, d))))"

text \<open>Two sets of signers that are each a majority of the verifiers have a common signer.\<close>

lemma quorums_intersect:
  assumes "endorsed_by P c vs t" "endorsed_by P' c' vs t" "int (card (pk_Sum256 ` set vs)) < 2 * t"
    and inj: "inj_on pk_Sum256 (set vs)"
  shows "\<exists>v\<in>set vs. carries_signature P v c \<and> carries_signature P' v c'"
proof -
  obtain g where g: "t \<le> int (length g)" "distinct (map pk_Sum256 g)" "set g \<subseteq> set vs"
      "\<forall>v\<in>set g. \<exists>s\<in>snd ` set (Signatures c). PublicKeySum256 s = pk_Sum256 v \<and>
         pk_Verify P v (Payload s) (cert_message c) = Ok True"
    using assms(1) unfolding endorsed_by_def by blast
  obtain g' where g': "t \<le> int (length g')" "distinct (map pk_Sum256 g')" "set g' \<subseteq> set vs"
      "\<forall>v\<in>set g'. \<exists>s\<in>snd ` set (Signatures c'). PublicKeySum256 s = pk_Sum256 v \<and>
         pk_Verify P' v (Payload s) (cert_message c') = Ok True"
    using assms(2) unfolding endorsed_by_def by blast
  let ?H = "\<lambda>g. pk_Sum256 ` set g"
  have card: "card (?H g) = length g" "card (?H g') = length g'"
    using distinct_card [OF g(2)] distinct_card [OF g'(2)] by simp_all
  have "?H g \<inter> ?H g' \<noteq> {}"
  proof
    assume "?H g \<inter> ?H g' = {}"
    then have "length g + length g' = card (?H g \<union> ?H g')" using card by (simp add: card_Un_disjoint)
    also have "\<dots> \<le> card (?H vs)" using g(3) g'(3) by (intro card_mono) auto
    finally show False using assms(3) g(1) g'(1) by linarith
  qed
  then obtain v w where vw: "v \<in> set g" "w \<in> set g'" "pk_Sum256 v = pk_Sum256 w" by auto
  then have "v = w" using inj g(3) g'(3) by (meson inj_onD subsetD)
  then show ?thesis
    using g(3) bspec [OF g(4) vw(1)] bspec [OF g'(4) vw(2)] vw(1) unfolding carries_signature_def by blast
qed

lemma cfg_inj: "cfg_ok S \<Longrightarrow> inj_on pk_Sum256 (set (map fst (cfg_Authorities S)))"
  by (auto simp: cfg_ok_def distinct_map intro: inj_on_imageI)

section \<open>A concrete instance\<close>

text \<open>An authority on its own, started from a database with a consensus and the descriptor of a mix.\<close>

definition demo_server :: server where
  "demo_server = \<lparr>s_lib = demo_lib, s_chacha = (\<lambda>_ _. 0), identityPrivateKey = fst (toy_signer 1),
     identityPublicKey = snd (toy_signer 1), cfg_Parameters = toy_params, cfg_Topology = None, cfg_Layers = 2,
     cfg_MinNodesPerLayer = 1, cfg_Authorities = [(snd (toy_signer 1), [1])],
     cfg_Mixes = [snd (toy_signer 1), snd (toy_signer 2)], cfg_Providers = [(snd (toy_signer 3), ''node'')],
     geo_Hash = [], warpedEpoch = False, dbWritable = True\<rparr>"

definition demo_db :: database where
  "demo_db = \<lparr>db_version = Some [0], db_docs = [(5, toy_cert)],
     db_descs = [(5, [(replicate 32 2, fst (toy_rawdesc 2 False))])]\<rparr>"

lemma demo_cfg_ok: "cfg_ok demo_server"
  by (simp add: cfg_ok_def demo_server_def)

lemma demo_tables:
  "verifiers (newTables demo_server) = [(replicate 32 1, snd (toy_signer 1))]" "threshold (newTables demo_server) = 1"
  "authorizedMixes (newTables demo_server) = [(replicate 32 1, True), (replicate 32 2, True)]"
  by (simp_all add: newTables_def demo_server_def)

lemma demo_md_Name: "IdentityKey ((toy_desc b p)\<lparr>md_Signature := s\<rparr>) = Some (snd (toy_signer b))"
  "Provider ((toy_desc b p)\<lparr>md_Signature := s\<rparr>) = p"
  by simp_all

lemma demo_started:
  "\<exists>s d desc. newState demo_server 5 demo_db = Ok s \<and> gm_get (documents s) 5 = Some d \<and> ParseDocument demo_lib 5 toy_cert = Ok d \<and>
     gm_get (inner (descriptors s) 5) (replicate 32 2) = Some desc"
proof -
  obtain d where d: "ParseDocument demo_lib 5 toy_cert = Ok d" "doc_Epoch d = 5"
    using demo_parses [OF toy_cert_opens(2)] by auto
  obtain sg where sg: "md_UnmarshalBinary demo_lib 5 (fst (toy_rawdesc 2 False)) = Ok ((toy_desc 2 False)\<lparr>md_Signature := Some sg\<rparr>)"
    using toy_rawdesc_ok by blast
  let ?s = "(emptyState demo_server)\<lparr>db_documents := db_docs demo_db, db_descriptors := db_descs demo_db\<rparr>"
  have f: "s_lib demo_server = demo_lib" by (simp add: demo_server_def)
  have 1: "restoreDocument demo_server 5 5 toy_cert ?s = Ok (Some (?s\<lparr>documents := [(5, d)]\<rparr>))"
    using demo_threshold d
    by (simp add: restoreDocument_def f demo_lib_fields getVerifiers_def emptyState_tables demo_tables emptyState_def peer_tables.defs)
  have 2: "restoreDescriptor demo_server 5 5 (replicate 32 2, fst (toy_rawdesc 2 False)) t =
      Ok (t\<lparr>descriptors := put2 (descriptors t) 5 (replicate 32 2) ((toy_desc 2 False)\<lparr>md_Signature := Some sg\<rparr>)\<rparr>)"
    if "same_peers (emptyState demo_server) t" for t
    using sg same_peersD(4) [OF that]
    by (simp add: restoreDescriptor_def f PublicKeyHashSize_def id_Sum256_def isDescriptorAuthorized_def emptyState_tables
        demo_tables gm_get_def)
  have "newState demo_server 5 demo_db = Ok (?s\<lparr>documents := [(5, d)],
      descriptors := put2 [] 5 (replicate 32 2) ((toy_desc 2 False)\<lparr>md_Signature := Some sg\<rparr>)\<rparr>)"
    using 1 2 by (simp add: newState_def demo_db_def gm_get_def inner_def)
      (simp add: emptyState_def peer_tables.defs)
  moreover have "gm_get [(5 :: u64, d)] 5 = Some d" by (simp add: gm_get_def)
  ultimately show ?thesis using d(1) by (auto simp: inner_put2)
qed

lemma omapM_total: "\<forall>x\<in>set xs. \<exists>y. f x = Ok y \<Longrightarrow> \<exists>ys. omapM f xs = Ok ys"
  by (induction xs) fastforce+

text \<open>It serves the restored document.\<close>

lemma demo_marshals:
  assumes "nodes_wf d"
  shows "\<exists>raw. doc_MarshalBinary demo_lib d = Ok (raw, d\<lparr>doc_Version := DocumentVersion\<rparr>)"
proof -
  have m: "\<exists>raw. md_MarshalBinary demo_lib x = Ok raw" if "IdentityKey x \<noteq> None" for x
    using that by (auto simp: md_MarshalBinary_def demo_lib_def toy_lib_def from_option_def toy_cbor_def toy_Marshal_def
        id_Sum256_def split: option.splits)
  have "\<exists>ys. omapM (md_MarshalBinary demo_lib) (Providers d) = Ok ys"
    using nodes_wfD(2) [OF assms] m by (intro omapM_total) blast
  moreover have "\<exists>ys. omapM (omapM (md_MarshalBinary demo_lib)) (Topology d) = Ok ys"
    using nodes_wfD(1) [OF assms] m by (intro omapM_total ballI) force
  ultimately obtain ps ts where "omapM (md_MarshalBinary demo_lib) (Providers d) = Ok ps"
      "omapM (omapM (md_MarshalBinary demo_lib)) (Topology d) = Ok ts" by blast
  then have "encodeDocument demo_lib (d\<lparr>doc_Version := DocumentVersion\<rparr>) = Ok [1]"
    by (simp add: encodeDocument_def demo_lib_def toy_lib_def from_option_def)
  then show ?thesis by (simp add: doc_MarshalBinary_def demo_lib_fields toy_cbor_def toy_Marshal_def from_option_def)
qed

lemma demo_reachable:
  obtains s d raw desc where "reachable demo_server s" "gm_get (documents s) 5 = Some d"
    "gm_get (inner (descriptors s) 5) (replicate 32 2) = Some desc"
    "onConn demo_server 5 0 IsClient (GetConsensus 5) s = Some (Some (Consensus ConsensusOk raw), s)"
proof -
  obtain s d desc where s: "newState demo_server 5 demo_db = Ok s" "gm_get (documents s) 5 = Some d"
      "ParseDocument demo_lib 5 toy_cert = Ok d" "gm_get (inner (descriptors s) 5) (replicate 32 2) = Some desc"
    using demo_started by blast
  moreover have "nodes_wf d" using demo_parses [OF toy_cert_opens(2), of "[]"] s(3) IsDocumentWellFormed_parts(1) by fastforce
  then obtain raw where "doc_MarshalBinary demo_lib d = Ok (raw, d\<lparr>doc_Version := DocumentVersion\<rparr>)"
    using demo_marshals by blast
  then have "onConn demo_server 5 0 IsClient (GetConsensus 5) s = Some (Some (Consensus ConsensusOk raw), s)"
    using s(2) by (simp add: onConn_def onClient_def onGetConsensus_def documentForEpoch_def demo_server_def)
  ultimately show ?thesis using that reachable.start by blast
qed

section \<open>Properties\<close>

text \<open>
  C5: in every state that an authority with a valid configuration can reach, whatever its database
  held and whatever was sent to it, the votes, certificates, signatures, commits and reveals of an
  epoch hold at most one entry per configured authority and none of anybody else; every authority
  with a vote or a reveal has a commit; and every descriptor it would put into its vote is filed
  under the hash of its identity key and belongs to an authorised mix or provider.
\<close>

theorem reachable_tables:
  assumes "reachable S s" "cfg_ok S"
  shows "table_ok (members S) (votes s) \<and> table_ok (members S) (certificates s) \<and>
    table_ok (members S) (st_signatures s) \<and> table_ok (members S) (commits s) \<and> table_ok (members S) (reveals s) \<and>
    members S = (pk_Sum256 \<circ> fst) ` set (cfg_Authorities S) \<and>
    gm_keys (inner (votes s) e) \<union> gm_keys (inner (reveals s) e) \<subseteq> gm_keys (inner (commits s) e) \<and>
    (gm_get (inner (descriptors s) e) h = Some d \<longrightarrow>
       idhash d = h \<and> isDescriptorAuthorized (newTables S) d = (Ok True :: (unit, bool) outcome))"
proof -
  note I = inv_reachable [OF assms]
  have "members S = (pk_Sum256 \<circ> fst) ` set (cfg_Authorities S)"
    using assms(2) by (force simp: members_eq cfg_ok_def identityPubKeyHash_def)
  moreover have "isDescriptorAuthorized (newTables S) d = (isDescriptorAuthorized (emptyState S) d :: (unit, bool) outcome)"
    by (simp only: isDescriptorAuthorized_def emptyState_tables)
  ultimately show ?thesis using I by (auto simp: authority_inv_def committed_def descs_ok_def)
qed

theorem reachable_tables_witness:
  "\<exists>s desc. reachable demo_server s \<and> members demo_server = {replicate 32 1} \<and>
    table_ok (members demo_server) (votes s) \<and> gm_get (inner (descriptors s) 5) (replicate 32 2) = Some desc \<and>
    idhash desc = replicate 32 2"
proof -
  obtain s desc where s: "reachable demo_server s" "gm_get (inner (descriptors s) 5) (replicate 32 2) = Some desc"
    by (rule demo_reachable)
  then show ?thesis using reachable_tables [OF s(1) demo_cfg_ok, of 5 "replicate 32 2" desc]
    by (auto simp: demo_server_def)
qed

text \<open>
  C1: every consensus document that a correctly configured authority holds and serves, in any
  reachable state, has a serialization whose certificate carries valid signatures of a strict
  majority of the configured authorities, by different keys.
\<close>

theorem served_documents_endorsed:
  assumes "reachable S s" "cfg_ok S" "onConn S now elapsed peer (GetConsensus e) s = Some (Some (Consensus ConsensusOk raw), s')"
  shows "\<exists>d t crt now' raw'. gm_get (documents s) e = Some d \<and> doc_MarshalBinary (s_lib S) d = Ok (raw, d\<lparr>doc_Version := DocumentVersion\<rparr>) \<and>
    c_Unmarshal (pl_cbor (s_lib S)) ErrImpossibleDecode now' raw' = Ok crt \<and>
    endorsed_by (pl_prims (s_lib S)) crt (map fst (cfg_Authorities S)) t \<and> int (length (cfg_Authorities S)) < 2 * t \<and>
    (ParseDocument (s_lib S) now' raw' = Ok d \<or> (\<exists>d0. doc_MarshalBinary (s_lib S) d0 = Ok (raw', d)))"
proof -
  have "onGetConsensus S now elapsed e s = Some (Consensus ConsensusOk raw, s')"
    using assms(3) by (auto simp: onConn_def onClient_def onMix_def onAuthority_def split: peer_kind.splits)
  then have "documentForEpoch S now elapsed e s = Ok raw"
    by (auto simp: onGetConsensus_def status_codes split: outcome.splits if_splits)
  then obtain d d' where d: "gm_get (documents s) e = Some d" "doc_MarshalBinary (s_lib S) d = Ok (raw, d')"
    by (auto simp: documentForEpoch_def obind_Ok_iff split: option.splits if_splits)
  have "d' = d\<lparr>doc_Version := DocumentVersion\<rparr>"
    using d(2) by (auto simp: doc_MarshalBinary_def Let_def obind_Ok_iff)
  moreover have "endorsed_doc S d" using inv_reachable [OF assms(1,2)] d(1) by (auto simp: authority_inv_def docs_ok_def)
  moreover have "getVerifiers (emptyState S) = map fst (cfg_Authorities S)"
      "int (length (cfg_Authorities S)) < 2 * threshold (emptyState S)"
    using cfg_verifiers [OF assms(2)] by (simp_all add: authority_client_def Let_def)
  ultimately show ?thesis using d unfolding endorsed_doc_def by metis
qed

theorem served_documents_endorsed_witness:
  "\<exists>s raw. reachable demo_server s \<and>
    onConn demo_server 5 0 IsClient (GetConsensus 5) s = Some (Some (Consensus ConsensusOk raw), s) \<and>
    (\<exists>d t crt now' raw'. gm_get (documents s) 5 = Some d \<and>
      c_Unmarshal (pl_cbor demo_lib) ErrImpossibleDecode now' raw' = Ok crt \<and>
      endorsed_by (pl_prims demo_lib) crt [snd (toy_signer 1)] t \<and> 1 < 2 * t)"
proof -
  obtain s raw where s: "reachable demo_server s"
      "onConn demo_server 5 0 IsClient (GetConsensus 5) s = Some (Some (Consensus ConsensusOk raw), s)"
    by (rule demo_reachable)
  have f: "s_lib demo_server = demo_lib" "map fst (cfg_Authorities demo_server) = [snd (toy_signer 1)]"
    "int (length (cfg_Authorities demo_server)) = 1" by (simp_all add: demo_server_def)
  from served_documents_endorsed [OF s(1) demo_cfg_ok s(2), unfolded f] s show ?thesis by blast
qed

text \<open>
  C8: two consensus documents held by two (or the same) correctly configured authorities of one
  network, for whatever epochs, have a common signer: for one of the configured authorities, each of
  the two certificates carries a signature in its name that is valid for the document.  So two
  different documents for an epoch need an authority that signed both.
\<close>

theorem consensus_common_signer:
  assumes "reachable S s" "cfg_ok S" "gm_get (documents s) e = Some d"
    and "reachable S' s'" "cfg_ok S'" "gm_get (documents s') e' = Some d'"
    and "cfg_Authorities S' = cfg_Authorities S" "s_lib S' = s_lib S"
  shows "\<exists>v crt crt'. v \<in> fst ` set (cfg_Authorities S) \<and>
    held_as (s_lib S) d crt \<and> held_as (s_lib S) d' crt' \<and>
    carries_signature (pl_prims (s_lib S)) v crt \<and> carries_signature (pl_prims (s_lib S)) v crt'"
proof -
  let ?vs = "map fst (cfg_Authorities S)" and ?t = "threshold (emptyState S)"
  have V: "getVerifiers (emptyState S) = ?vs" "getVerifiers (emptyState S') = ?vs" "threshold (emptyState S') = ?t"
      "int (length ?vs) < 2 * ?t"
    using cfg_verifiers [OF assms(2)] cfg_verifiers [OF assms(5)] assms(7) by (simp_all add: authority_client_def Let_def)
  have "endorsed_doc S d" "endorsed_doc S' d'"
    using inv_reachable [OF assms(1,2)] inv_reachable [OF assms(4,5)] assms(3,6) by (auto simp: authority_inv_def docs_ok_def)
  then obtain crt crt' where
    1: "held_as (s_lib S) d crt" "endorsed_by (pl_prims (s_lib S)) crt ?vs ?t" and
    2: "held_as (s_lib S) d' crt'" "endorsed_by (pl_prims (s_lib S)) crt' ?vs ?t"
    unfolding endorsed_doc_def held_as_def V assms(8) by blast
  have "card (pk_Sum256 ` set ?vs) \<le> length ?vs" by (metis card_image_le card_length finite_set le_trans)
  then have c: "int (card (pk_Sum256 ` set ?vs)) < 2 * ?t" using V(4) by linarith
  from quorums_intersect [OF 1(2) 2(2) c cfg_inj [OF assms(2)]] 1(1) 2(1) show ?thesis by auto
qed

theorem consensus_common_signer_witness:
  "\<exists>s d crt. reachable demo_server s \<and> gm_get (documents s) 5 = Some d \<and> held_as demo_lib d crt \<and>
    carries_signature toy_prims (snd (toy_signer 1)) crt"
proof -
  obtain s d where s: "reachable demo_server s" "gm_get (documents s) 5 = Some d"
    by (rule demo_reachable)
  from consensus_common_signer [OF s(1) demo_cfg_ok s(2) s(1) demo_cfg_ok s(2) refl refl] s
  show ?thesis by (auto simp: demo_server_def demo_lib_fields)
qed

end
