(* ===== verification/Voting_Live.thy ===== *)
theory Voting_Live
  imports Voting_Safety
begin

text \<open>
  Progress of the voting protocol: with valid signatures of a majority on its own view of the
  consensus, an authority publishes the document at the next wake-up of its schedule
  (\<^verbatim>\<open>getThresholdConsensus\<close> and \<^verbatim>\<open>fsm\<close> of \<^verbatim>\<open>src/authority/voting/server/state.go\<close>).
\<close>

section \<open>Collecting signatures\<close>

text \<open>The signatures of a document are filed under the hash each carries.\<close>

definition filed :: "(bytes, Signature) gomap \<Rightarrow> bool" where
  "filed m \<longleftrightarrow> gm_wf m \<and> (\<forall>h s. gm_get m h = Some s \<longrightarrow> PublicKeySum256 s = h)"

text \<open>A document that can be encoded, with the certified bytes it gives.\<close>

definition encodable :: "pki_lib \<Rightarrow> u64 \<Rightarrow> Document \<Rightarrow> bytes \<Rightarrow> bool" where
  "encodable L now d payload \<longleftrightarrow> cbor_ok (pl_cbor L) \<and> doc_Version d = DocumentVersion \<and>
     encodeDocument L d = Ok payload \<and> payload \<noteq> [] \<and> now < doc_Epoch d + 5"

abbreviation doc_message :: "Document \<Rightarrow> bytes \<Rightarrow> bytes" where
  "doc_message d payload \<equiv> cert_message (fresh_cert payload (doc_Epoch d + 5))"

lemma encodable_signatures [simp]: "encodable L now (d\<lparr>doc_Signatures := m\<rparr>) payload \<longleftrightarrow> encodable L now d payload"
  by (simp add: encodable_def encodeDocument_def)

lemma doc_marshalled:
  assumes "encodable L now d payload" "gm_wf (doc_Signatures d)"
  obtains raw c where "doc_MarshalBinary L d = Ok (raw, d)" "c_Unmarshal (pl_cbor L) e now raw = Ok c"
    "Certified c = payload" "cert_message c = doc_message d payload" "gm_wf (Signatures c)"
    "gm_get (Signatures c) = gm_get (doc_Signatures d)"
proof -
  let ?c = "(fresh_cert payload (doc_Epoch d + 5))\<lparr>Signatures := doc_Signatures d\<rparr>"
  have m: "d\<lparr>doc_Version := DocumentVersion\<rparr> = d" "encodeDocument L d = Ok payload" "cbor_ok (pl_cbor L)"
    using assms(1) by (simp_all add: encodable_def)
  have "sanityCheck now ?c = Ok ?c"
    using assms(1) by (simp add: encodable_def sanityCheck_Ok_iff fresh_cert_def utf8_PrivateKeyType)
  from store_cert [OF m(3) _ _ this, of ErrMarshal e] obtain raw c where
    r: "c_Marshal (pl_cbor L) ErrMarshal ?c = Ok raw" "c_Unmarshal (pl_cbor L) e now raw = Ok c" "same_cert ?c c"
    using assms(2) by (auto simp: fresh_cert_def utf8_PrivateKeyType)
  have "doc_MarshalBinary L d = Ok (raw, d)"
    using r(1) m by (simp add: doc_MarshalBinary_def Let_def c_Marshal_def from_option_def fresh_cert_def split: option.splits)
  then show ?thesis
    using that r(2,3) same_cert_message [OF r(3)] by (auto simp: same_cert_def fresh_cert_def cert_message_def)
qed

lemma filed_keyed: "filed m \<Longrightarrow> gm_wf (Signatures c) \<Longrightarrow> gm_get (Signatures c) = gm_get m \<Longrightarrow> keyed c"
  by (simp add: filed_def keyed_iff)

text \<open>One signature: refused when there is one already or it does not verify, and filed otherwise.\<close>

lemma doc_AddSignature_eq:
  assumes "encodable L now d payload" "filed (doc_Signatures d)"
    and "pk_Verify (pl_prims L) v (Payload sig) (doc_message d payload) \<noteq> Panic"
  shows "if gm_get (doc_Signatures d) (PublicKeySum256 sig) = None \<and>
      pk_Verify (pl_prims L) v (Payload sig) (doc_message d payload) = Ok True
    then doc_AddSignature L now (Some v) sig d = Ok (d\<lparr>doc_Signatures := gm_put (doc_Signatures d) (pk_Sum256 v) sig\<rparr>)
    else \<exists>e. doc_AddSignature L now (Some v) sig d = Fail e"
proof -
  have wf: "gm_wf (doc_Signatures d)" using assms(2) by (simp add: filed_def)
  obtain raw c where c: "doc_MarshalBinary L d = Ok (raw, d)" "c_Unmarshal (pl_cbor L) ErrImpossibleDecode now raw = Ok c"
    "Certified c = payload" "cert_message c = doc_message d payload" "gm_wf (Signatures c)"
    "gm_get (Signatures c) = gm_get (doc_Signatures d)"
    by (rule doc_marshalled [OF assms(1) wf])
  have B: "cbor_ok (pl_cbor L)" using assms(1) by (simp add: encodable_def)
  have ex: "list_ex (\<lambda>s. PublicKeySum256 s = PublicKeySum256 sig) (map snd (Signatures c)) \<longleftrightarrow>
      gm_get (doc_Signatures d) (PublicKeySum256 sig) \<noteq> None"
    using c(5,6) filed_keyed [OF assms(2) c(5,6)] ex_keyed [of "Signatures c" "PublicKeySum256 sig"] by (simp add: keyed_def)
  let ?c = "c\<lparr>Signatures := gm_put (Signatures c) (PublicKeySum256 sig) sig\<rparr>"
  have "sanityCheck now ?c = Ok ?c" using c(2) by (auto simp: c_Unmarshal_Ok_iff sanityCheck_Ok_iff)
  from store_cert [OF B _ _ this, of ErrImpossibleEncode ErrImpossibleDecode] opened_wf [OF B c(2)]
  have "\<exists>b. c_Marshal (pl_cbor L) ErrImpossibleEncode ?c = Ok b" by auto
  then show ?thesis
    using assms(3) c(1,2,4) ex
    by (cases "pk_Verify (pl_prims L) v (Payload sig) (doc_message d payload)")
       (auto simp: doc_AddSignature_def addSignatureBy_def AddSignature_def simp del: list_ex_iff)
qed

lemma filed_put: "filed m \<Longrightarrow> PublicKeySum256 s = h \<Longrightarrow> filed (gm_put m h s)"
  by (auto simp: filed_def split: if_splits)

text \<open>
  All signatures received from the peers: those of the document stay, and a valid one of a peer that
  has none yet is added.
\<close>

definition good_sig :: "sign_prims \<Rightarrow> (bytes, publicKey) gomap \<Rightarrow> bytes \<Rightarrow> bytes \<Rightarrow> Signature \<Rightarrow> bool" where
  "good_sig P rh msg h x \<longleftrightarrow> (\<exists>v. gm_get rh h = Some v \<and> pk_Verify P v (Payload x) msg = Ok True)"

definition collect :: "(bytes \<Rightarrow> Signature \<Rightarrow> bool) \<Rightarrow> (bytes \<Rightarrow> Signature option) \<Rightarrow> (bytes \<Rightarrow> Signature option) \<Rightarrow> bytes \<Rightarrow> Signature option" where
  "collect good m sigs h = (case m h of Some x \<Rightarrow> Some x
     | None \<Rightarrow> (case sigs h of Some x \<Rightarrow> if good h x then Some x else None | None \<Rightarrow> None))"

lemma collect_step:
  assumes "sigs h = None" "m h = None" "good h x"
  shows "collect good (m(h \<mapsto> x)) sigs = collect good m (sigs(h \<mapsto> x))"
  using assms by (auto simp: collect_def fun_eq_iff split: option.splits)

lemma collect_skip:
  assumes "sigs h = None" "m h \<noteq> None \<or> \<not> good h x"
  shows "collect good m sigs = collect good m (sigs(h \<mapsto> x))"
  using assms by (auto simp: collect_def fun_eq_iff split: option.splits)

lemma addSignatures_collects:
  assumes "encodable L now d payload" "filed (doc_Signatures d)" "gm_wf sigs"
    and "\<forall>(h, sig)\<in>set sigs. \<exists>v. gm_get (reverseHash s) h = Some v \<and> pk_Sum256 v = h \<and> PublicKeySum256 sig = h \<and>
      pk_Verify (pl_prims L) v (Payload sig) (doc_message d payload) \<noteq> Panic"
  shows "\<exists>m. addSignatures L now s sigs d = Ok (d\<lparr>doc_Signatures := m\<rparr>) \<and> filed m \<and>
    gm_get m = collect (good_sig (pl_prims L) (reverseHash s) (doc_message d payload)) (gm_get (doc_Signatures d)) (gm_get sigs)"
  using assms
proof (induction sigs arbitrary: d)
  case Nil
  have "gm_get (doc_Signatures d) =
      collect (good_sig (pl_prims L) (reverseHash s) (doc_message d payload)) (gm_get (doc_Signatures d)) (gm_get [])"
    by (simp add: collect_def fun_eq_iff gm_get_def split: option.splits)
  then show ?case using Nil.prems(2) by (intro exI [of _ "doc_Signatures d"]) simp
next
  case (Cons hs sigs)
  obtain h sig where hs: "hs = (h, sig)" by (cases hs)
  obtain v where v: "gm_get (reverseHash s) h = Some v" "pk_Sum256 v = h" "PublicKeySum256 sig = h"
    "pk_Verify (pl_prims L) v (Payload sig) (doc_message d payload) \<noteq> Panic"
    using Cons.prems(4) hs by auto
  let ?good = "good_sig (pl_prims L) (reverseHash s) (doc_message d payload)"
  have wf: "gm_wf sigs" "gm_get sigs h = None"
    using Cons.prems(3) hs by (auto simp: gm_wf_def gm_get_def map_of_eq_None_iff)
  have other: "gm_get (hs # sigs) = (gm_get sigs)(h \<mapsto> sig)" by (simp add: hs gm_get_def fun_eq_iff)
  have rest: "\<forall>(h, sig)\<in>set sigs. \<exists>v. gm_get (reverseHash s) h = Some v \<and> pk_Sum256 v = h \<and> PublicKeySum256 sig = h \<and>
      pk_Verify (pl_prims L) v (Payload sig) (doc_message d payload) \<noteq> Panic" using Cons.prems(4) by simp
  have g: "?good h sig \<longleftrightarrow> pk_Verify (pl_prims L) v (Payload sig) (doc_message d payload) = Ok True"
    using v(1) by (simp add: good_sig_def)
  note A = doc_AddSignature_eq [OF Cons.prems(1,2) v(4), unfolded v(2,3), folded g]
  show ?case
  proof (cases "gm_get (doc_Signatures d) h = None \<and> ?good h sig")
    case True
    let ?d = "d\<lparr>doc_Signatures := gm_put (doc_Signatures d) h sig\<rparr>"
    have add: "addSignatures L now s (hs # sigs) d = addSignatures L now s sigs ?d" using A True hs v(1) by simp
    have f: "filed (doc_Signatures ?d)" using filed_put [OF Cons.prems(2) v(3)] by simp
    have e: "encodable L now ?d payload" using Cons.prems(1) by simp
    have msg: "doc_message ?d payload = doc_message d payload"
      and ds: "gm_get (doc_Signatures ?d) = (gm_get (doc_Signatures d))(h \<mapsto> sig)" by (simp_all add: fun_eq_iff)
    obtain m where m: "addSignatures L now s sigs ?d = Ok (?d\<lparr>doc_Signatures := m\<rparr>)" "filed m"
        "gm_get m = collect ?good ((gm_get (doc_Signatures d))(h \<mapsto> sig)) (gm_get sigs)"
      using Cons.IH [OF e f wf(1), unfolded msg ds, OF rest] by blast
    have "gm_get m = collect ?good (gm_get (doc_Signatures d)) (gm_get (hs # sigs))"
      unfolding m(3) other by (rule collect_step) (use wf(2) True in simp_all)
    then show ?thesis using add m(1,2) by (intro exI [of _ m]) simp
  next
    case False
    then have "\<exists>e. doc_AddSignature L now (Some v) sig d = Fail e" using A by (simp only: if_False)
    then have "addSignatures L now s (hs # sigs) d = addSignatures L now s sigs d" using hs v(1) by auto
    moreover have "collect ?good (gm_get (doc_Signatures d)) (gm_get sigs) = collect ?good (gm_get (doc_Signatures d)) (gm_get (hs # sigs))"
      unfolding other by (rule collect_skip) (use wf(2) False in simp_all)
    ultimately show ?thesis using Cons.IH [OF Cons.prems(1,2) wf(1) rest] by simp
  qed
qed

section \<open>Counting them\<close>

lemma thresholdLoop_total:
  assumes "\<forall>v\<in>set vs. cert_Verify P B current v raw \<noteq> Panic" "gm_wf good"
  shows "\<exists>cert' good' bad'. thresholdLoop P B current raw vs (cert, good, bad) = Ok (cert', good', bad') \<and> gm_wf good' \<and>
    gm_keys good' = gm_keys good \<union> pk_Sum256 ` {v \<in> set vs. \<exists>c. cert_Verify P B current v raw = Ok c}"
  using assms
proof (induction vs arbitrary: cert good bad)
  case (Cons v vs)
  show ?case
  proof (cases "cert_Verify P B current v raw")
    case (Ok c)
    from Cons.IH [of "gm_put good (pk_Sum256 v) v" c bad] Cons.prems
    obtain cert' good' bad' where
      "thresholdLoop P B current raw vs (c, gm_put good (pk_Sum256 v) v, bad) = Ok (cert', good', bad')" "gm_wf good'"
      "gm_keys good' = gm_keys (gm_put good (pk_Sum256 v) v) \<union> pk_Sum256 ` {v \<in> set vs. \<exists>c. cert_Verify P B current v raw = Ok c}"
      by auto
    then show ?thesis using Ok by auto
  next
    case (Fail e)
    from Cons.IH [of good cert "bad @ [v]"] Cons.prems obtain cert' good' bad' where
      "thresholdLoop P B current raw vs (cert, good, bad @ [v]) = Ok (cert', good', bad')" "gm_wf good'"
      "gm_keys good' = gm_keys good \<union> pk_Sum256 ` {v \<in> set vs. \<exists>c. cert_Verify P B current v raw = Ok c}"
      by auto
    then show ?thesis using Fail by auto
  qed (use Cons.prems in simp)
qed simp

lemma VerifyThreshold_reached:
  assumes "\<forall>v\<in>set vs. cert_Verify P B current v raw \<noteq> Panic" "set G \<subseteq> set vs" "distinct (map pk_Sum256 G)"
    and "\<forall>v\<in>set G. \<exists>c. cert_Verify P B current v raw = Ok c" "t \<le> int (length G)"
  shows "\<exists>r. VerifyThreshold P B current vs t raw = Ok r \<and> vt_err r = None"
proof -
  obtain cert good bad where l: "thresholdLoop P B current raw vs ([], [], []) = Ok (cert, good, bad)" "gm_wf good"
    "gm_keys good = pk_Sum256 ` {v \<in> set vs. \<exists>c. cert_Verify P B current v raw = Ok c}"
    using thresholdLoop_total [OF assms(1), of "[]" "[]" "[]"] by (auto simp: gm_wf_def gm_keys_def)
  have "length G = card (pk_Sum256 ` set G)" using distinct_card [OF assms(3)] by simp
  also have "\<dots> \<le> card (gm_keys good)"
    using assms(2,4) l(3) by (intro card_mono) (auto simp: gm_keys_def)
  also have "card (gm_keys good) = length good"
    using l(2) distinct_card [of "map fst good"] by (simp add: gm_keys_def gm_wf_def)
  finally have g: "length G \<le> length good" .
  have "length G \<le> length vs"
    using assms(2,3) card_mono [of "set vs" "set G"] distinct_card [of G] card_length [of vs] by (auto simp: distinct_map)
  then have "\<not> int (length vs) < t" using assms(5) by linarith
  then show ?thesis using l(1) g assms(5) by (simp add: VerifyThreshold_def)
qed

section \<open>Publishing\<close>

lemma reverse_member:
  assumes "cfg_ok S" "v \<in> set (map fst (cfg_Authorities S))"
  shows "gm_get (reverseHash (emptyState S)) (pk_Sum256 v) = Some v"
proof -
  let ?f = "\<lambda>(pk, _) m. gm_put m (pk_Sum256 pk) pk"
  have keep: "pk_Sum256 v \<notin> (pk_Sum256 \<circ> fst) ` set as \<Longrightarrow>
      gm_get (fold ?f as m) (pk_Sum256 v) = gm_get m (pk_Sum256 v)" for as :: "(publicKey \<times> bytes) list" and m
    by (induction as arbitrary: m) auto
  have "gm_get (fold ?f as m) (pk_Sum256 v) = Some v"
    if "v \<in> fst ` set as" "distinct (map (pk_Sum256 \<circ> fst) as)" for as :: "(publicKey \<times> bytes) list" and m
    using that by (induction as arbitrary: m) (auto simp: keep)
  then have "gm_get (fold ?f (cfg_Authorities S) m) (pk_Sum256 v) = Some v" for m using assms by (simp add: cfg_ok_def)
  moreover have "identityPublicKey S = v" if "pk_Sum256 v = pk_Sum256 (identityPublicKey S)"
    using inj_onD [OF cfg_inj [OF assms(1)] that assms(2)] assms(1) by (auto simp: cfg_ok_def)
  ultimately show ?thesis by (auto simp: emptyState_tables newTables_def Let_def)
qed

text \<open>
  The signatures an authority holds for its view of the consensus, from the document and from the
  table of received signatures: each is filed under the hash it carries and long enough to be verified.
\<close>

definition signatures_sound :: "server \<Rightarrow> Document \<Rightarrow> bytes \<Rightarrow> (bytes, Signature) gomap \<Rightarrow> bool" where
  "signatures_sound S d payload sigs \<longleftrightarrow> filed (doc_Signatures d) \<and>
     (\<forall>h x. gm_get sigs h = Some x \<longrightarrow> PublicKeySum256 x = h) \<and>
     (\<forall>v\<in>set (map fst (cfg_Authorities S)). \<forall>x\<in>snd ` set (doc_Signatures d) \<union> snd ` set sigs.
        pk_Verify (pl_prims (s_lib S)) v (Payload x) (doc_message d payload) \<noteq> Panic)"

text \<open>An authority signed the view: the first of the two places that has a signature has a valid one.\<close>

definition signed_view :: "server \<Rightarrow> Document \<Rightarrow> bytes \<Rightarrow> (bytes, Signature) gomap \<Rightarrow> publicKey \<Rightarrow> bool" where
  "signed_view S d payload sigs v \<longleftrightarrow>
     (case (gm_get (doc_Signatures d) (pk_Sum256 v), gm_get sigs (pk_Sum256 v)) of
        (Some x, _) \<Rightarrow> pk_Verify (pl_prims (s_lib S)) v (Payload x) (doc_message d payload) = Ok True
      | (None, Some x) \<Rightarrow> pk_Verify (pl_prims (s_lib S)) v (Payload x) (doc_message d payload) = Ok True
      | (None, None) \<Rightarrow> False)"

lemma getThresholdConsensus_reached:
  assumes I: "authority_inv S s" and C: "cfg_ok S" and d: "gm_get (myconsensus s) epoch = Some d"
    and E: "encodable (s_lib S) now d payload" and Sd: "signatures_sound S d payload (inner (st_signatures s) epoch)"
    and G: "set G \<subseteq> set (map fst (cfg_Authorities S))" "distinct (map pk_Sum256 G)"
      "int (length (cfg_Authorities S)) div 2 + 1 \<le> int (length G)"
      "\<forall>v\<in>set G. signed_view S d payload (inner (st_signatures s) epoch) v"
  shows "\<exists>m raw r s'. getThresholdConsensus S now epoch s = Some (Inr (d\<lparr>doc_Signatures := m\<rparr>), s') \<and>
    doc_MarshalBinary (s_lib S) (d\<lparr>doc_Signatures := m\<rparr>) = Ok (raw, d\<lparr>doc_Signatures := m\<rparr>) \<and>
    VerifyThreshold (pl_prims (s_lib S)) (pl_cbor (s_lib S)) now (map fst (cfg_Authorities S))
      (int (length (cfg_Authorities S)) div 2 + 1) raw = Ok r \<and> vt_err r = None \<and>
    GetCertified (pl_cbor (s_lib S)) now raw = Ok payload \<and>
    documents s' = gm_put (documents s) epoch (d\<lparr>doc_Signatures := m\<rparr>) \<and> votingEpoch s' = votingEpoch s"
proof -
  let ?L = "s_lib S" and ?sigs = "inner (st_signatures s) epoch" and ?as = "map fst (cfg_Authorities S)"
  note peers = I [unfolded authority_inv_def, THEN conjunct1]
  have V: "getVerifiers s = ?as" "threshold s = int (length (cfg_Authorities S)) div 2 + 1"
    using inv_verifiers [OF I] cfg_verifiers [OF C] by (simp_all add: authority_client_def Let_def)
  have rh: "gm_get (reverseHash s) (pk_Sum256 v) = Some v" if "v \<in> set ?as" for v
    using reverse_member [OF C that] same_peersD [OF peers] by simp
  have "gm_wf ?sigs" and keys: "gm_keys ?sigs \<subseteq> members S" using I by (simp_all add: authority_inv_def table_ok_def)
  have mem: "members S = pk_Sum256 ` set ?as"
    using C by (auto simp: members_eq identityPubKeyHash_def cfg_ok_def)
  have nopanic: "pk_Verify (pl_prims ?L) v (Payload x) (doc_message d payload) \<noteq> Panic"
    if "v \<in> set ?as" "x \<in> snd ` set (doc_Signatures d) \<union> snd ` set ?sigs" for v x
    using Sd that unfolding signatures_sound_def by blast
  have entry: "\<exists>v. gm_get (reverseHash s) h = Some v \<and> pk_Sum256 v = h \<and> PublicKeySum256 x = h \<and>
      pk_Verify (pl_prims ?L) v (Payload x) (doc_message d payload) \<noteq> Panic" if hx: "(h, x) \<in> set ?sigs" for h x
  proof -
    have "h \<in> gm_keys ?sigs" using hx by (force simp: gm_keys_def)
    then have "h \<in> pk_Sum256 ` set ?as" using subsetD [OF keys [unfolded mem]] by simp
    then obtain v where v: "v \<in> set ?as" "pk_Sum256 v = h" by (elim imageE) simp
    moreover have "gm_get ?sigs h = Some x" using hx \<open>gm_wf ?sigs\<close> by (simp add: gm_get_in_set)
    then have "PublicKeySum256 x = h" using Sd by (simp add: signatures_sound_def)
    moreover have "x \<in> snd ` set ?sigs" using hx by force
    then have "pk_Verify (pl_prims ?L) v (Payload x) (doc_message d payload) \<noteq> Panic" using nopanic [OF v(1)] by simp
    ultimately show ?thesis using rh by blast
  qed
  have f: "filed (doc_Signatures d)" using Sd by (simp add: signatures_sound_def)
  let ?good = "good_sig (pl_prims ?L) (reverseHash s) (doc_message d payload)"
  obtain m where m: "addSignatures ?L now s ?sigs d = Ok (d\<lparr>doc_Signatures := m\<rparr>)" "filed m"
      "gm_get m = collect ?good (gm_get (doc_Signatures d)) (gm_get ?sigs)"
    using addSignatures_collects [OF E f \<open>gm_wf ?sigs\<close>, of s] entry by blast
  let ?d = "d\<lparr>doc_Signatures := m\<rparr>"
  obtain raw c where c: "doc_MarshalBinary ?L ?d = Ok (raw, ?d)" "c_Unmarshal (pl_cbor ?L) ErrImpossibleDecode now raw = Ok c"
    "Certified c = payload" "cert_message c = doc_message d payload" "gm_wf (Signatures c)"
    "gm_get (Signatures c) = gm_get m"
    using doc_marshalled [of ?L now ?d payload] E m(2) by (auto simp: filed_def)
  note verify = cert_Verify_opened [OF c(2,5) filed_keyed [OF m(2) c(5,6)], of "pl_prims ?L", unfolded c(3,4,6)]
  have np: "cert_Verify (pl_prims ?L) (pl_cbor ?L) now v raw \<noteq> Panic" if "v \<in> set ?as" for v
  proof -
    have "x \<in> snd ` set (doc_Signatures d) \<union> snd ` set ?sigs" if "gm_get m (pk_Sum256 v) = Some x" for x
      using that m(3) f \<open>gm_wf ?sigs\<close>
      by (force simp: collect_def filed_def gm_get_in_set split: option.splits if_splits)
    note nopanic [OF \<open>v \<in> set ?as\<close> this]
    then show ?thesis
      unfolding verify by (cases "gm_get m (pk_Sum256 v)") (auto simp: obind_Panic_iff split: if_splits)
  qed
  have ok: "\<exists>x. cert_Verify (pl_prims ?L) (pl_cbor ?L) now v raw = Ok x" if "v \<in> set G" for v
  proof -
    have "gm_get (reverseHash s) (pk_Sum256 v) = Some v" "signed_view S d payload ?sigs v"
      using rh [OF subsetD [OF G(1) that]] bspec [OF G(4) that] by simp_all
    then obtain x where "gm_get m (pk_Sum256 v) = Some x" "pk_Verify (pl_prims ?L) v (Payload x) (doc_message d payload) = Ok True"
      unfolding m(3) by (auto simp: signed_view_def collect_def good_sig_def split: option.splits)
    then show ?thesis by (simp add: verify)
  qed
  obtain r where r: "VerifyThreshold (pl_prims ?L) (pl_cbor ?L) now ?as (int (length (cfg_Authorities S)) div 2 + 1) raw = Ok r"
    "vt_err r = None"
    using VerifyThreshold_reached [of ?as "pl_prims ?L" "pl_cbor ?L" now raw G] np G ok by blast
  show ?thesis
    by (rule exI [of _ m], rule exI [of _ raw], rule exI [of _ r])
       (simp add: getThresholdConsensus_def d m(1) c(1) V r vbind_def vcall_def vmod_def vret_def persistDocument_def
         GetCertified_def c(2,3))
qed

section \<open>Signatures under a wrong hash\<close>

lemma find_only: "\<exists>s\<in>set xs. P s \<Longrightarrow> \<forall>s\<in>set xs. P s \<longrightarrow> s = x \<Longrightarrow> find P xs = Some x"
  by (induction xs) auto

lemma misfiled_hides:
  assumes E: "encodable L now d payload" and F: "filed (doc_Signatures d)"
    and new: "gm_get (doc_Signatures d) (pk_Sum256 a) = None" "gm_get (doc_Signatures d) (pk_Sum256 b) = None"
    and keys: "gm_get (reverseHash s) (pk_Sum256 a) = Some a" "gm_get (reverseHash s) (pk_Sum256 b) = Some b"
      "pk_Sum256 a \<noteq> pk_Sum256 b"
    and x: "PublicKeySum256 x = pk_Sum256 a" "pk_Verify (pl_prims L) b (Payload x) (doc_message d payload) = Ok True"
      "pk_Verify (pl_prims L) a (Payload x) (doc_message d payload) = Ok False"
    and y: "PublicKeySum256 y = pk_Sum256 a"
  shows "\<exists>d' raw. addSignatures L now s [(pk_Sum256 b, x), (pk_Sum256 a, y)] d = Ok d' \<and> doc_MarshalBinary L d' = Ok (raw, d') \<and>
    cert_Verify (pl_prims L) (pl_cbor L) now a raw = Fail ErrBadSignature \<and>
    cert_Verify (pl_prims L) (pl_cbor L) now b raw = Fail ErrIdentitySignatureNotFound"
proof -
  let ?m = "gm_put (doc_Signatures d) (pk_Sum256 b) x" and ?P = "pl_prims L" and ?B = "pl_cbor L"
  let ?d = "d\<lparr>doc_Signatures := ?m\<rparr>"
  have add: "doc_AddSignature L now (Some b) x d = Ok ?d"
    using doc_AddSignature_eq [OF E F, of b x] x new(1) by simp
  have wf: "gm_wf (doc_Signatures ?d)" using F by (simp add: filed_def)
  obtain raw c where c: "doc_MarshalBinary L ?d = Ok (raw, ?d)" "c_Unmarshal ?B ErrImpossibleDecode now raw = Ok c"
    "Certified c = payload" "cert_message c = doc_message d payload" "gm_wf (Signatures c)"
    "gm_get (Signatures c) = gm_get ?m"
    using doc_marshalled [of L now ?d payload ErrImpossibleDecode, OF _ wf] E by auto
  have entries: "(k, s) \<in> set (Signatures c) \<longleftrightarrow>
      (if k = pk_Sum256 b then s = x else gm_get (doc_Signatures d) k = Some s)" for k s
    using c(5,6) by (auto simp: gm_get_in_set [symmetric] split: if_splits)
  have fields: "PublicKeySum256 s = k" if "gm_get (doc_Signatures d) k = Some s" for k s
    using F that by (simp add: filed_def)
  have has: "x \<in> set (map snd (Signatures c))" using entries [of "pk_Sum256 b" x] by force
  have onlya: "\<forall>s\<in>set (map snd (Signatures c)). PublicKeySum256 s = pk_Sum256 a \<longrightarrow> s = x"
    using entries fields new(1) by (force split: if_splits)
  have nob: "\<forall>s\<in>set (map snd (Signatures c)). PublicKeySum256 s \<noteq> pk_Sum256 b"
    using entries fields new(2) x(1) keys(3) by (force split: if_splits)
  have "\<exists>e. doc_AddSignature L now (Some a) y ?d = Fail e"
    using c(1,2) has x(1) y by (auto simp: doc_AddSignature_def addSignatureBy_def AddSignature_def list_ex_iff)
  then have run: "addSignatures L now s [(pk_Sum256 b, x), (pk_Sum256 a, y)] d = Ok ?d" using keys add by auto
  have u: "c_Unmarshal ?B ErrImpossibleEncode now raw = Ok c" by (rule c_Unmarshal_any [OF c(2)])
  have "find (\<lambda>s. pk_Sum256 a = PublicKeySum256 s) (map snd (Signatures c)) = Some x"
    by (rule find_only) (use has onlya x(1) in metis)+
  then have "cert_Verify ?P ?B now a raw = Fail ErrBadSignature" using u x(3) c(4) by (simp add: cert_Verify_def)
  moreover have "find (\<lambda>s. pk_Sum256 b = PublicKeySum256 s) (map snd (Signatures c)) = None"
    using nob by (auto simp: find_None_iff)
  then have "cert_Verify ?P ?B now b raw = Fail ErrIdentitySignatureNotFound" using u by (simp add: cert_Verify_def)
  ultimately show ?thesis using run c(1) by blast
qed

section \<open>A concrete document\<close>

lemma demo_encodable: "encodable demo_lib 5 demo_doc [1]"
proof -
  have "\<exists>raw. md_MarshalBinary demo_lib (toy_desc b p) = Ok raw" for b p
    by (auto simp: md_MarshalBinary_def demo_lib_def toy_lib_def from_option_def toy_cbor_def toy_Marshal_def toy_desc_def)
  then obtain f where "md_MarshalBinary demo_lib (toy_desc b p) = Ok (f b p)" for b p by metis
  then have "encodeDocument demo_lib demo_doc = Ok [1]"
    by (simp add: encodeDocument_def) (simp add: demo_lib_def toy_lib_def from_option_def)
  then show ?thesis by (simp add: encodable_def toy_cbor_ok demo_lib_fields)
qed

lemma demo_signature:
  assumes "msg \<noteq> []"
  shows "\<exists>sig. pk_Verify toy_prims (snd (toy_signer 2)) sig msg = Ok True \<and>
    pk_Verify toy_prims (snd (toy_signer 1)) sig msg = Ok False"
proof -
  obtain sig where sig: "pk_Verify toy_prims (snd (toy_signer 2)) sig msg = Ok True"
    using signer_signs [OF toy_signer_ok, of msg 2] assms by auto
  then have "eddsa_SignatureSize \<le> length sig" "take eddsa_SignatureSize sig = replicate 32 2 @ toy_digest msg"
    by (auto simp: pk_Verify_def toy_prims_def toy_signer_def split: if_splits)
  then have "pk_Verify toy_prims (snd (toy_signer 1)) sig msg = Ok False"
    by (simp add: pk_Verify_def toy_prims_def toy_signer_def)
  then show ?thesis using sig by blast
qed

section \<open>Properties\<close>

text \<open>
  C6: when the schedule of an authority, in any state with the invariant of the reachable states, wakes
  up after the signature phase, and a majority of the authorities has signed its view of the consensus for the voting epoch, it publishes: it goes on to
  the next voting epoch, and from then on it answers a request for the epoch with that document, whose
  signatures pass the threshold check.  The other received signatures, valid or not, do not prevent it
  as long as each carries the hash it is filed under and is long enough to be verified.
\<close>

theorem consensus_published:
  assumes "authority_inv S s" and "cfg_ok S" and "st_phase s = AcceptSignature"
    and "gm_get (myconsensus s) (votingEpoch s) = Some d" and "encodable (s_lib S) (tk_epoch tk) d payload"
    and "signatures_sound S d payload (inner (st_signatures s) (votingEpoch s))"
    and "set G \<subseteq> set (map fst (cfg_Authorities S))" and "distinct (map pk_Sum256 G)"
    and "int (length (cfg_Authorities S)) div 2 + 1 \<le> int (length G)"
    and "\<forall>v\<in>set G. signed_view S d payload (inner (st_signatures s) (votingEpoch s)) v"
    and "\<not> votingEpoch s < tk_epoch tk - preserveForPastEpochs"
  shows "\<exists>ef s' raw r. fsm S tk s = Some (ef, s') \<and> st_phase s' = AcceptDescriptor \<and> votingEpoch s' = votingEpoch s + 1 \<and>
    onGetConsensus S now elapsed (votingEpoch s) s' = Some (Consensus ConsensusOk raw, s') \<and>
    GetCertified (pl_cbor (s_lib S)) (tk_epoch tk) raw = Ok payload \<and>
    VerifyThreshold (pl_prims (s_lib S)) (pl_cbor (s_lib S)) (tk_epoch tk) (map fst (cfg_Authorities S))
      (int (length (cfg_Authorities S)) div 2 + 1) raw = Ok r \<and> vt_err r = None"
proof -
  obtain m raw r t where g: "getThresholdConsensus S (tk_epoch tk) (votingEpoch s) s = Some (Inr (d\<lparr>doc_Signatures := m\<rparr>), t)"
    "doc_MarshalBinary (s_lib S) (d\<lparr>doc_Signatures := m\<rparr>) = Ok (raw, d\<lparr>doc_Signatures := m\<rparr>)"
    "VerifyThreshold (pl_prims (s_lib S)) (pl_cbor (s_lib S)) (tk_epoch tk) (map fst (cfg_Authorities S))
      (int (length (cfg_Authorities S)) div 2 + 1) raw = Ok r" "vt_err r = None"
    "GetCertified (pl_cbor (s_lib S)) (tk_epoch tk) raw = Ok payload"
    "documents t = gm_put (documents s) (votingEpoch s) (d\<lparr>doc_Signatures := m\<rparr>)" "votingEpoch t = votingEpoch s"
    using getThresholdConsensus_reached [OF assms(1,2,4-10)] by blast
  obtain ef s' where s': "fsm S tk s = Some (ef, s')"
    "s' = pruneDocuments (tk_epoch tk) (t\<lparr>st_phase := AcceptDescriptor, votingEpoch := votingEpoch t + 1\<rparr>)"
    using g(1) assms(3) by (simp add: fsm_def fsm_AcceptSignature_def)
  have "gm_get (documents s') (votingEpoch s) = Some (d\<lparr>doc_Signatures := m\<rparr>)"
    using assms(11) by (simp add: s'(2) pruneDocuments_def Let_def get_prune g(6))
  then have "onGetConsensus S now elapsed (votingEpoch s) s' = Some (Consensus ConsensusOk raw, s')"
    using g(2) by (simp add: onGetConsensus_def documentForEpoch_def)
  moreover have "st_phase s' = AcceptDescriptor" "votingEpoch s' = votingEpoch s + 1"
    by (simp_all add: s'(2) pruneDocuments_def Let_def g(7))
  ultimately show ?thesis using s'(1) g(3-5) by blast
qed

theorem consensus_published_witness:
  "\<exists>s d tk ef s' raw. st_phase s = AcceptSignature \<and> gm_get (myconsensus s) 5 = Some d \<and>
    fsm demo_server tk s = Some (ef, s') \<and> st_phase s' = AcceptDescriptor \<and>
    onGetConsensus demo_server 5 0 5 s' = Some (Consensus ConsensusOk raw, s')"
proof -
  let ?v = "snd (toy_signer 1)" and ?msg = "doc_message demo_doc [1]"
  obtain sig where sig: "pk_Verify toy_prims ?v sig ?msg = Ok True"
    using signer_signs [OF toy_signer_ok, of ?msg 1] by auto
  let ?x = "\<lparr>PublicKeySum256 = replicate 32 1, Payload = sig\<rparr>"
  let ?d = "demo_doc\<lparr>doc_Signatures := [(replicate 32 1, ?x)]\<rparr>"
  let ?s = "(emptyState demo_server)\<lparr>st_phase := AcceptSignature, votingEpoch := 5, myconsensus := [(5, ?d)]\<rparr>"
  let ?tk = "\<lparr>tk_epoch = 5, tk_elapsed = 0, tk_nextEpoch = 0, tk_nowelapsed = 0, tk_till = 0, tk_rand = None\<rparr>"
  have S: "s_lib demo_server = demo_lib" "pl_prims demo_lib = toy_prims" "pl_cbor demo_lib = toy_cbor"
    "map fst (cfg_Authorities demo_server) = [?v]" "length (cfg_Authorities demo_server) = 1"
    by (simp_all add: demo_server_def demo_lib_fields)
  have none: "inner (st_signatures ?s) 5 = []" by (simp add: emptyState_def peer_tables.defs inner_def gm_get_def)
  have inv: "authority_inv demo_server ?s" using inv_emptyState [of demo_server] by simp
  have my: "gm_get (myconsensus ?s) (votingEpoch ?s) = Some ?d" by (simp add: gm_get_def)
  have enc: "encodable (s_lib demo_server) (tk_epoch ?tk) ?d [1]" using demo_encodable by (simp add: S)
  have sound: "signatures_sound demo_server ?d [1] (inner (st_signatures ?s) (votingEpoch ?s))"
    using sig none by (simp add: signatures_sound_def S filed_def gm_wf_def gm_get_def)
  have "signed_view demo_server ?d [1] (inner (st_signatures ?s) (votingEpoch ?s)) ?v"
    using sig none by (simp add: signed_view_def S gm_get_def)
  then have "\<forall>v\<in>set [?v]. signed_view demo_server ?d [1] (inner (st_signatures ?s) (votingEpoch ?s)) v" by simp
  from consensus_published [OF inv demo_cfg_ok _ my enc sound _ _ _ this, of 5 0]
  obtain ef s' raw where r: "fsm demo_server ?tk ?s = Some (ef, s')" "st_phase s' = AcceptDescriptor"
    "onGetConsensus demo_server 5 0 5 s' = Some (Consensus ConsensusOk raw, s')"
    by (auto simp: S preserveForPastEpochs_def)
  show ?thesis
    by (rule exI [of _ ?s], rule exI [of _ ?d], rule exI [of _ ?tk]) (use r in \<open>simp add: gm_get_def\<close>)
qed

text \<open>
  C13: a received signature is not required to carry the hash of the authority it is from.  If the one of
  \<open>b\<close> is valid for \<open>b\<close> and carries the hash of \<open>a\<close>, and comes first, then the signature of \<open>a\<close> is refused as
  a duplicate whether it is valid or not, and the document verifies neither for \<open>a\<close> nor for \<open>b\<close>.
\<close>

theorem misfiled_signature_hides:
  assumes "encodable L now d payload" and "filed (doc_Signatures d)"
    and "gm_get (doc_Signatures d) (pk_Sum256 a) = None" and "gm_get (doc_Signatures d) (pk_Sum256 b) = None"
    and "gm_get (reverseHash s) (pk_Sum256 a) = Some a" and "gm_get (reverseHash s) (pk_Sum256 b) = Some b"
    and "pk_Sum256 a \<noteq> pk_Sum256 b" and "PublicKeySum256 x = pk_Sum256 a" and "PublicKeySum256 y = pk_Sum256 a"
    and "pk_Verify (pl_prims L) b (Payload x) (doc_message d payload) = Ok True"
    and "pk_Verify (pl_prims L) a (Payload x) (doc_message d payload) = Ok False"
  shows "\<exists>d' raw. addSignatures L now s [(pk_Sum256 b, x), (pk_Sum256 a, y)] d = Ok d' \<and> doc_MarshalBinary L d' = Ok (raw, d') \<and>
    cert_Verify (pl_prims L) (pl_cbor L) now a raw = Fail ErrBadSignature \<and>
    cert_Verify (pl_prims L) (pl_cbor L) now b raw = Fail ErrIdentitySignatureNotFound"
  by (rule misfiled_hides [OF assms(1-8,10,11,9)])

theorem misfiled_signature_hides_witness:
  "\<exists>x d' raw. addSignatures demo_lib 5 (newTables demo_server) [(replicate 32 2, x), (replicate 32 1, x)] demo_doc = Ok d' \<and>
    doc_MarshalBinary demo_lib d' = Ok (raw, d') \<and>
    cert_Verify toy_prims toy_cbor 5 (snd (toy_signer 1)) raw = Fail ErrBadSignature \<and>
    cert_Verify toy_prims toy_cbor 5 (snd (toy_signer 2)) raw = Fail ErrIdentitySignatureNotFound"
proof -
  have L: "pl_prims demo_lib = toy_prims" "pl_cbor demo_lib = toy_cbor" by (simp_all add: demo_lib_fields)
  obtain sig where sig: "pk_Verify toy_prims (snd (toy_signer 2)) sig (doc_message demo_doc [1]) = Ok True"
    "pk_Verify toy_prims (snd (toy_signer 1)) sig (doc_message demo_doc [1]) = Ok False"
    using demo_signature [OF cert_message_nonempty] by blast
  let ?x = "\<lparr>PublicKeySum256 = replicate 32 1, Payload = sig\<rparr>"
  have none: "doc_Signatures demo_doc = []" by (simp add: demo_doc_def toy_doc_def Parameters.defs)
  then have f: "filed (doc_Signatures demo_doc)" by (simp add: filed_def gm_wf_def gm_get_def)
  have rh: "gm_get (reverseHash (newTables demo_server)) (replicate 32 1) = Some (snd (toy_signer 1))"
    "gm_get (reverseHash (newTables demo_server)) (replicate 32 2) = Some (snd (toy_signer 2))"
    by (simp_all add: newTables_def demo_server_def gm_get_def)
  have "\<exists>d' raw. addSignatures demo_lib 5 (newTables demo_server)
      [(pk_Sum256 (snd (toy_signer 2)), ?x), (pk_Sum256 (snd (toy_signer 1)), ?x)] demo_doc = Ok d' \<and>
    doc_MarshalBinary demo_lib d' = Ok (raw, d') \<and>
    cert_Verify (pl_prims demo_lib) (pl_cbor demo_lib) 5 (snd (toy_signer 1)) raw = Fail ErrBadSignature \<and>
    cert_Verify (pl_prims demo_lib) (pl_cbor demo_lib) 5 (snd (toy_signer 2)) raw = Fail ErrIdentitySignatureNotFound"
    by (rule misfiled_signature_hides [OF demo_encodable f]) (use sig in \<open>simp_all add: none gm_get_def rh [unfolded gm_get_def] L\<close>)
  then show ?thesis unfolding L toy_signer_sum by blast
qed

end
