(* ===== verification/Double_Ratchet.thy ===== *)
theory Double_Ratchet
  imports Mix_Prelude
begin

text \<open>
  The per-contact cryptographic state of the messaging client, \<^verbatim>\<open>src/doubleratchet/ratchet.go\<close>:
  key exchange, encryption, decryption with the store of keys for delayed messages, and the
  serialised form.  Curve25519, CSIDH, HMAC-SHA3, NaCl's secretbox and CBOR are third-party code
  and are the fields of \<open>ratchet_prims\<close>.  A \<^verbatim>\<open>*memguard.LockedBuffer\<close> is \<open>None\<close> for the nil
  pointer and otherwise its contents, where the empty string stands for a destroyed buffer.
\<close>

section \<open>Data\<close>

type_synonym lbuf = "bytes option"

datatype ratchet_error = ErrDuplicateOrDelayed | ErrHandshakeAlreadyComplete | ErrCannotDecrypt
  | ErrIncorrectHeaderSize | ErrSerialisedKeyLength | ErrNextEncryptedMessageWithoutRatchetFlag
  | ErrCorruptMessage | ErrMessageExceedsReorderingLimit | ErrEchoedDHValues
  | ErrRatchetHeaderTooSmall | ErrInvalidKeyExchange | ErrFailedToLoadPQRatchet
  | ErrCSIDHSharedSecret | ErrCSIDHPrivateImport | ErrCSIDHPublicExport | ErrCSIDHPublicImport
  | ErrCSIDHInvalidPublicKey | ErrInconsistentState | ErrReader | ErrCbor

definition chainKeyLabel :: bytes where
  "chainKeyLabel = string_bytes ''chain key''"

definition headerKeyLabel :: bytes where
  "headerKeyLabel = string_bytes ''header key''"

definition nextHeaderKeyLabel :: bytes where
  "nextHeaderKeyLabel = string_bytes ''next header key''"

definition rootKeyLabel :: bytes where
  "rootKeyLabel = string_bytes ''root key''"

definition rootKeyUpdateLabel :: bytes where
  "rootKeyUpdateLabel = string_bytes ''root key update''"

definition messageKeyLabel :: bytes where
  "messageKeyLabel = string_bytes ''message key''"

definition chainKeyStepLabel :: bytes where
  "chainKeyStepLabel = string_bytes ''chain key step''"

definition keySize :: nat where "keySize = 32"

definition nonceSize :: nat where "nonceSize = 24"

definition MaxMissingMessages :: u32 where "MaxMissingMessages = 8"

record keyExchange =
  Dh0 :: bytes
  Dh1 :: bytes
  PQDh0 :: bytes
  PQDh1 :: bytes

record savedKey =
  sk_key :: lbuf
  sk_timestamp :: int

record cborMessageKey =
  mk_Num :: u32
  mk_Key :: bytes
  mk_CreationTime :: int

record cborSavedKeys =
  sv_HeaderKey :: bytes
  sv_MessageKeys :: "cborMessageKey list"

text \<open>
  The serialised form.  A byte-slice field is \<open>None\<close> when it is nil; an exported CSIDH key is the
  slice allocated for it.
\<close>

record ratchet_image =
  SavedKeys :: "cborSavedKeys list"
  RootKey :: lbuf
  SendHeaderKey :: lbuf
  RecvHeaderKey :: lbuf
  NextSendHeaderKey :: lbuf
  NextRecvHeaderKey :: lbuf
  SendChainKey :: lbuf
  RecvChainKey :: lbuf
  SendRatchetPrivate :: lbuf
  RecvRatchetPublic :: lbuf
  SendPQRatchetPrivate :: lbuf
  RecvPQRatchetPublic :: lbuf
  SendCount :: u32
  RecvCount :: u32
  PrevSendCount :: u32
  Private0 :: lbuf
  Private1 :: lbuf
  PQPrivate0 :: lbuf
  PQPrivate1 :: lbuf
  ratchet_flag :: bool

record ('s, 'p) ratchet_prims =
  ScalarBaseMult :: "bytes \<Rightarrow> bytes"
  ScalarMult :: "bytes \<Rightarrow> bytes \<Rightarrow> bytes"
  csidh_PublicKeySize :: nat
  csidh_PrivateKeySize :: nat
  csidh_NewPrivate :: 's
  csidh_NewPublic :: 'p
  csidh_GeneratePublicKey :: "'s \<Rightarrow> 'p"
  csidh_DeriveSecret :: "'p \<Rightarrow> 's \<Rightarrow> bytes option"
  csidh_Validate :: "'p \<Rightarrow> bool"
  csidh_ExportPublic :: "'p \<Rightarrow> bytes option"
  csidh_ImportPublic :: "bytes \<Rightarrow> 'p option"
  csidh_ExportPrivate :: "'s \<Rightarrow> bytes option"
  csidh_ImportPrivate :: "bytes \<Rightarrow> 's option"
  hmac_sha3 :: "bytes \<Rightarrow> bytes \<Rightarrow> bytes"
  sha3_256 :: "bytes \<Rightarrow> bytes"
  box_Seal :: "bytes \<Rightarrow> bytes \<Rightarrow> bytes \<Rightarrow> bytes"
  box_Open :: "bytes \<Rightarrow> bytes \<Rightarrow> bytes \<Rightarrow> bytes option"
  kx_Marshal :: "keyExchange \<Rightarrow> bytes option"
  kx_Unmarshal :: "bytes \<Rightarrow> keyExchange option"
  image_Marshal :: "ratchet_image \<Rightarrow> bytes option"
  image_Unmarshal :: "bytes \<Rightarrow> ratchet_image option"

text \<open>
  \<^verbatim>\<open>saved\<close> is keyed by the pointer of the buffer that holds the header key, not by its contents:
  a pointer is a pair of an allocation number and the contents, and \<open>allocs\<close> counts the buffers
  allocated as keys of that map.
\<close>

type_synonym message_keys = "(u32, savedKey) gomap"
type_synonym saved_keys = "(nat \<times> bytes, message_keys) gomap"

record ('s, 'p) Ratchet =
  rootKey :: lbuf
  sendHeaderKey :: lbuf
  recvHeaderKey :: lbuf
  nextSendHeaderKey :: lbuf
  nextRecvHeaderKey :: lbuf
  sendChainKey :: lbuf
  recvChainKey :: lbuf
  sendCount :: u32
  recvCount :: u32
  prevSendCount :: u32
  sendRatchetPrivate :: lbuf
  recvRatchetPublic :: lbuf
  sendPQRatchetPrivate :: "'s option"
  recvPQRatchetPublic :: "'p option"
  ratchet :: bool
  saved :: saved_keys
  kxPrivate0 :: lbuf
  kxPrivate1 :: lbuf
  kxPQPrivate0 :: "'s option"
  kxPQPrivate1 :: "'s option"
  allocs :: nat

section \<open>Calls on a ratchet\<close>

text \<open>
  A method returns a value or an error, in both cases with the ratchet as it has been changed so
  far; it can also panic, or not return.
\<close>

datatype ('r, 'a) run = Ret 'a 'r | Err ratchet_error 'r | Crash | Hang

type_synonym ('r, 'a) rm = "'r \<Rightarrow> ('r, 'a) run"

definition ret :: "'a \<Rightarrow> ('r, 'a) rm" where
  "ret a = (\<lambda>r. Ret a r)"

definition rbind :: "('r, 'a) rm \<Rightarrow> ('a \<Rightarrow> ('r, 'b) rm) \<Rightarrow> ('r, 'b) rm" where
  "rbind m f = (\<lambda>r. case m r of Ret a r' \<Rightarrow> f a r' | Err e r' \<Rightarrow> Err e r' | Crash \<Rightarrow> Crash | Hang \<Rightarrow> Hang)"

definition rget :: "('r, 'r) rm" where
  "rget = (\<lambda>r. Ret r r)"

definition rmod :: "('r \<Rightarrow> 'r) \<Rightarrow> ('r, unit) rm" where
  "rmod f = (\<lambda>r. Ret () (f r))"

definition rfail :: "ratchet_error \<Rightarrow> ('r, 'a) rm" where
  "rfail e = (\<lambda>r. Err e r)"

definition rguard :: "bool \<Rightarrow> ratchet_error \<Rightarrow> ('r, unit) rm" where
  "rguard b e = (if b then ret () else rfail e)"

definition rneed :: "'a option \<Rightarrow> ratchet_error \<Rightarrow> ('r, 'a) rm" where
  "rneed x e = (case x of Some a \<Rightarrow> ret a | None \<Rightarrow> rfail e)"

text \<open>Following a pointer that may be nil, and the operations of a locked buffer.\<close>

definition deref :: "'a option \<Rightarrow> ('r, 'a) rm" where
  "deref x = (case x of Some a \<Rightarrow> ret a | None \<Rightarrow> (\<lambda>r. Crash))"

definition IsAlive :: "lbuf \<Rightarrow> ('r, bool) rm" where
  "IsAlive b = rbind (deref b) (\<lambda>d. ret (d \<noteq> []))"

definition ByteArray32 :: "lbuf \<Rightarrow> ('r, bytes) rm" where
  "ByteArray32 b = rbind (deref b) (\<lambda>d. if 32 \<le> length d then ret (take 32 d) else (\<lambda>r. Crash))"

definition Copy_to :: "('r \<Rightarrow> lbuf) \<Rightarrow> ((lbuf \<Rightarrow> lbuf) \<Rightarrow> 'r \<Rightarrow> 'r) \<Rightarrow> bytes \<Rightarrow> ('r, unit) rm" where
  "Copy_to get upd src = rbind rget (\<lambda>r. rbind (deref (get r)) (\<lambda>d.
     rmod (upd (\<lambda>_. Some (copy_into d src)))))"

definition deriveKey :: "('s, 'p) ratchet_prims \<Rightarrow> ('r \<Rightarrow> lbuf) \<Rightarrow> ((lbuf \<Rightarrow> lbuf) \<Rightarrow> 'r \<Rightarrow> 'r)
    \<Rightarrow> bytes \<Rightarrow> bytes \<Rightarrow> ('r, unit) rm" where
  "deriveKey P get upd label h = rbind rget (\<lambda>r. rbind (deref (get r)) (\<lambda>d.
     if length d = keySize then rmod (upd (\<lambda>_. Some (hmac_sha3 P h label))) else (\<lambda>r. Crash)))"

section \<open>Header layout\<close>

definition headerSize :: "('s, 'p) ratchet_prims \<Rightarrow> nat" where
  "headerSize P = 4 + 4 + 32 + csidh_PublicKeySize P + 24"

definition sealedHeaderSize :: "('s, 'p) ratchet_prims \<Rightarrow> nat" where
  "sealedHeaderSize P = 24 + headerSize P + 16"

definition PQRatchetPublicKeyInHeaderOffset :: nat where
  "PQRatchetPublicKeyInHeaderOffset = 4 + 4 + 32"

definition nonceInHeaderOffset :: "('s, 'p) ratchet_prims \<Rightarrow> nat" where
  "nonceInHeaderOffset P = 4 + 4 + 32 + csidh_PublicKeySize P"

section \<open>Construction and key exchange\<close>

text \<open>
  What the reader of random bytes gives to a call: the result of each draw, or the failure of the
  draw (with the buffer that is left in place of the key).
\<close>

record 's init_rand =
  ir_dh0 :: "bytes option"
  ir_dh1 :: "bytes option"
  ir_pq0 :: "'s option"
  ir_pq1 :: "'s option"

record 's send_rand =
  er_dh :: "bytes \<times> bool"
  er_pq :: "'s \<times> bool"
  er_headerNonce :: "bytes option"
  er_messageNonce :: "bytes option"

definition InitRatchet :: "('s, 'p) ratchet_prims \<Rightarrow> 's init_rand
    \<Rightarrow> (ratchet_error, ('s, 'p) Ratchet) outcome" where
  "InitRatchet P rand = (case (ir_dh0 rand, ir_dh1 rand, ir_pq0 rand, ir_pq1 rand) of
     (Some k0, Some k1, Some q0, Some q1) \<Rightarrow>
       Ok \<lparr>rootKey = Some (zeros keySize), sendHeaderKey = Some (zeros keySize),
         recvHeaderKey = Some (zeros keySize), nextSendHeaderKey = Some (zeros keySize),
         nextRecvHeaderKey = Some (zeros keySize), sendChainKey = Some (zeros keySize),
         recvChainKey = Some (zeros keySize), sendCount = 0, recvCount = 0, prevSendCount = 0,
         sendRatchetPrivate = Some (zeros keySize), recvRatchetPublic = Some (zeros keySize),
         sendPQRatchetPrivate = Some (csidh_NewPrivate P),
         recvPQRatchetPublic = Some (csidh_NewPublic P), ratchet = False, saved = [],
         kxPrivate0 = Some k0, kxPrivate1 = Some k1, kxPQPrivate0 = Some q0,
         kxPQPrivate1 = Some q1, allocs = 0\<rparr>
   | _ \<Rightarrow> Fail ErrReader)"

text \<open>The three tests with which both halves of the key exchange begin.\<close>

definition kxOpen :: "(('s, 'p) Ratchet, unit) rm" where
  "kxOpen = rbind rget (\<lambda>r.
     if kxPrivate0 r = None \<and> kxPrivate1 r = None then rfail ErrHandshakeAlreadyComplete
     else rbind (IsAlive (kxPrivate0 r)) (\<lambda>a0. rbind (IsAlive (kxPrivate1 r)) (\<lambda>a1.
       if a0 \<noteq> a1 then rfail ErrInconsistentState
       else rguard a0 ErrHandshakeAlreadyComplete)))"

definition CreateKeyExchange :: "('s, 'p) ratchet_prims \<Rightarrow> (('s, 'p) Ratchet, bytes) rm" where
  "CreateKeyExchange P = rbind kxOpen (\<lambda>_. rbind rget (\<lambda>r.
     rbind (ByteArray32 (kxPrivate0 r)) (\<lambda>k0. rbind (ByteArray32 (kxPrivate1 r)) (\<lambda>k1.
     rbind (deref (kxPQPrivate0 r)) (\<lambda>q0. rbind (deref (kxPQPrivate1 r)) (\<lambda>q1.
     rbind (rneed (csidh_ExportPublic P (csidh_GeneratePublicKey P q0)) ErrCSIDHPublicExport) (\<lambda>p0.
     rbind (rneed (csidh_ExportPublic P (csidh_GeneratePublicKey P q1)) ErrCSIDHPublicExport) (\<lambda>p1.
     rneed (kx_Marshal P \<lparr>Dh0 = ScalarBaseMult P k0, Dh1 = ScalarBaseMult P k1,
       PQDh0 = p0, PQDh1 = p1\<rparr>) ErrCbor))))))))"

definition kxAlice :: "('s, 'p) ratchet_prims \<Rightarrow> keyExchange \<Rightarrow> bytes \<Rightarrow> (('s, 'p) Ratchet, unit) rm" where
  "kxAlice P kx h =
     rbind (deriveKey P recvHeaderKey recvHeaderKey_update headerKeyLabel h) (\<lambda>_.
     rbind (deriveKey P nextSendHeaderKey nextSendHeaderKey_update nextHeaderKeyLabel h) (\<lambda>_.
     rbind (deriveKey P nextRecvHeaderKey nextRecvHeaderKey_update nextHeaderKeyLabel h) (\<lambda>_.
     rbind (deriveKey P recvChainKey recvChainKey_update chainKeyLabel h) (\<lambda>_.
     rbind (Copy_to recvRatchetPublic recvRatchetPublic_update (Dh1 kx)) (\<lambda>_.
     rbind rget (\<lambda>r. rbind (deref (recvPQRatchetPublic r)) (\<lambda>_.
     rbind (rneed (csidh_ImportPublic P (PQDh1 kx)) ErrCSIDHPublicImport) (\<lambda>pq.
     rbind (rmod (recvPQRatchetPublic_update (\<lambda>_. Some pq))) (\<lambda>_.
     rguard (csidh_Validate P pq) ErrCSIDHInvalidPublicKey)))))))))"

definition kxBob :: "('s, 'p) ratchet_prims \<Rightarrow> bytes \<Rightarrow> (('s, 'p) Ratchet, unit) rm" where
  "kxBob P h =
     rbind (deriveKey P sendHeaderKey sendHeaderKey_update headerKeyLabel h) (\<lambda>_.
     rbind (deriveKey P nextRecvHeaderKey nextRecvHeaderKey_update nextHeaderKeyLabel h) (\<lambda>_.
     rbind (deriveKey P nextSendHeaderKey nextSendHeaderKey_update nextHeaderKeyLabel h) (\<lambda>_.
     rbind (deriveKey P sendChainKey sendChainKey_update chainKeyLabel h) (\<lambda>_.
     rbind rget (\<lambda>r. rbind (deref (kxPrivate1 r)) (\<lambda>k1.
     rbind (Copy_to sendRatchetPrivate sendRatchetPrivate_update k1) (\<lambda>_.
     rmod (\<lambda>r. r\<lparr>sendPQRatchetPrivate := kxPQPrivate1 r\<rparr>))))))))"

text \<open>
  The peer with the smaller first public value takes the part called Alice.  The root key is
  derived before Alice's checks of the second CSIDH value.
\<close>

definition completeKeyExchange :: "('s, 'p) ratchet_prims \<Rightarrow> keyExchange \<Rightarrow> (('s, 'p) Ratchet, unit) rm" where
  "completeKeyExchange P kx = rbind kxOpen (\<lambda>_.
     rbind (rguard (length (Dh0 kx) = 32 \<and> length (Dh1 kx) = 32) ErrInvalidKeyExchange) (\<lambda>_.
     rbind (rguard (length (PQDh0 kx) = csidh_PublicKeySize P \<and>
       length (PQDh1 kx) = csidh_PublicKeySize P) ErrInvalidKeyExchange) (\<lambda>_.
     rbind rget (\<lambda>r. rbind (ByteArray32 (kxPrivate0 r)) (\<lambda>k0.
     rbind (rguard (ScalarBaseMult P k0 \<noteq> Dh0 kx) ErrEchoedDHValues) (\<lambda>_.
     rbind (rneed (csidh_ImportPublic P (PQDh0 kx)) ErrCSIDHPublicImport) (\<lambda>pq0.
     rbind (rguard (csidh_Validate P pq0) ErrCSIDHInvalidPublicKey) (\<lambda>_.
     rbind (deref (kxPQPrivate0 r)) (\<lambda>q0.
     rbind (rneed (csidh_DeriveSecret P pq0 q0) ErrCSIDHSharedSecret) (\<lambda>pqSharedSecret.
     let amAlice = ScalarBaseMult P k0 < Dh0 kx;
         h = ScalarMult P k0 (Dh0 kx) @ pqSharedSecret in
     rbind (deriveKey P rootKey rootKey_update rootKeyLabel h) (\<lambda>_.
     rbind (if amAlice then kxAlice P kx h else kxBob P h) (\<lambda>_.
     rmod (\<lambda>r. r\<lparr>ratchet := amAlice, kxPrivate0 := None, kxPrivate1 := None\<rparr>)))))))))))))"

definition ProcessKeyExchange :: "('s, 'p) ratchet_prims \<Rightarrow> bytes \<Rightarrow> (('s, 'p) Ratchet, unit) rm" where
  "ProcessKeyExchange P exchangePayload =
     rbind (rneed (kx_Unmarshal P exchangePayload) ErrCbor) (completeKeyExchange P)"

section \<open>Encryption\<close>

text \<open>The hash input that advances the root chain on both sides.\<close>

definition rootMaterial :: "('s, 'p) ratchet_prims \<Rightarrow> bytes \<Rightarrow> bytes \<Rightarrow> bytes \<Rightarrow> bytes" where
  "rootMaterial P root sharedKey pqSharedKey =
     sha3_256 P (rootKeyUpdateLabel @ root @ sharedKey @ pqSharedKey)"

definition sendRatchet :: "('s, 'p) ratchet_prims \<Rightarrow> 's send_rand \<Rightarrow> (('s, 'p) Ratchet, unit) rm" where
  "sendRatchet P rand =
     rbind (rmod (sendRatchetPrivate_update (\<lambda>_. Some (fst (er_dh rand))))) (\<lambda>_.
     rbind (rguard (snd (er_dh rand)) ErrReader) (\<lambda>_.
     rbind (rmod (sendPQRatchetPrivate_update (\<lambda>_. Some (fst (er_pq rand))))) (\<lambda>_.
     rbind (rguard (snd (er_pq rand)) ErrReader) (\<lambda>_.
     rbind rget (\<lambda>r. rbind (ByteArray32 (nextSendHeaderKey r)) (\<lambda>nk.
     rbind (Copy_to sendHeaderKey sendHeaderKey_update nk) (\<lambda>_.
     rbind (ByteArray32 (sendRatchetPrivate r)) (\<lambda>k. rbind (ByteArray32 (recvRatchetPublic r)) (\<lambda>p.
     rbind (deref (recvPQRatchetPublic r)) (\<lambda>pq.
     rbind (rneed (csidh_DeriveSecret P pq (fst (er_pq rand))) ErrCSIDHSharedSecret) (\<lambda>pqSharedKey.
     rbind (deref (rootKey r)) (\<lambda>root.
     let h = rootMaterial P root (ScalarMult P k p) pqSharedKey in
     rbind (deriveKey P rootKey rootKey_update rootKeyLabel h) (\<lambda>_.
     rbind (deriveKey P nextSendHeaderKey nextSendHeaderKey_update headerKeyLabel h) (\<lambda>_.
     rbind (deriveKey P sendChainKey sendChainKey_update chainKeyLabel h) (\<lambda>_.
     rmod (\<lambda>r. r\<lparr>prevSendCount := sendCount r, sendCount := 0, ratchet := False\<rparr>))))))))))))))))"

definition headerBytes :: "u32 \<Rightarrow> u32 \<Rightarrow> bytes \<Rightarrow> bytes \<Rightarrow> bytes \<Rightarrow> bytes" where
  "headerBytes count prev dh pq nonce = put_u32_le count @ put_u32_le prev @ dh @ pq @ nonce"

definition Encrypt :: "('s, 'p) ratchet_prims \<Rightarrow> 's send_rand \<Rightarrow> bytes \<Rightarrow> bytes \<Rightarrow> (('s, 'p) Ratchet, bytes) rm" where
  "Encrypt P rand out msg = rbind rget (\<lambda>r0.
     rbind (if ratchet r0 then sendRatchet P rand else ret ()) (\<lambda>_.
     rbind rget (\<lambda>r. rbind (deref (sendChainKey r)) (\<lambda>h.
     rbind (deriveKey P sendChainKey sendChainKey_update chainKeyStepLabel h) (\<lambda>_.
     rbind (ByteArray32 (sendRatchetPrivate r)) (\<lambda>k. rbind (deref (sendPQRatchetPrivate r)) (\<lambda>q.
     rbind (rneed (csidh_ExportPublic P (csidh_GeneratePublicKey P q)) ErrCSIDHPublicExport) (\<lambda>pq.
     rbind (deref (er_headerNonce rand)) (\<lambda>headerNonce.
     rbind (deref (er_messageNonce rand)) (\<lambda>messageNonce.
     rbind (ByteArray32 (sendHeaderKey r)) (\<lambda>hk.
     let header = headerBytes (sendCount r) (prevSendCount r) (ScalarBaseMult P k) pq messageNonce;
         messageKey = hmac_sha3 P h messageKeyLabel in
     rbind (rmod (sendCount_update (\<lambda>n. n + 1))) (\<lambda>_.
     ret (out @ headerNonce @ box_Seal P hk headerNonce header @ box_Seal P messageKey messageNonce msg)))))))))))))"

section \<open>Keys of delayed messages\<close>

text \<open>
  The loop of \<^verbatim>\<open>saveKeys\<close> with its 32-bit counter. The map of message keys is nil (\<open>None\<close>) until
  \<^verbatim>\<open>make\<close> is called, and an assignment to a nil map panics. The result is \<open>None\<close> for a loop that does
  not end and \<open>Some None\<close> for one that panics.
\<close>

partial_function (option) saveLoop :: "('s, 'p) ratchet_prims \<Rightarrow> int \<Rightarrow> u32 \<Rightarrow> u32 \<Rightarrow> bytes \<Rightarrow> bytes
    \<Rightarrow> message_keys option \<Rightarrow> (bytes \<times> bytes \<times> message_keys option) option option" where
  "saveLoop P now messageNum n chainKey messageKey messageKeys =
     (if n \<le> messageNum then
        let messageKey' = hmac_sha3 P chainKey messageKeyLabel;
            chainKey' = hmac_sha3 P chainKey chainKeyStepLabel in
        if n < messageNum then
          (case messageKeys of
             None \<Rightarrow> Some None
           | Some keys \<Rightarrow> saveLoop P now messageNum (n + 1) chainKey' messageKey'
               (Some (gm_put keys n \<lparr>sk_key = Some messageKey', sk_timestamp = now\<rparr>)))
        else saveLoop P now messageNum (n + 1) chainKey' messageKey' messageKeys
      else Some (Some (chainKey, messageKey, messageKeys)))"

definition saveKeys :: "('s, 'p) ratchet_prims \<Rightarrow> int \<Rightarrow> lbuf \<Rightarrow> lbuf \<Rightarrow> u32 \<Rightarrow> u32
    \<Rightarrow> (('s, 'p) Ratchet, bytes \<times> bytes \<times> saved_keys) rm" where
  "saveKeys P now headerKey chainKey messageNum receivedCount =
     (if messageNum < receivedCount then rfail ErrDuplicateOrDelayed
      else let missingMessages = messageNum - receivedCount in
      if missingMessages > MaxMissingMessages then rfail ErrMessageExceedsReorderingLimit
      else rbind (deref chainKey) (\<lambda>ck.
        case saveLoop P now messageNum receivedCount (copy_into (zeros keySize) ck) []
            (if missingMessages > 0 then Some [] else None) of
          None \<Rightarrow> (\<lambda>r. Hang)
        | Some None \<Rightarrow> (\<lambda>r. Crash)
        | Some (Some (provisionalChainKey, messageKey, None)) \<Rightarrow> ret (provisionalChainKey, messageKey, [])
        | Some (Some (provisionalChainKey, messageKey, Some messageKeys)) \<Rightarrow>
            rbind (deref headerKey) (\<lambda>hk. rbind rget (\<lambda>r.
              rbind (rmod (allocs_update Suc)) (\<lambda>_.
              ret (provisionalChainKey, messageKey,
                [((allocs r, copy_into (zeros keySize) hk), messageKeys)]))))))"

definition mergeEntry :: "(nat \<times> bytes) \<times> message_keys \<Rightarrow> saved_keys \<Rightarrow> saved_keys" where
  "mergeEntry e sv = (case gm_get sv (fst e) of
     None \<Rightarrow> gm_put sv (fst e) (snd e)
   | Some messageKeys \<Rightarrow>
       gm_put sv (fst e) (fold (\<lambda>(n, k) m. gm_put m n (k\<lparr>sk_key := Some []\<rparr>)) (snd e) messageKeys))"

definition mergeSavedKeys :: "saved_keys \<Rightarrow> (('s, 'p) Ratchet, unit) rm" where
  "mergeSavedKeys newKeys = rmod (saved_update (fold mergeEntry newKeys))"

text \<open>
  The loop of \<^verbatim>\<open>trySavedKeys\<close> over the saved entries.  A result \<open>None\<close> is a nil message with a
  nil error.
\<close>

fun tryEntries :: "('s, 'p) ratchet_prims \<Rightarrow> bytes \<Rightarrow> bytes \<Rightarrow> bytes \<Rightarrow> saved_keys
    \<Rightarrow> (('s, 'p) Ratchet, bytes option) rm" where
  "tryEntries P nonce sealedHeader sealedMessage [] = ret None"
| "tryEntries P nonce sealedHeader sealedMessage ((headerKey, messageKeys) # rest) =
     rbind (ByteArray32 (Some (snd headerKey))) (\<lambda>hk.
       case box_Open P hk nonce sealedHeader of
         None \<Rightarrow> tryEntries P nonce sealedHeader sealedMessage rest
       | Some header \<Rightarrow>
           if length header \<noteq> headerSize P then tryEntries P nonce sealedHeader sealedMessage rest
           else (let msgNum = get_u32_le header in
             case gm_get messageKeys msgNum of
               None \<Rightarrow> ret None
             | Some msgKey \<Rightarrow> rbind (ByteArray32 (sk_key msgKey)) (\<lambda>mk.
                 case box_Open P mk (drop (nonceInHeaderOffset P) header) sealedMessage of
                   None \<Rightarrow> rfail ErrCorruptMessage
                 | Some msg \<Rightarrow> let messageKeys' = gm_del messageKeys msgNum in
                     rbind (rmod (saved_update (\<lambda>sv.
                       if messageKeys' = [] then gm_del sv headerKey
                       else gm_put sv headerKey messageKeys'))) (\<lambda>_. ret (Some msg)))))"

definition trySavedKeys :: "('s, 'p) ratchet_prims \<Rightarrow> bytes \<Rightarrow> (('s, 'p) Ratchet, bytes option) rm" where
  "trySavedKeys P ciphertext =
     (if length ciphertext < sealedHeaderSize P then rfail ErrRatchetHeaderTooSmall
      else rbind rget (\<lambda>r. tryEntries P (take nonceSize ciphertext)
        (slice nonceSize (sealedHeaderSize P) ciphertext) (drop (sealedHeaderSize P) ciphertext) (saved r)))"

definition wipeSavedKeys :: "('s, 'p) Ratchet \<Rightarrow> ('s, 'p) Ratchet" where
  "wipeSavedKeys r = r\<lparr>saved := []\<rparr>"

section \<open>Decryption\<close>

text \<open>A message under the current receiving header key.\<close>

definition decryptCurrent :: "('s, 'p) ratchet_prims \<Rightarrow> int \<Rightarrow> bytes \<Rightarrow> bytes \<Rightarrow> (('s, 'p) Ratchet, bytes) rm" where
  "decryptCurrent P now header sealedMessage = rbind rget (\<lambda>r.
     rbind (rguard (length header = headerSize P) ErrIncorrectHeaderSize) (\<lambda>_.
     let messageNum = get_u32_le header in
     rbind (saveKeys P now (recvHeaderKey r) (recvChainKey r) messageNum (recvCount r))
       (\<lambda>(provisionalChainKey, messageKey, savedKeys).
     rbind (ByteArray32 (Some messageKey)) (\<lambda>mk.
     rbind (rneed (box_Open P mk (drop (nonceInHeaderOffset P) header) sealedMessage) ErrCorruptMessage) (\<lambda>msg.
     rbind (Copy_to recvChainKey recvChainKey_update provisionalChainKey) (\<lambda>_.
     rbind (mergeSavedKeys savedKeys) (\<lambda>_.
     rbind (rmod (recvCount_update (\<lambda>_. messageNum + 1))) (\<lambda>_. ret msg))))))))"

text \<open>
  The first message of a new chain, once the hash input \<open>h\<close> of the root chain is known: the
  message is opened, and on success the receiving side moves to the new chain.
\<close>

definition enterChain :: "('s, 'p) ratchet_prims \<Rightarrow> int \<Rightarrow> bytes \<Rightarrow> bytes \<Rightarrow> bytes \<Rightarrow> 'p \<Rightarrow> saved_keys
    \<Rightarrow> (('s, 'p) Ratchet, bytes) rm" where
  "enterChain P now header sealedMessage h theirPQ oldSavedKeys = rbind rget (\<lambda>r.
     let messageNum = get_u32_le header; dhPublic = slice 8 40 header in
     rbind (saveKeys P now (nextRecvHeaderKey r) (Some (hmac_sha3 P h chainKeyLabel)) messageNum 0)
       (\<lambda>(provisionalChainKey, messageKey, savedKeys).
     rbind (ByteArray32 (Some messageKey)) (\<lambda>mk.
     rbind (rneed (box_Open P mk (drop (nonceInHeaderOffset P) header) sealedMessage) ErrCorruptMessage) (\<lambda>msg.
     rbind (Copy_to recvChainKey recvChainKey_update provisionalChainKey) (\<lambda>_.
     rbind (deref (nextRecvHeaderKey r)) (\<lambda>nk.
     rbind (Copy_to recvHeaderKey recvHeaderKey_update nk) (\<lambda>_.
     rbind (deriveKey P nextRecvHeaderKey nextRecvHeaderKey_update headerKeyLabel h) (\<lambda>_.
     rbind (rmod (sendRatchetPrivate_update (map_option ExplicitBzero))) (\<lambda>_.
     rbind (rmod (sendPQRatchetPrivate_update (\<lambda>_. Some (csidh_NewPrivate P)))) (\<lambda>_.
     rbind (Copy_to recvRatchetPublic recvRatchetPublic_update dhPublic) (\<lambda>_.
     rbind (rmod (\<lambda>r. r\<lparr>recvPQRatchetPublic := Some theirPQ, recvCount := messageNum + 1\<rparr>)) (\<lambda>_.
     rbind (mergeSavedKeys oldSavedKeys) (\<lambda>_.
     rbind (mergeSavedKeys savedKeys) (\<lambda>_.
     rbind (rmod (ratchet_update (\<lambda>_. True))) (\<lambda>_. ret msg)))))))))))))))"

text \<open>
  A message under the next receiving header key, which advances the root chain.  The root key is
  overwritten before the message is authenticated.  The result of importing the CSIDH value is
  ignored: a value that cannot be imported leaves the zero key.
\<close>

definition decryptRatchet :: "('s, 'p) ratchet_prims \<Rightarrow> int \<Rightarrow> bytes \<Rightarrow> bytes \<Rightarrow> (('s, 'p) Ratchet, bytes) rm" where
  "decryptRatchet P now header sealedMessage = rbind rget (\<lambda>r.
     rbind (rguard (length header = headerSize P) ErrIncorrectHeaderSize) (\<lambda>_.
     rbind (rguard (\<not> ratchet r) ErrNextEncryptedMessageWithoutRatchetFlag) (\<lambda>_.
     let prevMessageCount = get_u32_le (drop 4 header); dhPublic = slice 8 40 header;
         pqBytes = slice PQRatchetPublicKeyInHeaderOffset
           (PQRatchetPublicKeyInHeaderOffset + csidh_PublicKeySize P) header;
         theirPQ = (case csidh_ImportPublic P pqBytes of Some p \<Rightarrow> p | None \<Rightarrow> csidh_NewPublic P) in
     rbind (saveKeys P now (recvHeaderKey r) (recvChainKey r) prevMessageCount (recvCount r)) (\<lambda>(_, _, oldSavedKeys).
     rbind (ByteArray32 (sendRatchetPrivate r)) (\<lambda>k.
     rbind (rguard (csidh_Validate P theirPQ) ErrCSIDHInvalidPublicKey) (\<lambda>_.
     rbind (deref (sendPQRatchetPrivate r)) (\<lambda>q.
     rbind (rneed (csidh_DeriveSecret P theirPQ q) ErrCSIDHSharedSecret) (\<lambda>pqSharedKey.
     rbind (deref (rootKey r)) (\<lambda>root.
     let h = rootMaterial P root (ScalarMult P k dhPublic) pqSharedKey in
     rbind (deriveKey P rootKey rootKey_update rootKeyLabel h) (\<lambda>_.
     enterChain P now header sealedMessage h theirPQ oldSavedKeys))))))))))"

text \<open>
  A saved key that opens an empty message gives a nil slice, which \<^verbatim>\<open>Decrypt\<close> takes for the
  absence of a saved key.
\<close>

definition Decrypt :: "('s, 'p) ratchet_prims \<Rightarrow> int \<Rightarrow> bytes \<Rightarrow> (('s, 'p) Ratchet, bytes) rm" where
  "Decrypt P now ciphertext = rbind (trySavedKeys P ciphertext) (\<lambda>res.
     if res \<noteq> None \<and> res \<noteq> Some [] then ret (the res)
     else let nonce = take nonceSize ciphertext;
              sealedHeader = slice nonceSize (sealedHeaderSize P) ciphertext;
              sealedMessage = drop (sealedHeaderSize P) ciphertext in
     rbind rget (\<lambda>r. rbind (ByteArray32 (recvHeaderKey r)) (\<lambda>hk.
     rbind (deref (recvHeaderKey r)) (\<lambda>hkb.
     case (if CtIsZero hkb then None else box_Open P hk nonce sealedHeader) of
       Some header \<Rightarrow> decryptCurrent P now header sealedMessage
     | None \<Rightarrow> rbind (ByteArray32 (nextRecvHeaderKey r)) (\<lambda>nk.
         rbind (rneed (box_Open P nk nonce sealedHeader) ErrCannotDecrypt) (\<lambda>header.
         decryptRatchet P now header sealedMessage))))))"

section \<open>Serialised form\<close>

definition RatchetKeyMaxLifetime :: int where
  "RatchetKeyMaxLifetime = 672 * 3600 * 1000000000"

text \<open>\<^verbatim>\<open>Bytes\<close> of a destroyed buffer is the nil slice.\<close>

definition buf_Bytes :: "lbuf \<Rightarrow> (ratchet_error, lbuf) outcome" where
  "buf_Bytes b = (case b of None \<Rightarrow> Panic | Some d \<Rightarrow> Ok (if d = [] then None else Some d))"

definition opt_Bytes :: "lbuf \<Rightarrow> (ratchet_error, lbuf) outcome" where
  "opt_Bytes b = (case b of None \<Rightarrow> Ok None | Some d \<Rightarrow> buf_Bytes b)"

text \<open>A slice of the given size is filled by an export whose result is ignored.\<close>

definition exported :: "nat \<Rightarrow> ('k \<Rightarrow> bytes option) \<Rightarrow> 'k option \<Rightarrow> (ratchet_error, lbuf) outcome" where
  "exported n export k = (case k of None \<Rightarrow> Panic
     | Some q \<Rightarrow> Ok (Some (case export q of Some b \<Rightarrow> b | None \<Rightarrow> zeros n)))"

definition opt_exported :: "nat \<Rightarrow> ('k \<Rightarrow> bytes option) \<Rightarrow> 'k option \<Rightarrow> (ratchet_error, lbuf) outcome" where
  "opt_exported n export k = (case k of None \<Rightarrow> Ok None | Some q \<Rightarrow> exported n export k)"

definition keyImage :: "u32 \<times> savedKey \<Rightarrow> (ratchet_error, cborMessageKey) outcome" where
  "keyImage e = obind (buf_Bytes (sk_key (snd e))) (\<lambda>b.
     Ok \<lparr>mk_Num = fst e, mk_Key = (case b of None \<Rightarrow> [] | Some d \<Rightarrow> d),
       mk_CreationTime = sk_timestamp (snd e)\<rparr>)"

definition savedImage :: "int \<Rightarrow> int \<Rightarrow> (nat \<times> bytes) \<times> message_keys \<Rightarrow> (ratchet_error, cborSavedKeys) outcome" where
  "savedImage now lifetime e =
     (if snd (fst e) = [] then Ok \<lparr>sv_HeaderKey = [], sv_MessageKeys = []\<rparr>
      else obind (omapM keyImage (filter (\<lambda>k. \<not> now - sk_timestamp (snd k) > lifetime) (snd e))) (\<lambda>ks.
        Ok \<lparr>sv_HeaderKey = snd (fst e), sv_MessageKeys = ks\<rparr>))"

definition ratchet_marshal :: "('s, 'p) ratchet_prims \<Rightarrow> int \<Rightarrow> int \<Rightarrow> ('s, 'p) Ratchet
    \<Rightarrow> (ratchet_error, ratchet_image) outcome" where
  "ratchet_marshal P now lifetime r =
     obind (buf_Bytes (rootKey r)) (\<lambda>rk. obind (buf_Bytes (sendHeaderKey r)) (\<lambda>sh.
     obind (buf_Bytes (recvHeaderKey r)) (\<lambda>rh. obind (buf_Bytes (nextSendHeaderKey r)) (\<lambda>nsh.
     obind (buf_Bytes (nextRecvHeaderKey r)) (\<lambda>nrh. obind (buf_Bytes (sendChainKey r)) (\<lambda>sc.
     obind (buf_Bytes (recvChainKey r)) (\<lambda>rc. obind (buf_Bytes (sendRatchetPrivate r)) (\<lambda>srp.
     obind (buf_Bytes (recvRatchetPublic r)) (\<lambda>rrp.
     obind (exported (csidh_PrivateKeySize P) (csidh_ExportPrivate P) (sendPQRatchetPrivate r)) (\<lambda>sq.
     obind (exported (csidh_PublicKeySize P) (csidh_ExportPublic P) (recvPQRatchetPublic r)) (\<lambda>rq.
     obind (opt_Bytes (kxPrivate0 r)) (\<lambda>k0. obind (opt_Bytes (kxPrivate1 r)) (\<lambda>k1.
     obind (opt_exported (csidh_PrivateKeySize P) (csidh_ExportPrivate P) (kxPQPrivate0 r)) (\<lambda>q0.
     obind (opt_exported (csidh_PrivateKeySize P) (csidh_ExportPrivate P) (kxPQPrivate1 r)) (\<lambda>q1.
     obind (omapM (savedImage now lifetime) (saved r)) (\<lambda>sv.
     Ok \<lparr>SavedKeys = sv, RootKey = rk, SendHeaderKey = sh, RecvHeaderKey = rh,
       NextSendHeaderKey = nsh, NextRecvHeaderKey = nrh, SendChainKey = sc, RecvChainKey = rc,
       SendRatchetPrivate = srp, RecvRatchetPublic = rrp, SendPQRatchetPrivate = sq,
       RecvPQRatchetPublic = rq, SendCount = sendCount r, RecvCount = recvCount r,
       PrevSendCount = prevSendCount r, Private0 = k0, Private1 = k1, PQPrivate0 = q0,
       PQPrivate1 = q1, ratchet_flag = ratchet r\<rparr>))))))))))))))))"

definition Save :: "('s, 'p) ratchet_prims \<Rightarrow> int \<Rightarrow> ('s, 'p) Ratchet \<Rightarrow> (ratchet_error, bytes) outcome" where
  "Save P now r = obind (ratchet_marshal P now RatchetKeyMaxLifetime r) (\<lambda>s.
     case image_Marshal P s of Some b \<Rightarrow> Ok b | None \<Rightarrow> Fail ErrCbor)"

text \<open>\<^verbatim>\<open>savedKeys.UnmarshalBinary\<close> keeps only keys of the right size.\<close>

definition restoreKeys :: "cborSavedKeys \<Rightarrow> lbuf \<times> message_keys" where
  "restoreKeys s = (if length (sv_HeaderKey s) = keySize
     then (Some (sv_HeaderKey s),
       fold (\<lambda>m ks. gm_put ks (mk_Num m) \<lparr>sk_key = Some (mk_Key m), sk_timestamp = mk_CreationTime m\<rparr>)
         (filter (\<lambda>m. length (mk_Key m) = keySize) (sv_MessageKeys s)) [])
     else (None, []))"

fun restoreSaved :: "nat \<Rightarrow> cborSavedKeys list \<Rightarrow> (ratchet_error, saved_keys) outcome" where
  "restoreSaved n [] = Ok []"
| "restoreSaved n (s # ss) = (case restoreKeys s of
     (None, _) \<Rightarrow> Panic
   | (Some hk, ks) \<Rightarrow> obind (restoreSaved (Suc n) ss) (\<lambda>rest. Ok (((n, hk), ks) # rest)))"

definition imported :: "(bytes \<Rightarrow> 'k option) \<Rightarrow> ratchet_error \<Rightarrow> lbuf \<Rightarrow> (ratchet_error, 'k option) outcome" where
  "imported import e b = (case b of None \<Rightarrow> Ok None
     | Some d \<Rightarrow> (case import d of Some k \<Rightarrow> Ok (Some k) | None \<Rightarrow> Fail e))"

definition nonempty :: "lbuf \<Rightarrow> lbuf" where
  "nonempty b = (if b = Some [] then None else b)"

definition newRatchetFromState :: "('s, 'p) ratchet_prims \<Rightarrow> ratchet_image
    \<Rightarrow> (ratchet_error, ('s, 'p) Ratchet) outcome" where
  "newRatchetFromState P s =
     obind (imported (csidh_ImportPrivate P) ErrCSIDHPrivateImport (SendPQRatchetPrivate s)) (\<lambda>sq.
     obind (imported (csidh_ImportPublic P) ErrCSIDHPublicImport (RecvPQRatchetPublic s)) (\<lambda>rq.
     obind (imported (csidh_ImportPrivate P) ErrFailedToLoadPQRatchet (nonempty (PQPrivate0 s))) (\<lambda>q0.
     obind (imported (csidh_ImportPrivate P) ErrFailedToLoadPQRatchet (nonempty (PQPrivate1 s))) (\<lambda>q1.
     obind (restoreSaved 0 (SavedKeys s)) (\<lambda>sv.
     Ok \<lparr>rootKey = RootKey s, sendHeaderKey = SendHeaderKey s, recvHeaderKey = RecvHeaderKey s,
       nextSendHeaderKey = NextSendHeaderKey s, nextRecvHeaderKey = NextRecvHeaderKey s,
       sendChainKey = SendChainKey s, recvChainKey = RecvChainKey s, sendCount = SendCount s,
       recvCount = RecvCount s, prevSendCount = PrevSendCount s,
       sendRatchetPrivate = SendRatchetPrivate s, recvRatchetPublic = RecvRatchetPublic s,
       sendPQRatchetPrivate = sq, recvPQRatchetPublic = rq, ratchet = ratchet_flag s, saved = sv,
       kxPrivate0 = nonempty (Private0 s), kxPrivate1 = nonempty (Private1 s),
       kxPQPrivate0 = q0, kxPQPrivate1 = q1, allocs = length (SavedKeys s)\<rparr>)))))"

definition NewRatchetFromBytes :: "('s, 'p) ratchet_prims \<Rightarrow> bytes \<Rightarrow> (ratchet_error, ('s, 'p) Ratchet) outcome" where
  "NewRatchetFromBytes P data = (case image_Unmarshal P data of
     None \<Rightarrow> Fail ErrCbor | Some s \<Rightarrow> newRatchetFromState P s)"

definition destroyed :: "lbuf \<Rightarrow> lbuf" where
  "destroyed b = map_option (\<lambda>_. []) b"

definition DestroyRatchet :: "('s, 'p) Ratchet \<Rightarrow> (ratchet_error, ('s, 'p) Ratchet) outcome" where
  "DestroyRatchet r =
     (if None \<in> set [rootKey r, sendHeaderKey r, recvHeaderKey r, nextSendHeaderKey r,
         nextRecvHeaderKey r, sendChainKey r, recvChainKey r, sendRatchetPrivate r, recvRatchetPublic r]
      then Panic
      else Ok (wipeSavedKeys (r\<lparr>rootKey := Some [], sendHeaderKey := Some [], recvHeaderKey := Some [],
         nextSendHeaderKey := Some [], nextRecvHeaderKey := Some [], sendChainKey := Some [],
         recvChainKey := Some [], sendRatchetPrivate := Some [], recvRatchetPublic := Some [],
         sendPQRatchetPrivate := None, recvPQRatchetPublic := None, sendCount := 0, recvCount := 0,
         prevSendCount := 0, kxPrivate0 := destroyed (kxPrivate0 r),
         kxPrivate1 := destroyed (kxPrivate1 r), kxPQPrivate0 := None, kxPQPrivate1 := None\<rparr>)))"

end
