(* ===== verification/Ratchet_Session.thy ===== *)
theory Ratchet_Session
  imports Double_Ratchet
begin

text \<open>
  The steps of the double ratchet evaluated, and its correctness when messages arrive in order: two
  parties that have exchanged keys read each other's messages in any alternation.
\<close>

section \<open>Evaluation\<close>

declare saveLoop.simps [code]

named_theorems run_simps \<open>evaluation of calls on a ratchet\<close>

lemma rbind_run [run_simps]:
  "rbind m f r = (case m r of Ret a r' \<Rightarrow> f a r' | Err e r' \<Rightarrow> Err e r' | Crash \<Rightarrow> Crash | Hang \<Rightarrow> Hang)"
  by (simp add: rbind_def)

lemma atom_runs [run_simps]:
  "ret a r = Ret a r" "rget r = Ret r r" "rmod f r = Ret () (f r)" "rfail e r = Err e r"
  "rguard b e r = (if b then Ret () r else Err e r)"
  "rneed (Some a) e = ret a" "rneed None e = rfail e" "deref (Some a) = ret a"
  by (simp_all add: ret_def rget_def rmod_def rfail_def rguard_def rneed_def deref_def)

lemma ByteArray32_run [run_simps]: "length d = 32 \<Longrightarrow> ByteArray32 (Some d) r = Ret d r"
  by (simp add: ByteArray32_def run_simps)

lemma IsAlive_run [run_simps]: "IsAlive (Some d) r = Ret (d \<noteq> []) r"
  by (simp add: IsAlive_def run_simps)

lemma Copy_to_run [run_simps]:
  "get r = Some d \<Longrightarrow> length d = length src \<Longrightarrow>
     Copy_to get upd src r = Ret () (upd (\<lambda>_. Some src) r)"
  by (simp add: Copy_to_def run_simps copy_into_same)

lemma deriveKey_run [run_simps]:
  "get r = Some d \<Longrightarrow> length d = 32 \<Longrightarrow>
     deriveKey P get upd label h r = Ret () (upd (\<lambda>_. Some (hmac_sha3 P h label)) r)"
  by (simp add: deriveKey_def run_simps keySize_def)

subsection \<open>The chain of message keys\<close>

definition chainAt :: "('s, 'p) ratchet_prims \<Rightarrow> bytes \<Rightarrow> nat \<Rightarrow> bytes" where
  "chainAt P ck i = ((\<lambda>c. hmac_sha3 P c chainKeyStepLabel) ^^ i) ck"

definition msgKeyAt :: "('s, 'p) ratchet_prims \<Rightarrow> bytes \<Rightarrow> nat \<Rightarrow> bytes" where
  "msgKeyAt P ck i = hmac_sha3 P (chainAt P ck i) messageKeyLabel"

definition skippedKeys :: "('s, 'p) ratchet_prims \<Rightarrow> int \<Rightarrow> bytes \<Rightarrow> u32 \<Rightarrow> nat \<Rightarrow> message_keys" where
  "skippedKeys P now ck n d =
     map (\<lambda>i. (n + of_nat i, \<lparr>sk_key = Some (msgKeyAt P ck i), sk_timestamp = now\<rparr>)) [0..<d]"

lemma chainAt_simps [simp]:
  "chainAt P ck 0 = ck" "chainAt P ck (Suc 0) = hmac_sha3 P ck chainKeyStepLabel"
  "chainAt P (hmac_sha3 P ck chainKeyStepLabel) i = chainAt P ck (Suc i)"
  by (simp_all add: chainAt_def funpow_Suc_right del: funpow.simps(2))

lemma msgKeyAt_step [simp]: "msgKeyAt P (hmac_sha3 P ck chainKeyStepLabel) i = msgKeyAt P ck (Suc i)"
  by (simp add: msgKeyAt_def)

lemma skippedKeys_Suc:
  "skippedKeys P now ck n (Suc d) = (n, \<lparr>sk_key = Some (hmac_sha3 P ck messageKeyLabel), sk_timestamp = now\<rparr>)
     # skippedKeys P now (hmac_sha3 P ck chainKeyStepLabel) (n + 1) d"
proof -
  have "[0..<Suc d] = 0 # map Suc [0..<d]" by (simp add: upt_conv_Cons map_Suc_upt del: upt_Suc)
  then show ?thesis by (simp add: skippedKeys_def msgKeyAt_def comp_def add.assoc del: upt_Suc)
qed

text \<open>
  The loop returns after \<open>d + 1\<close> rounds when \<open>d\<close> messages are missing, with their keys. When the
  message number is the largest 32-bit number the counter wraps around: the loop does not end if the
  map was made, and panics on the nil map if no message was missing.
\<close>

lemma unat_add_one: "m \<noteq> - 1 \<Longrightarrow> unat (m + 1 :: u32) = Suc (unat m)"
  using unatSuc [of m] by (simp add: add_eq_0_iff add.commute)

lemma saveLoop_eq:
  assumes "unat n + d = unat m" "m \<noteq> - 1" "\<And>k. k \<in> gm_keys keys \<Longrightarrow> k < n"
  shows "saveLoop P now m n ck mk (Some keys) =
    Some (Some (chainAt P ck (Suc d), msgKeyAt P ck d, Some (keys @ skippedKeys P now ck n d)))"
  using assms
proof (induction d arbitrary: n ck mk keys)
  case 0
  then have "n = m" by (simp add: word_unat_eq_iff)
  moreover have "\<not> m + 1 \<le> m" using \<open>m \<noteq> - 1\<close> by (simp add: word_le_nat_alt unat_add_one)
  ultimately show ?case
    by (subst saveLoop.simps, subst saveLoop.simps) (simp add: Let_def skippedKeys_def msgKeyAt_def)
next
  case (Suc d)
  then have lt: "n < m" by (simp add: word_less_nat_alt)
  then have up: "unat (n + 1) = Suc (unat n)"
    by (intro unat_add_one) (use word_order.extremum [of m] in auto)
  let ?mk = "hmac_sha3 P ck messageKeyLabel" and ?ck = "hmac_sha3 P ck chainKeyStepLabel"
  let ?keys = "keys @ [(n, \<lparr>sk_key = Some ?mk, sk_timestamp = now\<rparr>)]"
  have new: "gm_put keys n \<lparr>sk_key = Some ?mk, sk_timestamp = now\<rparr> = ?keys"
    using Suc.prems(3) by (intro gm_put_new) auto
  have "k < n + 1" if "k \<in> gm_keys ?keys" for k
    using that Suc.prems(3) [of k] up by (fastforce simp: gm_keys_def word_less_nat_alt less_SucI)
  then have "saveLoop P now m (n + 1) ?ck ?mk (Some ?keys) =
      Some (Some (chainAt P ?ck (Suc d), msgKeyAt P ?ck d, Some (?keys @ skippedKeys P now ?ck (n + 1) d)))"
    using Suc.prems up by (intro Suc.IH) simp_all
  then show ?case
    using lt new by (subst saveLoop.simps) (simp add: Let_def skippedKeys_Suc)
qed

lemma saveLoop_eq_nil:
  assumes "m \<noteq> - 1"
  shows "saveLoop P now m m ck mk None = Some (Some (chainAt P ck 1, msgKeyAt P ck 0, None))"
proof -
  have "\<not> m + 1 \<le> m" using assms by (simp add: word_le_nat_alt unat_add_one)
  then show ?thesis
    by (subst saveLoop.simps, subst saveLoop.simps) (simp add: Let_def msgKeyAt_def)
qed

lemma saveLoop_ends:
  assumes "saveLoop P now m n ck mk keys = Some y"
  shows "m = - 1 \<longrightarrow> keys = None"
proof -
  have "snd (fst (fst (fst (fst ((((((P, now), m), n), ck), mk), keys))))) = - 1 \<longrightarrow>
      snd ((((((P, now), m), n), ck), mk), keys) = None"
    by (rule saveLoop.raw_induct
        [where Pa = "\<lambda>a _. snd (fst (fst (fst (fst a)))) = - 1 \<longrightarrow> snd a = None", OF _ assms])
       (fastforce simp: Let_def not_le split: if_splits option.splits)
  then show ?thesis by simp
qed

lemma saveLoop_last: "saveLoop P now (- 1) n ck mk (Some keys) = None"
  using saveLoop_ends [of P now "- 1" n ck mk "Some keys"] by (metis not_None_eq)

lemma saveLoop_last_nil: "saveLoop P now (- 1) (- 1) ck mk None = Some None"
  by (subst saveLoop.simps, simp add: Let_def, subst saveLoop.simps) (simp add: Let_def word_gt_0)

lemma gap_word:
  assumes "unat (m::u32) = unat rc + d"
  shows "\<not> m < rc" "unat (m - rc) = d" "m - rc = 0 \<longleftrightarrow> d = 0"
proof -
  show ge: "\<not> m < rc" using assms by (simp add: word_less_nat_alt)
  then show u: "unat (m - rc) = d" using assms by (simp add: unat_sub_if_size word_le_nat_alt not_less)
  show "m - rc = 0 \<longleftrightarrow> d = 0" using u by (metis unat_eq_0)
qed

lemma saveKeys_run:
  assumes gap: "unat m = unat rc + d" "d \<le> 8" "m \<noteq> - 1"
    and keys: "ckb = Some ck" "length ck = 32" "hkb = Some hk" "length hk = 32"
  shows "saveKeys P now hkb ckb m rc r =
    Ret (chainAt P ck (Suc d), msgKeyAt P ck d,
         if d = 0 then [] else [((allocs r, hk), skippedKeys P now ck rc d)])
        (if d = 0 then r else r\<lparr>allocs := Suc (allocs r)\<rparr>)"
proof -
  have loop: "saveLoop P now m rc ck [] (if 0 < m - rc then Some [] else None) =
      Some (Some (chainAt P ck (Suc d), msgKeyAt P ck d, if d = 0 then None else Some (skippedKeys P now ck rc d)))"
  proof (cases "d = 0")
    case True
    then have "m = rc" using gap(1) by (simp add: word_unat_eq_iff)
    with True gap(3) show ?thesis by (simp add: saveLoop_eq_nil)
  next
    case False
    then have "0 < m - rc" using gap_word(3) [OF gap(1)] by (simp add: word_gt_0)
    with False saveLoop_eq [of rc d m "[]" P now ck "[]"] gap show ?thesis by simp
  qed
  have small: "\<not> MaxMissingMessages < m - rc"
    using gap_word(2) [OF gap(1)] gap(2) by (simp add: MaxMissingMessages_def word_less_nat_alt)
  have full: "copy_into (zeros keySize) ck = ck" "copy_into (zeros keySize) hk = hk"
    using keys by (simp_all add: copy_into_same keySize_def)
  show ?thesis
    using gap_word [OF gap(1)] small full
    by (simp add: saveKeys_def Let_def keys loop run_simps)
qed

section \<open>What is assumed of the primitives\<close>

definition dh_agrees :: "('s, 'p) ratchet_prims \<Rightarrow> bool" where
  "dh_agrees P \<longleftrightarrow> (\<forall>a b. length a = 32 \<longrightarrow> length b = 32 \<longrightarrow>
     length (ScalarBaseMult P a) = 32 \<and>
     ScalarMult P a (ScalarBaseMult P b) = ScalarMult P b (ScalarBaseMult P a))"

definition csidh_agrees :: "('s, 'p) ratchet_prims \<Rightarrow> bool" where
  "csidh_agrees P \<longleftrightarrow> (\<forall>a b. \<exists>e z. csidh_Validate P (csidh_GeneratePublicKey P a) \<and>
     csidh_ExportPublic P (csidh_GeneratePublicKey P a) = Some e \<and> length e = csidh_PublicKeySize P \<and>
     csidh_ImportPublic P e = Some (csidh_GeneratePublicKey P a) \<and>
     csidh_DeriveSecret P (csidh_GeneratePublicKey P a) b = Some z \<and>
     csidh_DeriveSecret P (csidh_GeneratePublicKey P b) a = Some z)"

definition box_opens :: "('s, 'p) ratchet_prims \<Rightarrow> bool" where
  "box_opens P \<longleftrightarrow> (\<forall>k n m. length (box_Seal P k n m) = length m + 16 \<and>
     box_Open P k n (box_Seal P k n m) = Some m)"

definition hmac_size :: "('s, 'p) ratchet_prims \<Rightarrow> bool" where
  "hmac_size P \<longleftrightarrow> (\<forall>k l. length (hmac_sha3 P k l) = 32)"

definition kx_codec :: "('s, 'p) ratchet_prims \<Rightarrow> bool" where
  "kx_codec P \<longleftrightarrow> (\<forall>x. length (Dh0 x) = 32 \<longrightarrow> length (Dh1 x) = 32 \<longrightarrow>
     length (PQDh0 x) = csidh_PublicKeySize P \<longrightarrow> length (PQDh1 x) = csidh_PublicKeySize P \<longrightarrow>
     (\<exists>b. kx_Marshal P x = Some b \<and> kx_Unmarshal P b = Some x))"

definition ratchet_ok :: "('s, 'p) ratchet_prims \<Rightarrow> bool" where
  "ratchet_ok P \<longleftrightarrow> dh_agrees P \<and> csidh_agrees P \<and> box_opens P \<and> hmac_size P \<and> kx_codec P"

lemma dhD:
  assumes "ratchet_ok P" "length a = 32"
  shows "length (ScalarBaseMult P a) = 32"
    "length b = 32 \<Longrightarrow> ScalarMult P a (ScalarBaseMult P b) = ScalarMult P b (ScalarBaseMult P a)"
  using assms by (auto simp: ratchet_ok_def dh_agrees_def)

lemma csidhD:
  assumes "ratchet_ok P"
  obtains e z where "csidh_Validate P (csidh_GeneratePublicKey P a)"
    "csidh_ExportPublic P (csidh_GeneratePublicKey P a) = Some e" "length e = csidh_PublicKeySize P"
    "csidh_ImportPublic P e = Some (csidh_GeneratePublicKey P a)"
    "csidh_DeriveSecret P (csidh_GeneratePublicKey P a) b = Some z"
    "csidh_DeriveSecret P (csidh_GeneratePublicKey P b) a = Some z"
  using assms that unfolding ratchet_ok_def csidh_agrees_def by blast

lemma boxD [simp]:
  assumes "ratchet_ok P"
  shows "length (box_Seal P k n m) = length m + 16" "box_Open P k n (box_Seal P k n m) = Some m"
    "length (hmac_sha3 P k l) = 32"
  using assms by (simp_all add: ratchet_ok_def box_opens_def hmac_size_def)

lemma chain_sizes [simp]:
  assumes "ratchet_ok P"
  shows "length ck = 32 \<Longrightarrow> length (chainAt P ck i) = 32" "length (msgKeyAt P ck i) = 32"
  using assms by (cases i; simp add: chainAt_def msgKeyAt_def)+

section \<open>Headers and ciphertexts\<close>

lemma header_fields:
  assumes "length dh = 32" "length pq = csidh_PublicKeySize P" "length nonce = 24"
  shows "length (headerBytes c p dh pq nonce) = headerSize P"
    "get_u32_le (headerBytes c p dh pq nonce) = c"
    "get_u32_le (drop 4 (headerBytes c p dh pq nonce)) = p"
    "slice 8 40 (headerBytes c p dh pq nonce) = dh"
    "slice PQRatchetPublicKeyInHeaderOffset (PQRatchetPublicKeyInHeaderOffset + csidh_PublicKeySize P)
       (headerBytes c p dh pq nonce) = pq"
    "drop (nonceInHeaderOffset P) (headerBytes c p dh pq nonce) = nonce"
  using assms
  by (simp_all add: headerBytes_def headerSize_def slice_def PQRatchetPublicKeyInHeaderOffset_def
      nonceInHeaderOffset_def)

lemma sealed_fields:
  assumes "ratchet_ok P" "length hn = 24" "length hdr = headerSize P"
  shows "\<not> length (hn @ box_Seal P hk hn hdr @ body) < sealedHeaderSize P"
    "take nonceSize (hn @ box_Seal P hk hn hdr @ body) = hn"
    "slice nonceSize (sealedHeaderSize P) (hn @ box_Seal P hk hn hdr @ body) = box_Seal P hk hn hdr"
    "drop (sealedHeaderSize P) (hn @ box_Seal P hk hn hdr @ body) = body"
  using assms by (simp_all add: sealedHeaderSize_def slice_def nonceSize_def)

section \<open>One message\<close>

definition nonces_ok :: "'s send_rand \<Rightarrow> bool" where
  "nonces_ok rand \<longleftrightarrow> (case (er_headerNonce rand, er_messageNonce rand) of
     (Some h, Some m) \<Rightarrow> length h = 24 \<and> length m = 24 | _ \<Rightarrow> False)"

definition send_rand_ok :: "'s send_rand \<Rightarrow> bool" where
  "send_rand_ok rand \<longleftrightarrow> nonces_ok rand \<and> length (fst (er_dh rand)) = 32 \<and> snd (er_dh rand) \<and> snd (er_pq rand)"

lemma sendRatchet_run:
  assumes "ratchet_ok P" "send_rand_ok rand"
    and "rootKey r = Some rk" "length rk = 32" "sendHeaderKey r = Some hk" "length hk = 32"
    and "nextSendHeaderKey r = Some nk" "length nk = 32" "sendChainKey r = Some ck" "length ck = 32"
    and "recvRatchetPublic r = Some rp" "length rp = 32" "recvPQRatchetPublic r = Some rq"
    and "csidh_DeriveSecret P rq (fst (er_pq rand)) = Some z"
    and h: "h = rootMaterial P rk (ScalarMult P (fst (er_dh rand)) rp) z"
  shows "sendRatchet P rand r = Ret () (r\<lparr>sendRatchetPrivate := Some (fst (er_dh rand)),
    sendPQRatchetPrivate := Some (fst (er_pq rand)), sendHeaderKey := Some nk,
    rootKey := Some (hmac_sha3 P h rootKeyLabel),
    nextSendHeaderKey := Some (hmac_sha3 P h headerKeyLabel),
    sendChainKey := Some (hmac_sha3 P h chainKeyLabel),
    prevSendCount := sendCount r, sendCount := 0, ratchet := False\<rparr>)"
  using assms by (simp add: sendRatchet_def run_simps send_rand_ok_def Let_def)

lemma Encrypt_current:
  assumes "ratchet_ok P" "er_headerNonce rand = Some hn" "er_messageNonce rand = Some mn" "\<not> ratchet r"
    and "sendHeaderKey r = Some hk" "length hk = 32" "sendChainKey r = Some ck" "length ck = 32"
    and "sendRatchetPrivate r = Some k" "length k = 32" "sendPQRatchetPrivate r = Some q"
    and "csidh_ExportPublic P (csidh_GeneratePublicKey P q) = Some pq"
  shows "Encrypt P rand [] msg r =
    Ret (hn @ box_Seal P hk hn (headerBytes (sendCount r) (prevSendCount r) (ScalarBaseMult P k) pq mn)
           @ box_Seal P (msgKeyAt P ck 0) mn msg)
        (r\<lparr>sendChainKey := Some (chainAt P ck 1), sendCount := sendCount r + 1\<rparr>)"
  using assms by (simp add: Encrypt_def run_simps Let_def msgKeyAt_def)

text \<open>The saved-key table after a call that found \<open>d\<close> messages missing.\<close>

definition savedAfter :: "('s, 'p) ratchet_prims \<Rightarrow> int \<Rightarrow> nat \<Rightarrow> bytes \<Rightarrow> bytes \<Rightarrow> u32 \<Rightarrow> nat \<Rightarrow> saved_keys" where
  "savedAfter P now n hk ck rc d = (if d = 0 then [] else [((n, hk), skippedKeys P now ck rc d)])"

definition allocsAfter :: "nat \<Rightarrow> nat \<Rightarrow> nat" where
  "allocsAfter n d = (if d = 0 then n else Suc n)"

lemma saveKeys_run':
  assumes "unat m = unat rc + d" "d \<le> 8" "m \<noteq> - 1" "ckb = Some ck" "length ck = 32" "hkb = Some hk" "length hk = 32"
  shows "saveKeys P now hkb ckb m rc r =
    Ret (chainAt P ck (Suc d), msgKeyAt P ck d, savedAfter P now (allocs r) hk ck rc d)
        (r\<lparr>allocs := allocsAfter (allocs r) d\<rparr>)"
  using saveKeys_run [OF assms, of P now r] by (simp add: savedAfter_def allocsAfter_def)

lemma decryptCurrent_run:
  assumes ok: "ratchet_ok P"
    and hdr: "hdr = headerBytes c p dh pq mn" "length dh = 32" "length pq = csidh_PublicKeySize P" "length mn = 24"
    and keys: "recvHeaderKey r = Some hk" "length hk = 32" "recvChainKey r = Some ck" "length ck = 32"
    and gap: "unat c = unat (recvCount r) + d" "d \<le> 8" "c \<noteq> - 1"
  shows "decryptCurrent P now hdr (box_Seal P (msgKeyAt P ck d) mn msg) r =
    Ret msg (r\<lparr>recvChainKey := Some (chainAt P ck (Suc d)), recvCount := c + 1,
      saved := fold mergeEntry (savedAfter P now (allocs r) hk ck (recvCount r) d) (saved r),
      allocs := allocsAfter (allocs r) d\<rparr>)"
  using saveKeys_run' [OF gap keys(3,4,1,2), of P now r] ok keys hdr(2-4)
  by (simp add: decryptCurrent_def hdr(1) header_fields run_simps Let_def mergeSavedKeys_def
      del: chainAt_simps)

lemma Decrypt_current:
  assumes ok: "ratchet_ok P" and hn: "length hn = 24"
    and hdr: "hdr = headerBytes c p dh pq mn" "length dh = 32" "length pq = csidh_PublicKeySize P" "length mn = 24"
    and keys: "recvHeaderKey r = Some hk" "length hk = 32" "recvChainKey r = Some ck" "length ck = 32" "\<not> CtIsZero hk"
    and gap: "unat c = unat (recvCount r) + d" "d \<le> 8" "c \<noteq> - 1"
    and ct: "ct = hn @ box_Seal P hk hn hdr @ box_Seal P (msgKeyAt P ck d) mn msg"
    and tried: "trySavedKeys P ct r = Ret None r"
  shows "Decrypt P now ct r =
    Ret msg (r\<lparr>recvChainKey := Some (chainAt P ck (Suc d)), recvCount := c + 1,
      saved := fold mergeEntry (savedAfter P now (allocs r) hk ck (recvCount r) d) (saved r),
      allocs := allocsAfter (allocs r) d\<rparr>)"
proof -
  have "length hdr = headerSize P" using hdr header_fields(1) by blast
  note parts = sealed_fields [OF ok hn this, of hk "box_Seal P (msgKeyAt P ck d) mn msg", folded ct]
  show ?thesis
    using decryptCurrent_run [OF ok hdr keys(1-4) gap, of now msg] tried keys ok
    by (simp add: Decrypt_def run_simps Let_def parts)
qed

lemma decryptRatchet_run:
  assumes ok: "ratchet_ok P"
    and hdr: "hdr = headerBytes c p dh pq mn" "length dh = 32" "length pq = csidh_PublicKeySize P" "length mn = 24"
    and keys: "rootKey r = Some rk" "length rk = 32" "recvHeaderKey r = Some hk" "length hk = 32"
      "recvChainKey r = Some ck" "length ck = 32" "nextRecvHeaderKey r = Some nk" "length nk = 32"
      "sendRatchetPrivate r = Some k" "length k = 32" "recvRatchetPublic r = Some rp" "length rp = 32"
    and flag: "\<not> ratchet r"
    and old: "unat p = unat (recvCount r) + e" "e \<le> 8" "p \<noteq> - 1"
    and new: "unat c = d" "d \<le> 8" "c \<noteq> - 1"
    and pq: "csidh_ImportPublic P pq = Some their" "csidh_Validate P their"
      "sendPQRatchetPrivate r = Some q" "csidh_DeriveSecret P their q = Some z"
    and h: "h = rootMaterial P rk (ScalarMult P k dh) z"
    and ck': "ck' = hmac_sha3 P h chainKeyLabel"
  shows "decryptRatchet P now hdr (box_Seal P (msgKeyAt P ck' d) mn msg) r =
    Ret msg (r\<lparr>rootKey := Some (hmac_sha3 P h rootKeyLabel),
      recvChainKey := Some (chainAt P ck' (Suc d)), recvHeaderKey := Some nk,
      nextRecvHeaderKey := Some (hmac_sha3 P h headerKeyLabel),
      sendRatchetPrivate := Some (zeros 32), sendPQRatchetPrivate := Some (csidh_NewPrivate P),
      recvRatchetPublic := Some dh, recvPQRatchetPublic := Some their, recvCount := c + 1,
      saved := fold mergeEntry (savedAfter P now (allocsAfter (allocs r) e) nk ck' 0 d)
        (fold mergeEntry (savedAfter P now (allocs r) hk ck (recvCount r) e) (saved r)),
      allocs := allocsAfter (allocsAfter (allocs r) e) d, ratchet := True\<rparr>)"
proof -
  have len: "length ck' = 32" using ok ck' by simp
  note save_old = saveKeys_run' [OF old keys(5,6,3,4), of P now]
  have gap: "unat c = unat (0::u32) + d" using new(1) by simp
  note save_new = saveKeys_run' [OF gap new(2,3) refl len keys(7,8), of P now]
  have bz: "ExplicitBzero k = zeros 32" using keys(10) by (simp add: ExplicitBzero_zeros)
  show ?thesis
    using ok keys hdr(2-4) flag pq save_old save_new len bz
    by (simp add: decryptRatchet_def enterChain_def hdr(1) header_fields run_simps Let_def mergeSavedKeys_def
        h [symmetric] ck' [symmetric] del: chainAt_simps)
qed

text \<open>The header sealed under the next key is not taken for one under the current key.\<close>

definition unmistaken :: "('s, 'p) ratchet_prims \<Rightarrow> ('s, 'p) Ratchet \<Rightarrow> bytes \<Rightarrow> bool" where
  "unmistaken P r ct \<longleftrightarrow> (case recvHeaderKey r of None \<Rightarrow> False | Some hk \<Rightarrow> CtIsZero hk \<or>
     box_Open P hk (take nonceSize ct) (slice nonceSize (sealedHeaderSize P) ct) = None)"

lemma Decrypt_next:
  assumes ok: "ratchet_ok P" and hn: "length hn = 24" and len: "length hdr = headerSize P"
    and keys: "recvHeaderKey r = Some hk" "length hk = 32" "nextRecvHeaderKey r = Some nk" "length nk = 32"
    and ct: "ct = hn @ box_Seal P nk hn hdr @ body"
    and tried: "trySavedKeys P ct r = Ret None r" and apart: "unmistaken P r ct"
  shows "Decrypt P now ct r = decryptRatchet P now hdr body r"
proof -
  note parts = sealed_fields [OF ok hn len, of nk body, folded ct]
  have "(if CtIsZero hk then None else box_Open P hk hn (box_Seal P nk hn hdr)) = None"
    using apart keys by (auto simp: unmistaken_def parts)
  then show ?thesis
    using tried keys ok by (simp add: Decrypt_def run_simps Let_def parts)
qed

lemma trySavedKeys_empty:
  "saved r = [] \<Longrightarrow> \<not> length ct < sealedHeaderSize P \<Longrightarrow> trySavedKeys P ct r = Ret None r"
  by (simp add: trySavedKeys_def run_simps)

section \<open>Two parties in step\<close>

definition buf_ok :: "lbuf \<Rightarrow> bool" where
  "buf_ok b \<longleftrightarrow> (case b of None \<Rightarrow> False | Some d \<Rightarrow> length d = 32)"

lemma buf_ok_simps [simp]: "buf_ok (Some d) \<longleftrightarrow> length d = 32" "\<not> buf_ok None"
  by (simp_all add: buf_ok_def)

lemma buf_okE: "buf_ok b \<longleftrightarrow> (\<exists>d. b = Some d \<and> length d = 32)"
  by (cases b) simp_all

definition keys_ok :: "('s, 'p) Ratchet \<Rightarrow> bool" where
  "keys_ok r \<longleftrightarrow> buf_ok (rootKey r) \<and> buf_ok (sendHeaderKey r) \<and> buf_ok (recvHeaderKey r) \<and>
     buf_ok (nextSendHeaderKey r) \<and> buf_ok (nextRecvHeaderKey r) \<and> buf_ok (sendChainKey r) \<and>
     buf_ok (recvChainKey r) \<and> buf_ok (sendRatchetPrivate r) \<and> buf_ok (recvRatchetPublic r) \<and>
     sendPQRatchetPrivate r \<noteq> None \<and> recvPQRatchetPublic r \<noteq> None"

text \<open>
  \<open>in_step P x y\<close>: of the two, \<open>x\<close> is the one whose next message carries new ratchet values, and
  every message sent so far has been read.
\<close>

definition in_step :: "('s, 'p) ratchet_prims \<Rightarrow> ('s, 'p) Ratchet \<Rightarrow> ('s, 'p) Ratchet \<Rightarrow> bool" where
  "in_step P x y \<longleftrightarrow> keys_ok x \<and> keys_ok y \<and> ratchet x \<and> \<not> ratchet y \<and>
     saved x = [] \<and> saved y = [] \<and> rootKey x = rootKey y \<and>
     nextSendHeaderKey x = nextRecvHeaderKey y \<and> nextSendHeaderKey y = nextRecvHeaderKey x \<and>
     sendHeaderKey y = recvHeaderKey x \<and> sendChainKey y = recvChainKey x \<and>
     sendCount y = recvCount x \<and> sendCount x = recvCount y \<and>
     recvRatchetPublic x = map_option (ScalarBaseMult P) (sendRatchetPrivate y) \<and>
     recvPQRatchetPublic x = map_option (csidh_GeneratePublicKey P) (sendPQRatchetPrivate y)"

text \<open>A message within the chain: from \<open>y\<close> to \<open>x\<close>.\<close>

lemma step_within:
  assumes ok: "ratchet_ok P" and st: "in_step P x y" and rnd: "nonces_ok rand"
    and room: "sendCount y \<noteq> - 1"
  shows "\<exists>ct y'. Encrypt P rand [] msg y = Ret ct y' \<and>
    (recvHeaderKey x \<noteq> Some (zeros 32) \<longrightarrow> (\<exists>x'. Decrypt P now ct x = Ret msg x' \<and> in_step P x' y'))"
proof -
  obtain hk ck k q where y: "sendHeaderKey y = Some hk" "length hk = 32" "sendChainKey y = Some ck"
      "length ck = 32" "sendRatchetPrivate y = Some k" "length k = 32" "sendPQRatchetPrivate y = Some q"
    using st by (auto simp: in_step_def keys_ok_def buf_okE)
  then have x: "recvHeaderKey x = Some hk" "recvChainKey x = Some ck" "recvCount x = sendCount y" "saved x = []"
    using st by (auto simp: in_step_def)
  obtain hn mn where n: "er_headerNonce rand = Some hn" "er_messageNonce rand = Some mn"
      "length hn = 24" "length mn = 24"
    using rnd by (auto simp: nonces_ok_def split: option.splits)
  obtain pq where pq: "csidh_ExportPublic P (csidh_GeneratePublicKey P q) = Some pq" "length pq = csidh_PublicKeySize P"
    using csidhD [OF ok] by metis
  let ?hdr = "headerBytes (sendCount y) (prevSendCount y) (ScalarBaseMult P k) pq mn"
  let ?ct = "hn @ box_Seal P hk hn ?hdr @ box_Seal P (msgKeyAt P ck 0) mn msg"
  have enc: "Encrypt P rand [] msg y =
      Ret ?ct (y\<lparr>sendChainKey := Some (chainAt P ck 1), sendCount := sendCount y + 1\<rparr>)"
    using st by (intro Encrypt_current [OF ok n(1,2) _ y pq(1)]) (simp add: in_step_def)
  have dh: "length (ScalarBaseMult P k) = 32" using dhD(1) [OF ok y(6)] .
  have hl: "length ?hdr = headerSize P" using header_fields(1) [OF dh pq(2) n(4)] .
  have gap: "unat (sendCount y) = unat (recvCount x) + 0" using x by simp
  have tried: "trySavedKeys P ?ct x = Ret None x"
    using x(4) sealed_fields(1) [OF ok n(3) hl] by (intro trySavedKeys_empty) simp_all
  have dec: "Decrypt P now ?ct x =
      Ret msg (x\<lparr>recvChainKey := Some (chainAt P ck 1), recvCount := sendCount y + 1\<rparr>)"
    if "recvHeaderKey x \<noteq> Some (zeros 32)"
  proof -
    have "\<not> CtIsZero hk" using that x(1) y(2) by (simp add: CtIsZero_eq_zeros)
    from Decrypt_current [where msg = msg and now = now,
        OF ok n(3) refl dh pq(2) n(4) x(1) y(2) x(2) y(4) this gap _ room refl tried]
    show ?thesis by (simp add: savedAfter_def allocsAfter_def)
  qed
  have "in_step P (x\<lparr>recvChainKey := Some (chainAt P ck 1), recvCount := sendCount y + 1\<rparr>)
      (y\<lparr>sendChainKey := Some (chainAt P ck 1), sendCount := sendCount y + 1\<rparr>)"
    using st ok y dh by (simp add: in_step_def keys_ok_def)
  with enc dec show ?thesis by blast
qed

text \<open>The ciphertext with which a sender starts a new chain.\<close>

lemma Encrypt_turn:
  assumes ok: "ratchet_ok P" and x: "keys_ok x" "ratchet x" and rnd: "send_rand_ok rand"
    and n: "er_headerNonce rand = Some hn" "er_messageNonce rand = Some mn"
    and pq: "csidh_ExportPublic P (csidh_GeneratePublicKey P (fst (er_pq rand))) = Some pq"
      "csidh_DeriveSecret P (the (recvPQRatchetPublic x)) (fst (er_pq rand)) = Some z"
    and h: "h = rootMaterial P (the (rootKey x)) (ScalarMult P (fst (er_dh rand)) (the (recvRatchetPublic x))) z"
    and ck: "ck = hmac_sha3 P h chainKeyLabel"
  shows "Encrypt P rand [] msg x = Ret
    (hn @ box_Seal P (the (nextSendHeaderKey x)) hn
        (headerBytes 0 (sendCount x) (ScalarBaseMult P (fst (er_dh rand))) pq mn) @ box_Seal P (msgKeyAt P ck 0) mn msg)
    (x\<lparr>sendRatchetPrivate := Some (fst (er_dh rand)), sendPQRatchetPrivate := Some (fst (er_pq rand)),
      sendHeaderKey := nextSendHeaderKey x, rootKey := Some (hmac_sha3 P h rootKeyLabel),
      nextSendHeaderKey := Some (hmac_sha3 P h headerKeyLabel), sendChainKey := Some (chainAt P ck 1),
      prevSendCount := sendCount x, sendCount := 1, ratchet := False\<rparr>)"
proof -
  obtain rk nk shk sck rp rq where r: "rootKey x = Some rk" "length rk = 32" "sendHeaderKey x = Some shk"
      "length shk = 32" "nextSendHeaderKey x = Some nk" "length nk = 32" "sendChainKey x = Some sck" "length sck = 32"
      "recvRatchetPublic x = Some rp" "length rp = 32" "recvPQRatchetPublic x = Some rq"
    using x by (auto simp: keys_ok_def buf_okE)
  let ?x1 = "x\<lparr>sendRatchetPrivate := Some (fst (er_dh rand)), sendPQRatchetPrivate := Some (fst (er_pq rand)),
    sendHeaderKey := Some nk, rootKey := Some (hmac_sha3 P h rootKeyLabel),
    nextSendHeaderKey := Some (hmac_sha3 P h headerKeyLabel), sendChainKey := Some ck,
    prevSendCount := sendCount x, sendCount := 0, ratchet := False\<rparr>"
  have "sendRatchet P rand x = Ret () ?x1"
    using sendRatchet_run [OF ok rnd r _ h [unfolded r option.sel]] pq r by (simp add: ck)
  then have "Encrypt P rand [] msg x = Encrypt P rand [] msg ?x1"
    using x(2) by (simp add: Encrypt_def run_simps)
  moreover have "length (fst (er_dh rand)) = 32" using rnd by (simp add: send_rand_ok_def)
  ultimately show ?thesis
    using Encrypt_current [OF ok n, of ?x1 nk ck "fst (er_dh rand)" "fst (er_pq rand)" pq msg] ok r pq
    by (simp add: ck)
qed

text \<open>A message with new ratchet values: from \<open>x\<close> to \<open>y\<close>, after which the roles are exchanged.\<close>

lemma step_ratchet:
  assumes ok: "ratchet_ok P" and st: "in_step P x y" and rnd: "send_rand_ok rand"
    and room: "sendCount x \<noteq> - 1"
  shows "\<exists>ct x'. Encrypt P rand [] msg x = Ret ct x' \<and>
    (unmistaken P y ct \<longrightarrow> (\<exists>y'. Decrypt P now ct y = Ret msg y' \<and> in_step P y' x'))"
proof -
  obtain rk nk shk sck where x: "rootKey x = Some rk" "length rk = 32" "sendHeaderKey x = Some shk"
      "length shk = 32" "nextSendHeaderKey x = Some nk" "length nk = 32" "sendChainKey x = Some sck" "length sck = 32"
    using st by (auto simp: in_step_def keys_ok_def buf_okE)
  obtain rhk rck k q rp where y: "recvHeaderKey y = Some rhk" "length rhk = 32" "recvChainKey y = Some rck"
      "length rck = 32" "sendRatchetPrivate y = Some k" "length k = 32" "sendPQRatchetPrivate y = Some q"
      "recvRatchetPublic y = Some rp" "length rp = 32"
    using st by (auto simp: in_step_def keys_ok_def buf_okE)
  have xy: "recvRatchetPublic x = Some (ScalarBaseMult P k)" "recvPQRatchetPublic x = Some (csidh_GeneratePublicKey P q)"
    "rootKey y = Some rk" "nextRecvHeaderKey y = Some nk" "recvCount y = sendCount x" "saved y = []"
    "ratchet x" "\<not> ratchet y"
    using st x y by (auto simp: in_step_def)
  obtain hn mn where n: "er_headerNonce rand = Some hn" "er_messageNonce rand = Some mn"
      "length hn = 24" "length mn = 24"
    using rnd by (auto simp: send_rand_ok_def nonces_ok_def split: option.splits)
  let ?k' = "fst (er_dh rand)" and ?q' = "fst (er_pq rand)"
  have k': "length ?k' = 32" using rnd by (simp add: send_rand_ok_def)
  obtain pq z where pq: "csidh_Validate P (csidh_GeneratePublicKey P ?q')"
      "csidh_ExportPublic P (csidh_GeneratePublicKey P ?q') = Some pq"
      "length pq = csidh_PublicKeySize P" "csidh_ImportPublic P pq = Some (csidh_GeneratePublicKey P ?q')"
      "csidh_DeriveSecret P (csidh_GeneratePublicKey P ?q') q = Some z"
      "csidh_DeriveSecret P (csidh_GeneratePublicKey P q) ?q' = Some z"
    using csidhD [OF ok, of ?q' q] by metis
  define h where "h = rootMaterial P rk (ScalarMult P ?k' (ScalarBaseMult P k)) z"
  define ck where "ck = hmac_sha3 P h chainKeyLabel"
  let ?hdr = "headerBytes 0 (sendCount x) (ScalarBaseMult P ?k') pq mn"
  let ?ct = "hn @ box_Seal P nk hn ?hdr @ box_Seal P (msgKeyAt P ck 0) mn msg"
  let ?x' = "x\<lparr>sendRatchetPrivate := Some ?k', sendPQRatchetPrivate := Some ?q', sendHeaderKey := Some nk,
    rootKey := Some (hmac_sha3 P h rootKeyLabel), nextSendHeaderKey := Some (hmac_sha3 P h headerKeyLabel),
    sendChainKey := Some (chainAt P ck 1), prevSendCount := sendCount x, sendCount := 1, ratchet := False\<rparr>"
  have "keys_ok x" using st by (simp add: in_step_def)
  from Encrypt_turn [OF ok this xy(7) rnd n(1,2) pq(2), of z h ck msg]
  have enc: "Encrypt P rand [] msg x = Ret ?ct ?x'"
    using pq(6) by (simp add: h_def ck_def x xy)
  have dh: "length (ScalarBaseMult P ?k') = 32" using dhD(1) [OF ok k'] .
  have hl: "length ?hdr = headerSize P" using header_fields(1) [OF dh pq(3) n(4)] .
  have tried: "trySavedKeys P ?ct y = Ret None y"
    using xy(6) sealed_fields(1) [OF ok n(3) hl] by (intro trySavedKeys_empty) simp_all
  have same: "h = rootMaterial P rk (ScalarMult P k (ScalarBaseMult P ?k')) z"
    using dhD(2) [OF ok k' y(6)] by (simp add: h_def)
  have gaps: "unat (sendCount x) = unat (recvCount y) + 0" "unat (0::u32) = 0" "(0::u32) \<noteq> - 1"
    using xy(5) by simp_all
  note dec = decryptRatchet_run [where msg = msg and now = now, OF ok refl dh pq(3) n(4) xy(3) x(2) y(1-4)
      xy(4) x(6) y(5,6,8,9) xy(8) gaps(1) _ room gaps(2) _ gaps(3) pq(4,1) y(7) pq(5) same ck_def]
  let ?y' = "y\<lparr>rootKey := Some (hmac_sha3 P h rootKeyLabel), recvChainKey := Some (chainAt P ck 1),
    recvHeaderKey := Some nk, nextRecvHeaderKey := Some (hmac_sha3 P h headerKeyLabel),
    sendRatchetPrivate := Some (zeros 32), sendPQRatchetPrivate := Some (csidh_NewPrivate P),
    recvRatchetPublic := Some (ScalarBaseMult P ?k'), recvPQRatchetPublic := Some (csidh_GeneratePublicKey P ?q'),
    recvCount := 1, ratchet := True\<rparr>"
  have "Decrypt P now ?ct y = Ret msg ?y'" if "unmistaken P y ?ct"
    using dec Decrypt_next [OF ok n(3) hl y(1,2) xy(4) x(6) refl tried that, of now]
    by (simp add: savedAfter_def allocsAfter_def)
  moreover have "in_step P ?y' ?x'"
    using st ok x y dh k' dhD(1) [OF ok y(6)] by (simp add: in_step_def keys_ok_def ck_def)
  ultimately show ?thesis using enc by blast
qed

section \<open>A conversation\<close>

text \<open>
  What a two-way channel promises its users: two linked ends stay linked, and the message sent at
  one end comes out at the other.  A script lists who speaks (\<open>True\<close> for the first end), what the
  sender draws, when the receiver reads, and the message.
\<close>

definition deliver :: "('e \<Rightarrow> 'm \<Rightarrow> 'r \<Rightarrow> ('c \<times> 'r) option) \<Rightarrow> ('t \<Rightarrow> 'c \<Rightarrow> 'r \<Rightarrow> ('m \<times> 'r) option)
    \<Rightarrow> 'e \<Rightarrow> 't \<Rightarrow> 'm \<Rightarrow> 'r \<Rightarrow> 'r \<Rightarrow> ('m \<times> 'r \<times> 'r) option" where
  "deliver send recv e t m x y = (case send e m x of None \<Rightarrow> None
     | Some (c, x') \<Rightarrow> (case recv t c y of None \<Rightarrow> None | Some (m', y') \<Rightarrow> Some (m', x', y')))"

fun dialogue :: "('e \<Rightarrow> 'm \<Rightarrow> 'r \<Rightarrow> ('c \<times> 'r) option) \<Rightarrow> ('t \<Rightarrow> 'c \<Rightarrow> 'r \<Rightarrow> ('m \<times> 'r) option)
    \<Rightarrow> (bool \<times> 'e \<times> 't \<times> 'm) list \<Rightarrow> 'r \<Rightarrow> 'r \<Rightarrow> ('m list \<times> 'r \<times> 'r) option" where
  "dialogue send recv [] a b = Some ([], a, b)"
| "dialogue send recv ((True, e, t, m) # s) a b = (case deliver send recv e t m a b of
     None \<Rightarrow> None
   | Some (m', a', b') \<Rightarrow> map_option (\<lambda>(ms, r). (m' # ms, r)) (dialogue send recv s a' b'))"
| "dialogue send recv ((False, e, t, m) # s) a b = (case deliver send recv e t m b a of
     None \<Rightarrow> None
   | Some (m', b', a') \<Rightarrow> map_option (\<lambda>(ms, r). (m' # ms, r)) (dialogue send recv s a' b'))"

definition fits_here :: "('e \<Rightarrow> 'm \<Rightarrow> 'r \<Rightarrow> ('c \<times> 'r) option) \<Rightarrow> ('e \<Rightarrow> 'r \<Rightarrow> bool) \<Rightarrow> ('r \<Rightarrow> 'r \<Rightarrow> 'c \<Rightarrow> bool)
    \<Rightarrow> 'e \<Rightarrow> 'm \<Rightarrow> 'r \<Rightarrow> 'r \<Rightarrow> bool" where
  "fits_here send usable fit e m x y \<longleftrightarrow> usable e x \<and>
     (case send e m x of None \<Rightarrow> True | Some (c, _) \<Rightarrow> fit x y c)"

fun fits_along :: "('e \<Rightarrow> 'm \<Rightarrow> 'r \<Rightarrow> ('c \<times> 'r) option) \<Rightarrow> ('t \<Rightarrow> 'c \<Rightarrow> 'r \<Rightarrow> ('m \<times> 'r) option)
    \<Rightarrow> ('e \<Rightarrow> 'r \<Rightarrow> bool) \<Rightarrow> ('r \<Rightarrow> 'r \<Rightarrow> 'c \<Rightarrow> bool)
    \<Rightarrow> (bool \<times> 'e \<times> 't \<times> 'm) list \<Rightarrow> 'r \<Rightarrow> 'r \<Rightarrow> bool" where
  "fits_along send recv usable fit [] a b = True"
| "fits_along send recv usable fit ((True, e, t, m) # s) a b = (fits_here send usable fit e m a b \<and>
     (case deliver send recv e t m a b of None \<Rightarrow> True
      | Some (m', a', b') \<Rightarrow> fits_along send recv usable fit s a' b'))"
| "fits_along send recv usable fit ((False, e, t, m) # s) a b = (fits_here send usable fit e m b a \<and>
     (case deliver send recv e t m b a of None \<Rightarrow> True
      | Some (m', b', a') \<Rightarrow> fits_along send recv usable fit s a' b'))"

locale duplex_channel =
  fixes send :: "'e \<Rightarrow> 'm \<Rightarrow> 'r \<Rightarrow> ('c \<times> 'r) option"
    and recv :: "'t \<Rightarrow> 'c \<Rightarrow> 'r \<Rightarrow> ('m \<times> 'r) option"
    and linked :: "'r \<Rightarrow> 'r \<Rightarrow> bool"
    and usable :: "'e \<Rightarrow> 'r \<Rightarrow> bool"
    and fit :: "'r \<Rightarrow> 'r \<Rightarrow> 'c \<Rightarrow> bool"
  assumes linked_sym: "linked a b \<Longrightarrow> linked b a"
    and sends: "linked a b \<Longrightarrow> usable e a \<Longrightarrow> \<exists>c a'. send e m a = Some (c, a')"
    and delivers: "linked a b \<Longrightarrow> usable e a \<Longrightarrow> send e m a = Some (c, a') \<Longrightarrow> fit a b c \<Longrightarrow>
      \<exists>b'. recv t c b = Some (m, b') \<and> linked a' b'"
begin

lemma deliver_linked:
  assumes "linked a b" "fits_here send usable fit e m a b"
  shows "\<exists>a' b'. deliver send recv e t m a b = Some (m, a', b') \<and> linked a' b'"
  using assms sends [of a b e m] delivers [of a b e m _ _ t]
  by (fastforce simp: deliver_def fits_here_def)

lemma dialogue_delivered:
  assumes "linked a b" "fits_along send recv usable fit s a b"
  shows "\<exists>a' b'. dialogue send recv s a b = Some (map (\<lambda>(_, _, _, m). m) s, a', b') \<and> linked a' b'"
  using assms
proof (induction s arbitrary: a b)
  case (Cons q s)
  obtain w e t m where q: "q = (w, e, t, m)" by (cases q)
  show ?case
  proof (cases w)
    case True
    obtain a' b' where d: "deliver send recv e t m a b = Some (m, a', b')" "linked a' b'"
      using deliver_linked Cons.prems q True by fastforce
    then show ?thesis using Cons.IH [OF d(2)] Cons.prems(2) q True by auto
  next
    case False
    obtain b' a' where d: "deliver send recv e t m b a = Some (m, b', a')" "linked a' b'"
      using deliver_linked [of b a e m t] Cons.prems q False linked_sym by fastforce
    then show ?thesis using Cons.IH [OF d(2)] Cons.prems(2) q False by auto
  qed
qed simp

end

definition ratchet_send :: "('s, 'p) ratchet_prims \<Rightarrow> 's send_rand \<Rightarrow> bytes \<Rightarrow> ('s, 'p) Ratchet
    \<Rightarrow> (bytes \<times> ('s, 'p) Ratchet) option" where
  "ratchet_send P rand msg r = (case Encrypt P rand [] msg r of Ret ct r' \<Rightarrow> Some (ct, r') | _ \<Rightarrow> None)"

definition ratchet_recv :: "('s, 'p) ratchet_prims \<Rightarrow> int \<Rightarrow> bytes \<Rightarrow> ('s, 'p) Ratchet
    \<Rightarrow> (bytes \<times> ('s, 'p) Ratchet) option" where
  "ratchet_recv P now ct r = (case Decrypt P now ct r of Ret m r' \<Rightarrow> Some (m, r') | _ \<Rightarrow> None)"

definition ratchet_linked :: "('s, 'p) ratchet_prims \<Rightarrow> ('s, 'p) Ratchet \<Rightarrow> ('s, 'p) Ratchet \<Rightarrow> bool" where
  "ratchet_linked P a b \<longleftrightarrow> ratchet_ok P \<and> (in_step P a b \<or> in_step P b a)"

definition ratchet_usable :: "'s send_rand \<Rightarrow> ('s, 'p) Ratchet \<Rightarrow> bool" where
  "ratchet_usable rand r \<longleftrightarrow> send_rand_ok rand \<and> sendCount r \<noteq> - 1"

definition ratchet_fit :: "('s, 'p) ratchet_prims \<Rightarrow> ('s, 'p) Ratchet \<Rightarrow> ('s, 'p) Ratchet \<Rightarrow> bytes \<Rightarrow> bool" where
  "ratchet_fit P sender receiver ct \<longleftrightarrow>
     (if ratchet sender then unmistaken P receiver ct else recvHeaderKey receiver \<noteq> Some (zeros 32))"

lemma linked_step:
  assumes link: "ratchet_linked P a b" and use: "ratchet_usable e a"
  shows "\<exists>c a'. Encrypt P e [] m a = Ret c a' \<and>
    (ratchet_fit P a b c \<longrightarrow> (\<exists>b'. Decrypt P t c b = Ret m b' \<and> ratchet_linked P a' b'))"
proof -
  have ok: "ratchet_ok P" "send_rand_ok e" "nonces_ok e" "sendCount a \<noteq> - 1"
    using link use by (auto simp: ratchet_linked_def ratchet_usable_def send_rand_ok_def)
  consider "in_step P a b" "ratchet a" | "in_step P b a" "\<not> ratchet a"
    using link by (auto simp: ratchet_linked_def in_step_def)
  then show ?thesis
  proof cases
    case 1
    then show ?thesis
      using step_ratchet [OF ok(1) 1(1) ok(2,4), of m t] ok(1)
      by (auto simp: ratchet_fit_def ratchet_linked_def)
  next
    case 2
    then show ?thesis
      using step_within [OF ok(1) 2(1) ok(3,4), of m t] ok(1)
      by (auto simp: ratchet_fit_def ratchet_linked_def)
  qed
qed

interpretation ratchet_link: duplex_channel "ratchet_send P" "ratchet_recv P" "ratchet_linked P"
  ratchet_usable "ratchet_fit P" for P
proof (unfold_locales, goal_cases)
  case (1 a b)
  then show ?case by (auto simp: ratchet_linked_def)
next
  case (2 a b e m)
  then show ?case using linked_step [of P a b e m] by (fastforce simp: ratchet_send_def)
next
  case (3 a b e m c a' t)
  then show ?case using linked_step [of P a b e m t]
    by (fastforce simp: ratchet_send_def ratchet_recv_def)
qed

section \<open>Key exchange\<close>

definition init_rand_ok :: "'s init_rand \<Rightarrow> bool" where
  "init_rand_ok rand \<longleftrightarrow> buf_ok (ir_dh0 rand) \<and> buf_ok (ir_dh1 rand) \<and> ir_pq0 rand \<noteq> None \<and> ir_pq1 rand \<noteq> None"

text \<open>Both sides create their half, hand it to the other side, and process the other's half.\<close>

definition establish :: "('s, 'p) ratchet_prims \<Rightarrow> 's init_rand \<Rightarrow> 's init_rand
    \<Rightarrow> (('s, 'p) Ratchet \<times> ('s, 'p) Ratchet) option" where
  "establish P ra rb = (case (InitRatchet P ra, InitRatchet P rb) of
     (Ok a, Ok b) \<Rightarrow> (case (CreateKeyExchange P a, CreateKeyExchange P b) of
       (Ret xa a1, Ret xb b1) \<Rightarrow> (case (ProcessKeyExchange P xb a1, ProcessKeyExchange P xa b1) of
         (Ret _ a2, Ret _ b2) \<Rightarrow> Some (a2, b2)
       | _ \<Rightarrow> None)
     | _ \<Rightarrow> None)
   | _ \<Rightarrow> None)"

lemma not_Nil_32: "length d = 32 \<Longrightarrow> d \<noteq> []"
  by auto

lemma kxOpen_run:
  "kxPrivate0 r = Some k0 \<Longrightarrow> kxPrivate1 r = Some k1 \<Longrightarrow> length k0 = 32 \<Longrightarrow> length k1 = 32 \<Longrightarrow>
     kxOpen r = Ret () r"
  by (simp add: kxOpen_def run_simps not_Nil_32)

lemma CreateKeyExchange_run:
  assumes ok: "ratchet_ok P" and keys: "kxPrivate0 r = Some k0" "kxPrivate1 r = Some k1" "length k0 = 32"
    "length k1 = 32" "kxPQPrivate0 r = Some q0" "kxPQPrivate1 r = Some q1"
  obtains x e0 e1 where "CreateKeyExchange P r = Ret x r"
    "kx_Unmarshal P x = Some \<lparr>Dh0 = ScalarBaseMult P k0, Dh1 = ScalarBaseMult P k1, PQDh0 = e0, PQDh1 = e1\<rparr>"
    "csidh_ImportPublic P e0 = Some (csidh_GeneratePublicKey P q0)" "length e0 = csidh_PublicKeySize P"
    "csidh_ImportPublic P e1 = Some (csidh_GeneratePublicKey P q1)" "length e1 = csidh_PublicKeySize P"
proof -
  obtain e0 where e0: "csidh_ExportPublic P (csidh_GeneratePublicKey P q0) = Some e0"
      "csidh_ImportPublic P e0 = Some (csidh_GeneratePublicKey P q0)" "length e0 = csidh_PublicKeySize P"
    using csidhD [OF ok, of q0] by metis
  obtain e1 where e1: "csidh_ExportPublic P (csidh_GeneratePublicKey P q1) = Some e1"
      "csidh_ImportPublic P e1 = Some (csidh_GeneratePublicKey P q1)" "length e1 = csidh_PublicKeySize P"
    using csidhD [OF ok, of q1] by metis
  let ?x = "\<lparr>Dh0 = ScalarBaseMult P k0, Dh1 = ScalarBaseMult P k1, PQDh0 = e0, PQDh1 = e1\<rparr>"
  have "kx_codec P" using ok by (simp add: ratchet_ok_def)
  from this [unfolded kx_codec_def, rule_format, of ?x]
  obtain b where "kx_Marshal P ?x = Some b" "kx_Unmarshal P b = Some ?x"
    using dhD(1) [OF ok keys(3)] dhD(1) [OF ok keys(4)] e0 e1 by auto
  then show ?thesis
    using that [OF _ _ e0(2,3) e1(2,3)] keys e0 e1 by (simp add: CreateKeyExchange_def run_simps kxOpen_run)
qed

lemma complete_run:
  assumes ok: "ratchet_ok P" and keys: "keys_ok r" "kxPrivate0 r = Some k0" "kxPrivate1 r = Some k1"
    "length k0 = 32" "length k1 = 32" "kxPQPrivate0 r = Some q0" "kxPQPrivate1 r = Some q1"
    and kx: "kx = \<lparr>Dh0 = d0, Dh1 = d1, PQDh0 = e0, PQDh1 = e1\<rparr>" "length d0 = 32" "length d1 = 32"
      "csidh_ImportPublic P e0 = Some p0" "length e0 = csidh_PublicKeySize P" "csidh_Validate P p0"
      "csidh_ImportPublic P e1 = Some p1" "length e1 = csidh_PublicKeySize P" "csidh_Validate P p1"
    and z: "csidh_DeriveSecret P p0 q0 = Some z" and ne: "ScalarBaseMult P k0 \<noteq> d0"
    and h: "h = ScalarMult P k0 d0 @ z"
  shows "completeKeyExchange P kx r = Ret () (if ScalarBaseMult P k0 < d0
    then r\<lparr>rootKey := Some (hmac_sha3 P h rootKeyLabel), recvHeaderKey := Some (hmac_sha3 P h headerKeyLabel),
      nextSendHeaderKey := Some (hmac_sha3 P h nextHeaderKeyLabel),
      nextRecvHeaderKey := Some (hmac_sha3 P h nextHeaderKeyLabel),
      recvChainKey := Some (hmac_sha3 P h chainKeyLabel), recvRatchetPublic := Some d1,
      recvPQRatchetPublic := Some p1, ratchet := True, kxPrivate0 := None, kxPrivate1 := None\<rparr>
    else r\<lparr>rootKey := Some (hmac_sha3 P h rootKeyLabel), sendHeaderKey := Some (hmac_sha3 P h headerKeyLabel),
      nextRecvHeaderKey := Some (hmac_sha3 P h nextHeaderKeyLabel),
      nextSendHeaderKey := Some (hmac_sha3 P h nextHeaderKeyLabel),
      sendChainKey := Some (hmac_sha3 P h chainKeyLabel), sendRatchetPrivate := Some k1,
      sendPQRatchetPrivate := Some q1, ratchet := False, kxPrivate0 := None, kxPrivate1 := None\<rparr>)"
proof -
  obtain rk shk rhk nshk nrhk sck rck srp rrp rq where r: "rootKey r = Some rk" "length rk = 32"
      "sendHeaderKey r = Some shk" "length shk = 32" "recvHeaderKey r = Some rhk" "length rhk = 32"
      "nextSendHeaderKey r = Some nshk" "length nshk = 32" "nextRecvHeaderKey r = Some nrhk" "length nrhk = 32"
      "sendChainKey r = Some sck" "length sck = 32" "recvChainKey r = Some rck" "length rck = 32"
      "sendRatchetPrivate r = Some srp" "length srp = 32" "recvRatchetPublic r = Some rrp" "length rrp = 32"
      "recvPQRatchetPublic r = Some rq"
    using keys(1) by (auto simp: keys_ok_def buf_okE)
  show ?thesis
    using ok keys kx(2-) z ne
    by (simp add: completeKeyExchange_def kx(1) run_simps kxOpen_run h [symmetric] Let_def r kxAlice_def kxBob_def)
qed

lemma InitRatchet_run:
  assumes "init_rand_ok rand"
  obtains r k0 k1 q0 q1 where "InitRatchet P rand = Ok r" "keys_ok r" "ir_dh0 rand = Some k0"
    "kxPrivate0 r = Some k0" "kxPrivate1 r = Some k1" "length k0 = 32" "length k1 = 32"
    "kxPQPrivate0 r = Some q0" "kxPQPrivate1 r = Some q1" "saved r = []" "sendCount r = 0" "recvCount r = 0"
    "recvHeaderKey r = Some (zeros 32)"
proof -
  obtain k0 k1 q0 q1 where "ir_dh0 rand = Some k0" "ir_dh1 rand = Some k1" "length k0 = 32" "length k1 = 32"
      "ir_pq0 rand = Some q0" "ir_pq1 rand = Some q1"
    using assms by (auto simp: init_rand_ok_def buf_okE)
  then show thesis using that by (simp add: InitRatchet_def keys_ok_def keySize_def)
qed

lemma exchanged_in_step:
  assumes ok: "ratchet_ok P" and less: "ScalarBaseMult P k0 < ScalarBaseMult P k0'"
    and r: "keys_ok r" "kxPrivate0 r = Some k0" "kxPrivate1 r = Some k1" "length k0 = 32" "length k1 = 32"
      "kxPQPrivate0 r = Some q0" "kxPQPrivate1 r = Some q1" "saved r = []" "sendCount r = 0" "recvCount r = 0"
    and r': "keys_ok r'" "kxPrivate0 r' = Some k0'" "kxPrivate1 r' = Some k1'" "length k0' = 32" "length k1' = 32"
      "kxPQPrivate0 r' = Some q0'" "kxPQPrivate1 r' = Some q1'" "saved r' = []" "sendCount r' = 0" "recvCount r' = 0"
    and kx: "csidh_ImportPublic P e0 = Some (csidh_GeneratePublicKey P q0)" "length e0 = csidh_PublicKeySize P"
      "csidh_ImportPublic P e1 = Some (csidh_GeneratePublicKey P q1)" "length e1 = csidh_PublicKeySize P"
    and kx': "csidh_ImportPublic P e0' = Some (csidh_GeneratePublicKey P q0')" "length e0' = csidh_PublicKeySize P"
      "csidh_ImportPublic P e1' = Some (csidh_GeneratePublicKey P q1')" "length e1' = csidh_PublicKeySize P"
  shows "\<exists>x y. completeKeyExchange P \<lparr>Dh0 = ScalarBaseMult P k0', Dh1 = ScalarBaseMult P k1',
      PQDh0 = e0', PQDh1 = e1'\<rparr> r = Ret () x \<and>
    completeKeyExchange P \<lparr>Dh0 = ScalarBaseMult P k0, Dh1 = ScalarBaseMult P k1, PQDh0 = e0, PQDh1 = e1\<rparr> r'
      = Ret () y \<and> in_step P x y \<and> sendCount x = sendCount r \<and> recvHeaderKey y = recvHeaderKey r'"
proof -
  have valid: "csidh_Validate P (csidh_GeneratePublicKey P q)" for q using csidhD [OF ok, of q] by metis
  obtain z where z: "csidh_DeriveSecret P (csidh_GeneratePublicKey P q0') q0 = Some z"
      "csidh_DeriveSecret P (csidh_GeneratePublicKey P q0) q0' = Some z"
    using csidhD [OF ok, of q0' q0] by metis
  note dh = dhD(1) [OF ok r(4)] dhD(1) [OF ok r(5)] dhD(1) [OF ok r'(4)] dhD(1) [OF ok r'(5)]
  have ne: "ScalarBaseMult P k0 \<noteq> ScalarBaseMult P k0'" "ScalarBaseMult P k0' \<noteq> ScalarBaseMult P k0"
    using less by auto
  note alice = complete_run [OF ok r(1-7) refl dh(3,4) kx'(1,2) valid kx'(3,4) valid z(1) ne(1) refl]
  note bob = complete_run [OF ok r'(1-7) refl dh(1,2) kx(1,2) valid kx(3,4) valid z(2) ne(2) refl]
  show ?thesis
    using less ok r r' dh dhD(2) [OF ok r(4) r'(4)]
    by (simp add: alice bob in_step_def keys_ok_def not_less_iff_gr_or_eq)
qed

lemma establish_links:
  assumes ok: "ratchet_ok P" and rand: "init_rand_ok ra" "init_rand_ok rb"
    and ne: "ScalarBaseMult P (the (ir_dh0 ra)) \<noteq> ScalarBaseMult P (the (ir_dh0 rb))"
  shows "\<exists>a b. establish P ra rb = Some (a, b) \<and> ratchet_linked P a b \<and>
    (ScalarBaseMult P (the (ir_dh0 ra)) < ScalarBaseMult P (the (ir_dh0 rb)) \<longrightarrow>
      in_step P a b \<and> sendCount a = 0 \<and> recvHeaderKey b = Some (zeros 32))"
proof -
  obtain a k0 k1 q0 q1 where a: "InitRatchet P ra = Ok a" "ir_dh0 ra = Some k0"
      "keys_ok a" "kxPrivate0 a = Some k0" "kxPrivate1 a = Some k1" "length k0 = 32" "length k1 = 32"
      "kxPQPrivate0 a = Some q0" "kxPQPrivate1 a = Some q1" "saved a = []" "sendCount a = 0" "recvCount a = 0"
      "recvHeaderKey a = Some (zeros 32)"
    using InitRatchet_run [OF rand(1)] by metis
  obtain b l0 l1 p0 p1 where b: "InitRatchet P rb = Ok b" "ir_dh0 rb = Some l0"
      "keys_ok b" "kxPrivate0 b = Some l0" "kxPrivate1 b = Some l1" "length l0 = 32" "length l1 = 32"
      "kxPQPrivate0 b = Some p0" "kxPQPrivate1 b = Some p1" "saved b = []" "sendCount b = 0" "recvCount b = 0"
      "recvHeaderKey b = Some (zeros 32)"
    using InitRatchet_run [OF rand(2)] by metis
  obtain xa e0 e1 where xa: "CreateKeyExchange P a = Ret xa a"
      "kx_Unmarshal P xa = Some \<lparr>Dh0 = ScalarBaseMult P k0, Dh1 = ScalarBaseMult P k1, PQDh0 = e0, PQDh1 = e1\<rparr>"
      "csidh_ImportPublic P e0 = Some (csidh_GeneratePublicKey P q0)" "length e0 = csidh_PublicKeySize P"
      "csidh_ImportPublic P e1 = Some (csidh_GeneratePublicKey P q1)" "length e1 = csidh_PublicKeySize P"
    using CreateKeyExchange_run [OF ok a(4-9)] by metis
  obtain xb f0 f1 where xb: "CreateKeyExchange P b = Ret xb b"
      "kx_Unmarshal P xb = Some \<lparr>Dh0 = ScalarBaseMult P l0, Dh1 = ScalarBaseMult P l1, PQDh0 = f0, PQDh1 = f1\<rparr>"
      "csidh_ImportPublic P f0 = Some (csidh_GeneratePublicKey P p0)" "length f0 = csidh_PublicKeySize P"
      "csidh_ImportPublic P f1 = Some (csidh_GeneratePublicKey P p1)" "length f1 = csidh_PublicKeySize P"
    using CreateKeyExchange_run [OF ok b(4-9)] by metis
  note eval = establish_def a(1,2) b(1,2) xa(1,2) xb(1,2) ProcessKeyExchange_def run_simps ratchet_linked_def ok
  consider "ScalarBaseMult P k0 < ScalarBaseMult P l0" | "ScalarBaseMult P l0 < ScalarBaseMult P k0"
    using ne a(2) b(2) by fastforce
  then show ?thesis
  proof cases
    case 1
    from exchanged_in_step [OF ok 1 a(3-12) b(3-12) xa(3-6) xb(3-6)] show ?thesis
      by (auto simp: eval a(11) b(13))
  next
    case 2
    then have "\<not> ScalarBaseMult P k0 < ScalarBaseMult P l0" by simp
    with exchanged_in_step [OF ok 2 b(3-12) a(3-12) xb(3-6) xa(3-6)] show ?thesis
      by (auto simp: eval)
  qed
qed

section \<open>A concrete instance\<close>

text \<open>Primitives simple enough to compute with; the CSIDH keys are single bytes.\<close>

definition toy_ratchet :: "(byte, byte) ratchet_prims" where
  "toy_ratchet = \<lparr>ScalarBaseMult = (\<lambda>k. take 32 (k @ zeros 32)), ScalarMult = (\<lambda>a p. replicate 32 (hd a + hd p)),
     csidh_PublicKeySize = 1, csidh_PrivateKeySize = 1, csidh_NewPrivate = 0, csidh_NewPublic = 0,
     csidh_GeneratePublicKey = (\<lambda>s. s), csidh_DeriveSecret = (\<lambda>p s. Some [p + s]),
     csidh_Validate = (\<lambda>_. True), csidh_ExportPublic = (\<lambda>p. Some [p]),
     csidh_ImportPublic = (\<lambda>b. case b of [p] \<Rightarrow> Some p | _ \<Rightarrow> None),
     csidh_ExportPrivate = (\<lambda>p. Some [p]),
     csidh_ImportPrivate = (\<lambda>b. case b of [p] \<Rightarrow> Some p | _ \<Rightarrow> None),
     hmac_sha3 = (\<lambda>k l. replicate 32 (hd (k @ [0]) + of_nat (length l))),
     sha3_256 = (\<lambda>b. replicate 32 (hd (drop 15 b @ [0]) + hd (drop 47 b @ [0]) + last (0 # b))),
     box_Seal = (\<lambda>k n m. take 16 (k @ zeros 16) @ m),
     box_Open = (\<lambda>k n c. if take 16 c = take 16 (k @ zeros 16) then Some (drop 16 c) else None),
     kx_Marshal = (\<lambda>x. Some (Dh0 x @ Dh1 x @ PQDh0 x @ PQDh1 x)),
     kx_Unmarshal = (\<lambda>b. Some \<lparr>Dh0 = take 32 b, Dh1 = take 32 (drop 32 b), PQDh0 = take 1 (drop 64 b),
       PQDh1 = drop 65 b\<rparr>),
     image_Marshal = (\<lambda>s. None), image_Unmarshal = (\<lambda>b. None)\<rparr>"

definition toy_init :: "byte \<Rightarrow> byte init_rand" where
  "toy_init b = \<lparr>ir_dh0 = Some (replicate 32 b), ir_dh1 = Some (replicate 32 (b + 1)), ir_pq0 = Some b, ir_pq1 = Some (b + 2)\<rparr>"

definition toy_send :: "byte \<Rightarrow> byte send_rand" where
  "toy_send b = \<lparr>er_dh = (replicate 32 b, True), er_pq = (b, True), er_headerNonce = Some (zeros 24),
     er_messageNonce = Some (zeros 24)\<rparr>"

lemma toy_ratchet_ok: "ratchet_ok toy_ratchet"
proof -
  have "dh_agrees toy_ratchet"
    by (auto simp: dh_agrees_def toy_ratchet_def add.commute hd_append)
  moreover have "csidh_agrees toy_ratchet" by (simp add: csidh_agrees_def toy_ratchet_def add.commute)
  moreover have "box_opens toy_ratchet" by (auto simp: box_opens_def toy_ratchet_def min_def)
  moreover have "hmac_size toy_ratchet" by (simp add: hmac_size_def toy_ratchet_def)
  moreover have "kx_codec toy_ratchet" by (auto simp: kx_codec_def toy_ratchet_def)
  ultimately show ?thesis by (simp add: ratchet_ok_def)
qed

lemma toy_rands [simp]: "init_rand_ok (toy_init b)" "send_rand_ok (toy_send b)"
  by (simp_all add: init_rand_ok_def toy_init_def send_rand_ok_def nonces_ok_def toy_send_def)

lemma toy_first: "ScalarBaseMult toy_ratchet (the (ir_dh0 (toy_init 1))) < ScalarBaseMult toy_ratchet (the (ir_dh0 (toy_init 9)))"
proof -
  have "replicate 32 b = b # replicate 31 b" for b :: byte by (simp add: numeral_eq_Suc)
  then show ?thesis by (simp add: toy_ratchet_def toy_init_def)
qed

text \<open>
  C4: After a key exchange between two parties with different first public values, every script of
  messages, sent by either side in any alternation and read as they are sent, is delivered: each
  message comes out as it went in.  The provisos, followed along the script by \<open>fits_along\<close>, are
  that the sender's random draws succeed and fewer than 2^32 - 1 messages are sent in a chain, that a
  header under the next header key does not also open under the current one, and that no derived
  header key is all zeros.
\<close>

theorem conversation_delivered:
  assumes "ratchet_ok P" "init_rand_ok ra" "init_rand_ok rb"
    and "ScalarBaseMult P (the (ir_dh0 ra)) \<noteq> ScalarBaseMult P (the (ir_dh0 rb))"
  shows "\<exists>a b. establish P ra rb = Some (a, b) \<and>
    (fits_along (ratchet_send P) (ratchet_recv P) ratchet_usable (ratchet_fit P) script a b \<longrightarrow>
      (\<exists>a' b'. dialogue (ratchet_send P) (ratchet_recv P) script a b =
        Some (map (\<lambda>(_, _, _, msg). msg) script, a', b')))"
  using establish_links [OF assms] ratchet_link.dialogue_delivered by metis

lemma toy_fits:
  assumes "in_step toy_ratchet a b" "sendCount a = 0" "recvHeaderKey b = Some (zeros 32)"
  shows "fits_along (ratchet_send toy_ratchet) (ratchet_recv toy_ratchet) ratchet_usable (ratchet_fit toy_ratchet)
    [(True, toy_send 5, 0, [1, 2])] a b"
  using assms
  by (auto simp: fits_here_def ratchet_usable_def ratchet_fit_def unmistaken_def in_step_def
      split: option.splits)

theorem conversation_delivered_witness:
  "\<exists>a b a' b'. establish toy_ratchet (toy_init 1) (toy_init 9) = Some (a, b) \<and>
     dialogue (ratchet_send toy_ratchet) (ratchet_recv toy_ratchet) [(True, toy_send 5, 0, [1, 2])] a b =
       Some ([[1, 2]], a', b')"
proof -
  let ?P = toy_ratchet
  have ne: "ScalarBaseMult ?P (the (ir_dh0 (toy_init 1))) \<noteq> ScalarBaseMult ?P (the (ir_dh0 (toy_init 9)))"
    using toy_first by simp
  obtain a b where ab: "establish ?P (toy_init 1) (toy_init 9) = Some (a, b)" "in_step ?P a b" "sendCount a = 0"
      "recvHeaderKey b = Some (zeros 32)"
    using establish_links [OF toy_ratchet_ok toy_rands(1) toy_rands(1) ne] toy_first by blast
  show ?thesis
    using conversation_delivered [OF toy_ratchet_ok toy_rands(1) toy_rands(1) ne, of "[(True, toy_send 5, 0, [1, 2])]"]
      toy_fits [OF ab(2-4)] ab(1) by auto
qed

end
