(* ===== verification/Ratchet_Safety.thy ===== *)
theory Ratchet_Safety
  imports Ratchet_Session
begin

text \<open>
  Decryption under an adversary: what any ciphertext can do to a ratchet, and on which message
  number decryption does not end or panics.
\<close>

section \<open>Well-formed ratchets\<close>

text \<open>
  The saved entries have distinct pointers, all allocated, and hold keys of the right size.
\<close>

definition saved_ok :: "nat \<Rightarrow> saved_keys \<Rightarrow> bool" where
  "saved_ok n sv \<longleftrightarrow> gm_wf sv \<and> (\<forall>((i, hk), ks)\<in>set sv. i < n \<and> length hk = 32 \<and>
     (\<forall>(m, k)\<in>set ks. buf_ok (sk_key k)))"

definition ratchet_wf :: "('s, 'p) Ratchet \<Rightarrow> bool" where
  "ratchet_wf r \<longleftrightarrow> keys_ok r \<and> saved_ok (allocs r) (saved r)"

lemma saved_ok_entry:
  "saved_ok n sv \<Longrightarrow> (e, ks) \<in> set sv \<Longrightarrow> length (snd e) = 32 \<and> fst e < n"
  by (fastforce simp: saved_ok_def)

lemma saved_ok_key:
  "saved_ok n sv \<Longrightarrow> (e, ks) \<in> set sv \<Longrightarrow> gm_get ks m = Some k \<Longrightarrow> buf_ok (sk_key k)"
  by (fastforce simp: saved_ok_def gm_get_def dest: map_of_SomeD)

lemma saved_ok_mono: "saved_ok n sv \<Longrightarrow> n \<le> n' \<Longrightarrow> saved_ok n' sv"
  by (fastforce simp: saved_ok_def)

lemma saved_ok_del: "saved_ok n sv \<Longrightarrow> saved_ok n (gm_del sv e)"
  by (auto simp: saved_ok_def gm_del_def gm_wf_def distinct_map_filter)

lemma saved_ok_drop_key:
  assumes ok: "saved_ok n sv" and "(e, ks) \<in> set sv"
  shows "saved_ok n (gm_put sv e (gm_del ks m))"
proof -
  have keys: "gm_wf (gm_put sv e (gm_del ks m))" using ok by (simp add: saved_ok_def)
  have "(x, ys) \<in> set sv \<or> x = e \<and> ys = gm_del ks m" if "(x, ys) \<in> set (gm_put sv e (gm_del ks m))" for x ys
    using that keys ok by (auto simp: saved_ok_def simp flip: gm_get_in_set split: if_splits)
  with assms keys show ?thesis by (fastforce simp: saved_ok_def gm_del_def)
qed

text \<open>A table from \<^verbatim>\<open>saveKeys\<close> has a fresh pointer, so that merging it always adds an entry.\<close>

lemma fold_merge:
  assumes "saved_ok n sv"
  shows "fold mergeEntry (savedAfter P now n hk ck rc d) sv = sv @ savedAfter P now n hk ck rc d"
proof -
  have "(n, hk) \<notin> gm_keys sv" using assms by (fastforce simp: gm_keys_def saved_ok_def)
  then show ?thesis
    by (simp add: savedAfter_def mergeEntry_def gm_put_new flip: gm_get_keys)
qed

lemma saved_ok_merge:
  assumes "saved_ok n sv" "hmac_size P" "length hk = 32"
  shows "saved_ok (allocsAfter n d) (sv @ savedAfter P now n hk ck rc d)"
  using assms
  by (auto simp: saved_ok_def savedAfter_def allocsAfter_def gm_wf_def skippedKeys_def msgKeyAt_def
      hmac_size_def less_Suc_eq dest: bspec)

lemma missing_of_last: "MaxMissingMessages < - 1 - rc \<longleftrightarrow> unat rc < 2 ^ 32 - 9"
proof -
  have "unat (- 1 - rc) = unat (- 1 :: u32) - unat rc"
    by (rule unat_sub) simp
  moreover have "unat (- 1 :: u32) = 2 ^ 32 - 1" by (simp add: unsigned_minus_1_eq_mask mask_eq_exp_minus_1)
  ultimately show ?thesis by (auto simp: MaxMissingMessages_def word_less_nat_alt)
qed

lemma saveKeys_cases:
  assumes "ckb = Some ck" "length ck = 32" "hkb = Some hk" "length hk = 32"
  obtains e where "saveKeys P now hkb ckb m rc r = Err e r"
  | "saveKeys P now hkb ckb m rc r = Hang" "m = - 1" "2 ^ 32 - 9 \<le> unat rc" "rc \<noteq> - 1"
  | "saveKeys P now hkb ckb m rc r = Crash" "m = - 1" "rc = - 1"
  | d where "saveKeys P now hkb ckb m rc r =
      Ret (chainAt P ck (Suc d), msgKeyAt P ck d, savedAfter P now (allocs r) hk ck rc d)
        (r\<lparr>allocs := allocsAfter (allocs r) d\<rparr>)"
proof -
  consider "m < rc \<or> m - rc > MaxMissingMessages" | "\<not> m < rc" "\<not> m - rc > MaxMissingMessages" "m = - 1" "rc \<noteq> - 1"
    | "m = - 1" "rc = - 1" | "\<not> m < rc" "\<not> m - rc > MaxMissingMessages" "m \<noteq> - 1" by blast
  then show thesis
  proof cases
    case 1
    then have "\<exists>e. saveKeys P now hkb ckb m rc r = Err e r" by (auto simp: saveKeys_def run_simps Let_def)
    then show ?thesis using that(1) by blast
  next
    case 2
    then have "0 < m - rc" by (auto simp: word_gt_0)
    moreover have "2 ^ 32 - 9 \<le> unat rc" using 2 missing_of_last [of rc] by simp
    ultimately show ?thesis using 2 assms that(2) by (simp add: saveKeys_def run_simps Let_def saveLoop_last)
  next
    case 3
    with assms that(3) show ?thesis
      by (simp add: saveKeys_def run_simps Let_def saveLoop_last_nil MaxMissingMessages_def)
  next
    case 4
    let ?d = "unat (m - rc)"
    have "unat m = unat rc + ?d" "?d \<le> 8"
      using 4 by (simp_all add: word_less_nat_alt unat_sub_if_size MaxMissingMessages_def not_less)
    from saveKeys_run' [OF this 4(3) assms] that(4) show ?thesis by blast
  qed
qed

section \<open>Any ciphertext\<close>

text \<open>
  The effect of a call on a well-formed ratchet: it stays well-formed, and after an error only the
  root key and the saved keys can differ. Only at the end of the counter of received messages can it
  fail to end or panic.
\<close>

definition harmless :: "('s, 'p) Ratchet \<Rightarrow> (('s, 'p) Ratchet, 'a) run \<Rightarrow> bool" where
  "harmless r x = (case x of
     Ret a r' \<Rightarrow> ratchet_wf r'
   | Err e r' \<Rightarrow> ratchet_wf r' \<and> r'\<lparr>rootKey := rootKey r, allocs := allocs r, saved := saved r\<rparr> = r
   | Crash \<Rightarrow> recvCount r = - 1
   | Hang \<Rightarrow> 2 ^ 32 - 9 \<le> unat (recvCount r) \<and> recvCount r \<noteq> - 1)"

lemma harmless_simps [simp]:
  "harmless r (Ret a r') \<longleftrightarrow> ratchet_wf r'"
  "harmless r (Err e r') \<longleftrightarrow> ratchet_wf r' \<and> r'\<lparr>rootKey := rootKey r, allocs := allocs r, saved := saved r\<rparr> = r"
  "harmless r Crash \<longleftrightarrow> recvCount r = - 1"
  "harmless r Hang \<longleftrightarrow> 2 ^ 32 - 9 \<le> unat (recvCount r) \<and> recvCount r \<noteq> - 1"
  by (simp_all add: harmless_def)

lemma keys_okE:
  assumes "keys_ok r"
  obtains rk shk rhk nsk nrk sck rck srp rrp sq rq where "rootKey r = Some rk" "length rk = 32"
    "sendHeaderKey r = Some shk" "length shk = 32" "recvHeaderKey r = Some rhk" "length rhk = 32"
    "nextSendHeaderKey r = Some nsk" "length nsk = 32" "nextRecvHeaderKey r = Some nrk" "length nrk = 32"
    "sendChainKey r = Some sck" "length sck = 32" "recvChainKey r = Some rck" "length rck = 32"
    "sendRatchetPrivate r = Some srp" "length srp = 32" "recvRatchetPublic r = Some rrp" "length rrp = 32"
    "sendPQRatchetPrivate r = Some sq" "recvPQRatchetPublic r = Some rq"
  using assms by (auto simp: keys_ok_def buf_okE)

lemma hmac_sizes [simp]:
  assumes "hmac_size P"
  shows "length (hmac_sha3 P k l) = 32" "length (msgKeyAt P ck i) = 32" "length (chainAt P ck (Suc i)) = 32"
  using assms by (simp_all add: hmac_size_def msgKeyAt_def chainAt_def)

lemma wf_allocs: "ratchet_wf r \<Longrightarrow> ratchet_wf (r\<lparr>allocs := allocsAfter (allocs r) d\<rparr>)"
  by (auto simp: ratchet_wf_def keys_ok_def allocsAfter_def intro: saved_ok_mono)

lemma decryptCurrent_harmless:
  assumes P: "hmac_size P" and wf: "ratchet_wf r"
  shows "harmless r (decryptCurrent P now header body r)"
proof -
  obtain rhk rck where r: "recvHeaderKey r = Some rhk" "length rhk = 32" "recvChainKey r = Some rck" "length rck = 32"
    using wf by (auto simp: ratchet_wf_def elim!: keys_okE)
  have sv: "saved_ok (allocs r) (saved r)" using wf by (simp add: ratchet_wf_def)
  let ?save = "saveKeys P now (Some rhk) (Some rck) (get_u32_le header) (recvCount r) r"
  note eval = decryptCurrent_def run_simps Let_def mergeSavedKeys_def fold_merge [OF sv] r
  show ?thesis
  proof (rule saveKeys_cases [OF refl r(4) refl r(2), of P now "get_u32_le header" "recvCount r" r])
    fix e assume "?save = Err e r"
    with wf show ?thesis by (simp add: eval)
  next
    assume "?save = Hang" "2 ^ 32 - 9 \<le> unat (recvCount r)" "recvCount r \<noteq> - 1"
    with wf show ?thesis by (simp add: eval)
  next
    assume "?save = Crash" "recvCount r = - 1"
    with wf show ?thesis by (simp add: eval)
  next
    fix d
    assume save: "?save = Ret (chainAt P rck (Suc d), msgKeyAt P rck d, savedAfter P now (allocs r) rhk rck (recvCount r) d)
        (r\<lparr>allocs := allocsAfter (allocs r) d\<rparr>)"
    show ?thesis
    proof (cases "box_Open P (msgKeyAt P rck d) (drop (nonceInHeaderOffset P) header) body")
      case None
      with wf P show ?thesis by (simp add: eval save wf_allocs)
    next
      case (Some msg)
      with wf P r saved_ok_merge [OF sv P r(2)] show ?thesis
        by (simp add: eval save ratchet_wf_def keys_ok_def)
    qed
  qed
qed

lemma enterChain_harmless:
  assumes P: "hmac_size P" and wf: "ratchet_wf r" and base: "r = r0\<lparr>rootKey := rk, allocs := allocs r\<rparr>"
    and len: "length header = headerSize P"
    and old: "saved_ok (allocs r) (fold mergeEntry oldKeys (saved r))"
  shows "harmless r0 (enterChain P now header body h their oldKeys r)"
proof -
  obtain rhk nrk rck srp rrp where r: "recvHeaderKey r = Some rhk" "length rhk = 32"
      "nextRecvHeaderKey r = Some nrk" "length nrk = 32" "recvChainKey r = Some rck" "length rck = 32"
      "sendRatchetPrivate r = Some srp" "length srp = 32" "recvRatchetPublic r = Some rrp" "length rrp = 32"
    using wf by (auto simp: ratchet_wf_def elim!: keys_okE)
  define num where "num = get_u32_le header"
  define ck where "ck = hmac_sha3 P h chainKeyLabel"
  have ck: "length ck = 32" using P by (simp add: ck_def)
  have dh: "length (slice 8 40 header) = 32" using len by (simp add: slice_def headerSize_def)
  note eval = enterChain_def run_simps Let_def mergeSavedKeys_def r num_def [symmetric] ck_def [symmetric]
  have undo: "r\<lparr>rootKey := rootKey r0, allocs := allocs r0, saved := saved r0\<rparr> = r0"
    by (subst base) simp
  let ?save = "saveKeys P now (Some nrk) (Some ck) num 0 r"
  show ?thesis
  proof (rule saveKeys_cases [OF refl ck refl r(4), of P now num 0 r])
    fix e assume "?save = Err e r"
    with wf undo show ?thesis by (simp add: eval)
  next
    assume "2 ^ 32 - 9 \<le> unat (0 :: u32)"
    then show ?thesis by simp
  next
    assume "(0 :: u32) = - 1"
    then show ?thesis by simp
  next
    fix d
    assume save: "?save = Ret (chainAt P ck (Suc d), msgKeyAt P ck d, savedAfter P now (allocs r) nrk ck 0 d)
      (r\<lparr>allocs := allocsAfter (allocs r) d\<rparr>)"
    show ?thesis
    proof (cases "box_Open P (msgKeyAt P ck d) (drop (nonceInHeaderOffset P) header) body")
      case None
      with wf wf_allocs [OF wf, of d] undo P show ?thesis by (simp add: eval save)
    next
      case (Some msg)
      with wf P dh saved_ok_merge [OF old P r(4), of d now ck 0] show ?thesis
        by (simp add: eval save fold_merge [OF old] ratchet_wf_def keys_ok_def ExplicitBzero_zeros)
    qed
  qed
qed

lemma decryptRatchet_harmless:
  assumes P: "hmac_size P" and wf: "ratchet_wf r"
  shows "harmless r (decryptRatchet P now header body r)"
proof (cases "length header = headerSize P")
  case len: True
  obtain rk rhk rck srp sq where r: "rootKey r = Some rk" "length rk = 32"
      "recvHeaderKey r = Some rhk" "length rhk = 32" "recvChainKey r = Some rck" "length rck = 32"
      "sendRatchetPrivate r = Some srp" "length srp = 32" "sendPQRatchetPrivate r = Some sq"
    using wf by (auto simp: ratchet_wf_def elim!: keys_okE)
  have sv: "saved_ok (allocs r) (saved r)" using wf by (simp add: ratchet_wf_def)
  define prev where "prev = get_u32_le (drop 4 header)"
  define their where "their = (case csidh_ImportPublic P (slice PQRatchetPublicKeyInHeaderOffset
      (PQRatchetPublicKeyInHeaderOffset + csidh_PublicKeySize P) header) of Some p \<Rightarrow> p | None \<Rightarrow> csidh_NewPublic P)"
  note eval = decryptRatchet_def prev_def [symmetric] their_def [symmetric] run_simps Let_def r
  let ?save = "saveKeys P now (Some rhk) (Some rck) prev (recvCount r) r"
  show ?thesis
  proof (rule saveKeys_cases [OF refl r(6) refl r(4), of P now prev "recvCount r" r])
    fix e assume "?save = Err e r"
    with wf show ?thesis by (simp add: eval)
  next
    assume "?save = Hang" "2 ^ 32 - 9 \<le> unat (recvCount r)" "recvCount r \<noteq> - 1"
    with wf show ?thesis by (simp add: eval)
  next
    assume "?save = Crash" "recvCount r = - 1"
    with wf show ?thesis by (simp add: eval)
  next
    fix e
    let ?old = "savedAfter P now (allocs r) rhk rck (recvCount r) e"
    assume save: "?save = Ret (chainAt P rck (Suc e), msgKeyAt P rck e, ?old) (r\<lparr>allocs := allocsAfter (allocs r) e\<rparr>)"
    have wf1: "ratchet_wf (r\<lparr>allocs := allocsAfter (allocs r) e\<rparr>)" using wf by (rule wf_allocs)
    have merged: "saved_ok (allocsAfter (allocs r) e) (fold mergeEntry ?old (saved r))"
      using saved_ok_merge [OF sv P r(4)] by (simp add: fold_merge [OF sv])
    show ?thesis
    proof (cases "csidh_DeriveSecret P their sq")
      case None
      with wf wf1 show ?thesis by (simp add: eval save)
    next
      case (Some z)
      define h where "h = rootMaterial P rk (ScalarMult P srp (slice 8 40 header)) z"
      let ?r = "r\<lparr>allocs := allocsAfter (allocs r) e, rootKey := Some (hmac_sha3 P h rootKeyLabel)\<rparr>"
      have "harmless r (enterChain P now header body h their ?old ?r)"
        using P wf1 merged
        by (intro enterChain_harmless [where rk = "Some (hmac_sha3 P h rootKeyLabel)"] len)
           (simp_all add: ratchet_wf_def keys_ok_def)
      with Some wf wf1 show ?thesis by (simp add: eval save h_def)
    qed
  qed
next
  case False
  with wf show ?thesis by (simp add: decryptRatchet_def run_simps)
qed

definition tried_ok :: "('s, 'p) Ratchet \<Rightarrow> (('s, 'p) Ratchet, bytes option) run \<Rightarrow> bool" where
  "tried_ok r x = (case x of
     Ret m r' \<Rightarrow> ratchet_wf r' \<and> r'\<lparr>saved := saved r\<rparr> = r
   | Err e r' \<Rightarrow> r' = r
   | Crash \<Rightarrow> False
   | Hang \<Rightarrow> False)"

lemma tryEntries_ok:
  assumes wf: "ratchet_wf r" and "set es \<subseteq> set (saved r)"
  shows "tried_ok r (tryEntries P nonce sh sm es r)"
  using assms(2)
proof (induction es)
  case Nil
  then show ?case using wf by (simp add: tried_ok_def run_simps)
next
  case (Cons x es)
  obtain e ks where x: "x = (e, ks)" by (cases x)
  then have mem: "(e, ks) \<in> set (saved r)" using Cons.prems by simp
  have sv: "saved_ok (allocs r) (saved r)" using wf by (simp add: ratchet_wf_def)
  have hk: "length (snd e) = 32" using saved_ok_entry [OF sv mem] by simp
  have IH: "tried_ok r (tryEntries P nonce sh sm es r)" using Cons by simp
  show ?case
  proof (cases "box_Open P (snd e) nonce sh")
    case None
    with IH x hk show ?thesis by (simp add: run_simps)
  next
    case opened: (Some header)
    let ?n = "get_u32_le header"
    show ?thesis
    proof (cases "gm_get ks ?n")
      case None
      with opened IH x hk wf show ?thesis by (simp add: run_simps Let_def tried_ok_def)
    next
      case key: (Some k)
      obtain mk where mk: "sk_key k = Some mk" "length mk = 32"
        using saved_ok_key [OF sv mem key] by (auto simp: buf_okE)
      have step: "ratchet_wf (saved_update f r)" if "saved_ok (allocs r) (f (saved r))" for f
        using wf that by (simp add: ratchet_wf_def keys_ok_def)
      have "ratchet_wf (saved_update (\<lambda>sv. if gm_del ks ?n = [] then gm_del sv e else gm_put sv e (gm_del ks ?n)) r)"
        by (rule step) (simp add: saved_ok_del [OF sv] saved_ok_drop_key [OF sv mem])
      then show ?thesis
        using opened key IH x hk wf mk
        by (auto simp: run_simps Let_def tried_ok_def split: option.splits)
    qed
  qed
qed

lemma harmless_saved:
  assumes "harmless r x" shows "harmless (r\<lparr>saved := sv\<rparr>) x"
proof (cases x)
  case (Err e r')
  with assms have "r'\<lparr>rootKey := rootKey r, allocs := allocs r, saved := saved r\<rparr> = r" by simp
  from arg_cong [OF this, of "\<lambda>r. r\<lparr>saved := sv\<rparr>"] Err assms show ?thesis by simp
qed (use assms in simp_all)

lemma Decrypt_harmless:
  assumes P: "hmac_size P" and wf: "ratchet_wf r"
  shows "harmless r (Decrypt P now ct r)"
proof -
  have tried: "tried_ok r (trySavedKeys P ct r)"
    using tryEntries_ok [OF wf, of "saved r"] by (simp add: trySavedKeys_def run_simps tried_ok_def)
  show ?thesis
  proof (cases "trySavedKeys P ct r")
    case (Ret res r')
    then have wf': "ratchet_wf r'" and same: "r'\<lparr>saved := saved r\<rparr> = r" using tried by (simp_all add: tried_ok_def)
    obtain hk nk where keys: "recvHeaderKey r' = Some hk" "length hk = 32" "nextRecvHeaderKey r' = Some nk" "length nk = 32"
      using wf' by (auto simp: ratchet_wf_def elim!: keys_okE)
    let ?n = "take nonceSize ct" and ?sh = "slice nonceSize (sealedHeaderSize P) ct"
    have "harmless r' (Decrypt P now ct r)"
    proof (cases "if CtIsZero hk then None else box_Open P hk ?n ?sh")
      case None
      with decryptRatchet_harmless [OF P wf'] wf' keys Ret show ?thesis
        by (cases "box_Open P nk ?n ?sh") (simp_all add: Decrypt_def run_simps Let_def)
    next
      case (Some header)
      with decryptCurrent_harmless [OF P wf'] wf' keys Ret show ?thesis
        by (simp add: Decrypt_def run_simps Let_def)
    qed
    then show ?thesis using harmless_saved same by metis
  next
    case (Err e r')
    with tried wf show ?thesis by (simp add: Decrypt_def run_simps tried_ok_def)
  qed (use tried in \<open>simp_all add: tried_ok_def\<close>)
qed

section \<open>Termination\<close>

lemma saveKeys_hang_iff:
  assumes "ckb = Some ck" "length ck = 32" "hkb = Some hk" "length hk = 32"
  shows "saveKeys P now hkb ckb m rc r = Hang \<longleftrightarrow> m = - 1 \<and> 2 ^ 32 - 9 \<le> unat rc \<and> rc \<noteq> - 1"
proof
  assume "saveKeys P now hkb ckb m rc r = Hang"
  then show "m = - 1 \<and> 2 ^ 32 - 9 \<le> unat rc \<and> rc \<noteq> - 1"
    by (rule_tac saveKeys_cases [OF assms, of P now m rc r]) auto
next
  assume last: "m = - 1 \<and> 2 ^ 32 - 9 \<le> unat rc \<and> rc \<noteq> - 1"
  then have "0 < m - rc" "\<not> m < rc" by (auto simp: word_gt_0 not_less)
  then show "saveKeys P now hkb ckb m rc r = Hang"
    using last assms missing_of_last [of rc] by (simp add: saveKeys_def run_simps Let_def saveLoop_last)
qed

lemma saveKeys_crash_iff:
  assumes "ckb = Some ck" "length ck = 32" "hkb = Some hk" "length hk = 32"
  shows "saveKeys P now hkb ckb m rc r = Crash \<longleftrightarrow> m = - 1 \<and> rc = - 1"
proof
  assume "saveKeys P now hkb ckb m rc r = Crash"
  then show "m = - 1 \<and> rc = - 1" by (rule_tac saveKeys_cases [OF assms, of P now m rc r]) auto
next
  assume "m = - 1 \<and> rc = - 1"
  then show "saveKeys P now hkb ckb m rc r = Crash"
    using assms by (simp add: saveKeys_def run_simps Let_def saveLoop_last_nil MaxMissingMessages_def)
qed

section \<open>Properties\<close>

text \<open>
  C11: Whatever bytes are given to \<^verbatim>\<open>Decrypt\<close>, on a well-formed ratchet (all keys of their size,
  every saved entry under its own allocated pointer with keys of their size) that has counted fewer
  than 2^32 - 9 messages on the current chain, it ends and does not panic. The ratchet it leaves is
  well-formed again, and after an error at most the root key and the saved keys differ from before.
  Beyond that count, it can fail to end only if the count is not yet 2^32 - 1, and panic only if it
  is. Of the hash only the length of its output is used.
\<close>

theorem Decrypt_type_safe:
  assumes "hmac_size P" "ratchet_wf r"
  shows "case Decrypt P now ct r of
      Ret msg r' \<Rightarrow> ratchet_wf r'
    | Err e r' \<Rightarrow> ratchet_wf r' \<and> r'\<lparr>rootKey := rootKey r, allocs := allocs r, saved := saved r\<rparr> = r
    | Crash \<Rightarrow> recvCount r = - 1
    | Hang \<Rightarrow> 2 ^ 32 - 9 \<le> unat (recvCount r) \<and> recvCount r \<noteq> - 1"
  using Decrypt_harmless [OF assms] by (simp add: harmless_def)

definition toy_idle :: "byte \<Rightarrow> (byte, byte) Ratchet" where
  "toy_idle b = (case InitRatchet toy_ratchet (toy_init b) of Ok r \<Rightarrow> r)"

lemma toy_idle_keys:
  "rootKey (toy_idle b) = Some (zeros 32)" "recvHeaderKey (toy_idle b) = Some (zeros 32)"
  "recvChainKey (toy_idle b) = Some (zeros 32)" "saved (toy_idle b) = []" "recvCount (toy_idle b) = 0"
  "sendHeaderKey (toy_idle b) = Some (zeros 32)" "sendChainKey (toy_idle b) = Some (zeros 32)"
  "sendCount (toy_idle b) = 0" "\<not> ratchet (toy_idle b)"
  by (simp_all add: toy_idle_def InitRatchet_def toy_init_def keySize_def)

lemma toy_idle_wf: "keys_ok (toy_idle b)" "ratchet_wf (toy_idle b)"
  by (simp_all add: ratchet_wf_def keys_ok_def toy_idle_def InitRatchet_def toy_init_def keySize_def saved_ok_def)

lemma toy_hmac: "hmac_size toy_ratchet"
  using toy_ratchet_ok by (simp add: ratchet_ok_def)

theorem Decrypt_type_safe_witness: "ratchet_wf (toy_idle 1) \<and>
    Decrypt toy_ratchet 0 (zeros 200) (toy_idle 1) \<noteq> Crash \<and> Decrypt toy_ratchet 0 (zeros 200) (toy_idle 1) \<noteq> Hang"
  using Decrypt_type_safe [OF toy_hmac toy_idle_wf(2) [of 1], where now = 0 and ct = "zeros 200"]
    toy_idle_wf(2) [of 1] toy_idle_keys(5) [of 1] by auto

text \<open>
  C29: With no saved keys, a message whose header opens under the current header key is decided in
  finitely many steps and without a panic, with one exception: the message number 2^32 - 1. When one
  to eight messages before it are missing, the loop of \<^verbatim>\<open>saveKeys\<close> never ends, because its 32-bit
  counter wraps around; when none is missing, the wrapped loop assigns to the nil map of message
  keys, which panics.
\<close>

theorem Decrypt_hangs_iff:
  assumes "ratchet_wf r" "saved r = []" "\<not> length ct < sealedHeaderSize P" "recvHeaderKey r = Some hk"
    and "\<not> CtIsZero hk" "length header = headerSize P" "hmac_size P"
    and "box_Open P hk (take nonceSize ct) (slice nonceSize (sealedHeaderSize P) ct) = Some header"
  shows "(Decrypt P now ct r = Hang \<longleftrightarrow>
      get_u32_le header = - 1 \<and> 2 ^ 32 - 9 \<le> unat (recvCount r) \<and> recvCount r \<noteq> - 1) \<and>
    (Decrypt P now ct r = Crash \<longleftrightarrow> get_u32_le header = - 1 \<and> recvCount r = - 1)"
proof -
  obtain ck where ck: "recvChainKey r = Some ck" "length ck = 32" and hk: "length hk = 32"
    using assms(1,4) by (auto simp: ratchet_wf_def elim!: keys_okE)
  let ?save = "saveKeys P now (Some hk) (Some ck) (get_u32_le header) (recvCount r) r"
  have dec: "Decrypt P now ct r = decryptCurrent P now header (drop (sealedHeaderSize P) ct) r"
    using assms hk by (simp add: Decrypt_def run_simps Let_def trySavedKeys_def)
  let ?dec = "decryptCurrent P now header (drop (sealedHeaderSize P) ct) r"
  have "(?dec = Hang \<longleftrightarrow> ?save = Hang) \<and> (?dec = Crash \<longleftrightarrow> ?save = Crash)"
  proof (rule saveKeys_cases [OF refl ck(2) refl hk, of P now "get_u32_le header" "recvCount r" r])
    fix d
    let ?open = "box_Open P (msgKeyAt P ck d) (drop (nonceInHeaderOffset P) header) (drop (sealedHeaderSize P) ct)"
    assume "?save = Ret (chainAt P ck (Suc d), msgKeyAt P ck d, savedAfter P now (allocs r) hk ck (recvCount r) d)
      (r\<lparr>allocs := allocsAfter (allocs r) d\<rparr>)"
    then show ?thesis
      using assms(4,6,7) ck by (cases ?open) (simp_all add: decryptCurrent_def run_simps Let_def mergeSavedKeys_def)
  qed (use assms(4,6) ck in \<open>simp_all add: decryptCurrent_def run_simps Let_def\<close>)
  then show ?thesis
    by (simp only: dec saveKeys_hang_iff [OF refl ck(2) refl hk] saveKeys_crash_iff [OF refl ck(2) refl hk])
qed

definition toy_last :: bytes where
  "toy_last = zeros 24 @ replicate 16 1 @ put_u32_le (- 1) @ zeros 61"

theorem Decrypt_hangs_iff_witness:
  "Decrypt toy_ratchet 0 toy_last ((toy_idle 1)\<lparr>recvHeaderKey := Some (replicate 32 1), recvCount := - 2\<rparr>) = Hang"
proof -
  let ?r = "(toy_idle 1)\<lparr>recvHeaderKey := Some (replicate 32 1), recvCount := - 2\<rparr>"
  let ?h = "put_u32_le (- 1) @ zeros 61"
  have sizes: "sealedHeaderSize toy_ratchet = 105" "headerSize toy_ratchet = 65"
    by (simp_all add: sealedHeaderSize_def headerSize_def toy_ratchet_def)
  have "ratchet_wf ?r" "saved ?r = []" "\<not> CtIsZero (replicate 32 1)"
    using toy_idle_wf [of 1] toy_idle_keys [of 1] by (simp_all add: ratchet_wf_def keys_ok_def CtIsZero_iff)
  moreover have "box_Open toy_ratchet (replicate 32 1) (take nonceSize toy_last)
      (slice nonceSize (sealedHeaderSize toy_ratchet) toy_last) = Some ?h"
    by (simp add: sizes toy_last_def slice_def nonceSize_def) (simp add: toy_ratchet_def)
  ultimately have "(Decrypt toy_ratchet 0 toy_last ?r = Hang \<longleftrightarrow>
      get_u32_le ?h = - 1 \<and> 2 ^ 32 - 9 \<le> unat (recvCount ?r) \<and> recvCount ?r \<noteq> - 1) \<and>
    (Decrypt toy_ratchet 0 toy_last ?r = Crash \<longleftrightarrow> get_u32_le ?h = - 1 \<and> recvCount ?r = - 1)"
    by (intro Decrypt_hangs_iff [OF _ _ _ _ _ _ toy_hmac]) (simp_all add: sizes toy_last_def)
  then show ?thesis by simp
qed

end
