(* ===== verification/Ratchet_Order.thy ===== *)
theory Ratchet_Order
  imports Ratchet_Safety
begin

text \<open>
  Messages that arrive out of order, late, twice or damaged.
\<close>

section \<open>A run of messages in one chain\<close>

fun encryptAll :: "('s, 'p) ratchet_prims \<Rightarrow> ('s send_rand \<times> bytes) list \<Rightarrow> ('s, 'p) Ratchet
    \<Rightarrow> (bytes list \<times> ('s, 'p) Ratchet) option" where
  "encryptAll P [] r = Some ([], r)"
| "encryptAll P ((rand, msg) # ms) r = (case Encrypt P rand [] msg r of
     Ret ct r' \<Rightarrow> map_option (\<lambda>(cts, r''). (ct # cts, r'')) (encryptAll P ms r')
   | _ \<Rightarrow> None)"

fun decryptAll :: "('s, 'p) ratchet_prims \<Rightarrow> int \<Rightarrow> bytes list \<Rightarrow> ('s, 'p) Ratchet
    \<Rightarrow> (bytes list \<times> ('s, 'p) Ratchet) option" where
  "decryptAll P now [] r = Some ([], r)"
| "decryptAll P now (ct # cts) r = (case Decrypt P now ct r of
     Ret msg r' \<Rightarrow> map_option (\<lambda>(msgs, r''). (msg # msgs, r'')) (decryptAll P now cts r')
   | _ \<Rightarrow> None)"

text \<open>
  The sending and the receiving side of one chain at the same point: header key, chain key and
  message number agree, the sender does not start a new chain, and nothing is saved.
\<close>

definition chain_synced :: "('s, 'p) Ratchet \<Rightarrow> ('s, 'p) Ratchet \<Rightarrow> bool" where
  "chain_synced y x \<longleftrightarrow> keys_ok y \<and> keys_ok x \<and> \<not> ratchet y \<and> sendHeaderKey y = recvHeaderKey x \<and>
     sendChainKey y = recvChainKey x \<and> sendCount y = recvCount x \<and>
     recvHeaderKey x \<noteq> Some (zeros 32) \<and> saved x = []"

definition chainHeader :: "('s, 'p) ratchet_prims \<Rightarrow> ('s, 'p) Ratchet \<Rightarrow> nat \<Rightarrow> 's send_rand \<Rightarrow> bytes" where
  "chainHeader P y i rand = headerBytes (sendCount y + of_nat i) (prevSendCount y)
     (ScalarBaseMult P (the (sendRatchetPrivate y)))
     (the (csidh_ExportPublic P (csidh_GeneratePublicKey P (the (sendPQRatchetPrivate y)))))
     (the (er_messageNonce rand))"

definition chainCipher :: "('s, 'p) ratchet_prims \<Rightarrow> ('s, 'p) Ratchet \<Rightarrow> nat \<Rightarrow> 's send_rand \<times> bytes \<Rightarrow> bytes" where
  "chainCipher P y i rm = the (er_headerNonce (fst rm)) @
     box_Seal P (the (sendHeaderKey y)) (the (er_headerNonce (fst rm))) (chainHeader P y i (fst rm)) @
     box_Seal P (msgKeyAt P (the (sendChainKey y)) i) (the (er_messageNonce (fst rm))) (snd rm)"

lemma chainCipher_step:
  "chainCipher P (y\<lparr>sendChainKey := Some (hmac_sha3 P (the (sendChainKey y)) chainKeyStepLabel),
     sendCount := sendCount y + 1\<rparr>) i rm = chainCipher P y (Suc i) rm"
  by (simp add: chainCipher_def chainHeader_def algebra_simps)

lemma encryptAll_chain:
  assumes ok: "ratchet_ok P" and "keys_ok y" "\<not> ratchet y" "\<forall>rm\<in>set ms. nonces_ok (fst rm)"
  shows "\<exists>y'. encryptAll P ms y = Some (map (\<lambda>i. chainCipher P y i (ms ! i)) [0..<length ms], y')"
  using assms(2-)
proof (induction ms arbitrary: y)
  case (Cons rm ms)
  obtain rand msg where rm: "rm = (rand, msg)" by (cases rm)
  obtain hn mn where n: "er_headerNonce rand = Some hn" "er_messageNonce rand = Some mn"
    using Cons.prems rm by (auto simp: nonces_ok_def split: option.splits)
  obtain hk ck k q where y: "sendHeaderKey y = Some hk" "length hk = 32" "sendChainKey y = Some ck" "length ck = 32"
      "sendRatchetPrivate y = Some k" "length k = 32" "sendPQRatchetPrivate y = Some q"
    using Cons.prems(1) by (auto elim!: keys_okE)
  obtain pq where pq: "csidh_ExportPublic P (csidh_GeneratePublicKey P q) = Some pq"
    using csidhD [OF ok, of q] by metis
  let ?y = "y\<lparr>sendChainKey := Some (hmac_sha3 P (the (sendChainKey y)) chainKeyStepLabel),
     sendCount := sendCount y + 1\<rparr>"
  have enc: "Encrypt P rand [] msg y = Ret (chainCipher P y 0 (rand, msg)) ?y"
    using Encrypt_current [OF ok n Cons.prems(2) y pq] n y pq by (simp add: chainCipher_def chainHeader_def)
  have "keys_ok ?y" "\<not> ratchet ?y" using Cons.prems ok by (simp_all add: keys_ok_def)
  with Cons.IH [of ?y] Cons.prems(3) obtain y' where
    "encryptAll P ms ?y = Some (map (\<lambda>i. chainCipher P y (Suc i) (ms ! i)) [0..<length ms], y')"
    by (auto simp: chainCipher_step)
  moreover have "[0..<length (rm # ms)] = 0 # map Suc [0..<length ms]"
    by (simp add: upt_conv_Cons map_Suc_upt del: upt_Suc)
  ultimately show ?case using enc rm by (simp add: comp_def del: upt_Suc)
qed simp

section \<open>Reading a message of the chain\<close>

text \<open>The parts of a ciphertext of the chain, as the receiver takes it apart.\<close>

lemma chainCipher_parts:
  assumes ok: "ratchet_ok P" and y: "keys_ok y" and rand: "nonces_ok rand"
  shows "\<not> length (chainCipher P y i (rand, msg)) < sealedHeaderSize P"
    "take nonceSize (chainCipher P y i (rand, msg)) = the (er_headerNonce rand)"
    "slice nonceSize (sealedHeaderSize P) (chainCipher P y i (rand, msg)) =
       box_Seal P (the (sendHeaderKey y)) (the (er_headerNonce rand)) (chainHeader P y i rand)"
    "drop (sealedHeaderSize P) (chainCipher P y i (rand, msg)) =
       box_Seal P (msgKeyAt P (the (sendChainKey y)) i) (the (er_messageNonce rand)) msg"
    "length (chainHeader P y i rand) = headerSize P"
    "get_u32_le (chainHeader P y i rand) = sendCount y + of_nat i"
    "drop (nonceInHeaderOffset P) (chainHeader P y i rand) = the (er_messageNonce rand)"
proof -
  obtain hn mn where n: "er_headerNonce rand = Some hn" "er_messageNonce rand = Some mn"
      "length hn = 24" "length mn = 24"
    using rand by (auto simp: nonces_ok_def split: option.splits)
  obtain k q where k: "sendRatchetPrivate y = Some k" "length k = 32" "sendPQRatchetPrivate y = Some q"
    using y by (auto elim!: keys_okE)
  obtain pq where pq: "csidh_ExportPublic P (csidh_GeneratePublicKey P q) = Some pq" "length pq = csidh_PublicKeySize P"
    using csidhD [OF ok, of q] by metis
  note h = header_fields [OF dhD(1) [OF ok k(2)] pq(2) n(4)]
  show len: "length (chainHeader P y i rand) = headerSize P"
    and "get_u32_le (chainHeader P y i rand) = sendCount y + of_nat i"
    and "drop (nonceInHeaderOffset P) (chainHeader P y i rand) = the (er_messageNonce rand)"
    using h k pq n by (simp_all add: chainHeader_def)
  note c = sealed_fields [OF ok n(3) len]
  show "\<not> length (chainCipher P y i (rand, msg)) < sealedHeaderSize P"
    and "take nonceSize (chainCipher P y i (rand, msg)) = the (er_headerNonce rand)"
    and "slice nonceSize (sealedHeaderSize P) (chainCipher P y i (rand, msg)) =
       box_Seal P (the (sendHeaderKey y)) (the (er_headerNonce rand)) (chainHeader P y i rand)"
    and "drop (sealedHeaderSize P) (chainCipher P y i (rand, msg)) =
       box_Seal P (msgKeyAt P (the (sendChainKey y)) i) (the (er_messageNonce rand)) msg"
    using c by (simp_all only: chainCipher_def fst_conv snd_conv n option.sel not_False_eq_True)
qed

text \<open>A key that has been saved opens its message and is dropped.\<close>

lemma read_saved:
  assumes ok: "ratchet_ok P" and y: "keys_ok y" and rand: "nonces_ok rand" and msg: "msg \<noteq> []"
    and sv: "saved x = [((n, the (sendHeaderKey y)), ks)]"
    and key: "gm_get ks (sendCount y + of_nat i) =
      Some \<lparr>sk_key = Some (msgKeyAt P (the (sendChainKey y)) i), sk_timestamp = t\<rparr>"
    and ks': "ks' = gm_del ks (sendCount y + of_nat i)"
  shows "Decrypt P now (chainCipher P y i (rand, msg)) x =
    Ret msg (x\<lparr>saved := if ks' = [] then [] else [((n, the (sendHeaderKey y)), ks')]\<rparr>)"
proof -
  have hk: "length (the (sendHeaderKey y)) = 32" using y by (auto elim!: keys_okE)
  have upd: "saved_update (\<lambda>sv. if ks' = [] then gm_del sv (n, the (sendHeaderKey y))
      else gm_put sv (n, the (sendHeaderKey y)) ks') x =
    x\<lparr>saved := if ks' = [] then [] else [((n, the (sendHeaderKey y)), ks')]\<rparr>"
    using sv by (cases x) (simp add: gm_del_def)
  have "trySavedKeys P (chainCipher P y i (rand, msg)) x =
      Ret (Some msg) (x\<lparr>saved := if ks' = [] then [] else [((n, the (sendHeaderKey y)), ks')]\<rparr>)"
    using chainCipher_parts [OF ok y rand] hk ok key
    by (simp add: trySavedKeys_def run_simps sv Let_def ks' [symmetric] upd)
  then show ?thesis using msg by (simp add: Decrypt_def run_simps)
qed

text \<open>Without a saved key, an old message is refused and nothing changes.\<close>

lemma try_misses:
  assumes ok: "ratchet_ok P" and y: "keys_ok y" and rand: "nonces_ok rand"
    and sv: "saved x = [] \<or> (\<exists>n ks rest. saved x = ((n, the (sendHeaderKey y)), ks) # rest \<and>
      gm_get ks (sendCount y + of_nat i) = None)"
  shows "trySavedKeys P (chainCipher P y i (rand, msg)) x = Ret None x"
proof -
  have hk: "length (the (sendHeaderKey y)) = 32" using y by (auto elim!: keys_okE)
  show ?thesis
    using chainCipher_parts [OF ok y rand] hk ok sv
    by (auto simp: trySavedKeys_def run_simps Let_def)
qed

lemma refuse_old:
  assumes ok: "ratchet_ok P" and y: "keys_ok y" and rand: "nonces_ok rand"
    and x: "recvHeaderKey x = sendHeaderKey y" "recvHeaderKey x \<noteq> Some (zeros 32)"
    and sv: "saved x = [] \<or> (\<exists>n ks rest. saved x = ((n, the (sendHeaderKey y)), ks) # rest \<and>
      gm_get ks (sendCount y + of_nat i) = None)"
    and old: "sendCount y + of_nat i < recvCount x"
  shows "Decrypt P now (chainCipher P y i (rand, msg)) x = Err ErrDuplicateOrDelayed x"
proof -
  obtain hk where hk: "sendHeaderKey y = Some hk" "length hk = 32" using y by (auto elim!: keys_okE)
  then have "\<not> CtIsZero hk" using x by (simp add: CtIsZero_eq_zeros)
  with hk x old ok show ?thesis
    using try_misses [OF ok y rand sv] chainCipher_parts [OF ok y rand]
    by (simp add: Decrypt_def run_simps Let_def decryptCurrent_def saveKeys_def)
qed

lemma unat_count: "unat c + m < 2 ^ 32 \<Longrightarrow> unat (c + of_nat m :: u32) = unat c + m"
  by (simp add: unat_word_ariths unat_of_nat)

lemma chainAt_add: "chainAt P (chainAt P ck j) d = chainAt P ck (j + d)"
  by (simp add: chainAt_def add.commute [of j d] funpow_add)

text \<open>A message ahead of the expected one is read, and the keys of the messages before it are saved.\<close>

lemma read_ahead:
  assumes ok: "ratchet_ok P" and y: "keys_ok y" and rand: "nonces_ok rand"
    and x: "recvHeaderKey x = sendHeaderKey y" "recvHeaderKey x \<noteq> Some (zeros 32)"
      "recvChainKey x = map_option (\<lambda>ck. chainAt P ck j) (sendChainKey y)"
      "recvCount x = sendCount y + of_nat j"
    and gap: "unat (sendCount y) + j + d < 2 ^ 32 - 1" "d \<le> 8"
    and tried: "trySavedKeys P (chainCipher P y (j + d) (rand, msg)) x = Ret None x"
    and sv: "saved_ok (allocs x) (saved x)"
  shows "Decrypt P now (chainCipher P y (j + d) (rand, msg)) x = Ret msg
    (x\<lparr>recvChainKey := map_option (\<lambda>ck. chainAt P ck (j + Suc d)) (sendChainKey y),
       recvCount := sendCount y + of_nat (j + Suc d),
       saved := saved x @ savedAfter P now (allocs x) (the (sendHeaderKey y)) (chainAt P (the (sendChainKey y)) j)
         (sendCount y + of_nat j) d,
       allocs := allocsAfter (allocs x) d\<rparr>)"
proof -
  obtain hn mn where n: "er_headerNonce rand = Some hn" "er_messageNonce rand = Some mn"
      "length hn = 24" "length mn = 24"
    using rand by (auto simp: nonces_ok_def split: option.splits)
  obtain hk ck k q where k: "sendHeaderKey y = Some hk" "length hk = 32" "sendChainKey y = Some ck" "length ck = 32"
      "sendRatchetPrivate y = Some k" "length k = 32" "sendPQRatchetPrivate y = Some q"
    using y by (auto elim!: keys_okE)
  obtain pq where pq: "csidh_ExportPublic P (csidh_GeneratePublicKey P q) = Some pq" "length pq = csidh_PublicKeySize P"
    using csidhD [OF ok, of q] by metis
  have hdr: "chainHeader P y (j + d) rand =
      headerBytes (sendCount y + of_nat (j + d)) (prevSendCount y) (ScalarBaseMult P k) pq mn"
    by (simp add: chainHeader_def k n pq)
  have ct: "chainCipher P y (j + d) (rand, msg) =
      hn @ box_Seal P hk hn (chainHeader P y (j + d) rand) @ box_Seal P (msgKeyAt P (chainAt P ck j) d) mn msg"
    by (simp add: chainCipher_def k n msgKeyAt_def chainAt_add)
  have num: "unat (sendCount y + of_nat (j + d)) = unat (recvCount x) + d" "sendCount y + of_nat (j + d) \<noteq> - 1"
  proof -
    have "unat (sendCount y + of_nat (j + d)) = unat (sendCount y) + (j + d)"
      "unat (sendCount y + of_nat j) = unat (sendCount y) + j"
      by (rule unat_count; use gap in simp)+
    then show "unat (sendCount y + of_nat (j + d)) = unat (recvCount x) + d" using x(4) by simp
    have "unat (sendCount y + of_nat (j + d)) \<noteq> unat (- 1 :: u32)"
      using unat_count [of "sendCount y" "j + d"] gap by (simp add: unsigned_minus_1_eq_mask mask_eq_exp_minus_1)
    then show "sendCount y + of_nat (j + d) \<noteq> - 1" by metis
  qed
  have "\<not> CtIsZero hk" using x k by (simp add: CtIsZero_eq_zeros)
  note dec = Decrypt_current [where now = now, OF ok n(3) hdr dhD(1) [OF ok k(6)] pq(2) n(4) x(1) [unfolded k(1)] k(2)
      x(3) [unfolded k(3) option.map] chain_sizes(1) [OF ok k(4)] this num(1) gap(2) num(2) ct tried]
  show ?thesis
    using dec by (simp add: fold_merge [OF sv] k x(4) chainAt_add algebra_simps)
qed

section \<open>Any order within the reordering limit\<close>

lemma small_counts: "i < 9 \<Longrightarrow> j < 9 \<Longrightarrow> (of_nat i :: u32) = of_nat j \<longleftrightarrow> i = j"
  by (simp add: word_of_nat_eq_iff take_bit_eq_mod)

lemma skippedKeys_wf: "d \<le> 8 \<Longrightarrow> gm_wf (skippedKeys P now ck c d)"
  by (simp add: gm_wf_def skippedKeys_def distinct_map inj_on_def comp_def small_counts)

text \<open>The keys of the first \<open>d\<close> messages of the chain that are left once those in \<open>U\<close> have been read.\<close>

definition keysLeft :: "('s, 'p) ratchet_prims \<Rightarrow> int \<Rightarrow> ('s, 'p) Ratchet \<Rightarrow> nat \<Rightarrow> nat set \<Rightarrow> message_keys" where
  "keysLeft P now y d U = filter (\<lambda>e. fst e \<notin> (\<lambda>i. sendCount y + of_nat i) ` U)
     (skippedKeys P now (the (sendChainKey y)) (sendCount y) d)"

definition savedLeft :: "('s, 'p) ratchet_prims \<Rightarrow> int \<Rightarrow> nat \<Rightarrow> ('s, 'p) Ratchet \<Rightarrow> nat \<Rightarrow> nat set \<Rightarrow> saved_keys" where
  "savedLeft P now n y d U = (if keysLeft P now y d U = [] then []
     else [((n, the (sendHeaderKey y)), keysLeft P now y d U)])"

lemma keysLeft_get:
  assumes "d \<le> 8" "i < d" "U \<subseteq> {..<d}"
  shows "gm_get (keysLeft P now y d U) (sendCount y + of_nat i) =
    (if i \<in> U then None else Some \<lparr>sk_key = Some (msgKeyAt P (the (sendChainKey y)) i), sk_timestamp = now\<rparr>)"
proof -
  have wf: "gm_wf (keysLeft P now y d U)"
    unfolding keysLeft_def gm_wf_def
    by (rule distinct_map_filter) (use skippedKeys_wf [OF assms(1)] in \<open>simp add: gm_wf_def\<close>)
  have mem: "sendCount y + of_nat i \<in> (\<lambda>i. sendCount y + of_nat i) ` U \<longleftrightarrow> i \<in> U"
    using assms by (auto simp: image_iff small_counts subset_iff)
  show ?thesis
  proof (cases "i \<in> U")
    case True
    then show ?thesis using mem by (auto simp: gm_get_keys gm_keys_def keysLeft_def)
  next
    case False
    then have "(sendCount y + of_nat i, \<lparr>sk_key = Some (msgKeyAt P (the (sendChainKey y)) i), sk_timestamp = now\<rparr>)
        \<in> set (keysLeft P now y d U)"
      using mem assms by (auto simp: keysLeft_def skippedKeys_def)
    with False show ?thesis using wf by (simp add: gm_get_in_set)
  qed
qed

lemma keysLeft_del: "gm_del (keysLeft P now y d U) (sendCount y + of_nat i) = keysLeft P now y d (insert i U)"
  by (auto simp: keysLeft_def gm_del_def intro: filter_cong)

lemma read_late:
  assumes ok: "ratchet_ok P" and y: "keys_ok y" and d: "d \<le> 8"
    and ms: "\<And>j. j < d \<Longrightarrow> nonces_ok (fst (ms ! j)) \<and> snd (ms ! j) \<noteq> []"
  shows "saved x = savedLeft P t n y d U \<Longrightarrow> U \<subseteq> {..<d} \<Longrightarrow> distinct js \<Longrightarrow> set js \<subseteq> {..<d} - U \<Longrightarrow>
    decryptAll P now (map (\<lambda>j. chainCipher P y j (ms ! j)) js) x =
      Some (map (\<lambda>j. snd (ms ! j)) js, x\<lparr>saved := savedLeft P t n y d (U \<union> set js)\<rparr>)"
proof (induction js arbitrary: x U)
  case Nil
  then show ?case by (cases x) simp
next
  case (Cons j js)
  have j: "j < d" "j \<notin> U" using Cons.prems by auto
  have get: "gm_get (keysLeft P t y d U) (sendCount y + of_nat j) =
      Some \<lparr>sk_key = Some (msgKeyAt P (the (sendChainKey y)) j), sk_timestamp = t\<rparr>"
    using keysLeft_get [OF d j(1) Cons.prems(2)] j(2) by simp
  then have "keysLeft P t y d U \<noteq> []" by (auto simp: gm_get_def)
  then have sv: "saved x = [((n, the (sendHeaderKey y)), keysLeft P t y d U)]"
    using Cons.prems(1) by (simp add: savedLeft_def)
  obtain rand msg where rm: "ms ! j = (rand, msg)" by (cases "ms ! j")
  let ?x = "x\<lparr>saved := savedLeft P t n y d (insert j U)\<rparr>"
  have "Decrypt P now (chainCipher P y j (ms ! j)) x = Ret msg ?x"
    using read_saved [OF ok y _ _ sv get keysLeft_del [symmetric], of rand msg now] ms [OF j(1)]
    by (simp add: rm savedLeft_def)
  moreover have "decryptAll P now (map (\<lambda>j. chainCipher P y j (ms ! j)) js) ?x =
      Some (map (\<lambda>j. snd (ms ! j)) js, ?x\<lparr>saved := savedLeft P t n y d (insert j U \<union> set js)\<rparr>)"
    using Cons.prems j(1) by (intro Cons.IH) auto
  ultimately show ?case by (simp add: rm)
qed

lemma read_twice:
  assumes ok: "ratchet_ok P" and y: "keys_ok y" and d: "d \<le> 8" and rand: "nonces_ok (fst rm)"
    and room: "unat (sendCount y) + d < 2 ^ 32 - 1" and U: "U \<subseteq> {..<d}" and j: "j = d \<or> j \<in> U"
    and x: "recvHeaderKey x = sendHeaderKey y" "recvHeaderKey x \<noteq> Some (zeros 32)"
      "recvCount x = sendCount y + of_nat (Suc d)" "saved x = savedLeft P t n y d U"
  shows "Decrypt P now (chainCipher P y j rm) x = Err ErrDuplicateOrDelayed x"
proof -
  have jd: "j \<le> d" using j U by auto
  have "unat (sendCount y + of_nat j) < unat (sendCount y + of_nat (Suc d))"
    using unat_count [of "sendCount y" j] unat_count [of "sendCount y" "Suc d"] room jd by simp
  then have old: "sendCount y + of_nat j < recvCount x" by (simp add: x(3) word_less_nat_alt)
  have "gm_get (keysLeft P t y d U) (sendCount y + of_nat j) = None"
  proof (cases "j = d")
    case True
    then show ?thesis using d
      by (auto simp: gm_get_keys gm_keys_def keysLeft_def skippedKeys_def small_counts)
  next
    case False
    then show ?thesis using j keysLeft_get [OF d _ U, of j] jd by simp
  qed
  then have "saved x = [] \<or> (\<exists>n ks rest. saved x = ((n, the (sendHeaderKey y)), ks) # rest \<and>
    gm_get ks (sendCount y + of_nat j) = None)" by (simp add: savedLeft_def x(4))
  from refuse_old [OF ok y rand x(1,2) this old, of now "snd rm"] show ?thesis by simp
qed

text \<open>
  C9: Of the next \<open>d + 1\<close> messages of a chain, none of them empty, with \<open>d\<close> at most the limit of eight,
  the last may arrive first at a receiver that has no saved keys: it is read, and then any of the
  others are read in any order.  Afterwards each of the messages read is refused as a duplicate when
  it arrives again, without a change to the ratchet.  Both provisos are needed: an empty skipped
  message is taken for the absence of a saved key and refused, and keys saved from an earlier gap can
  hide those of the new one.
\<close>

theorem out_of_order_delivery:
  assumes ok: "ratchet_ok P" and sync: "chain_synced y x" and len: "length ms = Suc d" and d: "d \<le> 8"
    and ms: "\<forall>rm\<in>set ms. nonces_ok (fst rm) \<and> snd rm \<noteq> []"
    and room: "unat (sendCount y) + d < 2 ^ 32 - 1"
    and js: "distinct js" "set js \<subseteq> {..<d}"
  shows "\<exists>cts y' x'. encryptAll P ms y = Some (cts, y') \<and>
    decryptAll P now (map ((!) cts) (d # js)) x = Some (map (\<lambda>j. snd (ms ! j)) (d # js), x') \<and>
    (\<forall>j\<in>set (d # js). Decrypt P now (cts ! j) x' = Err ErrDuplicateOrDelayed x')"
proof -
  have y: "keys_ok y" "\<not> ratchet y" and x: "recvHeaderKey x = sendHeaderKey y" "recvHeaderKey x \<noteq> Some (zeros 32)"
    "recvChainKey x = map_option (\<lambda>ck. chainAt P ck 0) (sendChainKey y)" "recvCount x = sendCount y + of_nat 0"
    "saved x = []"
    using sync by (auto simp: chain_synced_def option.map_ident)
  let ?c = "\<lambda>j. chainCipher P y j (ms ! j)" and ?cts = "map (\<lambda>i. chainCipher P y i (ms ! i)) [0..<length ms]"
  have ms': "nonces_ok (fst (ms ! j)) \<and> snd (ms ! j) \<noteq> []" if "j \<le> d" for j using that ms len by simp
  obtain y' where enc: "encryptAll P ms y = Some (?cts, y')"
    using encryptAll_chain [OF ok y] ms by blast
  obtain rand msg where rm: "ms ! d = (rand, msg)" by (cases "ms ! d")
  have rand: "nonces_ok rand" using ms' [of d] rm by simp
  define x1 where "x1 = x\<lparr>recvChainKey := map_option (\<lambda>ck. chainAt P ck (Suc d)) (sendChainKey y),
    recvCount := sendCount y + of_nat (Suc d), saved := savedLeft P now (allocs x) y d {},
    allocs := allocsAfter (allocs x) d\<rparr>"
  have left: "savedAfter P now (allocs x) (the (sendHeaderKey y)) (the (sendChainKey y)) (sendCount y) d =
      savedLeft P now (allocs x) y d {}"
    by (simp add: savedAfter_def savedLeft_def keysLeft_def skippedKeys_def)
  have "saved_ok (allocs x) (saved x)" using x(5) by (simp add: saved_ok_def)
  from read_ahead [where msg = msg and now = now, OF ok y(1) rand x(1-4) _ d try_misses [OF ok y(1) rand] this]
  have last: "Decrypt P now (?c d) x = Ret msg x1"
    using room x(5) left by (simp add: rm x1_def)
  let ?x' = "x1\<lparr>saved := savedLeft P now (allocs x) y d (set js)\<rparr>"
  have late: "decryptAll P now (map ?c js) x1 = Some (map (\<lambda>j. snd (ms ! j)) js, ?x')"
    using read_late [OF ok y(1) d _ _ _ js(1), of ms x1 now "allocs x" "{}" now] ms' js(2) by (simp add: x1_def)
  have le: "j \<le> d" if "j \<in> set (d # js)" for j using that js(2) by auto
  have cts: "?cts ! j = ?c j" if "j \<in> set (d # js)" for j using le [OF that] len by (simp del: upt_Suc)
  then have order: "map ((!) ?cts) (d # js) = map ?c (d # js)" by (intro map_cong refl)
  have "decryptAll P now (map ((!) ?cts) (d # js)) x = Some (map (\<lambda>j. snd (ms ! j)) (d # js), ?x')"
    unfolding order using last late by (simp add: rm)
  moreover have "Decrypt P now (?cts ! j) ?x' = Err ErrDuplicateOrDelayed ?x'" if "j \<in> set (d # js)" for j
    unfolding cts [OF that] using that ms' [OF le [OF that]] x(1,2) js(2)
    by (intro read_twice [OF ok y(1) d _ room js(2)]) (auto simp: x1_def)
  ultimately show ?thesis using enc by blast
qed

section \<open>Two gaps in one chain\<close>

text \<open>
  C27: Saved keys are looked up by header key, but each gap has its own entry under its own pointer,
  and the first entry whose header key opens the header decides.  When messages 1 and 3 of a chain
  have been read, message 2 is refused as a duplicate (with the entries visited in the order in which
  they were made), although its key is saved.
\<close>

theorem second_gap_refused:
  assumes ok: "ratchet_ok P" and sync: "chain_synced y x" and len: "length ms = 4"
    and ms: "\<forall>rm\<in>set ms. nonces_ok (fst rm)" and room: "unat (sendCount y) + 3 < 2 ^ 32 - 1"
  shows "\<exists>cts y' x1 x2. encryptAll P ms y = Some (cts, y') \<and>
    Decrypt P now (cts ! 1) x = Ret (snd (ms ! 1)) x1 \<and> Decrypt P now (cts ! 3) x1 = Ret (snd (ms ! 3)) x2 \<and>
    Decrypt P now (cts ! 2) x2 = Err ErrDuplicateOrDelayed x2 \<and>
    (\<exists>e ks. (e, ks) \<in> set (saved x2) \<and> gm_has ks (sendCount y + 2))"
proof -
  have y: "keys_ok y" "\<not> ratchet y" and x: "recvHeaderKey x = sendHeaderKey y" "recvHeaderKey x \<noteq> Some (zeros 32)"
    "recvChainKey x = map_option (\<lambda>ck. chainAt P ck 0) (sendChainKey y)" "recvCount x = sendCount y + of_nat 0"
    "saved x = []"
    using sync by (auto simp: chain_synced_def option.map_ident)
  have P: "hmac_size P" using ok by (simp add: ratchet_ok_def)
  have hk: "length (the (sendHeaderKey y)) = 32" using y(1) by (auto elim!: keys_okE)
  let ?c = "\<lambda>j. chainCipher P y j (fst (ms ! j), snd (ms ! j))"
  let ?n = "\<lambda>j. sendCount y + of_nat j" and ?ck = "\<lambda>j. chainAt P (the (sendChainKey y)) j"
  have rand: "nonces_ok (fst (ms ! j))" if "j < 4" for j using that ms len by simp
  define x1 where "x1 = x\<lparr>recvChainKey := map_option (\<lambda>ck. chainAt P ck (0 + Suc 1)) (sendChainKey y),
    recvCount := ?n (0 + Suc 1),
    saved := saved x @ savedAfter P now (allocs x) (the (sendHeaderKey y)) (?ck 0) (?n 0) 1,
    allocs := allocsAfter (allocs x) 1\<rparr>"
  define x2 where "x2 = x1\<lparr>recvChainKey := map_option (\<lambda>ck. chainAt P ck (2 + Suc 1)) (sendChainKey y),
    recvCount := ?n (2 + Suc 1),
    saved := saved x1 @ savedAfter P now (allocs x1) (the (sendHeaderKey y)) (?ck 2) (?n 2) 1,
    allocs := allocsAfter (allocs x1) 1\<rparr>"
  have sv: "saved_ok (allocs x) (saved x)" using x(5) by (simp add: saved_ok_def)
  have sv1: "saved_ok (allocs x1) (saved x1)"
    using saved_ok_merge [OF sv P hk, of 1 now "?ck 0" "?n 0"] by (simp add: x1_def)
  have one: "savedAfter P now n h c m 1 = [((n, h), [(m, \<lparr>sk_key = Some (msgKeyAt P c 0), sk_timestamp = now\<rparr>)])]"
    for n h c m by (simp add: savedAfter_def skippedKeys_def)
  have miss: "gm_get [(?n 0, k)] (?n j) = None" if "0 < j" "j < 9" for j k
    using that small_counts [of j 0] by (auto simp: gm_get_def)
  have r1: "Decrypt P now (chainCipher P y (0 + 1) (fst (ms ! 1), snd (ms ! 1))) x = Ret (snd (ms ! 1)) x1"
    unfolding x1_def using room x(5)
    by (intro read_ahead [OF ok y(1) rand [of 1] x(1-4) _ _ try_misses [OF ok y(1) rand [of 1]] sv]) simp_all
  have "recvHeaderKey x1 = sendHeaderKey y" "recvHeaderKey x1 \<noteq> Some (zeros 32)"
    "recvChainKey x1 = map_option (\<lambda>ck. chainAt P ck 2) (sendChainKey y)" "recvCount x1 = ?n 2"
    "saved x1 = [((allocs x, the (sendHeaderKey y)), [(?n 0, \<lparr>sk_key = Some (msgKeyAt P (?ck 0) 0), sk_timestamp = now\<rparr>)])]"
    using x(1,2,5) by (simp_all add: x1_def one [simplified] numeral_2_eq_2)
  note at1 = this
  have r2: "Decrypt P now (chainCipher P y (2 + 1) (fst (ms ! 3), snd (ms ! 3))) x1 = Ret (snd (ms ! 3)) x2"
    unfolding x2_def using room at1(5) miss [of 3]
    by (intro read_ahead [OF ok y(1) rand [of 3] at1(1-4) _ _ try_misses [OF ok y(1) rand [of 3]] sv1]) simp_all
  have "Decrypt P now (?c 1) x = Ret (snd (ms ! 1)) x1" "Decrypt P now (?c 3) x1 = Ret (snd (ms ! 3)) x2"
    using r1 r2 by simp_all
  moreover have "Decrypt P now (?c 2) x2 = Err ErrDuplicateOrDelayed x2"
  proof (rule refuse_old [OF ok y(1) rand [of 2]])
    show "sendCount y + of_nat 2 < recvCount x2"
      using unat_count [of "sendCount y" 2] unat_count [of "sendCount y" "2 + Suc 1"] room
      unfolding x2_def by (simp only: Ratchet.select_convs Ratchet.update_convs word_less_nat_alt) simp
  qed (use at1 miss [of 2] in \<open>simp_all add: x2_def\<close>)
  moreover have "\<exists>e ks. (e, ks) \<in> set (saved x2) \<and> gm_has ks (sendCount y + 2)"
    by (rule exI [of _ "(allocs x1, the (sendHeaderKey y))"],
        rule exI [of _ "[(?n 2, \<lparr>sk_key = Some (msgKeyAt P (?ck 2) 0), sk_timestamp = now\<rparr>)]"])
       (simp add: x2_def one [simplified] gm_has_def gm_get_def)
  moreover obtain cts y' where "encryptAll P ms y = Some (cts, y')" "cts = map (\<lambda>i. chainCipher P y i (ms ! i)) [0..<4]"
    using encryptAll_chain [OF ok y ms] len by auto
  moreover from this(2) have "cts ! 1 = ?c 1" "cts ! 2 = ?c 2" "cts ! 3 = ?c 3"
    by (simp_all add: numeral_2_eq_2 numeral_3_eq_3 del: upt_Suc)
  ultimately show ?thesis
    by (intro exI [of _ cts] exI [of _ y'] exI [of _ x1] exI [of _ x2] conjI) (simp_all only:)
qed

section \<open>A damaged first message\<close>

text \<open>
  What the receiver derives from the header of the first message of a chain: the hash input of the
  root chain, the key of the message, and the root key that replaces the old one.
\<close>

definition turnHash :: "('s, 'p) ratchet_prims \<Rightarrow> ('s, 'p) Ratchet \<Rightarrow> bytes \<Rightarrow> bytes" where
  "turnHash P r header = rootMaterial P (the (rootKey r))
     (ScalarMult P (the (sendRatchetPrivate r)) (slice 8 40 header))
     (the (csidh_DeriveSecret P (the (csidh_ImportPublic P (slice PQRatchetPublicKeyInHeaderOffset
        (PQRatchetPublicKeyInHeaderOffset + csidh_PublicKeySize P) header))) (the (sendPQRatchetPrivate r))))"

definition turnKey :: "('s, 'p) ratchet_prims \<Rightarrow> ('s, 'p) Ratchet \<Rightarrow> bytes \<Rightarrow> bytes" where
  "turnKey P r header = msgKeyAt P (hmac_sha3 P (turnHash P r header) chainKeyLabel) 0"

definition turned :: "('s, 'p) ratchet_prims \<Rightarrow> ('s, 'p) Ratchet \<Rightarrow> bytes \<Rightarrow> ('s, 'p) Ratchet" where
  "turned P r header = r\<lparr>rootKey := Some (hmac_sha3 P (turnHash P r header) rootKeyLabel)\<rparr>"

lemma damaged_turn:
  assumes ok: "ratchet_ok P" and keys: "keys_ok r" and flag: "\<not> ratchet r"
    and hdr: "length header = headerSize P" "get_u32_le header = 0" "get_u32_le (drop 4 header) = recvCount r"
    and room: "recvCount r \<noteq> - 1"
    and pq: "csidh_ImportPublic P (slice PQRatchetPublicKeyInHeaderOffset
        (PQRatchetPublicKeyInHeaderOffset + csidh_PublicKeySize P) header) = Some p" "csidh_Validate P p"
      "csidh_DeriveSecret P p (the (sendPQRatchetPrivate r)) = Some z"
    and damaged: "box_Open P (turnKey P r header) (drop (nonceInHeaderOffset P) header) body = None"
  shows "decryptRatchet P now header body r = Err ErrCorruptMessage (turned P r header)"
proof -
  obtain rk rhk nrk rck srp sq where r: "rootKey r = Some rk" "length rk = 32"
      "recvHeaderKey r = Some rhk" "length rhk = 32" "nextRecvHeaderKey r = Some nrk" "length nrk = 32"
      "recvChainKey r = Some rck" "length rck = 32" "sendRatchetPrivate r = Some srp" "length srp = 32"
      "sendPQRatchetPrivate r = Some sq"
    using keys by (auto elim!: keys_okE)
  define h where "h = turnHash P r header"
  have h: "rootMaterial P rk (ScalarMult P srp (slice 8 40 header)) z = h"
    using pq r by (simp add: h_def turnHash_def)
  have ck: "length (hmac_sha3 P h chainKeyLabel) = 32" using ok by simp
  have "unat (recvCount r) = unat (recvCount r) + 0" "unat (0::u32) = unat (0::u32) + 0" "(0::u32) \<noteq> - 1" by simp_all
  note save = saveKeys_run' [OF this(1) _ room refl r(8) refl r(4), of P now r]
    saveKeys_run' [OF this(2) _ this(3) refl ck refl r(6), of P now]
  show ?thesis
    using save damaged ok hdr flag pq r h
    by (simp add: decryptRatchet_def enterChain_def run_simps Let_def savedAfter_def allocsAfter_def
        turned_def turnKey_def h_def [symmetric])
qed

lemma damaged_message:
  assumes ok: "ratchet_ok P" and st: "in_step P x y" and rnd: "send_rand_ok rand" and room: "sendCount x \<noteq> - 1"
    and enc: "Encrypt P rand [] msg x = Ret ct x'" and apart: "unmistaken P y ct"
    and header: "box_Open P (the (nextRecvHeaderKey y)) (take nonceSize ct) (slice nonceSize (sealedHeaderSize P) ct) = Some header"
    and r: "r = y \<or> r = turned P y header"
    and damaged: "box_Open P (turnKey P r header) (drop (nonceInHeaderOffset P) header) body = None"
  shows "Decrypt P now (take (sealedHeaderSize P) ct @ body) r = Err ErrCorruptMessage (turned P r header)"
proof -
  have kx: "keys_ok x" "ratchet x" and ky: "keys_ok y" "\<not> ratchet y" "saved y = []"
    and link: "recvPQRatchetPublic x = map_option (csidh_GeneratePublicKey P) (sendPQRatchetPrivate y)"
      "nextSendHeaderKey x = nextRecvHeaderKey y" "sendCount x = recvCount y"
    using st by (simp_all add: in_step_def)
  obtain hk nk q where y: "recvHeaderKey y = Some hk" "length hk = 32" "nextRecvHeaderKey y = Some nk" "length nk = 32"
      "sendPQRatchetPrivate y = Some q"
    using ky(1) by (auto elim!: keys_okE)
  obtain hn mn where n: "er_headerNonce rand = Some hn" "er_messageNonce rand = Some mn" "length hn = 24" "length mn = 24"
    using rnd by (auto simp: send_rand_ok_def nonces_ok_def split: option.splits)
  let ?q = "fst (er_pq rand)"
  obtain pq z where pq: "csidh_Validate P (csidh_GeneratePublicKey P ?q)"
      "csidh_ExportPublic P (csidh_GeneratePublicKey P ?q) = Some pq"
      "length pq = csidh_PublicKeySize P" "csidh_ImportPublic P pq = Some (csidh_GeneratePublicKey P ?q)"
      "csidh_DeriveSecret P (csidh_GeneratePublicKey P ?q) q = Some z"
      "csidh_DeriveSecret P (csidh_GeneratePublicKey P q) ?q = Some z"
    using csidhD [OF ok, of ?q q] by metis
  have dh: "length (ScalarBaseMult P (fst (er_dh rand))) = 32"
    using dhD(1) [OF ok, of "fst (er_dh rand)"] rnd by (simp add: send_rand_ok_def)
  note f = header_fields [OF dh pq(3) n(4), of 0 "sendCount x"]
  let ?hdr = "headerBytes 0 (sendCount x) (ScalarBaseMult P (fst (er_dh rand))) pq mn"
  obtain old where ct: "ct = hn @ box_Seal P nk hn ?hdr @ old"
    using Encrypt_turn [OF ok kx rnd n(1,2) pq(2) _ refl refl, of z msg] enc pq(6) link y by auto
  have hdr: "header = ?hdr" using header sealed_fields [OF ok n(3) f(1)] ok y(3) by (simp add: ct)
  have ct': "take (sealedHeaderSize P) ct @ body = hn @ box_Seal P nk hn ?hdr @ body"
    using ok n(3) f(1) by (simp add: ct sealedHeaderSize_def)
  note parts = sealed_fields [OF ok n(3) f(1), of nk]
  have keys: "recvHeaderKey r = Some hk" "nextRecvHeaderKey r = Some nk" "saved r = []" "keys_ok r" "\<not> ratchet r"
    "sendPQRatchetPrivate r = Some q" "recvCount r = sendCount x" "recvCount r \<noteq> - 1"
    using r y ky ok room link by (auto simp: turned_def keys_ok_def)
  have "unmistaken P r (hn @ box_Seal P nk hn ?hdr @ body)"
    using apart unfolding unmistaken_def ct parts y(1) keys(1) .
  from Decrypt_next [OF ok n(3) f(1) keys(1) y(2) keys(2) y(4) refl trySavedKeys_empty [OF keys(3) parts(1)] this, of now]
  have "Decrypt P now (take (sealedHeaderSize P) ct @ body) r = decryptRatchet P now ?hdr body r" by (simp add: ct')
  also have "\<dots> = Err ErrCorruptMessage (turned P r ?hdr)"
    using damaged keys f pq hdr by (intro damaged_turn [OF ok keys(4,5)]) simp_all
  finally show ?thesis by (simp add: hdr)
qed

text \<open>
  C26: The root key is replaced before the message is authenticated.  If the body of the first message
  of a chain is damaged on the way and its header is not, the message is refused, as it should be; but
  then the genuine message is refused as well, although the ratchet would have read it, and so the two
  parties have lost their session.  The provisos are that the damaged body does not open and that the
  genuine one does not open under the wrong key.
\<close>

theorem damaged_message_desyncs:
  assumes ok: "ratchet_ok P" and st: "in_step P x y" and rnd: "send_rand_ok rand" and room: "sendCount x \<noteq> - 1"
    and enc: "Encrypt P rand [] msg x = Ret ct x'" and apart: "unmistaken P y ct"
    and header: "box_Open P (the (nextRecvHeaderKey y)) (take nonceSize ct) (slice nonceSize (sealedHeaderSize P) ct) = Some header"
    and damaged: "box_Open P (turnKey P y header) (drop (nonceInHeaderOffset P) header) body = None"
    and genuine: "box_Open P (turnKey P (turned P y header) header) (drop (nonceInHeaderOffset P) header)
      (drop (sealedHeaderSize P) ct) = None"
  shows "(\<exists>y'. Decrypt P now ct y = Ret msg y') \<and>
    Decrypt P now (take (sealedHeaderSize P) ct @ body) y = Err ErrCorruptMessage (turned P y header) \<and>
    Decrypt P now ct (turned P y header) = Err ErrCorruptMessage (turned P (turned P y header) header)"
proof (intro conjI)
  show "\<exists>y'. Decrypt P now ct y = Ret msg y'"
    using step_ratchet [OF ok st rnd room, of msg now] enc apart by auto
  show "Decrypt P now (take (sealedHeaderSize P) ct @ body) y = Err ErrCorruptMessage (turned P y header)"
    by (rule damaged_message [OF ok st rnd room enc apart header disjI1 [OF refl] damaged])
  show "Decrypt P now ct (turned P y header) = Err ErrCorruptMessage (turned P (turned P y header) header)"
    using damaged_message [OF ok st rnd room enc apart header disjI2 [OF refl] genuine] by simp
qed

section \<open>Witnesses\<close>

definition toy_sender :: "(byte, byte) Ratchet" where
  "toy_sender = (toy_idle 1)\<lparr>sendHeaderKey := Some (replicate 32 1)\<rparr>"

definition toy_receiver :: "(byte, byte) Ratchet" where
  "toy_receiver = (toy_idle 2)\<lparr>recvHeaderKey := Some (replicate 32 1)\<rparr>"

lemma toy_synced: "chain_synced toy_sender toy_receiver"
proof -
  have "replicate 32 1 \<noteq> zeros 32" by (simp add: zeros_def)
  then show ?thesis
    using toy_idle_wf(1) [of 1] toy_idle_wf(1) [of 2]
    by (simp add: chain_synced_def toy_sender_def toy_receiver_def toy_idle_keys keys_ok_def)
qed

lemma toy_nonces: "nonces_ok (toy_send b)"
  by (simp add: nonces_ok_def toy_send_def)

theorem out_of_order_delivery_witness:
  "\<exists>cts y' x'. encryptAll toy_ratchet [(toy_send 1, [1]), (toy_send 2, [2]), (toy_send 3, [3])] toy_sender = Some (cts, y') \<and>
     decryptAll toy_ratchet 0 (map ((!) cts) [2, 0, 1]) toy_receiver = Some ([[3], [1], [2]], x') \<and>
     Decrypt toy_ratchet 0 (cts ! 0) x' = Err ErrDuplicateOrDelayed x'"
proof -
  let ?ms = "[(toy_send 1, [1]), (toy_send 2, [2]), (toy_send 3, [3])]"
  have "\<exists>cts y' x'. encryptAll toy_ratchet ?ms toy_sender = Some (cts, y') \<and>
      decryptAll toy_ratchet 0 (map ((!) cts) (2 # [0, 1])) toy_receiver = Some (map (\<lambda>j. snd (?ms ! j)) (2 # [0, 1]), x') \<and>
      (\<forall>j\<in>set (2 # [0, 1]). Decrypt toy_ratchet 0 (cts ! j) x' = Err ErrDuplicateOrDelayed x')"
    by (rule out_of_order_delivery [OF toy_ratchet_ok toy_synced]) (auto simp: toy_nonces toy_sender_def toy_idle_keys)
  moreover have "map (\<lambda>j. snd (?ms ! j)) (2 # [0, 1]) = [[3], [1], [2]]" by simp
  ultimately show ?thesis by auto
qed

theorem second_gap_refused_witness:
  "\<exists>cts y' x1 x2. encryptAll toy_ratchet [(toy_send 1, [1]), (toy_send 2, [2]), (toy_send 3, [3]), (toy_send 4, [4])] toy_sender
       = Some (cts, y') \<and>
     Decrypt toy_ratchet 0 (cts ! 1) toy_receiver = Ret [2] x1 \<and> Decrypt toy_ratchet 0 (cts ! 3) x1 = Ret [4] x2 \<and>
     Decrypt toy_ratchet 0 (cts ! 2) x2 = Err ErrDuplicateOrDelayed x2"
proof -
  let ?ms = "[(toy_send 1, [1]), (toy_send 2, [2]), (toy_send 3, [3]), (toy_send 4, [4])]"
  have "\<exists>cts y' x1 x2. encryptAll toy_ratchet ?ms toy_sender = Some (cts, y') \<and>
      Decrypt toy_ratchet 0 (cts ! 1) toy_receiver = Ret (snd (?ms ! 1)) x1 \<and>
      Decrypt toy_ratchet 0 (cts ! 3) x1 = Ret (snd (?ms ! 3)) x2 \<and>
      Decrypt toy_ratchet 0 (cts ! 2) x2 = Err ErrDuplicateOrDelayed x2 \<and>
      (\<exists>e ks. (e, ks) \<in> set (saved x2) \<and> gm_has ks (sendCount toy_sender + 2))"
    by (rule second_gap_refused [OF toy_ratchet_ok toy_synced]) (auto simp: toy_nonces toy_sender_def toy_idle_keys)
  then show ?thesis by auto
qed

text \<open>Two idle ends, of which the first starts a chain, and the ciphertext of its first message.\<close>

definition toy_turner :: "(byte, byte) Ratchet" where
  "toy_turner = (toy_idle 1)\<lparr>ratchet := True\<rparr>"

definition toy_header :: bytes where
  "toy_header = headerBytes 0 0 (replicate 32 5) [5] (zeros 24)"

definition toy_turn :: bytes where
  "toy_turn = zeros 24 @ box_Seal toy_ratchet (zeros 32) (zeros 24) toy_header @
     box_Seal toy_ratchet (replicate 32 30) (zeros 24) [7]"

lemma toy_idle_more: "nextSendHeaderKey (toy_idle b) = Some (zeros 32)" "nextRecvHeaderKey (toy_idle b) = Some (zeros 32)"
  "sendRatchetPrivate (toy_idle b) = Some (zeros 32)" "recvRatchetPublic (toy_idle b) = Some (zeros 32)"
  "sendPQRatchetPrivate (toy_idle b) = Some 0" "recvPQRatchetPublic (toy_idle b) = Some 0"
  by (simp_all add: toy_idle_def InitRatchet_def toy_init_def keySize_def toy_ratchet_def)

lemma toy_in_step: "in_step toy_ratchet toy_turner (toy_idle 2)"
  using toy_idle_wf(1) [of 1] toy_idle_wf(1) [of 2]
  by (simp add: in_step_def toy_turner_def toy_idle_keys toy_idle_more keys_ok_def) (simp add: toy_ratchet_def)

lemma zeros_hd: "hd (zeros (Suc n)) = 0" "hd (zeros (numeral k)) = 0"
  by (simp_all add: zeros_def)

lemma toy_turn_hash:
  "hd root = b \<Longrightarrow> length root = 32 \<Longrightarrow>
     rootMaterial toy_ratchet root (replicate 32 5) [5] = replicate 32 (b + 10)"
  by (cases root) (simp_all add: rootMaterial_def toy_ratchet_def rootKeyUpdateLabel_def string_bytes_def)

lemma toy_Encrypt: "\<exists>x'. Encrypt toy_ratchet (toy_send 5) [] [7] toy_turner = Ret toy_turn x'"
proof -
  have k: "keys_ok toy_turner" "ratchet toy_turner"
    using toy_in_step by (simp_all add: in_step_def)
  have "ScalarMult toy_ratchet (replicate 32 5) (zeros 32) = replicate 32 5" by (simp add: toy_ratchet_def zeros_hd)
  then have h: "replicate 32 10 = rootMaterial toy_ratchet (the (rootKey toy_turner))
      (ScalarMult toy_ratchet (fst (er_dh (toy_send 5))) (the (recvRatchetPublic toy_turner))) [5]"
    using toy_turn_hash [of "zeros 32" 0] by (simp add: toy_turner_def toy_idle_keys toy_idle_more toy_send_def zeros_hd)
  have "msgKeyAt toy_ratchet (hmac_sha3 toy_ratchet (replicate 32 10) chainKeyLabel) 0 = replicate 32 30"
    by (simp add: msgKeyAt_def toy_ratchet_def chainKeyLabel_def messageKeyLabel_def string_bytes_def)
  with Encrypt_turn [where hn = "zeros 24" and mn = "zeros 24" and pq = "[5]" and msg = "[7]",
      OF toy_ratchet_ok k toy_rands(2) _ _ _ _ h refl]
  show ?thesis
    by (simp add: toy_turn_def toy_header_def toy_turner_def toy_idle_more toy_idle_keys toy_send_def)
       (simp add: toy_ratchet_def)
qed

lemma toy_turn_parts:
  "take nonceSize toy_turn = zeros 24"
  "slice nonceSize (sealedHeaderSize toy_ratchet) toy_turn = box_Seal toy_ratchet (zeros 32) (zeros 24) toy_header"
  "drop (sealedHeaderSize toy_ratchet) toy_turn = box_Seal toy_ratchet (replicate 32 30) (zeros 24) [7]"
proof -
  have "length toy_header = headerSize toy_ratchet"
    unfolding toy_header_def by (rule header_fields(1)) (simp_all add: toy_ratchet_def)
  from sealed_fields [OF toy_ratchet_ok _ this, of "zeros 24"] show
    "take nonceSize toy_turn = zeros 24"
    "slice nonceSize (sealedHeaderSize toy_ratchet) toy_turn = box_Seal toy_ratchet (zeros 32) (zeros 24) toy_header"
    "drop (sealedHeaderSize toy_ratchet) toy_turn = box_Seal toy_ratchet (replicate 32 30) (zeros 24) [7]"
    unfolding toy_turn_def by simp_all
qed

lemma toy_turnHash:
  assumes "rootKey r = Some root" "length root = 32" "sendRatchetPrivate r = Some (zeros 32)" "sendPQRatchetPrivate r = Some 0"
  shows "turnHash toy_ratchet r toy_header = replicate 32 (hd root + 10)"
proof -
  have size: "csidh_PublicKeySize toy_ratchet = 1" by (simp add: toy_ratchet_def)
  note f = header_fields [of "replicate 32 5" "[5]" toy_ratchet "zeros 24" 0 0, folded toy_header_def, unfolded size, simplified]
  have "ScalarMult toy_ratchet (zeros 32) (replicate 32 5) = replicate 32 5"
    "the (csidh_DeriveSecret toy_ratchet (the (csidh_ImportPublic toy_ratchet [5])) 0) = [5]"
    by (simp_all add: toy_ratchet_def zeros_hd)
  then show ?thesis using assms f toy_turn_hash [OF refl assms(2)] by (simp add: turnHash_def size)
qed

theorem damaged_message_desyncs_witness:
  "(\<exists>y'. Decrypt toy_ratchet 0 toy_turn (toy_idle 2) = Ret [7] y') \<and>
    Decrypt toy_ratchet 0 (take (sealedHeaderSize toy_ratchet) toy_turn @ []) (toy_idle 2) =
      Err ErrCorruptMessage (turned toy_ratchet (toy_idle 2) toy_header) \<and>
    (\<exists>y'. Decrypt toy_ratchet 0 toy_turn (turned toy_ratchet (toy_idle 2) toy_header) = Err ErrCorruptMessage y')"
proof -
  obtain x' where enc: "Encrypt toy_ratchet (toy_send 5) [] [7] toy_turner = Ret toy_turn x'"
    using toy_Encrypt by blast
  have room: "sendCount toy_turner \<noteq> - 1" by (simp add: toy_turner_def toy_idle_keys)
  have apart: "unmistaken toy_ratchet (toy_idle 2) toy_turn" by (simp add: unmistaken_def toy_idle_keys)
  have header: "box_Open toy_ratchet (the (nextRecvHeaderKey (toy_idle 2))) (take nonceSize toy_turn)
      (slice nonceSize (sealedHeaderSize toy_ratchet) toy_turn) = Some toy_header"
    using toy_ratchet_ok by (simp add: toy_turn_parts toy_idle_more)
  have empty: "box_Open toy_ratchet k n [] = None" for k n
    by (auto simp: toy_ratchet_def zeros_def)
  have "turnHash toy_ratchet (turned toy_ratchet (toy_idle 2) toy_header) toy_header = replicate 32 28"
    using toy_turnHash [of "toy_idle 2" "zeros 32"]
    by (subst toy_turnHash [where root = "replicate 32 18"])
       (simp_all add: turned_def toy_idle_keys toy_idle_more zeros_hd, simp add: toy_ratchet_def rootKeyLabel_def string_bytes_def)
  then have "turnKey toy_ratchet (turned toy_ratchet (toy_idle 2) toy_header) toy_header = replicate 32 48"
    by (simp add: turnKey_def msgKeyAt_def) (simp add: toy_ratchet_def chainKeyLabel_def messageKeyLabel_def string_bytes_def)
  then have genuine: "box_Open toy_ratchet (turnKey toy_ratchet (turned toy_ratchet (toy_idle 2) toy_header) toy_header) n
      (drop (sealedHeaderSize toy_ratchet) toy_turn) = None" for n
    by (simp add: toy_turn_parts) (simp add: toy_ratchet_def)
  show ?thesis
    using damaged_message_desyncs [OF toy_ratchet_ok toy_in_step toy_rands(2) room enc apart header empty genuine, of 0]
    by blast
qed

end
