(* ===== verification/Ratchet_Store.thy ===== *)
theory Ratchet_Store
  imports Ratchet_Safety
begin

text \<open>
  The serialised ratchet: what \<^verbatim>\<open>Save\<close> writes, \<^verbatim>\<open>NewRatchetFromBytes\<close> reads back, except for
  message keys that have outlived their lifetime.
\<close>

section \<open>What is assumed of the encodings\<close>

definition image_codec :: "('s, 'p) ratchet_prims \<Rightarrow> bool" where
  "image_codec P \<longleftrightarrow> (\<forall>s b. image_Marshal P s = Some b \<longrightarrow> image_Unmarshal P b = Some s)"

definition keys_export :: "('s, 'p) ratchet_prims \<Rightarrow> bool" where
  "keys_export P \<longleftrightarrow>
     (\<forall>q. \<exists>b. csidh_ExportPrivate P q = Some b \<and> b \<noteq> [] \<and> csidh_ImportPrivate P b = Some q) \<and>
     (\<forall>p. \<exists>b. csidh_ExportPublic P p = Some b \<and> csidh_ImportPublic P b = Some p)"

section \<open>Reading back\<close>

definition unexpired :: "int \<Rightarrow> u32 \<times> savedKey \<Rightarrow> bool" where
  "unexpired now k \<longleftrightarrow> \<not> now - sk_timestamp (snd k) > RatchetKeyMaxLifetime"

definition restored :: "int \<Rightarrow> ('s, 'p) Ratchet \<Rightarrow> ('s, 'p) Ratchet" where
  "restored now r = r\<lparr>saved := map (\<lambda>(i, e, ks). ((i, snd e), filter (unexpired now) ks)) (enumerate 0 (saved r)),
     allocs := length (saved r)\<rparr>"

text \<open>The image of one saved entry, and the entry read back from it.\<close>

definition entryImage :: "int \<Rightarrow> (nat \<times> bytes) \<times> message_keys \<Rightarrow> cborSavedKeys" where
  "entryImage now e = \<lparr>sv_HeaderKey = snd (fst e),
     sv_MessageKeys = map (\<lambda>(n, k). \<lparr>mk_Num = n, mk_Key = the (sk_key k), mk_CreationTime = sk_timestamp k\<rparr>)
       (filter (unexpired now) (snd e))\<rparr>"

lemma savedImage_ok:
  assumes "length (snd (fst e)) = 32" "\<forall>(n, k)\<in>set (snd e). buf_ok (sk_key k)"
  shows "savedImage now RatchetKeyMaxLifetime e = Ok (entryImage now e)"
proof -
  have one: "keyImage k = Ok \<lparr>mk_Num = fst k, mk_Key = the (sk_key (snd k)), mk_CreationTime = sk_timestamp (snd k)\<rparr>"
    if "buf_ok (sk_key (snd k))" for k
    using that by (auto simp: keyImage_def buf_Bytes_def buf_okE)
  have "omapM keyImage ks = Ok (map (\<lambda>(n, k). \<lparr>mk_Num = n, mk_Key = the (sk_key k), mk_CreationTime = sk_timestamp k\<rparr>) ks)"
    if "\<forall>(n, k)\<in>set ks. buf_ok (sk_key k)" for ks
    using that by (induction ks) (auto simp: one split: prod.splits)
  with assms show ?thesis
    by (auto simp: savedImage_def entryImage_def unexpired_def [abs_def])
qed

lemma restoreKeys_image:
  assumes "length (snd (fst e)) = 32" "\<forall>(n, k)\<in>set (snd e). buf_ok (sk_key k)" "gm_wf (snd e)"
  shows "restoreKeys (entryImage now e) = (Some (snd (fst e)), filter (unexpired now) (snd e))"
proof -
  let ?ks = "filter (unexpired now) (snd e)"
  let ?im = "\<lambda>(n, k). \<lparr>mk_Num = n, mk_Key = the (sk_key k), mk_CreationTime = sk_timestamp k\<rparr>"
  let ?restored = "\<lambda>m. \<lparr>sk_key = Some (mk_Key m), sk_timestamp = mk_CreationTime m\<rparr>"
  have same: "\<lparr>sk_key = Some (the (sk_key k)), sk_timestamp = sk_timestamp k\<rparr> = k" if "buf_ok (sk_key k)" for k :: savedKey
    using that by (cases k) (auto simp: buf_okE)
  have sizes: "filter (\<lambda>m. length (mk_Key m) = keySize) (map ?im ?ks) = map ?im ?ks"
    using assms(2) by (auto simp: filter_id_conv buf_okE keySize_def)
  have nums: "map mk_Num (map ?im ?ks) = map fst ?ks" by auto
  have "distinct (map fst ?ks)" using assms(3) by (simp add: gm_wf_def distinct_map_filter)
  then have "fold (\<lambda>m ks. gm_put ks (mk_Num m) (?restored m)) (map ?im ?ks) [] = map (\<lambda>m. (mk_Num m, ?restored m)) (map ?im ?ks)"
    using fold_put_new [of mk_Num "map ?im ?ks" "[]" ?restored, unfolded nums] by (simp only: gm_keys_Nil append_Nil Int_empty_right)
  also have "\<dots> = ?ks" using assms(2) same by (fastforce intro!: map_idI)
  finally have "fold (\<lambda>m ks. gm_put ks (mk_Num m) (?restored m)) (map ?im ?ks) [] = ?ks" .
  with sizes assms(1) show ?thesis
    by (simp only: restoreKeys_def entryImage_def cborSavedKeys.select_convs keySize_def) (simp add: keySize_def)
qed

lemma restoreSaved_image:
  assumes "\<forall>e\<in>set sv. length (snd (fst e)) = 32 \<and> (\<forall>(n, k)\<in>set (snd e). buf_ok (sk_key k)) \<and> gm_wf (snd e)"
  shows "restoreSaved i (map (entryImage now) sv) =
    Ok (map (\<lambda>(i, e, ks). ((i, snd e), filter (unexpired now) ks)) (enumerate i sv))"
  using assms
proof (induction sv arbitrary: i)
  case (Cons e sv)
  then show ?case by (cases e) (simp add: restoreKeys_image)
qed simp

lemma marshalled_fields:
  assumes "keys_ok r"
  shows "buf_Bytes (rootKey r) = Ok (rootKey r)" "buf_Bytes (sendHeaderKey r) = Ok (sendHeaderKey r)"
    "buf_Bytes (recvHeaderKey r) = Ok (recvHeaderKey r)" "buf_Bytes (nextSendHeaderKey r) = Ok (nextSendHeaderKey r)"
    "buf_Bytes (nextRecvHeaderKey r) = Ok (nextRecvHeaderKey r)" "buf_Bytes (sendChainKey r) = Ok (sendChainKey r)"
    "buf_Bytes (recvChainKey r) = Ok (recvChainKey r)" "buf_Bytes (sendRatchetPrivate r) = Ok (sendRatchetPrivate r)"
    "buf_Bytes (recvRatchetPublic r) = Ok (recvRatchetPublic r)"
  using assms by (auto simp: keys_ok_def buf_okE buf_Bytes_def)

lemma opt_Bytes_back: "k \<noteq> Some [] \<Longrightarrow> opt_Bytes k = Ok k \<and> nonempty k = k"
  by (cases k) (auto simp: opt_Bytes_def buf_Bytes_def nonempty_def)

lemma exported_back:
  assumes "keys_export P"
  shows "q \<noteq> None \<Longrightarrow> \<exists>b. exported n (csidh_ExportPrivate P) q = Ok b \<and> imported (csidh_ImportPrivate P) e b = Ok q"
    "p \<noteq> None \<Longrightarrow> \<exists>b. exported n (csidh_ExportPublic P) p = Ok b \<and> imported (csidh_ImportPublic P) e b = Ok p"
    "\<exists>b. opt_exported n (csidh_ExportPrivate P) q = Ok b \<and> imported (csidh_ImportPrivate P) e (nonempty b) = Ok q"
proof -
  have priv: "\<exists>b. csidh_ExportPrivate P q = Some b \<and> b \<noteq> [] \<and> csidh_ImportPrivate P b = Some q" for q
    using assms by (simp add: keys_export_def)
  have pub: "\<exists>b. csidh_ExportPublic P p = Some b \<and> csidh_ImportPublic P b = Some p" for p
    using assms by (simp add: keys_export_def)
  show "q \<noteq> None \<Longrightarrow> \<exists>b. exported n (csidh_ExportPrivate P) q = Ok b \<and> imported (csidh_ImportPrivate P) e b = Ok q"
    using priv [of "the q"] by (auto simp: exported_def imported_def)
  show "p \<noteq> None \<Longrightarrow> \<exists>b. exported n (csidh_ExportPublic P) p = Ok b \<and> imported (csidh_ImportPublic P) e b = Ok p"
    using pub [of "the p"] by (auto simp: exported_def imported_def)
  show "\<exists>b. opt_exported n (csidh_ExportPrivate P) q = Ok b \<and> imported (csidh_ImportPrivate P) e (nonempty b) = Ok q"
    using priv [of "the q"] by (cases q) (auto simp: opt_exported_def exported_def imported_def nonempty_def)
qed

lemma savedImages_ok:
  assumes "\<forall>e\<in>set sv. length (snd (fst e)) = 32 \<and> (\<forall>(n, k)\<in>set (snd e). buf_ok (sk_key k))"
  shows "omapM (savedImage now RatchetKeyMaxLifetime) sv = Ok (map (entryImage now) sv)"
  using assms by (induction sv) (simp_all add: savedImage_ok)

text \<open>
  C28: A saved ratchet is restored by reading it: \<^verbatim>\<open>Save\<close> of a well-formed ratchet does not fail
  before the encoder, and what the encoder writes is read back as the same ratchet, with the saved
  entries in order under new pointers and without the message keys older than 672 hours.
\<close>

theorem Save_restores:
  assumes "image_codec P" "keys_export P" "ratchet_wf r"
    and "\<forall>e\<in>set (saved r). gm_wf (snd e)" "kxPrivate0 r \<noteq> Some []" "kxPrivate1 r \<noteq> Some []"
  shows "\<exists>s. ratchet_marshal P now RatchetKeyMaxLifetime r = Ok s \<and>
    (\<forall>b. image_Marshal P s = Some b \<longrightarrow> Save P now r = Ok b \<and> NewRatchetFromBytes P b = Ok (restored now r))"
proof -
  have keys: "keys_ok r" and sv: "\<forall>e\<in>set (saved r). length (snd (fst e)) = 32 \<and>
      (\<forall>(n, k)\<in>set (snd e). buf_ok (sk_key k)) \<and> gm_wf (snd e)"
    using assms(3,4) by (fastforce simp: ratchet_wf_def saved_ok_def)+
  then have images: "omapM (savedImage now RatchetKeyMaxLifetime) (saved r) = Ok (map (entryImage now) (saved r))"
    by (intro savedImages_ok) auto
  note bytes = marshalled_fields [OF keys] opt_Bytes_back [OF assms(5)] opt_Bytes_back [OF assms(6)]
  have pq: "sendPQRatchetPrivate r \<noteq> None" "recvPQRatchetPublic r \<noteq> None" using keys by (simp_all add: keys_ok_def)
  obtain sq rq q0 q1 where ex:
      "exported (csidh_PrivateKeySize P) (csidh_ExportPrivate P) (sendPQRatchetPrivate r) = Ok sq"
      "imported (csidh_ImportPrivate P) ErrCSIDHPrivateImport sq = Ok (sendPQRatchetPrivate r)"
      "exported (csidh_PublicKeySize P) (csidh_ExportPublic P) (recvPQRatchetPublic r) = Ok rq"
      "imported (csidh_ImportPublic P) ErrCSIDHPublicImport rq = Ok (recvPQRatchetPublic r)"
      "opt_exported (csidh_PrivateKeySize P) (csidh_ExportPrivate P) (kxPQPrivate0 r) = Ok q0"
      "imported (csidh_ImportPrivate P) ErrFailedToLoadPQRatchet (nonempty q0) = Ok (kxPQPrivate0 r)"
      "opt_exported (csidh_PrivateKeySize P) (csidh_ExportPrivate P) (kxPQPrivate1 r) = Ok q1"
      "imported (csidh_ImportPrivate P) ErrFailedToLoadPQRatchet (nonempty q1) = Ok (kxPQPrivate1 r)"
    using exported_back(1) [OF assms(2) pq(1)] exported_back(2) [OF assms(2) pq(2)]
      exported_back(3) [OF assms(2)] by metis
  have reads: "image_Unmarshal P b = Some s" if "image_Marshal P s = Some b" for s b
    using assms(1) that by (simp add: image_codec_def)
  show ?thesis
    using restoreSaved_image [OF sv, of 0 now]
    by (auto simp: ratchet_marshal_def bytes ex images Save_def NewRatchetFromBytes_def newRatchetFromState_def
        restored_def dest!: reads)
qed

definition toy_image :: ratchet_image where
  "toy_image = (case ratchet_marshal toy_ratchet 0 RatchetKeyMaxLifetime (toy_idle 1) of Ok s \<Rightarrow> s)"

definition toy_store :: "(byte, byte) ratchet_prims" where
  "toy_store = toy_ratchet\<lparr>image_Marshal := (\<lambda>s. if s = toy_image then Some [1] else None),
     image_Unmarshal := (\<lambda>b. Some toy_image)\<rparr>"

theorem Save_restores_witness:
  "Save toy_store 0 (toy_idle 1) = Ok [1] \<and> NewRatchetFromBytes toy_store [1] = Ok (restored 0 (toy_idle 1))"
proof -
  have "image_codec toy_store" by (auto simp: image_codec_def toy_store_def split: if_splits)
  moreover have "keys_export toy_store" by (simp add: keys_export_def toy_store_def toy_ratchet_def)
  moreover have "kxPrivate0 (toy_idle 1) \<noteq> Some []" "kxPrivate1 (toy_idle 1) \<noteq> Some []"
    by (simp_all add: toy_idle_def InitRatchet_def toy_init_def)
  moreover have "ratchet_marshal toy_store 0 RatchetKeyMaxLifetime (toy_idle 1) =
      ratchet_marshal toy_ratchet 0 RatchetKeyMaxLifetime (toy_idle 1)"
    by (simp add: ratchet_marshal_def toy_store_def)
  ultimately show ?thesis
    using Save_restores [OF _ _ toy_idle_wf(2), of toy_store 1 0] by (auto simp: toy_idle_keys toy_image_def toy_store_def)
qed

end
