(* ===== verification/Path_Select.thy ===== *)
theory Path_Select
  imports Pki_Document Epoch_Time Sphinx_Nike
begin

text \<open>
  Path selection (\<^verbatim>\<open>src/core/sphinx/path/path.go\<close>): a route through the layers of a PKI document, with a
  delay for every hop and, for every hop, the mix key of the epoch in which the packet reaches it.

  The parameter \<open>path_env\<close> holds what the routines take from elsewhere: the random generator
  (\<^verbatim>\<open>rng.Intn(n)\<close>, and \<^verbatim>\<open>uint64(rng.ExpFloat64() / lambda)\<close> for a \<open>lambda\<close> given by its bit pattern), and the
  registries of key exchange and KEM schemes, whose entries have different key types in the source.
  Instants are nanoseconds since the Unix epoch, as in \<open>Epoch_Time\<close>.
\<close>

section \<open>The routines\<close>

record ('r, 'pk, 'sk, 'kpk) path_env =
  warped :: bool
  Intn :: "'r \<Rightarrow> nat \<Rightarrow> nat \<times> 'r"
  ExpQuot :: "'r \<Rightarrow> u64 \<Rightarrow> u64 \<times> 'r"
  nike_ByName :: "string \<Rightarrow> ('pk, 'sk) nike_scheme option"
  kem_ByName :: "string \<Rightarrow> (bytes \<Rightarrow> 'kpk option) option"

datatype path_error = ErrLayer pki_error | ErrDestination | ErrSource | ErrSourceLayer
  | ErrNoNodes nat | ErrMixKey | errMaxAttempts

definition maxAttempts :: nat where "maxAttempts = 3"

text \<open>
  \<^verbatim>\<open>rand.Exp\<close> truncated to an integer: the comparison \<^verbatim>\<open>lambda < math.SmallestNonzeroFloat64\<close> holds of the
  two zeros and of every negative number, infinity included, and of no NaN.
\<close>

definition Exp :: "('r, 'pk, 'sk, 'kpk, 'm) path_env_scheme \<Rightarrow> u64 \<Rightarrow> 'r \<Rightarrow> ('e, u64 \<times> 'r) outcome" where
  "Exp E lambda r =
     (if lambda = 0 \<or> 0x8000000000000000 \<le> lambda \<and> lambda \<le> 0xFFF0000000000000 then Panic
      else Ok (ExpQuot E r lambda))"

text \<open>
  The prologue of \<^verbatim>\<open>selectHops\<close>: either the path is the destination alone, or it starts at a layer.  The
  number of hops is the capacity \<^verbatim>\<open>make\<close> is called with.
\<close>

definition hopPlan ::
  "Document \<Rightarrow> MixDescriptor \<Rightarrow> MixDescriptor \<Rightarrow> bool \<Rightarrow> bool \<Rightarrow> u8 \<Rightarrow> u8 \<Rightarrow> (path_error, (nat \<times> int) option) outcome" where
  "hopPlan doc src dst isFromClient isForward srcLayer dstLayer =
     (let layers = int (length (Topology doc)) in
      if isForward then
        if \<not> Provider dst then Fail ErrDestination
        else if isFromClient then
          if \<not> Provider src then Fail ErrSource else Ok (Some (0, layers + 2))
        else if srcLayer = LayerProvider then Ok (Some (0, layers))
        else if int (unat srcLayer) = layers - 1 then Ok None
        else Ok (Some (unat srcLayer + 1, layers - (int (unat srcLayer) + 1)))
      else
        if srcLayer \<noteq> LayerProvider then Fail ErrSourceLayer
        else if dstLayer = LayerProvider then Ok (Some (0, layers + 1))
        else if dstLayer = 0 then Ok None
        else Ok (Some (0, int (unat dstLayer) + 1)))"

text \<open>The loop over the layers from the start layer on; \<open>i\<close> counts from there.\<close>

fun layerHops ::
  "('r, 'pk, 'sk, 'kpk, 'm) path_env_scheme \<Rightarrow> u8 \<Rightarrow> nat \<Rightarrow> MixDescriptor list list \<Rightarrow> 'r \<Rightarrow>
   (path_error, MixDescriptor list \<times> 'r) outcome" where
  "layerHops E dstLayer i [] r = Ok ([], r)"
| "layerHops E dstLayer i (nodes # ls) r =
     (if i = unat dstLayer then Ok ([], r)
      else if length nodes = 0 then Fail (ErrNoNodes i)
      else let (k, r') = Intn E r (length nodes) in
        obind (layerHops E dstLayer (Suc i) ls r') (\<lambda>(hs, r''). Ok (nodes ! k # hs, r'')))"

definition selectHops ::
  "('r, 'pk, 'sk, 'kpk, 'm) path_env_scheme \<Rightarrow> Document \<Rightarrow> MixDescriptor \<Rightarrow> MixDescriptor \<Rightarrow> bool \<Rightarrow> bool \<Rightarrow> 'r \<Rightarrow>
   (path_error, MixDescriptor list \<times> 'r) outcome" where
  "selectHops E doc src dst isFromClient isForward r =
     obind (id_Sum256 src) (\<lambda>idHash.
     obind (omap_err ErrLayer (GetMixLayer doc idHash)) (\<lambda>srcLayer.
     obind (id_Sum256 dst) (\<lambda>idHash.
     obind (omap_err ErrLayer (GetMixLayer doc idHash)) (\<lambda>dstLayer.
     obind (hopPlan doc src dst isFromClient isForward srcLayer dstLayer) (\<lambda>plan.
     case plan of None \<Rightarrow> Ok ([dst], r)
     | Some (startLayer, nHops) \<Rightarrow>
         if nHops < 0 \<or> length (Topology doc) < startLayer then Panic
         else obind (layerHops E dstLayer 0 (drop startLayer (Topology doc)) r) (\<lambda>(hs, r').
           Ok ((if isForward \<and> isFromClient then [src] else []) @ hs @ [dst], r')))))))"

definition UnmarshalMixKeyAsNike ::
  "('r, 'pk, 'sk, 'kpk, 'm) path_env_scheme \<Rightarrow> MixDescriptor \<Rightarrow> u64 \<Rightarrow> geometry \<Rightarrow> (path_error, 'pk) outcome" where
  "UnmarshalMixKeyAsNike E d epoch g = (case nike_ByName E (NIKEName g) of None \<Rightarrow> Panic
     | Some s \<Rightarrow> omap_err (\<lambda>_. ErrMixKey)
         (nike_UnmarshalBinaryPublicKey s (case gm_get (MixKeys d) epoch of Some (Some b) \<Rightarrow> b | _ \<Rightarrow> [])))"

definition UnmarshalMixKeyAsKEM ::
  "('r, 'pk, 'sk, 'kpk, 'm) path_env_scheme \<Rightarrow> MixDescriptor \<Rightarrow> u64 \<Rightarrow> geometry \<Rightarrow> (path_error, 'kpk) outcome" where
  "UnmarshalMixKeyAsKEM E d epoch g = (case kem_ByName E (KEMName g) of None \<Rightarrow> Panic
     | Some k \<Rightarrow> from_option ErrMixKey (k (case gm_get (MixKeys d) epoch of Some (Some b) \<Rightarrow> b | _ \<Rightarrow> [])))"

text \<open>The hop with its identifier and its key, before the commands are appended.\<close>

definition keyedHop ::
  "('r, 'pk, 'sk, 'kpk, 'm) path_env_scheme \<Rightarrow> geometry \<Rightarrow> MixDescriptor \<Rightarrow> u64 \<Rightarrow> bytes \<Rightarrow>
   (path_error, ('pk, 'kpk) PathHop) outcome" where
  "keyedHop E g desc epoch idHash =
     (let h = \<lparr>ph_ID = copy_into (zeros NodeIDLength) idHash, ph_NIKEPublicKey = None, ph_KEMPublicKey = None,
        ph_Commands = []\<rparr> in
      if NIKEName g = []
      then obind (UnmarshalMixKeyAsKEM E desc epoch g) (\<lambda>k. Ok (h\<lparr>ph_KEMPublicKey := Some k\<rparr>))
      else obind (UnmarshalMixKeyAsNike E desc epoch g) (\<lambda>k. Ok (h\<lparr>ph_NIKEPublicKey := Some k\<rparr>)))"

text \<open>
  The delay of a hop: the instant after it, and the command.  The command holds the low 32 bits of
  the delay, the instant is advanced by all of it.
\<close>

definition delayStep ::
  "('r, 'pk, 'sk, 'kpk, 'm) path_env_scheme \<Rightarrow> Document \<Rightarrow> bool \<Rightarrow> int \<Rightarrow> 'r \<Rightarrow>
   (path_error, int \<times> routing_command list \<times> 'r) outcome" where
  "delayStep E doc delayed t r =
     (if delayed then obind (Exp E (Mu doc) r) (\<lambda>(x, r').
        let delay = (if 0 < MuMaxDelay doc \<and> MuMaxDelay doc < x + 1 then MuMaxDelay doc else x + 1) in
        Ok (t + wrap64 (sint delay * 1000000), [NodeDelay (ucast delay)], r'))
      else Ok (t, [], r))"

definition finalCommands :: "bytes \<Rightarrow> bytes option \<Rightarrow> bool \<Rightarrow> routing_command list" where
  "finalCommands recipient surbID isForward =
     Recipient (copy_into (zeros RecipientIDLength) recipient) #
     (case surbID of Some i \<Rightarrow> if \<not> isForward then [SURBReply (copy_into (zeros SURBIDLength) i)] else []
      | None \<Rightarrow> [])"

text \<open>The loop over the descriptors; \<open>None\<close> is the jump back to the selection loop.\<close>

fun buildHops ::
  "('r, 'pk, 'sk, 'kpk, 'm) path_env_scheme \<Rightarrow> geometry \<Rightarrow> Document \<Rightarrow> bytes \<Rightarrow> bytes option \<Rightarrow> bool \<Rightarrow>
   int \<Rightarrow> MixDescriptor list \<Rightarrow> 'r \<Rightarrow> (path_error, (('pk, 'kpk) PathHop list \<times> int) option \<times> 'r) outcome" where
  "buildHops E g doc recipient surbID isForward t [] r = Ok (Some ([], t), r)"
| "buildHops E g doc recipient surbID isForward t (desc # ds) r =
     obind (id_Sum256 desc) (\<lambda>idHash.
     obind (or_panic (FromUnix (warped E) (t div 1000000000))) (\<lambda>(epoch, _, _).
     if \<not> gm_has (MixKeys desc) epoch then Ok (None, r)
     else obind (keyedHop E g desc epoch idHash) (\<lambda>h.
     obind (delayStep E doc (ds \<noteq> [] \<or> surbID \<noteq> None \<and> isForward) t r) (\<lambda>(t', delayCmds, r').
     let h' = h\<lparr>ph_Commands := delayCmds @ (if ds = [] then finalCommands recipient surbID isForward else [])\<rparr> in
     obind (buildHops E g doc recipient surbID isForward t' ds r') (\<lambda>(res, r'').
       Ok (map_option (\<lambda>(path, u). (h' # path, u)) res, r''))))))"

fun attempts ::
  "('r, 'pk, 'sk, 'kpk, 'm) path_env_scheme \<Rightarrow> geometry \<Rightarrow> Document \<Rightarrow> bytes \<Rightarrow> MixDescriptor \<Rightarrow> MixDescriptor \<Rightarrow>
   bytes option \<Rightarrow> int \<Rightarrow> bool \<Rightarrow> bool \<Rightarrow> nat \<Rightarrow> 'r \<Rightarrow>
   (path_error, ('pk, 'kpk) PathHop list \<times> int \<times> 'r) outcome" where
  "attempts E g doc recipient src dst surbID baseTime isFromClient isForward 0 r = Fail errMaxAttempts"
| "attempts E g doc recipient src dst surbID baseTime isFromClient isForward (Suc n) r =
     obind (selectHops E doc src dst isFromClient isForward r) (\<lambda>(descs, r').
     obind (buildHops E g doc recipient surbID isForward baseTime descs r') (\<lambda>(res, r'').
     case res of Some (path, t) \<Rightarrow> Ok (path, t, r'')
     | None \<Rightarrow> attempts E g doc recipient src dst surbID baseTime isFromClient isForward n r''))"

definition path_New ::
  "('r, 'pk, 'sk, 'kpk, 'm) path_env_scheme \<Rightarrow> geometry \<Rightarrow> Document \<Rightarrow> bytes \<Rightarrow> MixDescriptor \<Rightarrow> MixDescriptor \<Rightarrow>
   bytes option \<Rightarrow> int \<Rightarrow> bool \<Rightarrow> bool \<Rightarrow> 'r \<Rightarrow> (path_error, ('pk, 'kpk) PathHop list \<times> int \<times> 'r) outcome" where
  "path_New E g doc recipient src dst surbID baseTime isFromClient isForward r =
     attempts E g doc recipient src dst surbID baseTime isFromClient isForward maxAttempts r"

text \<open>The rendering of a path for debugging: per hop its index, its name and its first delay.\<close>

fun hopDelay :: "routing_command list \<Rightarrow> u32" where
  "hopDelay [] = 0"
| "hopDelay (NodeDelay d # cs) = d"
| "hopDelay (c # cs) = hopDelay cs"

fun decimal :: "nat \<Rightarrow> string" where
  "decimal n = (if n < 10 then [char_of (48 + n)] else decimal (n div 10) @ [char_of (48 + n mod 10)])"

declare decimal.simps [simp del]

fun path_ToString :: "Document \<Rightarrow> nat \<Rightarrow> ('pk, 'kpk) PathHop list \<Rightarrow> (pki_error, string list) outcome" where
  "path_ToString doc idx [] = Ok []"
| "path_ToString doc idx (v # p) =
     obind (GetNodeByKeyHash doc (ph_ID v)) (\<lambda>desc.
     obind (path_ToString doc (Suc idx) p) (\<lambda>s.
       Ok ((''Hop['' @ decimal idx @ ''] '' @ [CHR 0x27] @ Name desc @ [CHR 0x27] @ '' - '' @
            decimal (unat (hopDelay (ph_Commands v))) @ '' ms'') # s)))"

end
