(* ===== verification/Pki_Cache.thy ===== *)
theory Pki_Cache
  imports Pki_Document
begin

text \<open>
  The view a mix or provider has of a PKI document (\<^verbatim>\<open>src/server/internal/pkicache/pkicache.go\<close>): its own
  descriptor, the nodes that may connect to it, and the nodes it connects to.
\<close>

section \<open>The cached document\<close>

record Entry =
  ce_doc :: Document
  ce_self :: MixDescriptor
  incoming :: "(bytes, MixDescriptor) gomap"
  outgoing :: "(bytes, MixDescriptor) gomap"
  all_nodes :: "(bytes, MixDescriptor) gomap"

datatype cache_error = ErrLookup pki_error | ErrSelfLayer u8

definition GetIncomingByID :: "Entry \<Rightarrow> bytes \<Rightarrow> MixDescriptor option" where
  "GetIncomingByID e i = gm_get (incoming e) i"

definition GetOutgoingByID :: "Entry \<Rightarrow> bytes \<Rightarrow> MixDescriptor option" where
  "GetOutgoingByID e i = gm_get (outgoing e) i"

definition GetByID :: "Entry \<Rightarrow> bytes \<Rightarrow> MixDescriptor option" where
  "GetByID e i = gm_get (all_nodes e) i"

definition Outgoing :: "Entry \<Rightarrow> MixDescriptor list" where
  "Outgoing e = map snd (outgoing e)"

definition isOurLayerSane :: "Entry \<Rightarrow> bool \<Rightarrow> (cache_error, bool) outcome" where
  "isOurLayerSane e isProvider =
     (if isProvider \<and> \<not> Provider (ce_self e) then Ok False
      else if \<not> isProvider then obind (id_Sum256 (ce_self e)) (\<lambda>idHash.
        case GetMixLayer (ce_doc e) idHash of
          Panic \<Rightarrow> Panic
        | Fail _ \<Rightarrow> Ok False
        | Ok layer \<Rightarrow> Ok (layer \<noteq> LayerProvider \<and> unat layer < length (Topology (ce_doc e))))
      else Ok True)"

definition incomingLayer :: "Entry \<Rightarrow> (cache_error, u8) outcome" where
  "incomingLayer e = obind (id_Sum256 (ce_self e)) (\<lambda>idHash.
     obind (or_panic (GetMixLayer (ce_doc e) idHash)) (\<lambda>layer.
       Ok (if layer = LayerProvider then of_nat (length (Topology (ce_doc e))) - 1
           else if layer = 0 then LayerProvider else layer - 1)))"

definition outgoingLayer :: "Entry \<Rightarrow> (cache_error, u8) outcome" where
  "outgoingLayer e = obind (id_Sum256 (ce_self e)) (\<lambda>idHash.
     obind (or_panic (GetMixLayer (ce_doc e) idHash)) (\<lambda>layer.
       Ok (if int (unat layer) = int (length (Topology (ce_doc e))) - 1 then LayerProvider
           else if layer = LayerProvider then 0 else layer + 1)))"

definition appendMap ::
  "Document \<Rightarrow> u8 \<Rightarrow> (bytes, MixDescriptor) gomap \<Rightarrow> (cache_error, (bytes, MixDescriptor) gomap) outcome" where
  "appendMap d layer m =
     obind (if layer = LayerProvider then Ok (Providers d)
            else if unat layer < length (Topology d) then Ok (Topology d ! unat layer) else Panic) (\<lambda>nodes.
       ofold (\<lambda>v m. obind (id_Sum256 v) (\<lambda>nodeID. Ok (gm_put m nodeID v))) nodes m)"

definition cache_New :: "Document \<Rightarrow> publicKey \<Rightarrow> bool \<Rightarrow> (cache_error, Entry) outcome" where
  "cache_New d identityKey isProvider =
     obind (omap_err ErrLookup (GetNodeByKeyHash d (pk_Sum256 identityKey))) (\<lambda>self.
     let e = \<lparr>ce_doc = d, ce_self = self, incoming = [], outgoing = [], all_nodes = []\<rparr> in
     obind (isOurLayerSane e isProvider) (\<lambda>sane.
     if \<not> sane then
       obind (omap_err ErrLookup (GetMixLayer d (pk_Sum256 identityKey))) (\<lambda>layer. Fail (ErrSelfLayer layer))
     else
       obind (incomingLayer e) (\<lambda>inl.
       obind (appendMap d inl []) (\<lambda>inc.
       obind (outgoingLayer e) (\<lambda>outl.
       obind (appendMap d outl []) (\<lambda>outg.
       obind (ofold (\<lambda>i. appendMap d (of_nat i)) [0..<length (Topology d)] []) (\<lambda>al.
       obind (appendMap d LayerProvider al) (\<lambda>al.
         Ok (e\<lparr>incoming := inc, outgoing := outg, all_nodes := al\<rparr>)))))))))"

section \<open>Lemmas: the maps of peers\<close>

text \<open>The nodes of a layer; the layer a packet goes to next, and the one it comes from.\<close>

definition layerNodes :: "Document \<Rightarrow> u8 \<Rightarrow> MixDescriptor list" where
  "layerNodes d l = (if l = LayerProvider then Providers d else Topology d ! unat l)"

definition isLayer :: "Document \<Rightarrow> u8 \<Rightarrow> bool" where
  "isLayer d l \<longleftrightarrow> l = LayerProvider \<or> unat l < length (Topology d)"

definition nextLayer :: "Document \<Rightarrow> u8 \<Rightarrow> u8" where
  "nextLayer d l = (if unat l + 1 = length (Topology d) then LayerProvider else if l = LayerProvider then 0 else l + 1)"

definition prevLayer :: "Document \<Rightarrow> u8 \<Rightarrow> u8" where
  "prevLayer d l = (if l = LayerProvider then of_nat (length (Topology d)) - 1
     else if l = 0 then LayerProvider else l - 1)"

abbreviation layered :: "Document \<Rightarrow> bool" where
  "layered d \<equiv> nodes_wf d \<and> length (Topology d) \<le> 255"

lemma unat_Provider [simp]: "unat LayerProvider = 255"
  by (simp add: LayerProvider_def)

lemma topology_pos: "nodes_wf d \<Longrightarrow> 0 < length (Topology d)"
  by (simp add: nodes_wf_def)

lemma not_Provider: "l \<noteq> LayerProvider \<Longrightarrow> unat l < 255" for l :: u8
proof -
  have "unat l < 2 ^ LENGTH(8)" by (rule unsigned_less)
  moreover assume "l \<noteq> LayerProvider"
  ultimately show ?thesis by (simp add: word_unat_eq_iff)
qed

lemma layer_succ: "l \<noteq> LayerProvider \<Longrightarrow> unat (l + 1) = unat l + 1" for l :: u8
  using not_Provider [of l] by (simp add: unat_word_ariths)

lemma layer_pred: "(l :: u8) \<noteq> 0 \<Longrightarrow> unat (l - 1) = unat l - 1"
  by (simp add: unat_minus_one)

lemma nextLayer_isLayer:
  assumes "layered d" "isLayer d l"
  shows "isLayer d (nextLayer d l)"
  using assms topology_pos [of d] layer_succ [of l] by (auto simp: isLayer_def nextLayer_def)

lemma unat_last_layer:
  "layered d \<Longrightarrow> unat (of_nat (length (Topology d)) - 1 :: u8) = length (Topology d) - 1"
  using topology_pos [of d] by (simp add: layer_pred unat_of_nat word_unat_eq_iff)

lemma prev_next:
  assumes "layered d" "isLayer d l"
  shows "prevLayer d (nextLayer d l) = l" "isLayer d (prevLayer d l)" "nextLayer d (prevLayer d l) = l"
proof -
  note P = topology_pos [of d] unat_last_layer [OF assms(1)]
  show "prevLayer d (nextLayer d l) = l"
  proof (cases "unat l + 1 = length (Topology d)")
    case True
    then have "l = of_nat (length (Topology d)) - 1" using P by (simp add: word_unat_eq_iff)
    then show ?thesis using True by (simp add: prevLayer_def nextLayer_def)
  next
    case False
    then have "l \<noteq> LayerProvider \<Longrightarrow> l + 1 \<noteq> LayerProvider \<and> l + 1 \<noteq> 0"
      using assms layer_succ [of l] by (auto simp: isLayer_def dest: arg_cong [of _ _ unat])
    then show ?thesis using False by (auto simp: prevLayer_def nextLayer_def LayerProvider_def)
  qed
  show "isLayer d (prevLayer d l)" "nextLayer d (prevLayer d l) = l"
    using assms P layer_pred [of l] not_Provider [of l] unat_eq_zero [of l]
    by (auto simp: isLayer_def prevLayer_def nextLayer_def)
qed

text \<open>Where a node of the document is found.\<close>

lemma layer_lookup:
  assumes "layered d" "isLayer d l" "x \<in> set (layerNodes d l)"
  shows "GetNodeByKeyHash d (idhash x) = Ok x" "GetMixLayer d (idhash x) = Ok l" "IdentityKey x \<noteq> None"
  using lookup_provider [of d x] lookup_mix [of d "unat l" x] assms nodes_wfD [of d]
  by (auto simp: isLayer_def layerNodes_def dest: nth_mem split: if_splits)

lemma layer_of_node:
  assumes "layered d" "x \<in> set (concat (Topology d) @ Providers d)"
  obtains l where "isLayer d l" "x \<in> set (layerNodes d l)"
proof -
  consider "x \<in> set (Providers d)" | n where "n < length (Topology d)" "x \<in> set (Topology d ! n)"
    using assms(2) by (auto simp: in_set_conv_nth [of _ "Topology d"])
  then show ?thesis
  proof cases
    case 1 then show ?thesis by (intro that [of LayerProvider]) (simp_all add: isLayer_def layerNodes_def)
  next
    case 2
    then have "unat (of_nat n :: u8) = n" using assms(1) by (simp add: unat_of_nat)
    moreover from this have "(of_nat n :: u8) \<noteq> LayerProvider" using 2 assms(1) by (auto dest: arg_cong [of _ _ unat])
    ultimately show ?thesis using 2 by (intro that [of "of_nat n"]) (simp_all add: isLayer_def layerNodes_def)
  qed
qed

definition peerMap :: "MixDescriptor list \<Rightarrow> (bytes, MixDescriptor) gomap \<Rightarrow> (bytes, MixDescriptor) gomap" where
  "peerMap nodes m = fold (\<lambda>v m. gm_put m (idhash v) v) nodes m"

lemma appendMap_eq:
  assumes "layered d" "isLayer d l"
  shows "appendMap d l m = Ok (peerMap (layerNodes d l) m)"
proof -
  have "ofold (\<lambda>v m. obind (id_Sum256 v) (\<lambda>nodeID. Ok (gm_put m nodeID v))) nodes m = Ok (peerMap nodes m)"
    if "\<forall>v\<in>set nodes. IdentityKey v \<noteq> None" for nodes m
    using that by (induction nodes arbitrary: m) (auto simp: peerMap_def id_Sum256_def idhash_def)
  from this [of "layerNodes d l"] show ?thesis
    using layer_lookup(3) [OF assms] assms(2)
    by (cases "l = LayerProvider") (simp_all add: appendMap_def isLayer_def layerNodes_def)
qed

lemma peerMap_Cons [simp]: "peerMap (x # nodes) m = peerMap nodes (gm_put m (idhash x) x)"
  by (simp add: peerMap_def)

lemma peerMap_Nil [simp]: "peerMap [] m = m"
  by (simp add: peerMap_def)

lemma peerMap_get: "gm_get (peerMap nodes m) h = Some v \<Longrightarrow> v \<in> set nodes \<and> idhash v = h \<or> gm_get m h = Some v"
  by (induction nodes arbitrary: m) (fastforce split: if_splits)+

lemma peerMap_other: "h \<notin> idhash ` set nodes \<Longrightarrow> gm_get (peerMap nodes m) h = gm_get m h"
  by (induction nodes arbitrary: m) auto

lemma peerMap_found:
  "distinct (map idhash nodes) \<Longrightarrow> v \<in> set nodes \<Longrightarrow> gm_get (peerMap nodes m) (idhash v) = Some v"
proof (induction nodes arbitrary: m)
  case (Cons x nodes)
  then show ?case using peerMap_other [of "idhash x" nodes "gm_put m (idhash x) x"] by auto
qed simp

lemma layer_distinct:
  assumes "layered d" "isLayer d l"
  shows "distinct (map idhash (layerNodes d l))"
proof -
  have "distinct (map idhash (Topology d ! n))" if "n < length (Topology d)" for n
    using nodes_wfD(3) [of d] assms(1) nth_mem [OF that] by (auto simp: map_concat distinct_concat_iff)
  then show ?thesis using assms nodes_wfD(4) [of d] by (auto simp: isLayer_def layerNodes_def)
qed

lemma peer_iff:
  assumes "layered d" "isLayer d l"
  shows "gm_get (peerMap (layerNodes d l) []) h = Some v \<longleftrightarrow> v \<in> set (layerNodes d l) \<and> idhash v = h"
  using peerMap_get [of "layerNodes d l" "[]" h v] peerMap_found [OF layer_distinct [OF assms], of v "[]"]
  by (auto simp: gm_get_def)

subsection \<open>The entry of a node\<close>

lemma all_layers:
  assumes "layered d"
  shows "ofold (\<lambda>i. appendMap d (of_nat i)) [0..<length (Topology d)] [] = Ok (peerMap (concat (Topology d)) [])"
proof -
  have one: "appendMap d (of_nat n) m = Ok (peerMap (Topology d ! n) m)" if "n < length (Topology d)" for n m
  proof -
    have n: "unat (of_nat n :: u8) = n" using assms that by (simp add: unat_of_nat)
    then have "(of_nat n :: u8) \<noteq> LayerProvider" using assms that by (auto dest: arg_cong [of _ _ unat])
    then show ?thesis using appendMap_eq [OF assms, of "of_nat n"] that n by (simp add: isLayer_def layerNodes_def)
  qed
  have "ofold (\<lambda>i. appendMap d (of_nat i)) [0..<n] [] = Ok (peerMap (concat (take n (Topology d))) [])"
    if "n \<le> length (Topology d)" for n
    using that by (induction n) (simp_all add: peerMap_def ofold_append one take_Suc_conv_app_nth)
  then show ?thesis by simp
qed

lemma node_Sum256: "IdentityKey x \<noteq> None \<Longrightarrow> id_Sum256 x = Ok (idhash x)"
  by (auto simp: id_Sum256_def idhash_def)

lemma isOurLayerSane_eq:
  assumes "layered (ce_doc e)" "isLayer (ce_doc e) l" "ce_self e \<in> set (layerNodes (ce_doc e) l)"
  shows "isOurLayerSane e p = Ok (if p then Provider (ce_self e) else l \<noteq> LayerProvider)"
  using layer_lookup [OF assms] assms(2)
  by (cases p) (auto simp: isOurLayerSane_def isLayer_def node_Sum256)

lemma cache_New_eq:
  assumes "layered d" "isLayer d l" "x \<in> set (layerNodes d l)" "pk_Sum256 k = idhash x"
    and "p \<longrightarrow> Provider x" "\<not> p \<longrightarrow> l \<noteq> LayerProvider"
  shows "cache_New d k p = Ok \<lparr>ce_doc = d, ce_self = x, incoming = peerMap (layerNodes d (prevLayer d l)) [],
    outgoing = peerMap (layerNodes d (nextLayer d l)) [],
    all_nodes = peerMap (Providers d) (peerMap (concat (Topology d)) [])\<rparr>"
proof -
  note L = layer_lookup [OF assms(1-3)]
  let ?e = "\<lparr>ce_doc = d, ce_self = x, incoming = [], outgoing = [], all_nodes = []\<rparr>"
  have sane: "isOurLayerSane ?e p = Ok True"
    using assms(1-3,5,6) by (subst isOurLayerSane_eq [of _ l]) simp_all
  have inl: "incomingLayer ?e = Ok (prevLayer d l)"
    using L by (simp add: incomingLayer_def node_Sum256 or_panic_def prevLayer_def)
  have "int (unat l) = int (length (Topology d)) - 1 \<longleftrightarrow> unat l + 1 = length (Topology d)" by linarith
  then have outl: "outgoingLayer ?e = Ok (nextLayer d l)"
    unfolding nextLayer_def using L by (simp add: outgoingLayer_def node_Sum256 or_panic_def del: of_nat_unat)
  have prov: "isLayer d LayerProvider" "layerNodes d LayerProvider = Providers d"
    by (simp_all add: isLayer_def layerNodes_def)
  note maps = appendMap_eq [OF assms(1) prev_next(2) [OF assms(1,2)]]
    appendMap_eq [OF assms(1) nextLayer_isLayer [OF assms(1,2)]]
    appendMap_eq [OF assms(1) prov(1), unfolded prov(2)] all_layers [OF assms(1)]
  show ?thesis by (simp add: cache_New_def Let_def assms(4) L sane inl outl maps)
qed

lemma cache_New_OkD:
  assumes "layered d" "cache_New d k p = Ok e"
  obtains l where "isLayer d l" "ce_self e \<in> set (layerNodes d l)" "pk_Sum256 k = idhash (ce_self e)"
    "incoming e = peerMap (layerNodes d (prevLayer d l)) []" "outgoing e = peerMap (layerNodes d (nextLayer d l)) []"
proof -
  have "pk_Sum256 k \<in> idhash ` set (concat (Topology d) @ Providers d)"
    using lookup_absent [of d "pk_Sum256 k"] assms by (force simp: cache_New_def obind_Ok_iff)
  then obtain x where x: "x \<in> set (concat (Topology d) @ Providers d)" "pk_Sum256 k = idhash x" by blast
  from layer_of_node [OF assms(1) x(1)] obtain l where l: "isLayer d l" "x \<in> set (layerNodes d l)" .
  note L = layer_lookup [OF assms(1) l]
  have "isOurLayerSane \<lparr>ce_doc = d, ce_self = x, incoming = [], outgoing = [], all_nodes = []\<rparr> p =
      Ok (if p then Provider x else l \<noteq> LayerProvider)"
    using assms(1) l by (subst isOurLayerSane_eq [of _ l]) simp_all
  then have "p \<longrightarrow> Provider x" "\<not> p \<longrightarrow> l \<noteq> LayerProvider"
    using assms(2) L(1,2) x(2) by (auto simp: cache_New_def Let_def split: if_splits)
  from cache_New_eq [OF assms(1) l x(2) this] assms(2) show ?thesis using l x(2) that by auto
qed

lemma node_layer:
  assumes "layered d" "isLayer d l" "isLayer d l'" "x \<in> set (layerNodes d l)" "y \<in> set (layerNodes d l')" "idhash x = idhash y"
  shows "l = l' \<and> x = y"
  using layer_lookup(1,2) [OF assms(1,2,4)] layer_lookup(1,2) [OF assms(1,3,5)] assms(6) by (metis outcome.inject(1))

text \<open>A node of a layer and a node of the next one can be connected, from either side.\<close>

lemma linked_peers:
  assumes "layered d" "isLayer d l" "a \<in> set (layerNodes d l)" "b \<in> set (layerNodes d (nextLayer d l))"
    and "cache_New d ka pa = Ok ea" "ce_self ea = a" "cache_New d kb pb = Ok eb" "ce_self eb = b"
  shows "GetOutgoingByID ea (idhash b) = Some b" "GetIncomingByID eb (idhash a) = Some a"
proof -
  note n = nextLayer_isLayer [OF assms(1,2)]
  obtain la where la: "isLayer d la" "a \<in> set (layerNodes d la)" "outgoing ea = peerMap (layerNodes d (nextLayer d la)) []"
    using cache_New_OkD [OF assms(1,5)] assms(6) by metis
  obtain lb where lb: "isLayer d lb" "b \<in> set (layerNodes d lb)" "incoming eb = peerMap (layerNodes d (prevLayer d lb)) []"
    using cache_New_OkD [OF assms(1,7)] assms(8) by metis
  have "la = l" "lb = nextLayer d l"
    using node_layer [OF assms(1) la(1) assms(2) la(2) assms(3)] node_layer [OF assms(1) lb(1) n lb(2) assms(4)] by simp_all
  then show "GetOutgoingByID ea (idhash b) = Some b" "GetIncomingByID eb (idhash a) = Some a"
    using la(3) lb(3) peer_iff [OF assms(1) n, of "idhash b" b] peer_iff [OF assms(1,2), of "idhash a" a] assms(3,4)
      prev_next(1) [OF assms(1,2)] by (simp_all add: GetOutgoingByID_def GetIncomingByID_def)
qed

lemma unlinked_peers:
  assumes "layered d" "cache_New d ka pa = Ok ea" "cache_New d kb pb = Ok eb"
    and "GetOutgoingByID ea (pk_Sum256 kb) \<noteq> None \<or> GetIncomingByID eb (pk_Sum256 ka) \<noteq> None"
  shows "GetOutgoingByID ea (pk_Sum256 kb) = Some (ce_self eb) \<and> GetIncomingByID eb (pk_Sum256 ka) = Some (ce_self ea)"
proof -
  obtain la where la: "isLayer d la" "ce_self ea \<in> set (layerNodes d la)" "pk_Sum256 ka = idhash (ce_self ea)"
    "outgoing ea = peerMap (layerNodes d (nextLayer d la)) []"
    using cache_New_OkD [OF assms(1,2)] by metis
  obtain lb where lb: "isLayer d lb" "ce_self eb \<in> set (layerNodes d lb)" "pk_Sum256 kb = idhash (ce_self eb)"
    "incoming eb = peerMap (layerNodes d (prevLayer d lb)) []"
    using cache_New_OkD [OF assms(1,3)] by metis
  note n = nextLayer_isLayer [OF assms(1) la(1)] and p = prev_next [OF assms(1) lb(1)]
  from assms(4) have "lb = nextLayer d la"
  proof
    assume "GetOutgoingByID ea (pk_Sum256 kb) \<noteq> None"
    then obtain v where "v \<in> set (layerNodes d (nextLayer d la))" "idhash v = idhash (ce_self eb)"
      using peer_iff [OF assms(1) n] la(4) lb(3) by (auto simp: GetOutgoingByID_def)
    then show ?thesis using node_layer [OF assms(1) lb(1) n lb(2)] by metis
  next
    assume "GetIncomingByID eb (pk_Sum256 ka) \<noteq> None"
    then obtain v where "v \<in> set (layerNodes d (prevLayer d lb))" "idhash v = idhash (ce_self ea)"
      using peer_iff [OF assms(1) p(2)] lb(4) la(3) by (auto simp: GetIncomingByID_def)
    then show ?thesis using node_layer [OF assms(1) la(1) p(2) la(2)] p(3) by metis
  qed
  then show ?thesis
    using linked_peers [OF assms(1) la(1,2) _ assms(2) refl assms(3) refl] lb(2,3) la(3) by simp
qed

section \<open>Property\<close>

text \<open>
  C36: two nodes with an entry for the same well-formed document of at most 255 layers agree on their
  connection: either the first lists the second as an outgoing and the second lists the first as an
  incoming peer, each with the descriptor the other has of itself, or neither lists the other.
\<close>

theorem connections_agree:
  assumes "IsDocumentWellFormed L current d verifiers = Ok ()" and "length (Topology d) \<le> 255"
    and "cache_New d ka pa = Ok ea" and "cache_New d kb pb = Ok eb"
  shows "GetOutgoingByID ea (pk_Sum256 kb) = Some (ce_self eb) \<and> GetIncomingByID eb (pk_Sum256 ka) = Some (ce_self ea) \<or>
    GetOutgoingByID ea (pk_Sum256 kb) = None \<and> GetIncomingByID eb (pk_Sum256 ka) = None"
  using unlinked_peers [OF _ assms(3,4)] IsDocumentWellFormed_parts(1) [OF assms(1)] assms(2) by blast

theorem connections_agree_witness:
  "\<exists>ea eb. cache_New demo_doc (snd (toy_signer 2)) False = Ok ea \<and> cache_New demo_doc (snd (toy_signer 3)) True = Ok eb \<and>
    GetOutgoingByID ea (pk_Sum256 (snd (toy_signer 3))) = Some (toy_desc 3 True) \<and>
    GetIncomingByID eb (pk_Sum256 (snd (toy_signer 2))) = Some (toy_desc 2 False)"
proof -
  have l: "layered demo_doc" using IsDocumentWellFormed_parts(1) [OF demo_doc_wf] by simp
  have m: "isLayer demo_doc 1" "toy_desc 2 False \<in> set (layerNodes demo_doc 1)" "nextLayer demo_doc 1 = LayerProvider"
    "isLayer demo_doc LayerProvider" "toy_desc 3 True \<in> set (layerNodes demo_doc LayerProvider)"
    by (simp_all add: isLayer_def layerNodes_def nextLayer_def LayerProvider_def)
  obtain ea where a: "cache_New demo_doc (snd (toy_signer 2)) False = Ok ea" "ce_self ea = toy_desc 2 False"
    using cache_New_eq [OF l m(1,2), of "snd (toy_signer 2)" False] by (auto simp: LayerProvider_def)
  obtain eb where b: "cache_New demo_doc (snd (toy_signer 3)) True = Ok eb" "ce_self eb = toy_desc 3 True"
    using cache_New_eq [OF l m(4,5), of "snd (toy_signer 3)" True] by auto
  have "GetOutgoingByID ea (idhash (toy_desc 3 True)) \<noteq> None"
    using linked_peers(1) [OF l m(1,2) _ a b] m(3,5) by simp
  then show ?thesis using connections_agree [OF demo_doc_wf _ a(1) b(1)] a b by auto
qed

end
