(* ===== verification/Path_Route.thy ===== *)
theory Path_Route
  imports Path_Select Pki_Cache
begin

text \<open>
  Path selection against the rest of the network: consecutive hops of a selected path are peers that may
  connect to each other (\<^verbatim>\<open>pkicache.go\<close>), the key of a hop is the one of the epoch in which the packet
  reaches it, and a Sphinx packet made for the path is delivered (\<open>Sphinx_Nike\<close>).
\<close>

section \<open>The layers of a path\<close>

definition intn_ok :: "('r, 'pk, 'sk, 'kpk, 'm) path_env_scheme \<Rightarrow> bool" where
  "intn_ok E \<longleftrightarrow> (\<forall>r n. 0 < n \<longrightarrow> fst (Intn E r n) < n)"

lemma layerHops_Ok:
  assumes "intn_ok E" "\<forall>l\<in>set ls. l \<noteq> []" "i \<le> unat dstLayer"
  shows "\<exists>hs r'. layerHops E dstLayer i ls r = Ok (hs, r') \<and> length hs = min (unat dstLayer - i) (length ls) \<and>
    (\<forall>j<length hs. hs ! j \<in> set (ls ! j))"
  using assms(2,3)
proof (induction ls arbitrary: i r)
  case (Cons nodes ls)
  show ?case
  proof (cases "i = unat dstLayer")
    case False
    obtain k r' where k: "Intn E r (length nodes) = (k, r')" by fastforce
    have "k < length nodes" using assms(1) Cons.prems(1) k unfolding intn_ok_def
      by (metis fst_conv length_greater_0_conv list.set_intros(1))
    moreover obtain hs r'' where "layerHops E dstLayer (Suc i) ls r' = Ok (hs, r'')"
      "length hs = min (unat dstLayer - Suc i) (length ls)" "\<forall>j<length hs. hs ! j \<in> set (ls ! j)"
      using Cons.IH [of "Suc i" r'] Cons.prems False by auto
    ultimately show ?thesis using Cons.prems False k
      by (auto simp: nth_Cons min_def not_le split: nat.splits intro!: Suc_diff_Suc)
  qed simp
qed simp

text \<open>The layer of a position of a full path, the providers being after the last layer.\<close>

definition layerAt :: "Document \<Rightarrow> nat \<Rightarrow> u8" where
  "layerAt d n = (if n = length (Topology d) then LayerProvider else of_nat n)"

definition linked :: "Document \<Rightarrow> MixDescriptor \<Rightarrow> MixDescriptor \<Rightarrow> bool" where
  "linked d a b \<longleftrightarrow> (\<exists>l. isLayer d l \<and> a \<in> set (layerNodes d l) \<and> b \<in> set (layerNodes d (nextLayer d l)))"

lemma layerAt_nat:
  assumes "layered d" "n < length (Topology d)"
  shows "unat (layerAt d n) = n" "layerAt d n \<noteq> LayerProvider"
proof -
  show "unat (layerAt d n) = n" using assms by (simp add: layerAt_def unat_of_nat)
  then show "layerAt d n \<noteq> LayerProvider" using assms by (auto dest: arg_cong [of _ _ unat])
qed

lemma layerAt_layer:
  assumes "layered d"
  shows "n \<le> length (Topology d) \<Longrightarrow> isLayer d (layerAt d n)"
    and "n < length (Topology d) \<Longrightarrow> nextLayer d (layerAt d n) = layerAt d (Suc n)"
    and "nextLayer d LayerProvider = layerAt d 0"
    and "n < length (Topology d) \<Longrightarrow> layerNodes d (layerAt d n) = Topology d ! n"
proof -
  show "n \<le> length (Topology d) \<Longrightarrow> isLayer d (layerAt d n)"
    using layerAt_nat [OF assms, of n] by (cases "n = length (Topology d)") (auto simp: isLayer_def layerAt_def)
  show "n < length (Topology d) \<Longrightarrow> nextLayer d (layerAt d n) = layerAt d (Suc n)"
    using layerAt_nat [OF assms, of n] by (auto simp: nextLayer_def layerAt_def)
  show "nextLayer d LayerProvider = layerAt d 0"
    using assms topology_pos [of d] by (auto simp: nextLayer_def layerAt_def)
  show "n < length (Topology d) \<Longrightarrow> layerNodes d (layerAt d n) = Topology d ! n"
    using layerAt_nat [OF assms, of n] by (auto simp: layerNodes_def)
qed

lemma route_linked:
  assumes "layered d" "\<forall>j<length hs. hs ! j \<in> set (Topology d ! (s + j))" "s + length hs \<le> length (Topology d)"
    and "isLayer d l" "x \<in> set (layerNodes d l)" "nextLayer d l = layerAt d s"
    and "b \<in> set (layerNodes d (layerAt d (s + length hs)))"
  shows "successively (linked d) (x # hs @ [b])"
  using assms(2-)
proof (induction hs arbitrary: s l x)
  case Nil
  then show ?case by (auto simp: linked_def)
next
  case (Cons h hs)
  have h: "h \<in> set (layerNodes d (layerAt d s))" using Cons.prems(1,2) layerAt_layer(4) [OF assms(1), of s] by auto
  then have "linked d x h" using Cons.prems(3-5) by (auto simp: linked_def)
  moreover have "\<forall>j<length hs. hs ! j \<in> set (Topology d ! (Suc s + j))"
    using Cons.prems(1) by (metis Suc_less_eq add_Suc_shift length_Cons nth_Cons_Suc)
  then have "successively (linked d) (h # hs @ [b])"
    using Cons.prems(2,6) h layerAt_layer(1,2) [OF assms(1), of s] by (intro Cons.IH [of "Suc s" "layerAt d s"]) auto
  ultimately show ?case by simp
qed

text \<open>The roles of the descriptors are those of the lists they are in.\<close>

definition roles_ok :: "Document \<Rightarrow> bool" where
  "roles_ok d \<longleftrightarrow> (\<forall>x\<in>set (concat (Topology d)). \<not> Provider x) \<and> (\<forall>x\<in>set (Providers d). Provider x)"

lemma node_position:
  assumes "layered d" "roles_ok d" "x \<in> set (concat (Topology d) @ Providers d)"
  obtains n where "n \<le> length (Topology d)" "x \<in> set (layerNodes d (layerAt d n))" "IdentityKey x \<noteq> None"
    "GetMixLayer d (idhash x) = Ok (layerAt d n)" "Provider x \<longleftrightarrow> n = length (Topology d)"
proof -
  obtain l where l: "isLayer d l" "x \<in> set (layerNodes d l)" by (rule layer_of_node [OF assms(1,3)])
  define n where "n = (if l = LayerProvider then length (Topology d) else unat l)"
  have n: "n \<le> length (Topology d)" "layerAt d n = l"
    using l(1) not_Provider [of l] by (auto simp: n_def layerAt_def isLayer_def)
  have "Provider x \<longleftrightarrow> n = length (Topology d)"
    using l assms(2) by (auto simp: n_def roles_ok_def layerNodes_def isLayer_def dest: nth_mem)
  then show ?thesis using that n l layer_lookup [OF assms(1) l] by metis
qed

lemma hops_in_document:
  assumes "\<forall>j<length hs. hs ! j \<in> set (Topology d ! (s + j))" "s + length hs \<le> length (Topology d)"
  shows "set hs \<subseteq> set (concat (Topology d))"
  using assms nth_mem [of _ "Topology d"] by (fastforce simp: in_set_conv_nth [of _ hs])

text \<open>The position after which the path starts, and the one at which it ends.\<close>

definition afterLayer :: "Document \<Rightarrow> nat \<Rightarrow> nat" where
  "afterLayer d m = (if m = length (Topology d) then 0 else m + 1)"

lemma hopPlan_Ok:
  assumes "layered d" "m \<le> length (Topology d)" "n \<le> length (Topology d)"
    and "Provider src \<longleftrightarrow> m = length (Topology d)" "Provider dst \<longleftrightarrow> n = length (Topology d)"
    and "hopPlan d src dst isFromClient isForward (layerAt d m) (layerAt d n) = Ok plan"
  shows "(isForward \<longrightarrow> n = length (Topology d)) \<and> (\<not> isForward \<or> isFromClient \<longrightarrow> m = length (Topology d)) \<and>
    (plan = None \<and> n = afterLayer d m \<and> \<not> (isForward \<and> isFromClient) \<or>
     (\<exists>k\<ge>0. plan = Some (afterLayer d m, k) \<and> afterLayer d m \<le> n))"
proof -
  have prov: "layerAt d i = LayerProvider \<longleftrightarrow> i = length (Topology d)" if "i \<le> length (Topology d)" for i
    using layerAt_nat(2) [OF assms(1), of i] that by (auto simp: layerAt_def)
  have un: "i < length (Topology d) \<Longrightarrow> unat (layerAt d i) = i" for i using layerAt_nat(1) [OF assms(1)] .
  have zero: "layerAt d n = 0 \<longleftrightarrow> n = 0"
    using un [of n] topology_pos [of d] assms(1,3) by (cases "n = length (Topology d)") (auto simp: layerAt_def LayerProvider_def unat_eq_zero)
  consider (client) "isForward" "isFromClient" | (server) "isForward" "\<not> isFromClient" | (reply) "\<not> isForward" by blast
  then show ?thesis
  proof cases
    case client
    then show ?thesis using assms(2-) by (auto simp: hopPlan_def Let_def afterLayer_def split: if_splits)
  next
    case server
    then show ?thesis using assms(2-) prov [OF assms(2)] un [of m]
      by (cases "m = length (Topology d)") (auto simp: hopPlan_def Let_def afterLayer_def split: if_splits)
  next
    case reply
    then show ?thesis using assms(2-) prov [OF assms(2)] prov [OF assms(3)] zero
      by (cases "n = length (Topology d)") (auto simp: hopPlan_def Let_def afterLayer_def split: if_splits)
  qed
qed

lemma selectHops_shape:
  assumes "layered d" "roles_ok d" "intn_ok E"
    and "src \<in> set (concat (Topology d) @ Providers d)" "dst \<in> set (concat (Topology d) @ Providers d)"
    and "selectHops E d src dst isFromClient isForward r = Ok (descs, r')"
  obtains m hs where "m \<le> length (Topology d)" "src \<in> set (layerNodes d (layerAt d m))"
    "afterLayer d m + length hs \<le> length (Topology d)" "\<forall>j<length hs. hs ! j \<in> set (Topology d ! (afterLayer d m + j))"
    "dst \<in> set (layerNodes d (layerAt d (afterLayer d m + length hs)))"
    "descs = (if isForward \<and> isFromClient then [src] else []) @ hs @ [dst]"
proof -
  obtain m where m: "m \<le> length (Topology d)" "src \<in> set (layerNodes d (layerAt d m))" "IdentityKey src \<noteq> None"
    "GetMixLayer d (idhash src) = Ok (layerAt d m)" "Provider src \<longleftrightarrow> m = length (Topology d)"
    by (rule node_position [OF assms(1,2,4)])
  obtain n where n: "n \<le> length (Topology d)" "dst \<in> set (layerNodes d (layerAt d n))" "IdentityKey dst \<noteq> None"
    "GetMixLayer d (idhash dst) = Ok (layerAt d n)" "Provider dst \<longleftrightarrow> n = length (Topology d)"
    by (rule node_position [OF assms(1,2,5)])
  let ?s = "afterLayer d m"
  obtain plan where plan: "hopPlan d src dst isFromClient isForward (layerAt d m) (layerAt d n) = Ok plan"
    and run: "(case plan of None \<Rightarrow> Ok ([dst], r) | Some (startLayer, nHops) \<Rightarrow>
         if nHops < 0 \<or> length (Topology d) < startLayer then Panic
         else obind (layerHops E (layerAt d n) 0 (drop startLayer (Topology d)) r) (\<lambda>(hs, r').
           Ok ((if isForward \<and> isFromClient then [src] else []) @ hs @ [dst], r'))) = Ok (descs, r')"
    using assms(6) by (auto simp: selectHops_def node_Sum256 [OF m(3)] node_Sum256 [OF n(3)] m(4) n(4) obind_Ok_iff)
  from hopPlan_Ok [OF assms(1) m(1) n(1) m(5) n(5) plan] show ?thesis
  proof (elim conjE disjE exE)
    assume "plan = None" "n = ?s" "\<not> (isForward \<and> isFromClient)"
    then show ?thesis using that [of m "[]"] m(1,2) n(1,2) run by auto
  next
    fix k :: int
    assume f: "isForward \<longrightarrow> n = length (Topology d)" and k: "k \<ge> 0" "plan = Some (?s, k)" "?s \<le> n"
      and b: "\<not> isForward \<or> isFromClient \<longrightarrow> m = length (Topology d)"
    have ne: "\<forall>l\<in>set (drop ?s (Topology d)). l \<noteq> []" using assms(1) by (auto simp: nodes_wf_def dest: in_set_dropD)
    obtain hs r2 where hs: "layerHops E (layerAt d n) 0 (drop ?s (Topology d)) r = Ok (hs, r2)"
      "length hs = min (unat (layerAt d n)) (length (Topology d) - ?s)" "\<forall>j<length hs. hs ! j \<in> set (drop ?s (Topology d) ! j)"
      using layerHops_Ok [OF assms(3) ne, of 0 "layerAt d n" r] by auto
    have len: "?s + length hs = n"
      using hs(2) f b k(3) n(1) assms(1) layerAt_nat(1) [OF assms(1), of n]
      by (cases "n = length (Topology d)") (auto simp: layerAt_def afterLayer_def)
    then have "\<forall>j<length hs. hs ! j \<in> set (Topology d ! (?s + j))" using hs(3) n(1) by auto
    then show ?thesis using that [of m hs] m(1,2) n(1,2) run len hs(1) k by auto
  qed
qed

lemma selectHops_linked:
  assumes "layered d" "roles_ok d" "intn_ok E"
    and "src \<in> set (concat (Topology d) @ Providers d)" "dst \<in> set (concat (Topology d) @ Providers d)"
    and "selectHops E d src dst isFromClient isForward r = Ok (descs, r')"
  shows "successively (linked d) (if isForward \<and> isFromClient then descs else src # descs)"
    and "set descs \<subseteq> set (concat (Topology d) @ Providers d)" "descs \<noteq> []" "last descs = dst"
proof -
  from selectHops_shape [OF assms] obtain m hs where h: "m \<le> length (Topology d)" "src \<in> set (layerNodes d (layerAt d m))"
    "afterLayer d m + length hs \<le> length (Topology d)" "\<forall>j<length hs. hs ! j \<in> set (Topology d ! (afterLayer d m + j))"
    "dst \<in> set (layerNodes d (layerAt d (afterLayer d m + length hs)))"
    "descs = (if isForward \<and> isFromClient then [src] else []) @ hs @ [dst]" .
  have "nextLayer d (layerAt d m) = layerAt d (afterLayer d m)"
    using h(1) layerAt_layer(2) [OF assms(1), of m] layerAt_layer(3) [OF assms(1)] by (auto simp: afterLayer_def layerAt_def)
  then have "successively (linked d) (src # hs @ [dst])"
    by (rule route_linked [OF assms(1) h(4,3) layerAt_layer(1) [OF assms(1) h(1)] h(2) _ h(5)])
  then show "successively (linked d) (if isForward \<and> isFromClient then descs else src # descs)"
    using h(6) by simp
  show "set descs \<subseteq> set (concat (Topology d) @ Providers d)" "descs \<noteq> []" "last descs = dst"
    using h(6) hops_in_document [OF h(4,3)] assms(4,5) by auto
qed

text \<open>From a client to a provider the selection succeeds.\<close>

lemma selectHops_client:
  assumes "layered d" "roles_ok d" "intn_ok E" "src \<in> set (Providers d)" "dst \<in> set (Providers d)"
  shows "\<exists>descs r'. selectHops E d src dst True True r = Ok (descs, r') \<and> length descs = length (Topology d) + 2 \<and>
    hd descs = src"
proof -
  have ne: "\<forall>l\<in>set (Topology d). l \<noteq> []" using assms(1) by (simp add: nodes_wf_def)
  have roles: "Provider src" "Provider dst" using assms(2,4,5) by (auto simp: roles_ok_def)
  have "isLayer d LayerProvider" "layerNodes d LayerProvider = Providers d" by (simp_all add: isLayer_def layerNodes_def)
  then have L: "GetMixLayer d (idhash x) = Ok LayerProvider" "IdentityKey x \<noteq> None" if "x \<in> set (Providers d)" for x
    using layer_lookup [OF assms(1), of LayerProvider x] that by simp_all
  from layerHops_Ok [OF assms(3) ne, of 0 LayerProvider r] obtain hs r' where
    "layerHops E LayerProvider 0 (Topology d) r = Ok (hs, r')" "length hs = length (Topology d)"
    using assms(1) by auto
  then show ?thesis
    using roles L [OF assms(4)] L [OF assms(5)] by (simp add: selectHops_def node_Sum256 hopPlan_def Let_def)
qed

section \<open>Delays and keys\<close>

text \<open>
  The instants at which a packet reaches the hops of a path if every hop keeps it for the delay of its
  command, and the one at which it leaves the last hop.
\<close>

definition hopWait :: "('pk, 'kpk) PathHop \<Rightarrow> int" where
  "hopWait h = uint (hopDelay (ph_Commands h)) * 1000000"

fun arrivals :: "int \<Rightarrow> ('pk, 'kpk) PathHop list \<Rightarrow> int list" where
  "arrivals t [] = []"
| "arrivals t (h # hs) = t # arrivals (t + hopWait h) hs"

definition departure :: "int \<Rightarrow> ('pk, 'kpk) PathHop list \<Rightarrow> int" where
  "departure t path = t + sum_list (map hopWait path)"

text \<open>A hop of a path for a node, reached at an instant: its identifier, and the key of that epoch.\<close>

definition hop_for ::
  "('r, 'pk, 'sk, 'kpk, 'm) path_env_scheme \<Rightarrow> geometry \<Rightarrow> MixDescriptor \<Rightarrow> int \<Rightarrow> ('pk, 'kpk) PathHop \<Rightarrow> bool" where
  "hop_for E g x t h \<longleftrightarrow> ph_ID h = copy_into (zeros NodeIDLength) (idhash x) \<and>
     (\<exists>epoch a b. FromUnix (warped E) (t div 1000000000) = Ok (epoch, a, b) \<and> gm_has (MixKeys x) epoch \<and>
       (if NIKEName g = [] then \<exists>k. UnmarshalMixKeyAsKEM E x epoch g = Ok k \<and> ph_KEMPublicKey h = Some k
        else \<exists>k. UnmarshalMixKeyAsNike E x epoch g = Ok k \<and> ph_NIKEPublicKey h = Some k))"

text \<open>The bound on the delays that keeps them within a 32-bit command.\<close>

definition delays_bounded :: "Document \<Rightarrow> bool" where
  "delays_bounded d \<longleftrightarrow> 0 < MuMaxDelay d \<and> MuMaxDelay d < 2 ^ 32"

lemma delay_small:
  assumes "delays_bounded d" "x \<le> MuMaxDelay d"
  shows "sint x = uint x" "uint (ucast x :: u32) = uint x" "wrap64 (sint x * 1000000) = uint x * 1000000"
proof -
  have "uint x \<le> uint (MuMaxDelay d)" using assms(2) by (simp add: word_le_def)
  moreover have "uint (MuMaxDelay d) < 2 ^ 32" using assms(1) by (simp add: delays_bounded_def word_less_def)
  ultimately have lt: "uint x < 2 ^ 32" by linarith
  then show s: "sint x = uint x" by (intro sint_small) simp
  show "uint (ucast x :: u32) = uint x"
    using lt by (simp add: uint_up_ucast unsigned_ucast_eq take_bit_int_eq_self)
  have "0 \<le> uint x * 1000000" "uint x * 1000000 \<le> 4294967296000000" using lt by simp_all
  moreover have "int64_min \<le> 0" "4294967296000000 \<le> int64_max" by (simp_all add: int64_min_def int64_max_def)
  ultimately have "int64_min \<le> uint x * 1000000" "uint x * 1000000 \<le> int64_max" by (blast intro: order_trans)+
  then show "wrap64 (sint x * 1000000) = uint x * 1000000" unfolding s using wrap64_id by blast
qed

lemma delayStep_Ok:
  assumes "delays_bounded d" "delayStep E d delayed t r = Ok (t', cs, r')"
  shows "delayed \<and> (\<exists>w. cs = [NodeDelay w] \<and> t' = t + uint w * 1000000 \<and> uint w \<le> uint (MuMaxDelay d)) \<or>
    \<not> delayed \<and> cs = [] \<and> t' = t"
proof (cases delayed)
  case True
  then obtain x r1 where x: "Exp E (Mu d) r = (Ok (x, r1) :: (path_error, _) outcome)"
    using assms(2) by (auto simp: delayStep_def obind_Ok_iff)
  define w where "w = (if 0 < MuMaxDelay d \<and> MuMaxDelay d < x + 1 then MuMaxDelay d else x + 1)"
  have "w \<le> MuMaxDelay d" using assms(1) by (auto simp: w_def delays_bounded_def)
  note W = delay_small [OF assms(1) this] and this
  moreover have "t' = t + wrap64 (sint w * 1000000)" "cs = [NodeDelay (ucast w)]"
    using assms(2) True x by (simp_all add: delayStep_def w_def Let_def)
  ultimately show ?thesis using True by (auto simp: word_le_def)
qed (use assms(2) in \<open>auto simp: delayStep_def\<close>)

lemma hopDelay_final [simp]: "hopDelay (finalCommands rcp surb f) = 0"
  by (simp add: finalCommands_def split: option.splits)

lemma keyedHop_Ok:
  assumes "keyedHop E g x epoch (idhash x) = Ok h" "FromUnix (warped E) (t div 1000000000) = Ok (epoch, a, b)"
    and "gm_has (MixKeys x) epoch"
  shows "hop_for E g x t (h\<lparr>ph_Commands := cs\<rparr>)"
  using assms by (auto simp: keyedHop_def hop_for_def obind_Ok_iff Let_def split: if_splits)

text \<open>
  What a finished loop over the descriptors has built: per descriptor a hop with the key of the epoch in
  which the packet arrives, a delay for all but the last hop, and the final commands for the last.
\<close>

definition delay_cmd :: "Document \<Rightarrow> routing_command list \<Rightarrow> bool" where
  "delay_cmd d cs \<longleftrightarrow> (\<exists>w. cs = [NodeDelay w] \<and> uint w \<le> uint (MuMaxDelay d))"

fun hops_built ::
  "('r, 'pk, 'sk, 'kpk, 'm) path_env_scheme \<Rightarrow> geometry \<Rightarrow> Document \<Rightarrow> bytes \<Rightarrow> bytes option \<Rightarrow> bool \<Rightarrow>
   int \<Rightarrow> MixDescriptor list \<Rightarrow> ('pk, 'kpk) PathHop list \<Rightarrow> bool" where
  "hops_built E g d rcp surb f t [] path \<longleftrightarrow> path = []"
| "hops_built E g d rcp surb f t (x # xs) path \<longleftrightarrow> (\<exists>h hs. path = h # hs \<and> hop_for E g x t h \<and>
     (\<exists>cs. ph_Commands h = cs @ (if xs = [] then finalCommands rcp surb f else []) \<and>
       (if xs \<noteq> [] \<or> surb \<noteq> None \<and> f then delay_cmd d cs else cs = [])) \<and>
     hops_built E g d rcp surb f (t + hopWait h) xs hs)"

lemma hops_built_Nil [simp]: "hops_built E g d rcp surb f t ds [] \<longleftrightarrow> ds = []"
  by (cases ds) auto

lemma buildHops_Some:
  assumes "delays_bounded d" "buildHops E g d rcp surb f t ds r = Ok (Some (path, u), r')"
  shows "hops_built E g d rcp surb f t ds path \<and> u = departure t path"
  using assms(2)
proof (induction ds arbitrary: t r path)
  case Nil
  then show ?case by (simp add: departure_def)
next
  case (Cons x xs)
  obtain k where k: "IdentityKey x = Some k" using Cons.prems by (auto simp: id_Sum256_def obind_Ok_iff split: option.splits)
  then have i: "id_Sum256 x = (Ok (idhash x) :: (path_error, _) outcome)" by (simp add: node_Sum256)
  obtain epoch a b where e: "FromUnix (warped E) (t div 1000000000) = Ok (epoch, a, b)" "gm_has (MixKeys x) epoch"
    using Cons.prems i by (fastforce simp: obind_Ok_iff or_panic_def split: outcome.splits if_splits)
  obtain h t' cs r1 path' u' where h: "keyedHop E g x epoch (idhash x) = Ok h"
    "delayStep E d (xs \<noteq> [] \<or> surb \<noteq> None \<and> f) t r = Ok (t', cs, r1)"
    "buildHops E g d rcp surb f t' xs r1 = Ok (Some (path', u), r')"
    "path = h\<lparr>ph_Commands := cs @ (if xs = [] then finalCommands rcp surb f else [])\<rparr> # path'"
    using Cons.prems i e by (auto simp: obind_Ok_iff or_panic_def Let_def)
  let ?h = "h\<lparr>ph_Commands := cs @ (if xs = [] then finalCommands rcp surb f else [])\<rparr>"
  note D = delayStep_Ok [OF assms(1) h(2)]
  have t': "t' = t + hopWait ?h" using D by (auto simp: hopWait_def)
  have "hops_built E g d rcp surb f (t + hopWait ?h) xs path' \<and> u = departure (t + hopWait ?h) path'"
    using Cons.IH [OF h(3)] t' by simp
  then show ?case
    using h(4) keyedHop_Ok [OF h(1) e] D by (auto simp: departure_def delay_cmd_def)
qed

subsection \<open>A path can be built\<close>

text \<open>
  Every node of the document has published, for every epoch from one instant to another, the public half
  of the private key it uses in that epoch.
\<close>

definition published ::
  "('r, 'pk, 'sk, 'kpk, 'm) path_env_scheme \<Rightarrow> ('pk, 'sk) nike_scheme \<Rightarrow> (bytes \<Rightarrow> u64 \<Rightarrow> 'sk) \<Rightarrow> Document \<Rightarrow> int \<Rightarrow> int \<Rightarrow> bool" where
  "published E N sk d t0 t1 \<longleftrightarrow> (\<forall>x\<in>set (concat (Topology d) @ Providers d). \<forall>t epoch a b.
     t0 \<le> t \<longrightarrow> t \<le> t1 \<longrightarrow> FromUnix (warped E) (t div 1000000000) = Ok (epoch, a, b) \<longrightarrow>
     gm_get (MixKeys x) epoch = Some (Some (nike_pk_Bytes N (nike_DerivePublicKey N (sk (idhash x) epoch)))))"

lemma FromUnix_total:
  assumes "Epoch \<le> t" "t \<le> Epoch + int64_max"
  shows "\<exists>epoch a b. FromUnix w (t div 1000000000) = Ok (epoch, a, b)"
proof -
  have "Epoch \<le> t div 1000000000 * 1000000000" "t div 1000000000 * 1000000000 - Epoch \<le> int64_max"
    using assms by (simp_all add: Epoch_def)
  from getEpoch_eq [OF this] show ?thesis by (simp add: FromUnix_def unix_time_def)
qed

text \<open>The setting: a scheme the registry knows, a sane rate, and keys for all epochs a packet can meet.\<close>

definition path_setting ::
  "('r, 'pk, 'sk, 'kpk, 'm) path_env_scheme \<Rightarrow> ('pk, 'sk) nike_scheme \<Rightarrow> (bytes \<Rightarrow> u64 \<Rightarrow> 'sk) \<Rightarrow> geometry \<Rightarrow> Document \<Rightarrow>
   int \<Rightarrow> int \<Rightarrow> bool" where
  "path_setting E N sk g d t0 t1 \<longleftrightarrow> intn_ok E \<and> NIKEName g \<noteq> [] \<and> nike_ByName E (NIKEName g) = Some N \<and>
     0 < Mu d \<and> Mu d < 2 ^ 63 \<and> delays_bounded d \<and> Epoch \<le> t0 \<and> t1 \<le> Epoch + int64_max \<and> published E N sk d t0 t1"

lemma hop_key_published:
  assumes "path_setting E N sk g d t0 t1" "nike_ok N V W" "\<forall>i e. W (sk i e)"
    and "x \<in> set (concat (Topology d) @ Providers d)" "t0 \<le> t" "t \<le> t1"
    and "FromUnix (warped E) (t div 1000000000) = Ok (epoch, a, b)"
  shows "gm_has (MixKeys x) epoch"
    and "UnmarshalMixKeyAsNike E x epoch g = Ok (nike_DerivePublicKey N (sk (idhash x) epoch))"
proof -
  have k: "gm_get (MixKeys x) epoch = Some (Some (nike_pk_Bytes N (nike_DerivePublicKey N (sk (idhash x) epoch))))"
    using assms(1,4-7) unfolding path_setting_def published_def by blast
  have "nike_UnmarshalBinaryPublicKey N (nike_pk_Bytes N (nike_DerivePublicKey N (sk (idhash x) epoch))) =
      Ok (nike_DerivePublicKey N (sk (idhash x) epoch))"
    using assms(2,3) unfolding nike_ok_def by blast
  with k show "gm_has (MixKeys x) epoch"
    "UnmarshalMixKeyAsNike E x epoch g = Ok (nike_DerivePublicKey N (sk (idhash x) epoch))"
    using assms(1) by (simp_all add: gm_has_def UnmarshalMixKeyAsNike_def path_setting_def)
qed

lemma delayStep_total:
  assumes "0 < Mu d" "Mu d < 2 ^ 63"
  shows "\<exists>t' cs r'. delayStep E d delayed t r = Ok (t', cs, r')"
proof -
  have "\<not> 0x8000000000000000 \<le> Mu d" using assms(2) by (simp add: not_le)
  then have "Exp E (Mu d) r = (Ok (ExpQuot E r (Mu d)) :: (path_error, _) outcome)" using assms(1) by (auto simp: Exp_def)
  then show ?thesis by (cases "ExpQuot E r (Mu d)") (simp add: delayStep_def Let_def)
qed

definition maxWait :: "Document \<Rightarrow> int" where
  "maxWait d = uint (MuMaxDelay d) * 1000000"

lemma buildHops_total:
  assumes S: "path_setting E N sk g d t0 t1" and N: "nike_ok N V W" "\<forall>i e. W (sk i e)"
    and "set ds \<subseteq> set (concat (Topology d) @ Providers d)" "nodes_wf d"
    and "t0 \<le> t" "t + int (length ds) * maxWait d \<le> t1"
  shows "\<exists>path u r'. buildHops E g d rcp surb f t ds r = Ok (Some (path, u), r')"
  using assms(4,6,7)
proof (induction ds arbitrary: t r)
  case (Cons x xs)
  have w: "0 \<le> maxWait d" by (simp add: maxWait_def)
  then have "0 \<le> int (length (x # xs)) * maxWait d" by (intro mult_nonneg_nonneg) simp_all
  then have "t \<le> t1" using Cons.prems(3) by linarith
  then have t: "t0 \<le> t" "t \<le> t1" "Epoch \<le> t" "t \<le> Epoch + int64_max"
    using Cons.prems(2) S by (auto simp: path_setting_def)
  have x: "x \<in> set (concat (Topology d) @ Providers d)" using Cons.prems(1) by simp
  then have i: "id_Sum256 x = (Ok (idhash x) :: (path_error, _) outcome)"
    using assms(5) by (intro node_Sum256) (auto simp: nodes_wf_def)
  obtain epoch a b where e: "FromUnix (warped E) (t div 1000000000) = Ok (epoch, a, b)"
    using FromUnix_total [OF t(3,4)] by blast
  note K = hop_key_published [OF S N x t(1,2) e]
  obtain h where h: "keyedHop E g x epoch (idhash x) = Ok h"
    using K(2) S by (auto simp: keyedHop_def path_setting_def)
  obtain t' cs r1 where d: "delayStep E d (xs \<noteq> [] \<or> surb \<noteq> None \<and> f) t r = Ok (t', cs, r1)"
    using delayStep_total [of d E "xs \<noteq> [] \<or> surb \<noteq> None \<and> f" t r] S unfolding path_setting_def by blast
  have "t \<le> t'" "t' \<le> t + maxWait d"
    using delayStep_Ok [OF _ d] S w by (auto simp: path_setting_def maxWait_def)
  then have "\<exists>path u r'. buildHops E g d rcp surb f t' xs r1 = Ok (Some (path, u), r')"
    using Cons.prems by (intro Cons.IH) (auto simp: algebra_simps)
  then obtain path u r' where b: "buildHops E g d rcp surb f t' xs r1 = Ok (Some (path, u), r')" by blast
  have F: "or_panic (FromUnix (warped E) (t div 1000000000)) = (Ok (epoch, a, b) :: (path_error, _) outcome)"
    using e by (simp add: or_panic_def)
  show ?case by (cases "xs = []") (use d b in \<open>auto simp: i F K(1) h Let_def\<close>)
qed simp

subsection \<open>The packet for a path\<close>

lemma hops_built_all2:
  "hops_built E g d rcp surb f t ds path \<Longrightarrow> length ds = length path \<and>
     list_all2 (\<lambda>(x, a) h. hop_for E g x a h) (zip ds (arrivals t path)) path"
  by (induction E g d rcp surb f t ds path rule: hops_built.induct) auto

lemma hops_built_fit:
  assumes "geo_wf n 0 g" "hops_built E g d rcp surb f t ds path"
  shows "\<forall>h\<in>set (butlast path). cmds_fit g 0 (ph_Commands h) False"
    "path \<noteq> [] \<Longrightarrow> cmds_fit g 0 (ph_Commands (last path)) True"
    "f \<Longrightarrow> path \<noteq> [] \<Longrightarrow> \<forall>c\<in>set (ph_Commands (last path)). \<not> is_SURBReply c"
    "path \<noteq> [] \<Longrightarrow> Recipient (copy_into (zeros RecipientIDLength) rcp) \<in> set (ph_Commands (last path))"
proof -
  note G = geo_wf_lengths [OF assms(1)]
  have "cmds_fit g 0 (cs @ finalCommands rcp surb f) True" if "delay_cmd d cs \<or> cs = []" for cs
    using that G by (auto simp: cmds_fit_def delay_cmd_def finalCommands_def rc_printers sphinx_constants split: option.splits)
  moreover have "cmds_fit g 0 cs False" if "delay_cmd d cs" for cs
    using that G by (auto simp: cmds_fit_def delay_cmd_def rc_printers)
  moreover from calculation(1) [of "[]"] have "cmds_fit g 0 (finalCommands rcp surb f) True" by simp
  ultimately show "\<forall>h\<in>set (butlast path). cmds_fit g 0 (ph_Commands h) False"
    "path \<noteq> [] \<Longrightarrow> cmds_fit g 0 (ph_Commands (last path)) True"
    using assms(2) by (induction ds arbitrary: t path) (auto split: if_splits)
  show "f \<Longrightarrow> path \<noteq> [] \<Longrightarrow> \<forall>c\<in>set (ph_Commands (last path)). \<not> is_SURBReply c"
    "path \<noteq> [] \<Longrightarrow> Recipient (copy_into (zeros RecipientIDLength) rcp) \<in> set (ph_Commands (last path))"
    using assms(2) by (induction ds arbitrary: t path)
       (auto simp: delay_cmd_def finalCommands_def split: if_splits option.splits)
qed

lemma hops_built_keys:
  assumes S: "path_setting E N sk g d t0 t1" and N: "nike_ok N V W" "\<forall>i e. W (sk i e)"
    and "set ds \<subseteq> set (concat (Topology d) @ Providers d)" "\<forall>x\<in>set ds. length (idhash x) = NodeIDLength"
    and "t0 \<le> t" "t + int (length ds) * maxWait d \<le> t1" "hops_built E g d rcp surb f t ds path"
  shows "\<exists>ss. list_all2 (hop_key N W) path ss \<and>
    list_all2 (\<lambda>(h, a) s. \<exists>epoch x y. FromUnix (warped E) (a div 1000000000) = Ok (epoch, x, y) \<and> s = sk (ph_ID h) epoch)
      (zip path (arrivals t path)) ss"
  using assms(4-)
proof (induction ds arbitrary: t path)
  case (Cons x xs)
  obtain h hs where h: "path = h # hs" "hop_for E g x t h" "hops_built E g d rcp surb f (t + hopWait h) xs hs"
    using Cons.prems(5) by auto
  have wait: "0 \<le> hopWait h" "hopWait h \<le> maxWait d"
    using Cons.prems(5) h(1) by (auto simp: hopWait_def maxWait_def delay_cmd_def split: if_splits)
  have "0 \<le> int (length (x # xs)) * maxWait d" using wait by (intro mult_nonneg_nonneg) simp_all
  then have t: "t0 \<le> t" "t \<le> t1" using Cons.prems(3,4) by linarith+
  obtain epoch a b where e: "FromUnix (warped E) (t div 1000000000) = Ok (epoch, a, b)"
    "ph_NIKEPublicKey h = Some (nike_DerivePublicKey N (sk (idhash x) epoch))"
    using h(2) hop_key_published(2) [OF S N _ t] Cons.prems(1) S by (fastforce simp: hop_for_def path_setting_def)
  have i: "ph_ID h = idhash x" using h(2) Cons.prems(2) by (auto simp: hop_for_def copy_into_def)
  have "\<exists>ss. list_all2 (hop_key N W) hs ss \<and>
    list_all2 (\<lambda>(h, a) s. \<exists>epoch x y. FromUnix (warped E) (a div 1000000000) = Ok (epoch, x, y) \<and> s = sk (ph_ID h) epoch)
      (zip hs (arrivals (t + hopWait h) hs)) ss"
    using Cons.prems wait h(3) by (intro Cons.IH) (auto simp: algebra_simps)
  then obtain ss where ss: "list_all2 (hop_key N W) hs ss"
    "list_all2 (\<lambda>(h, a) s. \<exists>epoch x y. FromUnix (warped E) (a div 1000000000) = Ok (epoch, x, y) \<and> s = sk (ph_ID h) epoch)
      (zip hs (arrivals (t + hopWait h) hs)) ss" by blast
  show ?case
    by (rule exI [of _ "sk (idhash x) epoch # ss"]) (use h(1) e i ss N(2) in \<open>auto simp: hop_key_def [of _ _ h]\<close>)
qed simp

lemma hops_built_ids:
  "hops_built E g d rcp surb f t ds path \<Longrightarrow> map ph_ID path = map (\<lambda>x. copy_into (zeros NodeIDLength) (idhash x)) ds"
  by (induction ds arbitrary: t path) (auto simp: hop_for_def)

lemma copy_full: "length b = n \<Longrightarrow> copy_into (zeros n) b = b"
  by (simp add: copy_into_def)

lemma layerHops_set:
  assumes "intn_ok E"
  shows "layerHops E dstLayer i ls r = Ok (hs, r') \<Longrightarrow> set hs \<subseteq> set (concat ls)"
proof (induction ls arbitrary: i r hs r')
  case (Cons nodes ls)
  obtain k r1 where k: "Intn E r (length nodes) = (k, r1)" by fastforce
  have "nodes \<noteq> [] \<Longrightarrow> nodes ! k \<in> set nodes"
    using assms k unfolding intn_ok_def by (metis fst_conv length_greater_0_conv nth_mem)
  with Cons show ?case by (fastforce simp: k obind_Ok_iff split: if_splits)
qed simp

lemma selectHops_set:
  assumes "intn_ok E" "selectHops E d src dst c f r = Ok (descs, r')"
  shows "set descs \<subseteq> set (concat (Topology d)) \<union> {src, dst}"
proof -
  consider "descs = [dst]" | n hs r1 l where "layerHops E l 0 (drop n (Topology d)) r = Ok (hs, r1)"
      "descs = (if f \<and> c then [src] else []) @ hs @ [dst]"
  proof -
    obtain plan :: "(nat \<times> int) option" and l where p: "(case plan of None \<Rightarrow> Ok ([dst], r)
        | Some (n, m) \<Rightarrow> if m < 0 \<or> length (Topology d) < n then Panic
            else obind (layerHops E l 0 (drop n (Topology d)) r) (\<lambda>(hs, r').
              Ok ((if f \<and> c then [src] else []) @ hs @ [dst], r'))) = Ok (descs, r')"
      using assms(2) unfolding selectHops_def obind_Ok_iff by blast
    show ?thesis
    proof (cases plan)
      case None
      then show ?thesis using p that(1) by simp
    next
      case (Some nm)
      then obtain n m where "plan = Some (n, m)" by (cases nm) simp
      then show ?thesis using p that(2) [of l n] by (auto simp: obind_Ok_iff split: if_splits)
    qed
  qed
  then show ?thesis
  proof cases
    case (2 n hs r1 l)
    have "set (concat (drop n (Topology d))) \<subseteq> set (concat (Topology d))" by (auto dest: in_set_dropD)
    with layerHops_set [OF assms(1) 2(1)] have "set hs \<subseteq> set (concat (Topology d))" by (rule subset_trans)
    then show ?thesis unfolding 2(2) by auto
  qed simp
qed

lemma path_New_Ok:
  assumes "path_New E g d rcp src dst surb t0 c f r = Ok (path, t, r')"
  obtains descs r1 r2 where "selectHops E d src dst c f r1 = Ok (descs, r2)"
    "buildHops E g d rcp surb f t0 descs r2 = Ok (Some (path, t), r')"
proof -
  have "\<exists>descs r1 r2. selectHops E d src dst c f r1 = Ok (descs, r2) \<and> buildHops E g d rcp surb f t0 descs r2 = Ok (Some (path, t), r')"
    if "attempts E g d rcp src dst surb t0 c f n r = Ok (path, t, r')" for n
    using that
  proof (induction n arbitrary: r)
    case (Suc n)
    then obtain descs r2 res r3 where s: "selectHops E d src dst c f r = Ok (descs, r2)"
      "buildHops E g d rcp surb f t0 descs r2 = Ok (res, r3)"
      "(case res of Some (path, t) \<Rightarrow> Ok (path, t, r3) | None \<Rightarrow> attempts E g d rcp src dst surb t0 c f n r3) = Ok (path, t, r')"
      by (auto simp: obind_Ok_iff)
    then show ?case using Suc.IH [of r3] by (cases res) auto
  qed simp
  then show ?thesis using assms that by (auto simp: path_New_def)
qed

lemma path_New_first:
  assumes "selectHops E d src dst c f r = Ok (descs, r1)" "buildHops E g d rcp surb f t0 descs r1 = Ok (Some (path, t), r2)"
  shows "path_New E g d rcp src dst surb t0 c f r = Ok (path, t, r2)"
  using assms by (simp add: path_New_def maxAttempts_def eval_nat_numeral)

section \<open>A concrete network\<close>

definition route_desc :: "byte \<Rightarrow> bool \<Rightarrow> MixDescriptor" where
  "route_desc b p = (toy_desc b p)\<lparr>MixKeys := [(5, Some (pubKey (toy_key b)))]\<rparr>"

definition route_doc :: Document where
  "route_doc = toy_doc [[route_desc 1 False]] [route_desc 3 True, route_desc 4 True]"

definition route_env :: "(unit, bytes, ecdh_PrivateKey, unit) path_env" where
  "route_env = \<lparr>warped = False, Intn = (\<lambda>r n. (0, r)), ExpQuot = (\<lambda>r l. (1, r)),
     nike_ByName = (\<lambda>s. Some (EcdhNike toy_curve)), kem_ByName = (\<lambda>s. None)\<rparr>"

definition route_start :: int where
  "route_start = 1496275200000000000 + 5 * 1200000000000"

lemma route_desc_wf: "IsDescriptorWellFormed toy_lib (route_desc b p) 5 = Ok ()"
  by (simp add: IsDescriptorWellFormed_def route_desc_def toy_desc_def NodeIDLength_def gm_get_def checkTransport_def
      TransportInvalid_def TransportTCP_def TransportTCPv4_def TransportTCPv6_def TransportQUIC_def
      checkAddress_def toy_lib_def getIPVer_def is_To4_def validateKaetzchen_def)

lemma route_desc_fields [simp]: "idhash (route_desc b p) = replicate 32 b" "Provider (route_desc b p) = p"
  "MixKeys (route_desc b p) = [(5, Some (pubKey (toy_key b)))]" "IdentityKey (route_desc b p) = Some (snd (toy_signer b))"
  by (simp_all add: route_desc_def idhash_def)

lemma route_doc_fields [simp]: "Topology route_doc = [[route_desc 1 False]]"
  "Providers route_doc = [route_desc 3 True, route_desc 4 True]" "Mu route_doc = 2" "MuMaxDelay route_doc = 3"
  "doc_Version route_doc = DocumentVersion" "GenesisEpoch route_doc = 1" "PriorSharedRandom route_doc = [[0]]"
  "SharedRandomCommit route_doc = []" "doc_Epoch route_doc = 5"
  by (simp_all add: route_doc_def toy_doc_def toy_params_def Parameters.defs)

lemma route_doc_wf: "IsDocumentWellFormed toy_lib 4 route_doc [] = Ok ()"
  by (simp add: IsDocumentWellFormed_def checkLayer_def checkEntry_def route_desc_wf id_Sum256_def gm_has_def gm_get_def)

lemma route_epoch:
  assumes "route_start \<le> t" "t \<le> route_start + 9000000" "FromUnix False (t div 1000000000) = Ok (epoch, a, b)"
  shows "epoch = 5"
proof -
  have "t div 1000000000 = 1496281200" using assms(1,2) by (simp add: route_start_def)
  then have "getEpoch False 1496281200000000000 = Ok (epoch, a, b)" using assms(3) by (simp add: FromUnix_def unix_time_def)
  then show ?thesis
    using getEpoch_eq [of 1496281200000000000 False] by (simp add: Epoch_def int64_max_def Period_def)
qed

lemma route_setting:
  "path_setting route_env (EcdhNike toy_curve) (\<lambda>i e. toy_key (hd i)) toy_geo route_doc route_start
     (route_start + 3 * maxWait route_doc)"
proof -
  have geo: "NIKEName toy_geo = ''x25519''"
    using nike_geometry_ok [OF toy_geo_eq] by (simp add: EcdhNike_def nike_info.truncate_def)
  have "published route_env (EcdhNike toy_curve) (\<lambda>i e. toy_key (hd i)) route_doc route_start
      (route_start + 3 * maxWait route_doc)"
    using route_epoch
    by (auto simp: published_def route_env_def maxWait_def gm_get_def EcdhNike_def)
  then show ?thesis
    by (simp add: path_setting_def intn_ok_def route_env_def geo delays_bounded_def maxWait_def Epoch_def
        route_start_def int64_max_def)
qed

section \<open>Properties\<close>

text \<open>
  C21: on a well-formed document of at most 255 layers whose mixes are not providers, every step of a
  selected path is one that both ends accept: the cached document of the one hop lists the next hop as
  an outgoing peer, and that of the next hop lists the one as an incoming peer.  For packets that do not
  come from a client the first step starts at the sender itself.
\<close>

theorem selected_path_connects:
  assumes "IsDocumentWellFormed L current doc verifiers = Ok ()" and "length (Topology doc) \<le> 255"
    and "\<forall>x\<in>set (concat (Topology doc)). \<not> Provider x" and "intn_ok E"
    and "src \<in> set (concat (Topology doc) @ Providers doc)" and "dst \<in> set (concat (Topology doc) @ Providers doc)"
    and "selectHops E doc src dst isFromClient isForward r = Ok (descs, r')"
  shows "last descs = dst \<and>
    successively (\<lambda>a b. \<exists>ea eb. cache_New doc (the (IdentityKey a)) (Provider a) = Ok ea \<and>
        cache_New doc (the (IdentityKey b)) (Provider b) = Ok eb \<and>
        GetOutgoingByID ea (idhash b) = Some b \<and> GetIncomingByID eb (idhash a) = Some a)
      (if isForward \<and> isFromClient then descs else src # descs)"
proof -
  note W = IsDocumentWellFormed_parts [OF assms(1)]
  have l: "layered doc" using W(1) assms(2) by simp
  have ro: "roles_ok doc" using assms(3) W(3) by (simp add: roles_ok_def)
  have entry: "\<exists>e. cache_New doc (the (IdentityKey a)) (Provider a) = Ok e \<and> ce_self e = a"
    if "isLayer doc i" "a \<in> set (layerNodes doc i)" for a i
  proof -
    have "pk_Sum256 (the (IdentityKey a)) = idhash a"
      using layer_lookup(3) [OF l that] by (auto simp: idhash_def)
    moreover have "i = LayerProvider \<longrightarrow> Provider a" using that ro by (auto simp: roles_ok_def layerNodes_def)
    ultimately show ?thesis using cache_New_eq [OF l that, of "the (IdentityKey a)" "Provider a"] by auto
  qed
  have link: "\<exists>ea eb. cache_New doc (the (IdentityKey a)) (Provider a) = Ok ea \<and>
        cache_New doc (the (IdentityKey b)) (Provider b) = Ok eb \<and>
        GetOutgoingByID ea (idhash b) = Some b \<and> GetIncomingByID eb (idhash a) = Some a" if ab: "linked doc a b" for a b
  proof -
    obtain i where i: "isLayer doc i" "a \<in> set (layerNodes doc i)" "b \<in> set (layerNodes doc (nextLayer doc i))"
      using ab unfolding linked_def by blast
    obtain ea where ea: "cache_New doc (the (IdentityKey a)) (Provider a) = Ok ea" "ce_self ea = a" using entry [OF i(1,2)] by blast
    obtain eb where eb: "cache_New doc (the (IdentityKey b)) (Provider b) = Ok eb" "ce_self eb = b"
      using entry [OF nextLayer_isLayer [OF l i(1)] i(3)] by blast
    show ?thesis using ea eb linked_peers [OF l i ea eb] by blast
  qed
  have "successively (linked doc) (if isForward \<and> isFromClient then descs else src # descs)" "last descs = dst"
    by (rule selectHops_linked [OF l ro assms(4-7)])+
  then show ?thesis using link by (auto elim!: successively_mono)
qed

theorem selected_path_connects_witness:
  "\<exists>ea eb. selectHops route_env route_doc (route_desc 3 True) (route_desc 4 True) True True () =
      Ok ([route_desc 3 True, route_desc 1 False, route_desc 4 True], ()) \<and>
    cache_New route_doc (snd (toy_signer 1)) False = Ok ea \<and> cache_New route_doc (snd (toy_signer 4)) True = Ok eb \<and>
    GetOutgoingByID ea (replicate 32 4) = Some (route_desc 4 True) \<and>
    GetIncomingByID eb (replicate 32 1) = Some (route_desc 1 False)"
proof -
  have l: "layered route_doc" using IsDocumentWellFormed_parts(1) [OF route_doc_wf] by simp
  have "GetMixLayer route_doc (replicate 32 b) = Ok LayerProvider" if "b = 3 \<or> b = 4" for b
    using lookup_provider [of route_doc "route_desc b True"] l that by auto
  then have s: "selectHops route_env route_doc (route_desc 3 True) (route_desc 4 True) True True () =
      Ok ([route_desc 3 True, route_desc 1 False, route_desc 4 True], ())"
    by (simp add: selectHops_def node_Sum256 hopPlan_def Let_def route_env_def)
  have "intn_ok route_env" using route_setting by (simp add: path_setting_def)
  from selected_path_connects [OF route_doc_wf _ _ this _ _ s] show ?thesis using s by auto
qed

text \<open>
  C22: when the delays are capped below \<open>2^32\<close> milliseconds, a path that \<^verbatim>\<open>New\<close> returns is made for the
  nodes of one selection, all of them from the layers of the document but for the source and the
  destination.  For each it carries the identifier and the mix key that its descriptor has for the epoch
  in which the packet reaches it, if every earlier hop holds the packet for the delay in its command; and
  the returned time is the one at which the last delay ends.
\<close>

theorem path_keys_in_time:
  assumes "0 < MuMaxDelay doc" and "MuMaxDelay doc < 2 ^ 32" and "intn_ok E"
    and "path_New E g doc recipient src dst surbID baseTime isFromClient isForward r = Ok (path, t, r')"
  shows "t = departure baseTime path \<and>
    (\<exists>descs r1 r2. selectHops E doc src dst isFromClient isForward r1 = Ok (descs, r2) \<and>
       set descs \<subseteq> set (concat (Topology doc)) \<union> {src, dst} \<and> length descs = length path \<and>
       list_all2 (\<lambda>(x, a) h. hop_for E g x a h) (zip descs (arrivals baseTime path)) path)"
proof -
  obtain descs r1 r2 where s: "selectHops E doc src dst isFromClient isForward r1 = Ok (descs, r2)"
    and b: "buildHops E g doc recipient surbID isForward baseTime descs r2 = Ok (Some (path, t), r')"
    by (rule path_New_Ok [OF assms(4)])
  from buildHops_Some [OF _ b] have "hops_built E g doc recipient surbID isForward baseTime descs path" "t = departure baseTime path"
    using assms(1,2) by (simp_all add: delays_bounded_def)
  then show ?thesis using hops_built_all2 s selectHops_set [OF assms(3) s] by blast
qed

theorem path_keys_in_time_witness:
  "\<exists>path t descs. path_New route_env toy_geo route_doc [7] (route_desc 3 True) (route_desc 4 True) None route_start True True () =
      Ok (path, t, ()) \<and> t = departure route_start path \<and> length path = 3 \<and>
    selectHops route_env route_doc (route_desc 3 True) (route_desc 4 True) True True () = Ok (descs, ()) \<and>
    list_all2 (\<lambda>(x, a) h. hop_for route_env toy_geo x a h) (zip descs (arrivals route_start path)) path"
proof -
  have l: "layered route_doc" using IsDocumentWellFormed_parts(1) [OF route_doc_wf] by simp
  have ro: "roles_ok route_doc" and i: "intn_ok route_env" using route_setting by (simp_all add: roles_ok_def path_setting_def)
  have p: "route_desc 3 True \<in> set (Providers route_doc)" "route_desc 4 True \<in> set (Providers route_doc)" by simp_all
  obtain descs r1 where s: "selectHops route_env route_doc (route_desc 3 True) (route_desc 4 True) True True () = Ok (descs, r1)"
    "length descs = 3" using selectHops_client [OF l ro i p] by auto
  have "set descs \<subseteq> set (concat (Topology route_doc) @ Providers route_doc)"
    using selectHops_linked(2) [OF l ro i _ _ s(1)] p by simp
  then have "\<exists>path t r'. buildHops route_env toy_geo route_doc [7] None True route_start descs r1 = Ok (Some (path, t), r')"
    by (intro buildHops_total [OF route_setting ecdh_nike_ok [OF toy_curve_ok]]) (use toy_key_ok l s(2) in simp_all)
  then obtain path t where b: "buildHops route_env toy_geo route_doc [7] None True route_start descs r1 = Ok (Some (path, t), ())"
    by auto
  have n: "path_New route_env toy_geo route_doc [7] (route_desc 3 True) (route_desc 4 True) None route_start True True () = Ok (path, t, ())"
    by (rule path_New_first [OF s(1) b])
  have "length path = 3"
    using buildHops_Some [OF _ b] hops_built_all2 s(2) by (metis path_setting_def route_setting)
  then show ?thesis using path_keys_in_time [OF _ _ i n] n by auto
qed

text \<open>
  C3: a client that knows a well-formed document whose nodes have published their keys for the epochs
  in question selects a path to any provider without error, and the packet it makes for the path is
  processed by every hop with the private key of the epoch in which it arrives there; the last hop is the
  provider, which obtains the payload and the recipient.
\<close>

theorem client_packet_delivered:
  assumes "prims_ok P" and "nike_ok N V W" and "\<forall>i e. W (sk i e)"
    and "GeometryFromUserForwardPayloadLength (nike_info.truncate N) user withSURB nrHops = Ok g"
    and "nike_entropy_ok N W ent"
    and "IsDocumentWellFormed L current doc verifiers = Ok ()"
    and "length (Topology doc) + 2 \<le> nrHops" and "length (Topology doc) \<le> 255"
    and "\<forall>x\<in>set (concat (Topology doc)). \<not> Provider x"
    and "\<forall>x\<in>set (concat (Topology doc) @ Providers doc). length (idhash x) = NodeIDLength"
    and "src \<in> set (Providers doc)" and "dst \<in> set (Providers doc)"
    and "path_setting E N sk g doc baseTime (baseTime + int (length (Topology doc) + 2) * maxWait doc)"
    and "length payload = ForwardPayloadLength g"
  shows "\<exists>path t r' ss pkt us.
    path_New E g doc recipient src dst surbID baseTime True True r = Ok (path, t, r') \<and>
    ph_ID (hd path) = idhash src \<and> ph_ID (last path) = idhash dst \<and>
    list_all2 (\<lambda>(h, a) s. \<exists>epoch x y. FromUnix (warped E) (a div 1000000000) = Ok (epoch, x, y) \<and> s = sk (ph_ID h) epoch)
      (zip path (arrivals baseTime path)) ss \<and>
    newNikePacket P N g ent path payload = Ok pkt \<and> length pkt = PacketLength g \<and>
    relay (unwrapNike P N g) ss pkt = Ok us \<and> delivered (PacketLength g) path payload us \<and>
    Recipient (copy_into (zeros RecipientIDLength) recipient) \<in> set (ph_Commands (last path))"
proof -
  note W = IsDocumentWellFormed_parts [OF assms(6)] and G = nike_geometry_ok [OF assms(4)]
  have l: "layered doc" using W(1) assms(8) by simp
  have ro: "roles_ok doc" using assms(9) W(3) by (simp add: roles_ok_def)
  have E: "intn_ok E" "delays_bounded doc" using assms(13) by (simp_all add: path_setting_def)
  obtain descs r1 where s: "selectHops E doc src dst True True r = Ok (descs, r1)" "length descs = length (Topology doc) + 2"
    "hd descs = src" using selectHops_client [OF l ro E(1) assms(11,12)] by metis
  have D: "set descs \<subseteq> set (concat (Topology doc) @ Providers doc)" "descs \<noteq> []" "last descs = dst"
    using selectHops_linked(2-4) [OF l ro E(1) _ _ s(1)] assms(11,12) by simp_all
  have "\<exists>path t r'. buildHops E g doc recipient surbID True baseTime descs r1 = Ok (Some (path, t), r')"
    by (rule buildHops_total [OF assms(13,2,3) D(1) W(1)]) (simp_all add: s(2))
  then obtain path t r' where b: "buildHops E g doc recipient surbID True baseTime descs r1 = Ok (Some (path, t), r')" by blast
  have hb: "hops_built E g doc recipient surbID True baseTime descs path"
    using buildHops_Some [OF E(2) b] by blast
  have ids: "map ph_ID path = map idhash descs"
    using hops_built_ids [OF hb] D(1) assms(10) by (simp add: copy_full subset_iff cong: map_cong)
  then have len: "length path = length descs" by (metis length_map)
  then have ne: "path \<noteq> []" using D(2) by auto
  have ends: "ph_ID (hd path) = idhash src" "ph_ID (last path) = idhash dst"
    using ids s(3) D(2,3) ne by (metis hd_map, metis last_map)
  obtain ss where ss: "list_all2 (hop_key N W) path ss"
    "list_all2 (\<lambda>(h, a) s. \<exists>epoch x y. FromUnix (warped E) (a div 1000000000) = Ok (epoch, x, y) \<and> s = sk (ph_ID h) epoch)
      (zip path (arrivals baseTime path)) ss"
    using hops_built_keys [OF assms(13,2,3) D(1) _ _ _ hb] D(1) assms(10) s(2) by auto
  have "\<forall>h\<in>set path. ph_ID h \<in> idhash ` set descs" using ids by (metis image_eqI list.set_map)
  then have "\<forall>h\<in>set path. length (ph_ID h) = NodeIDLength" using D(1) assms(10) by fastforce
  then have ok: "path_ok g 0 path"
    using hops_built_fit(1,2) [OF G(1) hb] ne len s(2) G(3) assms(7) by (simp add: path_ok_def)
  from newNikePacket_delivered [OF assms(1,2) _ assms(5) ok ss(1) assms(14) hops_built_fit(3) [OF G(1) hb _ ne]]
  show ?thesis
    using G(1) path_New_first [OF s(1) b] ends ss(2) hops_built_fit(4) [OF G(1) hb ne]
    by (simp add: nike_info.truncate_def) blast
qed

theorem client_packet_delivered_witness:
  "\<exists>path t r' pkt us. path_New route_env toy_geo route_doc [7] (route_desc 3 True) (route_desc 4 True) None route_start
      True True () = Ok (path, t, r') \<and>
    newNikePacket toy_sphinx (EcdhNike toy_curve) toy_geo toy_entropy path (zeros (ForwardPayloadLength toy_geo)) = Ok pkt \<and>
    delivered (PacketLength toy_geo) path (zeros (ForwardPayloadLength toy_geo)) us"
proof -
  have "path_setting route_env (EcdhNike toy_curve) (\<lambda>i e. toy_key (hd i)) toy_geo route_doc route_start
      (route_start + int (length (Topology route_doc) + 2) * maxWait route_doc)" using route_setting by simp
  from client_packet_delivered [OF toy_sphinx_ok ecdh_nike_ok [OF toy_curve_ok] _ toy_geo_eq toy_entropy_ok route_doc_wf
      _ _ _ _ _ _ this, of "route_desc 3 True" "route_desc 4 True" "zeros (ForwardPayloadLength toy_geo)" "[7]" None "()"]
  show ?thesis by (simp add: toy_key_ok NodeIDLength_def) blast
qed

end
