(* ===== verification/Priority_Queue.thy ===== *)
theory Priority_Queue
  imports Mix_Prelude "HOL-Library.Multiset"
begin

text \<open>
  The priority queue (\<^verbatim>\<open>src/core/queue/priority_queue.go\<close>): a binary heap in a slice, driven by the routines
  of \<^verbatim>\<open>container/heap\<close> of the Go library, which are modelled as they are.  An index is a natural number
  where the routines compute it, and an integer where a caller passes it.
\<close>

section \<open>The slice\<close>

record 'v pq_Entry =
  Value :: 'v
  Priority :: u64

type_synonym 'v pq = "'v pq_Entry list"

definition pq_Len :: "'v pq \<Rightarrow> nat" where
  "pq_Len q = length q"

definition pq_Less :: "'v pq \<Rightarrow> nat \<Rightarrow> nat \<Rightarrow> bool" where
  "pq_Less q i j \<longleftrightarrow> Priority (q ! i) < Priority (q ! j)"

definition pq_Swap :: "'v pq \<Rightarrow> nat \<Rightarrow> nat \<Rightarrow> 'v pq" where
  "pq_Swap q i j = q[i := q ! j, j := q ! i]"

definition pq_Push :: "'v pq_Entry \<Rightarrow> 'v pq \<Rightarrow> 'v pq" where
  "pq_Push x q = q @ [x]"

text \<open>\<^verbatim>\<open>Pop\<close> removes the last element of the slice.\<close>

definition pq_Pop :: "'v pq \<Rightarrow> 'v pq_Entry option \<times> 'v pq" where
  "pq_Pop q = (if pq_Len q = 0 then (None, q) else (Some (last q), butlast q))"

section \<open>Routines of the heap library\<close>

function heap_up :: "'v pq \<Rightarrow> nat \<Rightarrow> 'v pq" where
  "heap_up q j = (let i = (j - 1) div 2 in
     if i = j \<or> \<not> pq_Less q j i then q else heap_up (pq_Swap q i j) i)"
  by auto
termination by (relation "measure snd") auto

declare heap_up.simps [simp del]

text \<open>The index at which the element that was at \<open>i\<close> has arrived is returned as well.\<close>

function heap_down :: "'v pq \<Rightarrow> nat \<Rightarrow> nat \<Rightarrow> 'v pq \<times> nat" where
  "heap_down q i n = (let j1 = 2 * i + 1 in
     if n \<le> j1 then (q, i)
     else let j = (if j1 + 1 < n \<and> pq_Less q (j1 + 1) j1 then j1 + 1 else j1) in
       if \<not> pq_Less q j i then (q, i) else heap_down (pq_Swap q i j) j n)"
  by auto
termination by (relation "measure (\<lambda>(q, i, n). n - i)") (auto split: if_splits)

declare heap_down.simps [simp del]

definition heap_Init :: "'v pq \<Rightarrow> 'v pq" where
  "heap_Init q = fold (\<lambda>i q. fst (heap_down q i (pq_Len q))) (rev [0..<pq_Len q div 2]) q"

definition heap_Push :: "'v pq_Entry \<Rightarrow> 'v pq \<Rightarrow> 'v pq" where
  "heap_Push x q = (let q' = pq_Push x q in heap_up q' (pq_Len q' - 1))"

text \<open>On an empty queue \<^verbatim>\<open>Swap\<close> is called with a negative index, which it ignores.\<close>

definition heap_Pop :: "'v pq \<Rightarrow> 'v pq_Entry option \<times> 'v pq" where
  "heap_Pop q = (if pq_Len q = 0 then pq_Pop q
     else let n = pq_Len q - 1 in pq_Pop (fst (heap_down (pq_Swap q 0 n) 0 n)))"

text \<open>
  A negative index is ignored by \<^verbatim>\<open>Swap\<close> and by \<^verbatim>\<open>down\<close>; \<^verbatim>\<open>up\<close> ends at once for \<open>-1\<close>, whose parent it is
  itself, and reads the slice out of range for any other.
\<close>

definition heap_Remove :: "'v pq \<Rightarrow> int \<Rightarrow> (unit, 'v pq_Entry option \<times> 'v pq) outcome" where
  "heap_Remove q index =
     (let n = int (pq_Len q) - 1 in
      if index = n then Ok (pq_Pop q)
      else if index < 0 then (if index = -1 then Ok (pq_Pop q) else Panic)
      else if n < index then Panic
      else let i = nat index; (q', i') = heap_down (pq_Swap q i (nat n)) i (nat n) in
        Ok (pq_Pop (if i < i' then q' else heap_up q' i)))"

section \<open>The operations\<close>

definition pq_New :: "'v pq" where
  "pq_New = heap_Init []"

definition pq_Peek :: "'v pq \<Rightarrow> 'v pq_Entry option" where
  "pq_Peek q = (if pq_Len q = 0 then None else Some (q ! 0))"

definition pq_PeekIndex :: "'v pq \<Rightarrow> int \<Rightarrow> (unit, 'v pq_Entry option) outcome" where
  "pq_PeekIndex q i = (if pq_Len q = 0 then Ok None
     else if 0 \<le> i \<and> i < int (pq_Len q) then Ok (Some (q ! nat i)) else Panic)"

definition DequeueIndex :: "'v pq \<Rightarrow> int \<Rightarrow> (unit, 'v pq_Entry option \<times> 'v pq) outcome" where
  "DequeueIndex q index = (if pq_Len q = 0 then Ok (None, q) else heap_Remove q index)"

definition Enqueue :: "u64 \<Rightarrow> 'v \<Rightarrow> 'v pq \<Rightarrow> 'v pq" where
  "Enqueue priority v q = heap_Push \<lparr>Value = v, Priority = priority\<rparr> q"

text \<open>The argument is \<^verbatim>\<open>r.Intn(q.Len())\<close>, which is drawn from a queue that is not empty.\<close>

definition DequeueRandom :: "(nat \<Rightarrow> nat) \<Rightarrow> 'v pq \<Rightarrow> (unit, 'v pq_Entry option \<times> 'v pq) outcome" where
  "DequeueRandom intn q = (if pq_Len q = 0 then Ok (None, q) else heap_Remove q (int (intn (pq_Len q))))"

definition pq_Remove :: "'v pq \<Rightarrow> int \<Rightarrow> (unit, 'v pq_Entry option \<times> 'v pq) outcome" where
  "pq_Remove q index = DequeueIndex q index"

section \<open>The heap order\<close>

abbreviation prio :: "'v pq \<Rightarrow> nat \<Rightarrow> u64" where
  "prio q k \<equiv> Priority (q ! k)"

definition par :: "nat \<Rightarrow> nat" where
  "par k = (k - 1) div 2"

lemma par_less [simp]: "0 < k \<Longrightarrow> par k < k"
  by (auto simp: par_def)

lemma par_child: "0 < k \<Longrightarrow> par k = i \<longleftrightarrow> k = 2 * i + 1 \<or> k = 2 * i + 2"
  by (auto simp: par_def)

text \<open>The heap order on the first \<open>n\<close> elements; the same with index \<open>i\<close> left out, on both sides.\<close>

definition heap_on :: "nat \<Rightarrow> 'v pq \<Rightarrow> bool" where
  "heap_on n q \<longleftrightarrow> (\<forall>k<n. 0 < k \<longrightarrow> prio q (par k) \<le> prio q k)"

definition gap_at :: "nat \<Rightarrow> 'v pq \<Rightarrow> nat \<Rightarrow> bool" where
  "gap_at n q i \<longleftrightarrow> (\<forall>k<n. 0 < k \<longrightarrow> k \<noteq> i \<longrightarrow> par k \<noteq> i \<longrightarrow> prio q (par k) \<le> prio q k) \<and>
     (\<forall>k<n. 0 < k \<longrightarrow> par k = i \<longrightarrow> 0 < i \<longrightarrow> prio q (par i) \<le> prio q k)"

definition above :: "nat \<Rightarrow> 'v pq \<Rightarrow> nat \<Rightarrow> bool" where
  "above n q i \<longleftrightarrow> (\<forall>k<n. 0 < k \<longrightarrow> par k = i \<longrightarrow> prio q i \<le> prio q k)"

definition below :: "'v pq \<Rightarrow> nat \<Rightarrow> bool" where
  "below q i \<longleftrightarrow> (0 < i \<longrightarrow> prio q (par i) \<le> prio q i)"

lemma gap_closed: "gap_at n q i \<Longrightarrow> above n q i \<Longrightarrow> below q i \<Longrightarrow> heap_on n q"
  unfolding gap_at_def above_def below_def heap_on_def by (metis)

lemma swap_nth:
  "i < length q \<Longrightarrow> j < length q \<Longrightarrow> k < length q \<Longrightarrow>
     pq_Swap q i j ! k = (if k = j then q ! i else if k = i then q ! j else q ! k)"
  by (auto simp: pq_Swap_def nth_list_update)

lemma swap_length [simp]: "length (pq_Swap q i j) = length q"
  by (simp add: pq_Swap_def)

lemma swap_mset: "i < length q \<Longrightarrow> j < length q \<Longrightarrow> mset (pq_Swap q i j) = mset q"
  using mset_swap [of j q i] by (simp add: pq_Swap_def)

lemma up_step:
  assumes "gap_at n q j" "above n q j" "j < n" "n \<le> length q" "0 < j" "prio q j < prio q (par j)"
  shows "gap_at n (pq_Swap q (par j) j) (par j)" "above n (pq_Swap q (par j) j) (par j)"
proof -
  let ?q = "pq_Swap q (par j) j"
  have j: "par j < j" "par j < n" using par_less [OF assms(5)] assms(3) by linarith+
  have nth: "prio ?q k = (if k = j then prio q (par j) else if k = par j then prio q j else prio q k)" if "k < n" for k
    using swap_nth [of "par j" q j k] j assms(3,4) that by auto
  have le: "prio q (par k) \<le> prio q k" if "k < n" "0 < k" "k \<noteq> j" for k
    using assms(1,2) that unfolding gap_at_def above_def by metis
  have child: "prio q (par j) \<le> prio q k" if "k < n" "0 < k" "par k = j" for k
    using assms(1,5) that unfolding gap_at_def by metis
  have pk: "par k < n" if "k < n" "0 < k" for k using par_less [OF that(2)] that(1) by linarith
  show "gap_at n ?q (par j)"
    unfolding gap_at_def
  proof (intro conjI allI impI)
    fix k assume k: "k < n" "0 < k" "k \<noteq> par j" "par k \<noteq> par j"
    then have "k \<noteq> j" by auto
    then show "prio ?q (par k) \<le> prio ?q k"
      using k nth [OF pk [OF k(1,2)]] nth [OF k(1)] le [OF k(1,2)] child [OF k(1,2)] by auto
  next
    fix k assume k: "k < n" "0 < k" "par k = par j" "0 < par j"
    have pp: "par (par j) \<noteq> j" "par (par j) \<noteq> par j" "par (par j) < n" using par_less [OF k(4)] j by linarith+
    have "prio q (par (par j)) \<le> prio q (par j)" using le [of "par j"] k(4) j by simp
    moreover have "k \<noteq> par j" using k(2,3) par_less [of k] by auto
    ultimately show "prio ?q (par (par j)) \<le> prio ?q k"
      using nth [OF pp(3)] nth [OF k(1)] pp le [OF k(1,2)] k(3) by (auto intro: order_trans)
  qed
  show "above n ?q (par j)"
    unfolding above_def
  proof (intro allI impI)
    fix k assume k: "k < n" "0 < k" "par k = par j"
    have "k \<noteq> par j" using k(2,3) par_less [of k] by auto
    then show "prio ?q (par j) \<le> prio ?q k"
      using nth [OF j(2)] nth [OF k(1)] le [OF k(1,2)] k(3) j(1) assms(6) by auto
  qed
qed

lemma down_step:
  assumes "gap_at n q i" "i < n" "n \<le> length q" "0 < j" "j < n" "par j = i" "prio q j < prio q i"
    and "\<forall>k<n. 0 < k \<longrightarrow> par k = i \<longrightarrow> prio q j \<le> prio q k"
  shows "gap_at n (pq_Swap q i j) j" "below (pq_Swap q i j) j"
proof -
  let ?q = "pq_Swap q i j"
  have ij: "i < j" using par_less [OF assms(4)] assms(6) by simp
  have nth: "prio ?q k = (if k = j then prio q i else if k = i then prio q j else prio q k)" if "k < n" for k
    using swap_nth [of i q j k] assms(2,3,5) that by auto
  have pk: "par k < n" if "k < n" "0 < k" for k using par_less [OF that(2)] that(1) by linarith
  have le: "prio q (par k) \<le> prio q k" if "k < n" "0 < k" "k \<noteq> i" "par k \<noteq> i" for k
    using assms(1) that unfolding gap_at_def by metis
  have child: "prio q (par i) \<le> prio q k" if "k < n" "0 < k" "par k = i" "0 < i" for k
    using assms(1) that unfolding gap_at_def by metis
  show "gap_at n ?q j"
    unfolding gap_at_def
  proof (intro conjI allI impI)
    fix k assume k: "k < n" "0 < k" "k \<noteq> j" "par k \<noteq> j"
    show "prio ?q (par k) \<le> prio ?q k"
    proof (cases "k = i")
      case True
      then have "par i < i" using par_less [of i] k(2) by simp
      then have "par i \<noteq> i" "par i \<noteq> j" using ij by linarith+
      then show ?thesis using True nth [OF pk [OF k(1,2)]] nth [OF k(1)] child [OF assms(5,4,6)] k(2,3) by simp
    next
      case False
      then show ?thesis using k nth [OF pk [OF k(1,2)]] nth [OF k(1)] le [OF k(1,2)] assms(8) by auto
    qed
  next
    fix k assume k: "k < n" "0 < k" "par k = j" "0 < j"
    then have "k \<noteq> j" "k \<noteq> i" "par k \<noteq> i" using par_less [of k] ij by auto
    then show "prio ?q (par j) \<le> prio ?q k"
      using nth [OF k(1)] nth [OF assms(2)] le [OF k(1,2)] k(3) ij assms(6) by simp
  qed
  show "below ?q j" using nth [OF assms(5)] nth [OF assms(2)] ij assms(6,7) by (simp add: below_def)
qed

lemma heap_up_heap:
  assumes "gap_at n q j" "above n q j" "j < n" "n \<le> length q"
  shows "heap_on n (heap_up q j) \<and> length (heap_up q j) = length q \<and> mset (heap_up q j) = mset q \<and>
    (\<forall>k<length q. n \<le> k \<longrightarrow> heap_up q j ! k = q ! k)"
  using assms
proof (induction q j rule: heap_up.induct)
  case (1 q j)
  show ?case
  proof (cases "par j = j \<or> \<not> pq_Less q j (par j)")
    case True
    then have "heap_up q j = q" by (subst heap_up.simps) (simp add: Let_def par_def)
    moreover have "below q j"
      using True par_less [of j] by (auto simp: below_def pq_Less_def not_less simp del: par_less)
    ultimately show ?thesis using gap_closed [OF "1.prems"(1,2)] by simp
  next
    case False
    then have j: "0 < j" "prio q j < prio q (par j)" by (auto simp: pq_Less_def par_def)
    let ?q = "pq_Swap q (par j) j"
    have u: "heap_up q j = heap_up ?q (par j)" using False by (subst heap_up.simps) (simp add: Let_def par_def)
    have p: "par j < n" "par j < length q" "j < length q" using par_less [OF j(1)] "1.prems"(3,4) by linarith+
    have r: "heap_on n (heap_up ?q (par j)) \<and> length (heap_up ?q (par j)) = length ?q \<and> mset (heap_up ?q (par j)) = mset ?q \<and>
        (\<forall>k<length ?q. n \<le> k \<longrightarrow> heap_up ?q (par j) ! k = ?q ! k)"
      using "1.IH" [OF refl, folded par_def, OF False up_step [OF "1.prems" j]] p "1.prems"(4) by simp
    show ?thesis using r p "1.prems"(3) by (auto simp: u swap_mset swap_nth)
  qed
qed

text \<open>One turn of the loop of \<^verbatim>\<open>down\<close>: it ends, or moves to the smaller child.\<close>

lemma heap_down_cases:
  obtains (stay) "heap_down q i n = (q, i)" "above n q i"
  | (move) j where "0 < j" "j < n" "par j = i" "prio q j < prio q i"
      "\<forall>k<n. 0 < k \<longrightarrow> par k = i \<longrightarrow> prio q j \<le> prio q k" "heap_down q i n = heap_down (pq_Swap q i j) j n"
proof -
  define j where "j = (if 2 * i + 1 + 1 < n \<and> pq_Less q (2 * i + 1 + 1) (2 * i + 1) then 2 * i + 1 + 1 else 2 * i + 1)"
  have d: "heap_down q i n = (if n \<le> 2 * i + 1 then (q, i) else if \<not> pq_Less q j i then (q, i) else heap_down (pq_Swap q i j) j n)"
    unfolding j_def by (subst heap_down.simps) (simp only: Let_def)
  show ?thesis
  proof (cases "n \<le> 2 * i + 1")
    case True
    then have "above n q i" by (auto simp: above_def par_child)
    then show ?thesis using stay d True by simp
  next
    case False
    then have c: "0 < j" "j < n" "par j = i" "\<forall>k<n. 0 < k \<longrightarrow> par k = i \<longrightarrow> prio q j \<le> prio q k"
      by (auto simp: j_def par_child pq_Less_def)
    show ?thesis
    proof (cases "pq_Less q j i")
      case True
      then show ?thesis using move [OF c(1-3) _ c(4)] d False by (simp add: pq_Less_def)
    next
      case no: False
      then have le: "prio q i \<le> prio q j" by (simp add: pq_Less_def not_less)
      have "above n q i" unfolding above_def using order.trans [OF le] c(4) by simp
      then show ?thesis using stay d False no by simp
    qed
  qed
qed

lemma heap_down_heap:
  assumes "gap_at n q i" "below q i" "i < n" "n \<le> length q"
  shows "heap_on n (fst (heap_down q i n)) \<and> length (fst (heap_down q i n)) = length q \<and>
    mset (fst (heap_down q i n)) = mset q \<and> (\<forall>k<length q. n \<le> k \<longrightarrow> fst (heap_down q i n) ! k = q ! k) \<and>
    i \<le> snd (heap_down q i n)"
  using assms
proof (induction "n - i" arbitrary: q i rule: less_induct)
  case less
  show ?case
  proof (cases rule: heap_down_cases [of q i n])
    case stay
    then show ?thesis using gap_closed [OF less.prems(1) _ less.prems(2)] by simp
  next
    case (move j)
    have ij: "i < j" using par_less [OF move(1)] move(3) by simp
    note s = down_step [OF less.prems(1,3,4) move(1-5)]
    have "n - j < n - i" using ij move(2) by linarith
    from less.hyps [OF this s move(2)] show ?thesis
      using less.prems(3,4) move(2,6) ij by (auto simp: swap_mset swap_nth)
  qed
qed

text \<open>The same from an index that may also be too small for its parent.\<close>

lemma heap_down_gap:
  assumes "gap_at n q i" "i < n" "n \<le> length q"
  shows "heap_down q i n = (q, i) \<and> above n q i \<or>
    i < snd (heap_down q i n) \<and> heap_on n (fst (heap_down q i n)) \<and> length (fst (heap_down q i n)) = length q \<and>
    mset (fst (heap_down q i n)) = mset q \<and> (\<forall>k<length q. n \<le> k \<longrightarrow> fst (heap_down q i n) ! k = q ! k)"
proof (cases rule: heap_down_cases [of q i n])
  case (move j)
  have ij: "i < j" using par_less [OF move(1)] move(3) by simp
  from heap_down_heap [OF down_step [OF assms move(1-5)] move(2)] show ?thesis
    using assms(2,3) move(2,6) ij by (auto simp: swap_mset swap_nth)
qed simp

section \<open>The operations keep the order and the elements\<close>

definition heap_ok :: "'v pq \<Rightarrow> bool" where
  "heap_ok q \<longleftrightarrow> heap_on (length q) q"

lemma heap_root:
  assumes "heap_ok q" "k < length q"
  shows "prio q 0 \<le> prio q k"
  using assms(2)
proof (induction k rule: less_induct)
  case (less k)
  show ?case
  proof (cases "k = 0")
    case False
    then have "prio q 0 \<le> prio q (par k)" "prio q (par k) \<le> prio q k"
      using less.IH [of "par k"] order_less_trans [OF par_less [of k] less.prems] less.prems assms(1)
      by (simp_all add: heap_ok_def heap_on_def)
    then show ?thesis by (rule order_trans)
  qed simp
qed

lemma heap_min: "heap_ok q \<Longrightarrow> x \<in># mset q \<Longrightarrow> prio q 0 \<le> Priority x"
  using heap_root [of q] by (auto simp: in_set_conv_nth)

lemma pop_last:
  assumes "length q = Suc n" "heap_on n q"
  shows "pq_Pop q = (Some (q ! n), butlast q)" "heap_ok (butlast q)" "mset q = add_mset (q ! n) (mset (butlast q))"
proof -
  have ne: "q \<noteq> []" using assms(1) by auto
  show "pq_Pop q = (Some (q ! n), butlast q)" using assms(1) ne by (simp add: pq_Pop_def pq_Len_def last_conv_nth)
  have "k < n \<Longrightarrow> 0 < k \<Longrightarrow> par k < n" for k using par_less [of k] by linarith
  then show "heap_ok (butlast q)"
    using assms by (simp add: heap_ok_def heap_on_def nth_butlast)
  have "q = butlast q @ [q ! n]" using ne assms(1) by (metis append_butlast_last_id diff_Suc_1 last_conv_nth)
  then show "mset q = add_mset (q ! n) (mset (butlast q))" by (metis add_mset_add_single mset.simps mset_append union_commute)
qed

lemma swapped_gap:
  assumes "heap_ok q" "length q = Suc n" "i < n"
  shows "gap_at n (pq_Swap q i n) i"
proof -
  have nth: "prio (pq_Swap q i n) k = (if k = i then prio q n else prio q k)" if "k < n" for k
    using swap_nth [of i q n k] assms(2,3) that by auto
  have pk: "par k < n" if "k < n" "0 < k" for k using par_less [OF that(2)] that(1) by linarith
  have le: "prio q (par k) \<le> prio q k" if "k < n" "0 < k" for k
    using assms(1,2) that by (simp add: heap_ok_def heap_on_def)
  show ?thesis
    unfolding gap_at_def
  proof (intro conjI allI impI)
    fix k assume k: "k < n" "0 < k" "k \<noteq> i" "par k \<noteq> i"
    then show "prio (pq_Swap q i n) (par k) \<le> prio (pq_Swap q i n) k"
      using nth [OF k(1)] nth [OF pk [OF k(1,2)]] le [OF k(1,2)] by simp
  next
    fix k assume k: "k < n" "0 < k" "par k = i" "0 < i"
    have p: "par i < n" "par i \<noteq> i" "k \<noteq> i" using par_less [OF k(4)] par_less [OF k(2)] assms(3) k(3) by auto
    show "prio (pq_Swap q i n) (par i) \<le> prio (pq_Swap q i n) k"
      using nth [OF k(1)] nth [OF p(1)] le [OF k(1,2)] le [OF assms(3) k(4)] k(3) p by simp
  qed
qed

lemma heap_Remove_in_range:
  assumes "heap_ok q" "i < length q"
  shows "\<exists>q'. heap_Remove q (int i) = Ok (Some (q ! i), q') \<and> heap_ok q' \<and> mset q = add_mset (q ! i) (mset q')"
proof -
  obtain n where n: "length q = Suc n" using assms(2) by (cases "length q") auto
  show ?thesis
  proof (cases "i = n")
    case True
    then show ?thesis
      using pop_last [OF n] assms(1) n by (auto simp: heap_Remove_def pq_Len_def heap_ok_def heap_on_def)
  next
    case False
    then have i: "i < n" using assms(2) n by simp
    let ?q = "pq_Swap q i n"
    note g = swapped_gap [OF assms(1) n i]
    obtain q1 where q1: "heap_Remove q (int i) = Ok (pq_Pop q1)" "heap_on n q1" "length q1 = Suc n" "mset q1 = mset ?q" "q1 ! n = ?q ! n"
    proof -
      have r: "heap_Remove q (int i) = Ok (pq_Pop (if i < snd (heap_down ?q i n) then fst (heap_down ?q i n)
          else heap_up (fst (heap_down ?q i n)) i))"
        using i n by (simp add: heap_Remove_def pq_Len_def Let_def case_prod_unfold)
      from heap_down_gap [OF g i] n consider "heap_down ?q i n = (?q, i)" "above n ?q i"
        | "i < snd (heap_down ?q i n)" "heap_on n (fst (heap_down ?q i n))" "length (fst (heap_down ?q i n)) = Suc n"
          "mset (fst (heap_down ?q i n)) = mset ?q" "fst (heap_down ?q i n) ! n = ?q ! n" by auto
      then show ?thesis
      proof cases
        case 1
        then show ?thesis using that [of "heap_up ?q i"] r heap_up_heap [OF g 1(2) i] n by simp
      next
        case 2
        then show ?thesis using that [of "fst (heap_down ?q i n)"] r by simp
      qed
    qed
    have "q1 ! n = q ! i" using q1(5) swap_nth [of i q n n] i n by simp
    moreover have "mset q1 = mset q" using q1(4) i n by (simp add: swap_mset)
    ultimately show ?thesis using pop_last [OF q1(3,2)] q1(1) by auto
  qed
qed

lemma heap_Pop_min:
  assumes "heap_ok q" "q \<noteq> []"
  shows "\<exists>q'. heap_Pop q = (Some (q ! 0), q') \<and> heap_ok q' \<and> mset q = add_mset (q ! 0) (mset q')"
proof -
  obtain n where n: "length q = Suc n" using assms(2) by (cases q) auto
  show ?thesis
  proof (cases "n = 0")
    case True
    then have "heap_down (pq_Swap q 0 0) 0 0 = (q, 0)" by (subst heap_down.simps) (simp add: pq_Swap_def)
    then show ?thesis using pop_last [OF n] assms(1) n True by (auto simp: heap_Pop_def pq_Len_def heap_ok_def heap_on_def)
  next
    case False
    let ?q = "pq_Swap q 0 n"
    have "below ?q 0" by (simp add: below_def)
    from heap_down_heap [OF swapped_gap [OF assms(1) n] this] False n
    have d: "heap_on n (fst (heap_down ?q 0 n))" "length (fst (heap_down ?q 0 n)) = Suc n"
      "mset (fst (heap_down ?q 0 n)) = mset ?q" "fst (heap_down ?q 0 n) ! n = ?q ! n" by auto
    have "?q ! n = q ! 0" "mset ?q = mset q" using swap_nth [of 0 q n n] n by (simp_all add: swap_mset)
    then show ?thesis using pop_last [OF d(2,1)] d n by (auto simp: heap_Pop_def pq_Len_def)
  qed
qed

lemma heap_Push_adds:
  assumes "heap_ok q"
  shows "heap_ok (heap_Push x q)" "mset (heap_Push x q) = add_mset x (mset q)"
proof -
  let ?q = "q @ [x]" and ?n = "length q"
  have small: "par k < ?n" if "k < Suc ?n" "0 < k" for k using par_less [OF that(2)] that(1) by linarith
  then have no: "par k \<noteq> ?n" if "k < Suc ?n" "0 < k" for k using that by (metis less_irrefl)
  have "prio ?q (par k) \<le> prio ?q k" if "k < Suc ?n" "0 < k" "k \<noteq> ?n" for k
    using assms that small [OF that(1,2)] by (simp add: heap_ok_def heap_on_def nth_append)
  then have "gap_at (Suc ?n) ?q ?n" "above (Suc ?n) ?q ?n" unfolding gap_at_def above_def using no by blast+
  then have "heap_on (Suc ?n) (heap_up ?q ?n) \<and> length (heap_up ?q ?n) = length ?q \<and> mset (heap_up ?q ?n) = mset ?q"
    using heap_up_heap [of "Suc ?n" ?q ?n] by simp
  then show "heap_ok (heap_Push x q)" "mset (heap_Push x q) = add_mset x (mset q)"
    by (simp_all add: heap_Push_def pq_Push_def pq_Len_def heap_ok_def)
qed

section \<open>The queue as a multiset\<close>

text \<open>
  What a user of a priority queue relies on: a queue holds a multiset of elements, peeking shows a least
  one, and popping removes the one that peeking shows.  The function \<open>drain\<close> pops a number of elements.
\<close>

fun drain :: "('q \<Rightarrow> 'e option \<times> 'q) \<Rightarrow> nat \<Rightarrow> 'q \<Rightarrow> 'e list" where
  "drain pop 0 q = []"
| "drain pop (Suc n) q = (case pop q of (None, _) \<Rightarrow> [] | (Some e, q') \<Rightarrow> e # drain pop n q')"

locale priority_queue =
  fixes good :: "'q \<Rightarrow> bool" and elems :: "'q \<Rightarrow> 'e multiset" and key :: "'e \<Rightarrow> 'k :: linorder"
    and peek :: "'q \<Rightarrow> 'e option" and pop :: "'q \<Rightarrow> 'e option \<times> 'q" and insert_elem :: "'e \<Rightarrow> 'q \<Rightarrow> 'q"
  assumes peek_None: "good q \<Longrightarrow> peek q = None \<longleftrightarrow> elems q = {#}"
    and peek_least: "good q \<Longrightarrow> peek q = Some e \<Longrightarrow> e \<in># elems q \<and> (\<forall>x\<in>#elems q. key e \<le> key x)"
    and pop_peeked: "good q \<Longrightarrow> peek q = Some e \<Longrightarrow>
      \<exists>q'. pop q = (Some e, q') \<and> good q' \<and> elems q = add_mset e (elems q')"
    and pop_empty: "good q \<Longrightarrow> peek q = None \<Longrightarrow> pop q = (None, q)"
    and insert_adds: "good q \<Longrightarrow> good (insert_elem e q) \<and> elems (insert_elem e q) = add_mset e (elems q)"
begin

lemma pop_cases:
  assumes "good q"
  obtains "elems q = {#}" "pop q = (None, q)"
  | e q' where "pop q = (Some e, q')" "good q'" "elems q = add_mset e (elems q')" "\<forall>x\<in>#elems q. key e \<le> key x"
proof (cases "peek q")
  case None
  then show ?thesis using that(1) peek_None [OF assms] pop_empty [OF assms] by simp
next
  case (Some e)
  then show ?thesis using that(2) peek_least [OF assms Some] pop_peeked [OF assms Some] by blast
qed

lemma inserts_add:
  "good q \<Longrightarrow> good (fold insert_elem es q) \<and> elems (fold insert_elem es q) = elems q + mset es"
proof (induction es arbitrary: q)
  case (Cons e es)
  then show ?case using insert_adds [OF Cons.prems, of e] by simp
qed simp

lemma drained:
  assumes "good q" "size (elems q) \<le> n"
  shows "mset (drain pop n q) = elems q \<and> sorted (map key (drain pop n q))"
  using assms
proof (induction n arbitrary: q)
  case (Suc n)
  show ?case
  proof (cases rule: pop_cases [OF Suc.prems(1)])
    case (2 e q')
    then have "mset (drain pop n q') = elems q' \<and> sorted (map key (drain pop n q'))"
      using Suc.IH [OF 2(2)] Suc.prems(2) by simp
    moreover from this have "set (drain pop n q') = set_mset (elems q')" by (metis set_mset_mset)
    ultimately show ?thesis using 2 by auto
  qed simp
qed simp

end

interpretation heap_queue: priority_queue heap_ok mset Priority pq_Peek heap_Pop heap_Push
proof
  fix q :: "'a pq" and e :: "'a pq_Entry"
  show "heap_ok q \<Longrightarrow> pq_Peek q = None \<longleftrightarrow> mset q = {#}" by (simp add: pq_Peek_def pq_Len_def)
  show "heap_ok q \<Longrightarrow> pq_Peek q = Some e \<Longrightarrow> e \<in># mset q \<and> (\<forall>x\<in>#mset q. Priority e \<le> Priority x)"
    using heap_min [of q] by (auto simp: pq_Peek_def pq_Len_def split: if_splits)
  show "heap_ok q \<Longrightarrow> pq_Peek q = Some e \<Longrightarrow> \<exists>q'. heap_Pop q = (Some e, q') \<and> heap_ok q' \<and> mset q = add_mset e (mset q')"
    using heap_Pop_min [of q] by (auto simp: pq_Peek_def pq_Len_def split: if_splits)
  show "heap_ok q \<Longrightarrow> pq_Peek q = None \<Longrightarrow> heap_Pop q = (None, q)"
    by (auto simp: pq_Peek_def heap_Pop_def pq_Pop_def split: if_splits)
  show "heap_ok q \<Longrightarrow> heap_ok (heap_Push e q) \<and> mset (heap_Push e q) = add_mset e (mset q)"
    using heap_Push_adds [of q e] by simp
qed

lemma heap_ok_New [simp]: "heap_ok pq_New" "pq_New = []"
  by (simp_all add: pq_New_def heap_Init_def pq_Len_def heap_ok_def heap_on_def)

section \<open>Properties\<close>

text \<open>
  C38: whatever is put into a new queue comes out of it in the order of the priorities: after any sequence
  of \<^verbatim>\<open>Enqueue\<close>, popping as many elements as were put in gives all of them, sorted.
\<close>

theorem queue_sorts:
  "mset (drain heap_Pop (length xs) (fold (\<lambda>(p, v). Enqueue p v) xs pq_New)) =
     mset (map (\<lambda>(p, v). \<lparr>Value = v, Priority = p\<rparr>) xs) \<and>
   sorted (map Priority (drain heap_Pop (length xs) (fold (\<lambda>(p, v). Enqueue p v) xs pq_New)))"
proof -
  let ?es = "map (\<lambda>(p, v). \<lparr>Value = v, Priority = p\<rparr>) xs"
  have fold: "fold (\<lambda>(p, v). Enqueue p v) xs q = fold heap_Push ?es q" for q
    by (induction xs arbitrary: q) (auto simp: Enqueue_def)
  have h: "heap_ok (fold heap_Push ?es pq_New)" "mset (fold heap_Push ?es pq_New) = mset ?es"
    using heap_queue.inserts_add [OF heap_ok_New(1), of ?es] by (simp_all del: mset_map add: heap_ok_New(2))
  then have "size (mset (fold heap_Push ?es pq_New)) \<le> length xs" unfolding h(2) size_mset by simp
  from heap_queue.drained [OF h(1) this] show ?thesis unfolding fold h(2) by blast
qed

text \<open>
  taking an entry at any index of a queue, as \<^verbatim>\<open>DequeueRandom\<close> and \<^verbatim>\<open>DequeueIndex\<close> do, returns it and leaves
  the other entries as a queue that is in order; a negative index other than \<open>-1\<close> and an index out of range
  panic, and \<open>-1\<close> takes the last entry of the slice.
\<close>

theorem DequeueIndex_takes:
  assumes "heap_ok q" and "q \<noteq> []"
  shows "if 0 \<le> i \<and> i < int (length q)
    then \<exists>q'. DequeueIndex q i = Ok (Some (q ! nat i), q') \<and> heap_ok q' \<and> mset q = add_mset (q ! nat i) (mset q')
    else if i = -1 then \<exists>q'. DequeueIndex q i = Ok (Some (last q), q') \<and> heap_ok q' \<and> mset q = add_mset (last q) (mset q')
    else DequeueIndex q i = Panic"
proof -
  have k: "length q - 1 < length q" "q ! (length q - 1) = last q" "int (length q - 1) = int (length q) - 1"
    using assms(2) by (simp_all add: last_conv_nth of_nat_diff Suc_leI)
  have "heap_Remove q (int (length q - 1)) = Ok (pq_Pop q)" "heap_Remove q (-1) = Ok (pq_Pop q)"
    unfolding k(3) by (simp_all add: heap_Remove_def pq_Len_def Let_def)
  then have "\<exists>q'. heap_Remove q (-1) = Ok (Some (last q), q') \<and> heap_ok q' \<and> mset q = add_mset (last q) (mset q')"
    using heap_Remove_in_range [OF assms(1) k(1)] k(2) by simp
  moreover have "heap_Remove q i = Panic" if "\<not> (0 \<le> i \<and> i < int (length q))" "i \<noteq> -1"
    using that by (simp add: heap_Remove_def pq_Len_def Let_def) linarith
  moreover have "DequeueIndex q i = heap_Remove q i" using assms(2) by (simp add: DequeueIndex_def pq_Len_def)
  moreover have "\<exists>q'. heap_Remove q i = Ok (Some (q ! nat i), q') \<and> heap_ok q' \<and> mset q = add_mset (q ! nat i) (mset q')"
    if "0 \<le> i \<and> i < int (length q)"
    using heap_Remove_in_range [OF assms(1), of "nat i"] that by (simp add: nat_less_iff)
  ultimately show ?thesis by (cases "0 \<le> i \<and> i < int (length q)"; cases "i = -1") simp_all
qed

theorem DequeueIndex_takes_witness:
  "\<exists>q'. DequeueIndex (Enqueue 2 True (Enqueue 1 False pq_New)) 0 = Ok (Some \<lparr>Value = False, Priority = 1\<rparr>, q') \<and>
    heap_ok q'"
proof -
  let ?q = "Enqueue 2 True (Enqueue 1 False pq_New)"
  have q: "heap_ok ?q" "mset ?q = {#\<lparr>Value = False, Priority = 1\<rparr>, \<lparr>Value = True, Priority = 2\<rparr>#}"
    using heap_Push_adds [OF heap_ok_New(1), of "\<lparr>Value = False, Priority = 1\<rparr>"]
      heap_Push_adds [of "heap_Push \<lparr>Value = False, Priority = 1\<rparr> pq_New" "\<lparr>Value = True, Priority = 2\<rparr>"]
    by (simp_all add: Enqueue_def)
  then have ne: "?q \<noteq> []" by auto
  have "?q ! 0 \<in># mset ?q" using ne by simp
  then have "?q ! 0 = \<lparr>Value = False, Priority = 1\<rparr> \<or> ?q ! 0 = \<lparr>Value = True, Priority = 2\<rparr>"
    unfolding q(2) by auto
  moreover have "prio ?q 0 \<le> 1" using heap_min [OF q(1), of "\<lparr>Value = False, Priority = 1\<rparr>"] unfolding q(2) by simp
  moreover have "\<not> (2 :: u64) \<le> 1" by (simp add: word_le_nat_alt)
  ultimately have "?q ! 0 = \<lparr>Value = False, Priority = 1\<rparr>" by force
  moreover have "0 \<le> (0 :: int) \<and> (0 :: int) < int (length ?q)" using ne by (simp del: heap_ok_New)
  ultimately show ?thesis using DequeueIndex_takes [OF q(1) ne, of 0] by (simp only: if_True nat_0 simp_thms) blast
qed

end
