(* ===== verification/Mix_Packet.thy ===== *)
theory Mix_Packet
  imports Sphinx_Surb
begin

text \<open>
  Packets inside a node (\<^verbatim>\<open>src/server/internal/packet/packet.go\<close>): the raw bytes with what unwrapping found in
  them and the times of processing.  Instants and durations are integers, in nanoseconds; a zero instant is 0.
  The allocation pools are not modelled: a packet that is disposed of is just not used again.
\<close>

record Packet =
  pkt_Raw :: bytes
  pkt_Payload :: "bytes option"
  pkt_NextNodeHop :: "(bytes \<times> bytes) option"
  pkt_NodeDelay :: "u32 option"
  pkt_Recipient :: "bytes option"
  pkt_SurbReply :: "bytes option"
  pkt_ID :: u64
  pkt_Delay :: int
  pkt_RecvAt :: int
  pkt_DispatchAt :: int
  pkt_MustForward :: bool
  pkt_MustTerminate :: bool

datatype packet_error = ErrRedundantCommand | ErrPacketSize | ErrForwardLength | ErrTruncatedBlock | ErrReserved
  | ErrFlags | ErrUserPayload | ErrOversizedResponse | ErrSphinx sphinx_error | ErrScheme from_error

fun splitCommands :: "routing_command list \<Rightarrow> Packet \<Rightarrow> (packet_error, Packet) outcome" where
  "splitCommands [] pkt = Ok pkt"
| "splitCommands (NextNodeHop i m # cmds) pkt =
     (if pkt_NextNodeHop pkt \<noteq> None then Fail ErrRedundantCommand
      else splitCommands cmds (pkt\<lparr>pkt_NextNodeHop := Some (i, m)\<rparr>))"
| "splitCommands (NodeDelay d # cmds) pkt =
     (if pkt_NodeDelay pkt \<noteq> None then Fail ErrRedundantCommand
      else splitCommands cmds (pkt\<lparr>pkt_NodeDelay := Some d\<rparr>))"
| "splitCommands (Recipient i # cmds) pkt =
     (if pkt_Recipient pkt \<noteq> None then Fail ErrRedundantCommand
      else splitCommands cmds (pkt\<lparr>pkt_Recipient := Some i\<rparr>))"
| "splitCommands (SURBReply i # cmds) pkt =
     (if pkt_SurbReply pkt \<noteq> None then Fail ErrRedundantCommand
      else splitCommands cmds (pkt\<lparr>pkt_SurbReply := Some i\<rparr>))"

definition pkt_Set :: "bytes option \<Rightarrow> routing_command list \<Rightarrow> Packet \<Rightarrow> (packet_error, Packet) outcome" where
  "pkt_Set payload cmds pkt = splitCommands cmds (pkt\<lparr>pkt_Payload := payload\<rparr>)"

definition IsForward :: "Packet \<Rightarrow> bool" where
  "IsForward pkt \<longleftrightarrow> pkt_NextNodeHop pkt \<noteq> None \<and> pkt_NodeDelay pkt \<noteq> None \<and> pkt_Recipient pkt = None \<and> pkt_SurbReply pkt = None"

definition IsToUser :: "Packet \<Rightarrow> bool" where
  "IsToUser pkt \<longleftrightarrow> pkt_NextNodeHop pkt = None \<and> pkt_NodeDelay pkt \<noteq> None \<and> pkt_Recipient pkt \<noteq> None \<and> pkt_SurbReply pkt = None"

definition IsUnreliableToUser :: "Packet \<Rightarrow> bool" where
  "IsUnreliableToUser pkt \<longleftrightarrow> pkt_NextNodeHop pkt = None \<and> pkt_NodeDelay pkt = None \<and> pkt_Recipient pkt \<noteq> None \<and> pkt_SurbReply pkt = None"

definition IsSURBReply :: "Packet \<Rightarrow> bool" where
  "IsSURBReply pkt \<longleftrightarrow> pkt_NextNodeHop pkt = None \<and> pkt_NodeDelay pkt = None \<and> pkt_Recipient pkt \<noteq> None \<and> pkt_SurbReply pkt \<noteq> None"

text \<open>\<^verbatim>\<open>NewWithID\<close>, with \<^verbatim>\<open>copyToRaw\<close>.\<close>

definition NewWithID :: "bytes \<Rightarrow> u64 \<Rightarrow> geometry \<Rightarrow> (packet_error, Packet) outcome" where
  "NewWithID raw i g =
     (if length raw \<noteq> PacketLength g then Fail ErrPacketSize
      else Ok \<lparr>pkt_Raw = copy_into (zeros (PacketLength g)) raw, pkt_Payload = None, pkt_NextNodeHop = None, pkt_NodeDelay = None,
             pkt_Recipient = None, pkt_SurbReply = None, pkt_ID = i, pkt_Delay = 0, pkt_RecvAt = 0, pkt_DispatchAt = 0,
             pkt_MustForward = False, pkt_MustTerminate = False\<rparr>)"

text \<open>
  The user payload and the SURB of a forward packet.  A geometry whose blocks have no room for the two bytes
  of the header makes the index panic.
\<close>

definition ParseForwardPacket :: "geometry \<Rightarrow> Packet \<Rightarrow> (packet_error, bytes \<times> bytes option) outcome" where
  "ParseForwardPacket g pkt =
     (let hdrLength = SphinxPlaintextHeaderLength g + SURBLength g;
          b = (case pkt_Payload pkt of None \<Rightarrow> [] | Some p \<Rightarrow> p)
      in if length b \<noteq> ForwardPayloadLength g then Fail ErrForwardLength
         else if length b < hdrLength then Fail ErrTruncatedBlock
         else if length b < 2 then Panic
         else if b ! 1 \<noteq> 0 then Fail ErrReserved
         else let ct = drop hdrLength b in
           if b ! 0 \<noteq> 0 \<and> b ! 0 \<noteq> 1 then Fail ErrFlags
           else if length ct \<noteq> UserForwardPayloadLength g then Fail ErrUserPayload
           else Ok (ct, if b ! 0 = 1 then Some (slice (SphinxPlaintextHeaderLength g) hdrLength b) else None))"

text \<open>The response to a packet with a SURB, with the identifier that \<^verbatim>\<open>New\<close> takes from its counter.\<close>

definition responsePacket :: "sphinx_prims \<Rightarrow> (string \<Rightarrow> ('pk, 'sk) nike_scheme option) \<Rightarrow> (string \<Rightarrow> ('kpk, 'ksk) kem_scheme option)
    \<Rightarrow> u64 \<Rightarrow> bytes \<Rightarrow> bytes \<Rightarrow> geometry \<Rightarrow> (packet_error, Packet) outcome" where
  "responsePacket P nikes kems i surb payload g =
     (if length payload > ForwardPayloadLength g then Fail ErrOversizedResponse
      else let respPayload = copy_into (zeros (ForwardPayloadLength g)) payload in
        obind (omap_err ErrScheme (FromGeometry nikes kems g)) (\<lambda>s.
        obind (omap_err ErrSphinx (NewPacketFromSURB P (sx_geometry s) surb respPayload)) (\<lambda>(rawRespPkt, firstHop).
        obind (NewWithID rawRespPkt i g) (\<lambda>respPkt.
        obind (pkt_Set None [NextNodeHop (copy_into (zeros NodeIDLength) firstHop) (zeros MACLength), NodeDelay 0] respPkt) (\<lambda>pkt.
        Ok (pkt\<lparr>pkt_MustForward := True\<rparr>))))))"

section \<open>Lemmas\<close>

lemma splitCommands_keeps:
  "splitCommands cmds pkt = Ok pkt' \<Longrightarrow> pkt_Raw pkt' = pkt_Raw pkt \<and> pkt_Payload pkt' = pkt_Payload pkt \<and> pkt_ID pkt' = pkt_ID pkt \<and>
     pkt_RecvAt pkt' = pkt_RecvAt pkt \<and> pkt_MustForward pkt' = pkt_MustForward pkt \<and> pkt_MustTerminate pkt' = pkt_MustTerminate pkt"
  by (induction cmds pkt rule: splitCommands.induct) (auto split: if_splits)

lemma splitCommands_no_Panic [simp]: "splitCommands cmds pkt \<noteq> Panic"
  by (induction cmds pkt rule: splitCommands.induct) auto

lemma packet_kinds:
  "IsForward pkt \<Longrightarrow> \<not> IsToUser pkt \<and> \<not> IsUnreliableToUser pkt \<and> \<not> IsSURBReply pkt"
  "IsToUser pkt \<Longrightarrow> \<not> IsUnreliableToUser pkt \<and> \<not> IsSURBReply pkt"
  "IsUnreliableToUser pkt \<Longrightarrow> \<not> IsSURBReply pkt"
  by (auto simp: IsForward_def IsToUser_def IsUnreliableToUser_def IsSURBReply_def)

end
