(* ===== verification/Mix_Key.thy ===== *)
theory Mix_Key
  imports Epoch_Time
begin

text \<open>
  Mix keys and their replay filters (\<^verbatim>\<open>src/server/internal/mixkey/mixkey.go\<close>).  A mix key is a key pair for an
  epoch with the tags of the packets that were processed with it: a Bloom filter in memory, a write-back cache,
  and a bucket of a database, to which a worker flushes the cache.  The Bloom filter is third-party code: a
  record of its operations, with the documented absence of false negatives as hypothesis.  The database is a
  pair of maps, one per bucket; a transaction is one step.  Failures of the disk are not modelled.

  The crypto workers and the flush worker run concurrently, so the filter is also a step relation whose steps
  are what the code does under the lock or in one transaction.
\<close>

section \<open>The key\<close>

definition TagLength :: nat where "TagLength = 32"
definition writeBackSize :: nat where "writeBackSize = 131072"

record 'f bloom =
  bl_New :: 'f
  bl_Entries :: "'f \<Rightarrow> nat"
  bl_MaxEntries :: "'f \<Rightarrow> nat"
  bl_TestAndSet :: "'f \<Rightarrow> bytes \<Rightarrow> bool \<times> 'f"

text \<open>The key pair of the configured scheme, serialized and read back.\<close>

record 'k key_codec =
  kc_Marshal :: "'k \<Rightarrow> bytes option"
  kc_Unmarshal :: "bytes \<Rightarrow> 'k option"

record mix_db =
  md_metadata :: "(string, bytes) gomap"
  md_replay :: "(bytes, bytes) gomap"

record ('f, 'k) MixKey =
  mk_db :: mix_db
  mk_open :: bool
  mk_unlinked :: bool
  mk_keypair :: "'k option"
  mk_epoch :: u64
  mk_f :: 'f
  mk_writeBack :: "(bytes, bool) gomap"
  mk_flushCh :: bool
  mk_refCount :: "32 word"
  mk_unlinkIfExpired :: bool

section \<open>The replay filter\<close>

definition get_u64_le :: "bytes \<Rightarrow> u64" where
  "get_u64_le b = get_u64_be (rev (take 8 b))"

definition testAndSetTagDB :: "(bytes, bytes) gomap \<Rightarrow> bytes \<Rightarrow> bool \<times> (bytes, bytes) gomap" where
  "testAndSetTagDB bkt tag =
     (let stored = (case gm_get bkt tag of None \<Rightarrow> 0 | Some b \<Rightarrow> if length b = 8 then get_u64_le b else 1);
          seenCount = (if stored + 1 = 0 then - 1 else stored + 1)
      in (seenCount \<noteq> 1, gm_put bkt tag (put_u64_le seenCount)))"

abbreviation saturated :: "'f bloom \<Rightarrow> 'f \<Rightarrow> bool" where
  "saturated B f \<equiv> bl_MaxEntries B f \<le> bl_Entries B f"

definition testAndSetTagMemory ::
    "'f bloom \<Rightarrow> ('f, 'k) MixKey \<Rightarrow> bytes \<Rightarrow> (bool \<times> bool) \<times> ('f, 'k) MixKey" where
  "testAndSetTagMemory B k tag =
     (let inWriteBack = (gm_get (mk_writeBack k) tag = Some True) in
      if saturated B (mk_f k) then ((True, inWriteBack), k)
      else case bl_TestAndSet B (mk_f k) tag of
          (False, f') \<Rightarrow> ((False, True), k\<lparr>mk_f := f', mk_writeBack := gm_put (mk_writeBack k) tag True\<rparr>)
        | (True, f') \<Rightarrow> ((True, inWriteBack), k\<lparr>mk_f := f'\<rparr>))"

definition queryDB :: "('f, 'k) MixKey \<Rightarrow> bytes \<Rightarrow> bool \<times> ('f, 'k) MixKey" where
  "queryDB k tag = (case testAndSetTagDB (md_replay (mk_db k)) tag of
     (r, bkt) \<Rightarrow> (r, k\<lparr>mk_db := (mk_db k)\<lparr>md_replay := bkt\<rparr>\<rparr>))"

definition IsReplay :: "'f bloom \<Rightarrow> ('f, 'k) MixKey \<Rightarrow> bytes \<Rightarrow> bool \<times> ('f, 'k) MixKey" where
  "IsReplay B k rawTag =
     (if length rawTag \<noteq> TagLength then (True, k)
      else let tag = copy_into (zeros TagLength) rawTag in
        case testAndSetTagMemory B k tag of
          ((False, _), k') \<Rightarrow> (False, k'\<lparr>mk_flushCh := True\<rparr>)
        | ((True, True), k') \<Rightarrow> (True, k')
        | ((True, False), k') \<Rightarrow> queryDB k' tag)"

text \<open>
  \<^verbatim>\<open>doFlush\<close> takes the cache under the lock and writes it to the database in a transaction after it has released
  the lock; between the two the entries are in a local variable only.
\<close>

definition flushSwap :: "bool \<Rightarrow> ('f, 'k) MixKey \<Rightarrow> bytes list option \<times> ('f, 'k) MixKey" where
  "flushSwap forceFlush k =
     (let nEntries = length (mk_writeBack k) in
      if nEntries = 0 \<or> (\<not> forceFlush \<and> nEntries < writeBackSize) then (None, k)
      else (Some (map fst (mk_writeBack k)), k\<lparr>mk_writeBack := []\<rparr>))"

definition flushWrite :: "bytes list \<Rightarrow> ('f, 'k) MixKey \<Rightarrow> ('f, 'k) MixKey" where
  "flushWrite tags k =
     k\<lparr>mk_db := (mk_db k)\<lparr>md_replay := fold (\<lambda>tag bkt. snd (testAndSetTagDB bkt tag)) tags (md_replay (mk_db k))\<rparr>\<rparr>"

definition doFlush :: "bool \<Rightarrow> ('f, 'k) MixKey \<Rightarrow> ('f, 'k) MixKey" where
  "doFlush forceFlush k = (case flushSwap forceFlush k of (None, k') \<Rightarrow> k' | (Some tags, k') \<Rightarrow> flushWrite tags k')"

text \<open>One turn of the worker: a signal on the channel, or the ticker.\<close>

datatype flush_event = FlushSignal | FlushTick

definition mixkey_worker :: "flush_event \<Rightarrow> ('f, 'k) MixKey \<Rightarrow> ('f, 'k) MixKey" where
  "mixkey_worker ev k = (case ev of FlushSignal \<Rightarrow> doFlush False (k\<lparr>mk_flushCh := False\<rparr>) | FlushTick \<Rightarrow> doFlush True k)"

section \<open>Opening and closing\<close>

datatype mixkey_error = ErrVersion | ErrNoPrivateKey | ErrKeyPair | ErrNoEntry | ErrCorruptedEntry | ErrEpochMismatch

definition rebuildFilter :: "'f bloom \<Rightarrow> (bytes, bytes) gomap \<Rightarrow> 'f" where
  "rebuildFilter B bkt = fold (\<lambda>(tag, _) f. snd (bl_TestAndSet B f tag)) bkt (bl_New B)"

text \<open>The error for an incompatible version formats its first byte, which an empty entry does not have.\<close>

definition loadKey :: "'k key_codec \<Rightarrow> u64 \<Rightarrow> (string, bytes) gomap \<Rightarrow> bytes \<Rightarrow> (mixkey_error, 'k) outcome" where
  "loadKey KC epoch bkt version =
     (if version = [] then Panic
      else if version \<noteq> [0] then Fail ErrVersion
      else case gm_get bkt ''privateKey'' of
          None \<Rightarrow> Fail ErrNoPrivateKey
        | Some b \<Rightarrow>
            (case kc_Unmarshal KC b of
               None \<Rightarrow> Fail ErrKeyPair
             | Some kp \<Rightarrow>
                 (case gm_get bkt ''epochKey'' of
                    None \<Rightarrow> Fail ErrNoEntry
                  | Some buf \<Rightarrow>
                      if length buf \<noteq> 8 then Fail ErrCorruptedEntry
                      else if get_u64_le buf \<noteq> epoch then Fail ErrEpochMismatch
                      else Ok kp)))"

definition createKey :: "'k key_codec \<Rightarrow> u64 \<Rightarrow> 'k option \<Rightarrow> (string, bytes) gomap
    \<Rightarrow> (mixkey_error, 'k \<times> (string, bytes) gomap) outcome" where
  "createKey KC epoch generated bkt =
     (case generated of
        None \<Rightarrow> Fail ErrKeyPair
      | Some kp \<Rightarrow>
          (case kc_Marshal KC kp of
             None \<Rightarrow> Fail ErrKeyPair
           | Some keypairBytes \<Rightarrow>
               Ok (kp, gm_put (gm_put (gm_put bkt ''version'' [0]) ''privateKey'' keypairBytes)
                          ''epochKey'' (put_u64_le epoch))))"

text \<open>
  \<^verbatim>\<open>New\<close> on the contents of the database file, with what the generation of a key pair returns; the flag is
  \<^verbatim>\<open>didCreate\<close>.
\<close>

definition mixkey_New :: "'f bloom \<Rightarrow> 'k key_codec \<Rightarrow> u64 \<Rightarrow> 'k option \<Rightarrow> mix_db
    \<Rightarrow> (mixkey_error, ('f, 'k) MixKey \<times> bool) outcome" where
  "mixkey_New B KC epoch generated db =
     (let key = (\<lambda>db' f kp. \<lparr>mk_db = db', mk_open = True, mk_unlinked = False, mk_keypair = Some kp, mk_epoch = epoch,
            mk_f = f, mk_writeBack = [], mk_flushCh = False, mk_refCount = 1, mk_unlinkIfExpired = False\<rparr>)
      in case gm_get (md_metadata db) ''version'' of
           Some version \<Rightarrow>
             obind (loadKey KC epoch (md_metadata db) version)
               (\<lambda>kp. Ok (key db (rebuildFilter B (md_replay db)) kp, False))
         | None \<Rightarrow>
             obind (createKey KC epoch generated (md_metadata db))
               (\<lambda>(kp, meta). Ok (key (db\<lparr>md_metadata := meta\<rparr>) (bl_New B) kp, True)))"

text \<open>
  \<^verbatim>\<open>forceClose\<close>, at the current epoch: the worker ends with a forced flush; the file of an expired key is removed
  if the owner asked for it.  A key that is closed no longer has its key pair.
\<close>

definition forceClose :: "u64 \<Rightarrow> ('f, 'k) MixKey \<Rightarrow> ('f, 'k) MixKey" where
  "forceClose epoch k =
     (let k1 = (if mk_open k then
              (doFlush True k)\<lparr>mk_open := False,
                 mk_unlinked := mk_unlinkIfExpired k \<and> mk_epoch k < epoch - 1\<rparr>
            else k)
      in k1\<lparr>mk_keypair := None\<rparr>)"

definition mk_Deref :: "u64 \<Rightarrow> ('f, 'k) MixKey \<Rightarrow> (unit, ('f, 'k) MixKey) outcome" where
  "mk_Deref epoch k =
     (let i = mk_refCount k - 1; k' = k\<lparr>mk_refCount := i\<rparr>
      in if i = 0 then Ok (forceClose epoch k') else if sint i < 0 then Panic else Ok k')"

definition mk_Ref :: "('f, 'k) MixKey \<Rightarrow> (unit, ('f, 'k) MixKey) outcome" where
  "mk_Ref k = (let i = mk_refCount k + 1 in if sint i \<le> 1 then Panic else Ok (k\<lparr>mk_refCount := i\<rparr>))"

definition SetUnlinkIfExpired :: "bool \<Rightarrow> ('f, 'k) MixKey \<Rightarrow> ('f, 'k) MixKey" where
  "SetUnlinkIfExpired b k = k\<lparr>mk_unlinkIfExpired := b\<rparr>"

section \<open>Concurrent use\<close>

text \<open>
  The key, the local variable of a flush that has taken the cache and not yet written it, and the tags of the
  calls of \<^verbatim>\<open>IsReplay\<close> that are between the lock and the transaction.
\<close>

record ('f, 'k) filter_state =
  fs_key :: "('f, 'k) MixKey"
  fs_flushing :: "bytes list option"
  fs_querying :: "bytes list"

text \<open>
  The label of a step is the tag and the result of the call of \<^verbatim>\<open>IsReplay\<close> that returns in it.  The last step is a
  restart: the key is closed, when no call is under way, and opened again from its file, if that was not removed.
\<close>

inductive replay_step ::
    "'f bloom \<Rightarrow> 'k key_codec \<Rightarrow> ('f, 'k) filter_state \<Rightarrow> (bytes \<times> bool) option \<Rightarrow> ('f, 'k) filter_state \<Rightarrow> bool"
  for B KC where
  malformed: "length t \<noteq> TagLength \<Longrightarrow> replay_step B KC s (Some (t, True)) s"
| fresh: "length t = TagLength \<Longrightarrow> testAndSetTagMemory B (fs_key s) t = ((False, w), k) \<Longrightarrow>
    replay_step B KC s (Some (t, False)) (s\<lparr>fs_key := k\<lparr>mk_flushCh := True\<rparr>\<rparr>)"
| cached: "length t = TagLength \<Longrightarrow> testAndSetTagMemory B (fs_key s) t = ((True, True), k) \<Longrightarrow>
    replay_step B KC s (Some (t, True)) (s\<lparr>fs_key := k\<rparr>)"
| uncertain: "length t = TagLength \<Longrightarrow> testAndSetTagMemory B (fs_key s) t = ((True, False), k) \<Longrightarrow>
    replay_step B KC s None (s\<lparr>fs_key := k, fs_querying := t # fs_querying s\<rparr>)"
| query: "t \<in> set (fs_querying s) \<Longrightarrow> queryDB (fs_key s) t = (r, k) \<Longrightarrow>
    replay_step B KC s (Some (t, r)) (s\<lparr>fs_key := k, fs_querying := remove1 t (fs_querying s)\<rparr>)"
| swapped: "fs_flushing s = None \<Longrightarrow> flushSwap forceFlush (fs_key s) = (tags, k) \<Longrightarrow>
    replay_step B KC s None (s\<lparr>fs_key := k, fs_flushing := tags\<rparr>)"
| written: "fs_flushing s = Some tags \<Longrightarrow>
    replay_step B KC s None (s\<lparr>fs_key := flushWrite tags (fs_key s), fs_flushing := None\<rparr>)"
| restart: "fs_flushing s = None \<Longrightarrow> fs_querying s = [] \<Longrightarrow> \<not> mk_unlinked (forceClose epoch (fs_key s)) \<Longrightarrow>
    mixkey_New B KC (mk_epoch (fs_key s)) generated (mk_db (forceClose epoch (fs_key s))) = Ok (k, c) \<Longrightarrow>
    replay_step B KC s None (s\<lparr>fs_key := k\<rparr>)"

inductive_cases replay_stepE [elim]: "replay_step B KC s l s'"

inductive replay_run ::
    "'f bloom \<Rightarrow> 'k key_codec \<Rightarrow> ('f, 'k) filter_state \<Rightarrow> (bytes \<times> bool) list \<Rightarrow> ('f, 'k) filter_state \<Rightarrow> bool"
  for B KC s where
  start: "replay_run B KC s [] s"
| step: "replay_run B KC s tr s1 \<Longrightarrow> replay_step B KC s1 l s2 \<Longrightarrow>
    replay_run B KC s (case l of None \<Rightarrow> tr | Some e \<Rightarrow> tr @ [e]) s2"

definition opened :: "('f, 'k) MixKey \<Rightarrow> ('f, 'k) filter_state" where
  "opened k = \<lparr>fs_key = k, fs_flushing = None, fs_querying = []\<rparr>"

definition empty_db :: mix_db where
  "empty_db = \<lparr>md_metadata = [], md_replay = []\<rparr>"

section \<open>The filter as a set of tags\<close>

text \<open>No false negatives: a tag that was set is found, and stays.\<close>

definition bloom_ok :: "'f bloom \<Rightarrow> ('f \<Rightarrow> bytes \<Rightarrow> bool) \<Rightarrow> bool" where
  "bloom_ok B mem \<longleftrightarrow> (\<forall>f t. mem f t \<longrightarrow> fst (bl_TestAndSet B f t)) \<and> (\<forall>f t. mem (snd (bl_TestAndSet B f t)) t) \<and>
     (\<forall>f t u. mem f u \<longrightarrow> mem (snd (bl_TestAndSet B f t)) u)"

definition covers :: "'f bloom \<Rightarrow> ('f \<Rightarrow> bytes \<Rightarrow> bool) \<Rightarrow> 'f \<Rightarrow> bytes \<Rightarrow> bool" where
  "covers B mem f t \<longleftrightarrow> mem f t \<or> saturated B f"

text \<open>A stored counter is never zero, so the next one is never one.\<close>

definition bucket_ok :: "(bytes, bytes) gomap \<Rightarrow> bool" where
  "bucket_ok bkt \<longleftrightarrow> (\<forall>t b. gm_get bkt t = Some b \<longrightarrow> length b = 8 \<longrightarrow> get_u64_le b \<noteq> 0)"

definition cache_ok :: "(bytes, bool) gomap \<Rightarrow> bool" where
  "cache_ok w \<longleftrightarrow> (\<forall>t v. gm_get w t = Some v \<longrightarrow> v)"

definition stored :: "('f, 'k) MixKey \<Rightarrow> bytes set" where
  "stored k = gm_keys (md_replay (mk_db k))"

definition pending :: "('f, 'k) MixKey \<Rightarrow> bytes set" where
  "pending k = gm_keys (mk_writeBack k)"

definition key_inv :: "'f bloom \<Rightarrow> ('f \<Rightarrow> bytes \<Rightarrow> bool) \<Rightarrow> ('f, 'k) MixKey \<Rightarrow> bool" where
  "key_inv B mem k \<longleftrightarrow> bloom_ok B mem \<and> bucket_ok (md_replay (mk_db k)) \<and> cache_ok (mk_writeBack k) \<and>
     (\<forall>t\<in>stored k \<union> pending k. covers B mem (mk_f k) t) \<and> gm_has (md_metadata (mk_db k)) ''version'' \<and> mk_open k"

lemma cache_pending:
  assumes "cache_ok w"
  shows "gm_get w t = Some True \<longleftrightarrow> t \<in> gm_keys w"
proof (cases "gm_get w t")
  case None
  then show ?thesis using gm_get_keys [of w t] by simp
next
  case (Some v)
  then have v using assms unfolding cache_ok_def by blast
  then show ?thesis using Some gm_get_keys [of w t] by auto
qed

lemma get_put_u64_le [simp]: "get_u64_le (put_u64_le v) = v"
  by (simp add: get_u64_le_def put_u64_le_def put_u64_be_def) (simp flip: put_u64_be_def)

lemma testAndSetTagDB_set:
  assumes "bucket_ok bkt" "testAndSetTagDB bkt t = (r, bkt')"
  shows "r \<longleftrightarrow> t \<in> gm_keys bkt" "gm_keys bkt' = insert t (gm_keys bkt)" "bucket_ok bkt'"
proof -
  define n where "n = (case gm_get bkt t of None \<Rightarrow> 0 | Some b \<Rightarrow> if length b = 8 then get_u64_le b else 1)"
  define c :: u64 where "c = (if n + 1 = 0 then - 1 else n + 1)"
  have e: "r \<longleftrightarrow> c \<noteq> 1" "bkt' = gm_put bkt t (put_u64_le c)"
    using assms(2) by (simp_all add: testAndSetTagDB_def Let_def c_def n_def split: if_splits)
  have "n = 0 \<longleftrightarrow> t \<notin> gm_keys bkt"
    using assms(1) gm_get_keys [of bkt t] by (auto simp: n_def bucket_ok_def split: option.splits)
  moreover have "c = 1 \<longleftrightarrow> n = 0" by (auto simp: c_def)
  ultimately show "r \<longleftrightarrow> t \<in> gm_keys bkt" using e(1) by simp
  show "gm_keys bkt' = insert t (gm_keys bkt)" by (simp add: e(2))
  have "c \<noteq> 0" by (simp add: c_def)
  then show "bucket_ok bkt'" using assms(1) unfolding bucket_ok_def e(2) by (metis gm_get_put get_put_u64_le option.inject)
qed

lemma flush_bucket:
  assumes "bucket_ok bkt"
  shows "bucket_ok (fold (\<lambda>tag bkt. snd (testAndSetTagDB bkt tag)) tags bkt) \<and>
    gm_keys (fold (\<lambda>tag bkt. snd (testAndSetTagDB bkt tag)) tags bkt) = gm_keys bkt \<union> set tags"
  using assms
proof (induction tags arbitrary: bkt)
  case (Cons t tags)
  have "testAndSetTagDB bkt t = (fst (testAndSetTagDB bkt t), snd (testAndSetTagDB bkt t))" by simp
  note T = testAndSetTagDB_set(2,3) [OF Cons.prems this]
  show ?case using Cons.IH [OF T(2)] T(1) by auto
qed simp

text \<open>The outcomes of the first half of \<^verbatim>\<open>IsReplay\<close>.\<close>

lemma memory_cases:
  assumes "key_inv B mem k" "testAndSetTagMemory B k t = ((maybe, cached), k')"
  obtains "\<not> maybe" "\<not> covers B mem (mk_f k) t" "pending k' = insert t (pending k)" "stored k' = stored k" "key_inv B mem k'"
      "covers B mem (mk_f k') t" "\<forall>u. covers B mem (mk_f k) u \<longrightarrow> covers B mem (mk_f k') u" "mk_epoch k' = mk_epoch k"
  | "maybe" "cached \<longleftrightarrow> t \<in> pending k" "pending k' = pending k" "stored k' = stored k" "key_inv B mem k'"
      "covers B mem (mk_f k') t" "\<forall>u. covers B mem (mk_f k) u \<longrightarrow> covers B mem (mk_f k') u" "mk_epoch k' = mk_epoch k"
proof -
  note I = assms(1) [unfolded key_inv_def]
  have w: "gm_get (mk_writeBack k) t = Some True \<longleftrightarrow> t \<in> pending k"
    using I cache_pending by (simp add: pending_def)
  obtain b f where T: "bl_TestAndSet B (mk_f k) t = (b, f)" by fastforce
  have M: "mem f t" "mem (mk_f k) t \<Longrightarrow> b" "mem (mk_f k) u \<Longrightarrow> mem f u" for u
    using I T unfolding bloom_ok_def by (metis fst_conv snd_conv)+
  show ?thesis
  proof (cases "saturated B (mk_f k)")
    case True
    then have "k' = k" "maybe" "cached \<longleftrightarrow> t \<in> pending k" using assms(2) w by (auto simp: testAndSetTagMemory_def Let_def)
    then show ?thesis using that(2) True assms(1) by (simp add: covers_def)
  next
    case ns: False
    then have C: "\<forall>u. covers B mem (mk_f k) u \<longrightarrow> covers B mem f u" "covers B mem f t" using M by (auto simp: covers_def)
    show ?thesis
    proof (cases b)
      case True
      then have "k' = k\<lparr>mk_f := f\<rparr>" "maybe" "cached \<longleftrightarrow> t \<in> pending k"
        using assms(2) w ns T by (auto simp: testAndSetTagMemory_def Let_def)
      then show ?thesis using that(2) C I by (simp add: key_inv_def stored_def pending_def)
    next
      case False
      then have k': "k' = k\<lparr>mk_f := f, mk_writeBack := gm_put (mk_writeBack k) t True\<rparr>" "\<not> maybe"
        using assms(2) ns T by (auto simp: testAndSetTagMemory_def Let_def)
      moreover have "\<not> covers B mem (mk_f k) t" using M(2) ns False by (auto simp: covers_def)
      moreover have "key_inv B mem k'"
        using C I by (auto simp: k' key_inv_def stored_def pending_def cache_ok_def)
      ultimately show ?thesis using that(1) C by (simp add: stored_def pending_def)
    qed
  qed
qed

lemma queryDB_set:
  assumes "key_inv B mem k" "covers B mem (mk_f k) t" "queryDB k t = (r, k')"
  shows "r \<longleftrightarrow> t \<in> stored k" "stored k' = insert t (stored k)" "pending k' = pending k" "key_inv B mem k'" "mk_f k' = mk_f k"
    "mk_epoch k' = mk_epoch k"
proof -
  obtain bkt where T: "testAndSetTagDB (md_replay (mk_db k)) t = (r, bkt)" "k' = k\<lparr>mk_db := (mk_db k)\<lparr>md_replay := bkt\<rparr>\<rparr>"
    using assms(3) by (auto simp: queryDB_def split: prod.splits)
  note D = testAndSetTagDB_set [OF _ T(1)]
  have "bucket_ok (md_replay (mk_db k))" using assms(1) by (simp add: key_inv_def)
  with D assms(1,2) show "r \<longleftrightarrow> t \<in> stored k" "stored k' = insert t (stored k)" "pending k' = pending k" "key_inv B mem k'"
      "mk_f k' = mk_f k" "mk_epoch k' = mk_epoch k"
    by (auto simp: T(2) stored_def pending_def key_inv_def)
qed

lemma flushSwap_set:
  assumes "key_inv B mem k" "flushSwap force k = (tags, k')"
  shows "key_inv B mem k'" "stored k' = stored k" "mk_f k' = mk_f k" "mk_epoch k' = mk_epoch k"
    "(tags = None \<and> pending k' = pending k) \<or> (\<exists>ts. tags = Some ts \<and> set ts = pending k \<and> pending k' = {})"
proof -
  have "(tags = None \<and> k' = k) \<or> (tags = Some (map fst (mk_writeBack k)) \<and> k' = k\<lparr>mk_writeBack := []\<rparr>)"
    using assms(2) by (auto simp: flushSwap_def Let_def split: if_splits)
  moreover have "set (map fst (mk_writeBack k)) = pending k" by (simp add: pending_def gm_keys_def)
  moreover have "cache_ok []" by (simp add: cache_ok_def gm_get_def)
  ultimately show "key_inv B mem k'" "stored k' = stored k" "mk_f k' = mk_f k" "mk_epoch k' = mk_epoch k"
    "(tags = None \<and> pending k' = pending k) \<or> (\<exists>ts. tags = Some ts \<and> set ts = pending k \<and> pending k' = {})"
    using assms(1) by (auto simp: key_inv_def stored_def pending_def)
qed

lemma flushWrite_set:
  assumes "key_inv B mem k" "\<forall>t\<in>set tags. covers B mem (mk_f k) t"
  shows "key_inv B mem (flushWrite tags k)" "stored (flushWrite tags k) = stored k \<union> set tags"
    "pending (flushWrite tags k) = pending k" "mk_f (flushWrite tags k) = mk_f k" "mk_epoch (flushWrite tags k) = mk_epoch k"
proof -
  define bkt where "bkt = fold (\<lambda>tag bkt. snd (testAndSetTagDB bkt tag)) tags (md_replay (mk_db k))"
  have "bucket_ok (md_replay (mk_db k))" using assms(1) by (simp add: key_inv_def)
  then have b: "bucket_ok bkt" "gm_keys bkt = gm_keys (md_replay (mk_db k)) \<union> set tags"
    using flush_bucket unfolding bkt_def by blast+
  have e: "flushWrite tags k = k\<lparr>mk_db := (mk_db k)\<lparr>md_replay := bkt\<rparr>\<rparr>" by (simp add: flushWrite_def bkt_def)
  show "stored (flushWrite tags k) = stored k \<union> set tags" "pending (flushWrite tags k) = pending k"
    "mk_f (flushWrite tags k) = mk_f k" "mk_epoch (flushWrite tags k) = mk_epoch k"
    by (simp_all add: e b stored_def pending_def)
  show "key_inv B mem (flushWrite tags k)" using assms b by (auto simp: e key_inv_def stored_def pending_def)
qed

lemma doFlush_set:
  assumes "key_inv B mem k"
  shows "key_inv B mem (doFlush force k)" "stored (doFlush force k) \<union> pending (doFlush force k) = stored k \<union> pending k"
    "force \<Longrightarrow> pending (doFlush force k) = {}" "mk_epoch (doFlush force k) = mk_epoch k"
proof -
  obtain tags k1 where s: "flushSwap force k = (tags, k1)" by fastforce
  note S = flushSwap_set [OF assms s]
  have c: "\<forall>t\<in>pending k. covers B mem (mk_f k1) t" using assms S(3) by (simp add: key_inv_def)
  have n: "force \<Longrightarrow> tags = None \<Longrightarrow> pending k = {}" using s by (auto simp: flushSwap_def Let_def pending_def split: if_splits)
  have "(tags = None \<and> doFlush force k = k1) \<or> (\<exists>ts. tags = Some ts \<and> doFlush force k = flushWrite ts k1)"
    by (cases tags) (simp_all add: doFlush_def s)
  then consider "tags = None" "doFlush force k = k1" "pending k1 = pending k"
    | ts where "doFlush force k = flushWrite ts k1" "set ts = pending k" "pending k1 = {}"
    using S(5) by auto
  then show "key_inv B mem (doFlush force k)" "stored (doFlush force k) \<union> pending (doFlush force k) = stored k \<union> pending k"
    "force \<Longrightarrow> pending (doFlush force k) = {}" "mk_epoch (doFlush force k) = mk_epoch k"
    using S(1,2,4) n flushWrite_set [OF S(1)] c by (cases; simp)+
qed

lemma rebuilt:
  assumes "bloom_ok B mem"
  shows "\<forall>t. mem f t \<or> t \<in> gm_keys bkt \<longrightarrow> mem (fold (\<lambda>(tag, _) f. snd (bl_TestAndSet B f tag)) bkt f) t"
proof (induction bkt arbitrary: f)
  case (Cons e bkt)
  have "mem (snd (bl_TestAndSet B f (fst e))) t" if "mem f t \<or> t = fst e" for t
    using assms that by (auto simp: bloom_ok_def)
  then show ?case using Cons.IH [of "snd (bl_TestAndSet B f (fst e))"] by (auto simp: gm_keys_def split_beta)
qed simp

lemma mixkey_New_cases:
  assumes "mixkey_New B KC epoch generated db = Ok (k, c)"
  obtains (loaded) version where "gm_get (md_metadata db) ''version'' = Some version" "mk_db k = db"
      "mk_f k = rebuildFilter B (md_replay db)" "mk_writeBack k = []" "mk_epoch k = epoch" "mk_open k" "\<not> c"
      "loadKey KC epoch (md_metadata db) version = Ok (the (mk_keypair k))" "mk_keypair k \<noteq> None"
  | (created) meta where "gm_get (md_metadata db) ''version'' = None" "mk_db k = db\<lparr>md_metadata := meta\<rparr>"
      "mk_f k = bl_New B" "mk_writeBack k = []" "mk_epoch k = epoch" "mk_open k" c "gm_has meta ''version''"
      "createKey KC epoch generated (md_metadata db) = Ok (the (mk_keypair k), meta)" "mk_keypair k \<noteq> None"
proof (cases "gm_get (md_metadata db) ''version''")
  case None
  then obtain kp meta where m: "createKey KC epoch generated (md_metadata db) = Ok (kp, meta)"
    using assms by (auto simp: mixkey_New_def Let_def obind_Ok_iff)
  then have "gm_has meta ''version''" by (auto simp: createKey_def split: option.splits)
  then show ?thesis using created [of meta] None m assms by (auto simp: mixkey_New_def Let_def)
next
  case (Some version)
  then obtain kp where "loadKey KC epoch (md_metadata db) version = Ok kp"
    using assms by (auto simp: mixkey_New_def Let_def obind_Ok_iff)
  then show ?thesis using loaded [of version] Some assms by (auto simp: mixkey_New_def Let_def)
qed

lemma mixkey_New_inv:
  assumes "bloom_ok B mem" "mixkey_New B KC epoch generated db = Ok (k, c)" "bucket_ok (md_replay db)"
    and "gm_has (md_metadata db) ''version'' \<or> md_replay db = []"
  shows "key_inv B mem k" "stored k = gm_keys (md_replay db)" "pending k = {}" "mk_epoch k = epoch"
proof -
  have "cache_ok []" by (simp add: cache_ok_def gm_get_def)
  then have "key_inv B mem k \<and> stored k = gm_keys (md_replay db) \<and> pending k = {} \<and> mk_epoch k = epoch"
    using assms(2)
  proof (cases rule: mixkey_New_cases [OF assms(2)])
    case (1 version)
    have "\<forall>t\<in>gm_keys (md_replay db). mem (mk_f k) t"
      using rebuilt [OF assms(1), of "bl_New B" "md_replay db"] by (simp add: 1(3) rebuildFilter_def)
    then show ?thesis
      using 1(1-6) assms(1,3) \<open>cache_ok []\<close> by (simp add: key_inv_def stored_def pending_def covers_def gm_has_def)
  next
    case (2 meta)
    then have "md_replay db = []" using assms(4) by (simp add: gm_has_def)
    then show ?thesis
      using 2(2-6,8) assms(1,3) \<open>cache_ok []\<close> by (simp add: key_inv_def stored_def pending_def)
  qed
  then show "key_inv B mem k" "stored k = gm_keys (md_replay db)" "pending k = {}" "mk_epoch k = epoch" by blast+
qed

text \<open>Closing flushes, so what is opened again has all the tags.\<close>

lemma reopened:
  assumes "key_inv B mem k" "mixkey_New B KC (mk_epoch k) generated (mk_db (forceClose epoch k)) = Ok (k', c)"
  shows "key_inv B mem k'" "stored k' = stored k \<union> pending k" "pending k' = {}" "mk_epoch k' = mk_epoch k"
proof -
  note D = doFlush_set [OF assms(1), of True]
  from D(1) have d: "bloom_ok B mem" "bucket_ok (md_replay (mk_db (doFlush True k)))"
    "gm_has (md_metadata (mk_db (doFlush True k))) ''version''" by (simp_all add: key_inv_def)
  have "mk_db (forceClose epoch k) = mk_db (doFlush True k)" using assms(1) by (simp add: forceClose_def key_inv_def)
  note N = mixkey_New_inv [OF d(1) assms(2) [unfolded this] d(2) disjI1 [OF d(3)]]
  show "key_inv B mem k'" "stored k' = stored k \<union> pending k" "pending k' = {}" "mk_epoch k' = mk_epoch k"
    using N D(2,3) by (simp_all add: stored_def)
qed

section \<open>The interface of the filter\<close>

text \<open>
  What the users of a replay filter rely on: testing a tag says whether it is in the set of tags seen, or
  malformed, and adds it.  From this each tag is accepted at most once.
\<close>

primrec tests :: "('k \<Rightarrow> bytes \<Rightarrow> bool \<times> 'k) \<Rightarrow> bytes list \<Rightarrow> 'k \<Rightarrow> bool list \<times> 'k" where
  "tests f [] k = ([], k)"
| "tests f (t # ts) k = (case f k t of (r, k') \<Rightarrow> case tests f ts k' of (rs, k'') \<Rightarrow> (r # rs, k''))"

locale tag_filter =
  fixes good :: "'k \<Rightarrow> bool" and seen :: "'k \<Rightarrow> bytes set" and test :: "'k \<Rightarrow> bytes \<Rightarrow> bool \<times> 'k"
  assumes test_tag: "good k \<Longrightarrow> test k t = (r, k') \<Longrightarrow> (r \<longleftrightarrow> length t \<noteq> TagLength \<or> t \<in> seen k) \<and> good k' \<and>
    seen k' = (if length t = TagLength then insert t (seen k) else seen k)"
begin

lemma seen_rejected: "good k \<Longrightarrow> t \<in> seen k \<Longrightarrow> fst (test k t)"
  using test_tag [of k t "fst (test k t)" "snd (test k t)"] by simp

lemma seen_grows: "good k \<Longrightarrow> seen k \<subseteq> seen (snd (test k t)) \<and> good (snd (test k t))"
  using test_tag [of k t "fst (test k t)" "snd (test k t)"] by auto

lemma accepted_seen: "good k \<Longrightarrow> test k t = (False, k') \<Longrightarrow> t \<notin> seen k \<and> t \<in> seen k' \<and> good k'"
  using test_tag [of k t False k'] by auto

lemma tests_seen: "good k \<Longrightarrow> tests test ts k = (rs, k') \<Longrightarrow> good k' \<and> seen k \<subseteq> seen k' \<and> length rs = length ts \<and>
    (\<forall>i<length ts. \<not> rs ! i \<longrightarrow> ts ! i \<notin> seen k)"
proof (induction ts arbitrary: k rs)
  case (Cons t ts)
  obtain r k1 rs1 where e: "test k t = (r, k1)" "tests test ts k1 = (rs1, k')" "rs = r # rs1"
    using Cons.prems(2) by (auto split: prod.splits)
  note T = test_tag [OF Cons.prems(1) e(1)]
  have s: "seen k \<subseteq> seen k1" using T by auto
  note I = Cons.IH [OF conjunct1 [OF conjunct2 [OF T]] e(2)]
  have "\<not> rs ! i \<longrightarrow> (t # ts) ! i \<notin> seen k" if "i < length (t # ts)" for i
    using that I s T e(3) by (cases i) auto
  then show ?case using I s e(3) by auto
qed simp

lemma accepted_once:
  assumes "good k" "tests test ts k = (rs, k')" "i < j" "j < length ts" "ts ! i = ts ! j" "\<not> rs ! i"
  shows "rs ! j"
  using assms
proof (induction ts arbitrary: k rs i j)
  case (Cons t ts)
  obtain r k1 rs1 where e: "test k t = (r, k1)" "tests test ts k1 = (rs1, k')" "rs = r # rs1"
    using Cons.prems(2) by (auto split: prod.splits)
  note T = test_tag [OF Cons.prems(1) e(1)]
  obtain j' where j: "j = Suc j'" using Cons.prems(3) by (cases j) auto
  show ?case
  proof (cases i)
    case 0
    then have "t \<in> seen k1" using T Cons.prems(6) e(3) by auto
    then show ?thesis using tests_seen [OF _ e(2)] T Cons.prems(4,5) 0 j e(3) by auto
  next
    case (Suc i')
    then show ?thesis using Cons.IH [OF _ e(2), of i' j'] T Cons.prems(3-6) j e(3) by simp
  qed
qed simp

end

lemma IsReplay_tag:
  assumes "key_inv B mem k" "IsReplay B k t = (r, k')"
  shows "(r \<longleftrightarrow> length t \<noteq> TagLength \<or> t \<in> stored k \<union> pending k) \<and> key_inv B mem k' \<and>
    stored k' \<union> pending k' = (if length t = TagLength then insert t (stored k \<union> pending k) else stored k \<union> pending k)"
proof (cases "length t = TagLength")
  case True
  then have c: "copy_into (zeros TagLength) t = t" by (simp add: copy_into_same zeros_def)
  obtain m w k1 where M: "testAndSetTagMemory B k t = ((m, w), k1)" by (metis surj_pair)
  have cov: "t \<in> stored k \<union> pending k \<Longrightarrow> covers B mem (mk_f k) t" using assms(1) by (simp add: key_inv_def)
  from memory_cases [OF assms(1) M] show ?thesis
  proof cases
    case 1
    then show ?thesis using assms(2) True c M cov by (auto simp: IsReplay_def key_inv_def stored_def pending_def)
  next
    case 2
    show ?thesis
    proof (cases w)
      case w: True
      then have "r" "k' = k1" using assms(2) True 2(1) M by (simp_all add: IsReplay_def c)
      then show ?thesis using 2(2-5) w True by auto
    next
      case False
      then have "queryDB k1 t = (r, k')" using assms(2) True 2(1) M by (simp add: IsReplay_def c)
      note Q = queryDB_set [OF 2(5,6) this]
      show ?thesis using Q(1-4) 2(2-4) False True by simp
    qed
  qed
qed (use assms in \<open>simp add: IsReplay_def\<close>)

interpretation mix_filter: tag_filter "key_inv B mem" "\<lambda>k. stored k \<union> pending k" "IsReplay B" for B mem
  by unfold_locales (rule IsReplay_tag)

section \<open>Races\<close>

definition flying :: "('f, 'k) filter_state \<Rightarrow> bytes set" where
  "flying s = (case fs_flushing s of None \<Rightarrow> {} | Some tags \<Rightarrow> set tags)"

text \<open>With the set of the tags accepted so far.\<close>

definition race_inv :: "'f bloom \<Rightarrow> ('f \<Rightarrow> bytes \<Rightarrow> bool) \<Rightarrow> bytes set \<Rightarrow> ('f, 'k) filter_state \<Rightarrow> bool" where
  "race_inv B mem A s \<longleftrightarrow> key_inv B mem (fs_key s) \<and> A \<subseteq> stored (fs_key s) \<union> pending (fs_key s) \<union> flying s \<and>
     (\<forall>t\<in>flying s \<union> set (fs_querying s). covers B mem (mk_f (fs_key s)) t) \<and>
     (\<forall>t\<in>set (fs_querying s). t \<notin> pending (fs_key s))"

lemma race_covers:
  assumes "race_inv B mem A s" "t \<in> A \<union> set (fs_querying s)"
  shows "covers B mem (mk_f (fs_key s)) t"
  using assms unfolding race_inv_def key_inv_def by blast

lemma accepted_label:
  "A \<union> {u. Some (t, r) = Some (u, False)} = (if r then A else insert t A)" "A \<union> {u. None = Some (u, False)} = A"
  by auto

lemma key_inv_flushCh [simp]: "key_inv B mem (k\<lparr>mk_flushCh := b\<rparr>) = key_inv B mem k" "stored (k\<lparr>mk_flushCh := b\<rparr>) = stored k"
  "pending (k\<lparr>mk_flushCh := b\<rparr>) = pending k"
  by (simp_all add: key_inv_def stored_def pending_def)

lemma race_memory:
  assumes "race_inv B mem A s" "testAndSetTagMemory B (fs_key s) t = ((m, w), k)"
  shows "\<not> m \<Longrightarrow> t \<notin> A \<and> race_inv B mem (insert t A) (s\<lparr>fs_key := k\<lparr>mk_flushCh := True\<rparr>\<rparr>)"
    and "m \<Longrightarrow> race_inv B mem A (s\<lparr>fs_key := k\<rparr>)"
    and "m \<Longrightarrow> \<not> w \<Longrightarrow> race_inv B mem A (s\<lparr>fs_key := k, fs_querying := t # fs_querying s\<rparr>)"
proof -
  have I: "key_inv B mem (fs_key s)" using assms(1) by (simp add: race_inv_def)
  note cov = race_covers [OF assms(1)]
  from memory_cases [OF I assms(2)] have
    "(\<not> m \<longrightarrow> t \<notin> A \<and> race_inv B mem (insert t A) (s\<lparr>fs_key := k\<lparr>mk_flushCh := True\<rparr>\<rparr>)) \<and>
     (m \<longrightarrow> race_inv B mem A (s\<lparr>fs_key := k\<rparr>)) \<and>
     (m \<longrightarrow> \<not> w \<longrightarrow> race_inv B mem A (s\<lparr>fs_key := k, fs_querying := t # fs_querying s\<rparr>))"
  proof cases
    case 1
    then have "t \<notin> A" "t \<notin> set (fs_querying s)" using cov by blast+
    then show ?thesis using assms(1) 1 by (auto simp: race_inv_def flying_def)
  next
    case 2
    then show ?thesis using assms(1) by (auto simp: race_inv_def flying_def)
  qed
  then show "\<not> m \<Longrightarrow> t \<notin> A \<and> race_inv B mem (insert t A) (s\<lparr>fs_key := k\<lparr>mk_flushCh := True\<rparr>\<rparr>)"
    and "m \<Longrightarrow> race_inv B mem A (s\<lparr>fs_key := k\<rparr>)"
    and "m \<Longrightarrow> \<not> w \<Longrightarrow> race_inv B mem A (s\<lparr>fs_key := k, fs_querying := t # fs_querying s\<rparr>)" by blast+
qed

lemma race_step:
  assumes "replay_step B KC s l s'" "race_inv B mem A s"
  shows "race_inv B mem (A \<union> {t. l = Some (t, False)}) s' \<and> (\<forall>t\<in>A. l = Some (t, False) \<longrightarrow> t \<in> flying s)"
proof -
  have I: "key_inv B mem (fs_key s)" using assms(2) by (simp add: race_inv_def)
  from assms(1) show ?thesis
  proof cases
    case (malformed t)
    then show ?thesis using assms(2) by (simp add: accepted_label)
  next
    case (fresh t w k)
    show ?thesis using race_memory(1) [OF assms(2) fresh(4)] unfolding fresh(1,2) accepted_label by simp
  next
    case (cached t k)
    show ?thesis using race_memory(2) [OF assms(2) cached(4)] unfolding cached(1,2) accepted_label by simp
  next
    case (uncertain t k)
    show ?thesis using race_memory(3) [OF assms(2) uncertain(4)] unfolding uncertain(1,2) accepted_label by simp
  next
    case (query t r k)
    note Q = queryDB_set [OF I race_covers [OF assms(2)] query(4)]
    have "t \<in> A \<union> set (fs_querying s)" using query(3) by simp
    note Q = Q [OF this]
    have sub: "\<forall>u\<in>set (remove1 t (fs_querying s)). u \<in> set (fs_querying s)" using set_remove1_subset by fast
    have "race_inv B mem (if r then A else insert t A) s'"
      unfolding query(2) using assms(2) Q(2-5) sub by (simp add: race_inv_def flying_def) blast
    moreover have "t \<in> flying s" if "t \<in> A" "\<not> r" using assms(2) Q(1) that query(3) unfolding race_inv_def by blast
    ultimately show ?thesis unfolding query(1) accepted_label by simp
  next
    case (swapped force tags k)
    note S = flushSwap_set [OF I swapped(4)]
    have "\<forall>t\<in>pending (fs_key s). covers B mem (mk_f (fs_key s)) t" using I unfolding key_inv_def by blast
    with S(5) have "race_inv B mem A s'"
      unfolding swapped(2) using assms(2) S(1-3) swapped(3) by (elim disjE exE) (simp_all add: race_inv_def flying_def, blast)
    then show ?thesis unfolding swapped(1) accepted_label by simp
  next
    case (written tags)
    then have "\<forall>t\<in>set tags. covers B mem (mk_f (fs_key s)) t" using assms(2) by (simp add: race_inv_def flying_def)
    note W = flushWrite_set [OF I this]
    have "race_inv B mem A s'"
      unfolding written(2) using assms(2) W(1-4) written(3) by (simp add: race_inv_def flying_def) blast
    then show ?thesis unfolding written(1) accepted_label by simp
  next
    case (restart epoch generated k c)
    note R = reopened [OF I restart(6)]
    have "race_inv B mem A s'"
      unfolding restart(2) using assms(2) R(1-3) restart(3,4) by (simp add: race_inv_def flying_def)
    then show ?thesis unfolding restart(1) accepted_label by simp
  qed
qed

lemma run_silent: "replay_run B KC s0 tr s1 \<Longrightarrow> replay_step B KC s1 None s2 \<Longrightarrow> replay_run B KC s0 tr s2"
  using replay_run.step [of B KC s0 tr s1 None s2] by simp

lemma run_event: "replay_run B KC s0 tr s1 \<Longrightarrow> replay_step B KC s1 (Some e) s2 \<Longrightarrow> replay_run B KC s0 (tr @ [e]) s2"
  using replay_run.step [of B KC s0 tr s1 "Some e" s2] by simp

lemma race_run:
  assumes "replay_run B KC s0 tr s" "race_inv B mem {} s0"
  shows "race_inv B mem {t. (t, False) \<in> set tr} s"
  using assms(1)
proof induction
  case start
  then show ?case using assms(2) by simp
next
  case (step tr s1 l s2)
  have "{t. (t, False) \<in> set tr} \<union> {t. l = Some (t, False)} = {t. (t, False) \<in> set (case l of None \<Rightarrow> tr | Some e \<Rightarrow> tr @ [e])}"
    by (auto split: option.splits)
  then show ?case using race_step [OF step.hyps(2) step.IH] by simp
qed

lemma opened_race_inv:
  assumes "bloom_ok B mem" "mixkey_New B KC epoch generated empty_db = Ok (k, c)"
  shows "race_inv B mem {} (opened k)" "key_inv B mem k" "stored k = {}" "pending k = {}"
proof -
  have "bucket_ok (md_replay empty_db)" "md_replay empty_db = []" by (simp_all add: empty_db_def bucket_ok_def gm_get_def)
  note N = mixkey_New_inv [OF assms this(1) disjI2 [OF this(2)]]
  show "key_inv B mem k" "stored k = {}" "pending k = {}" using N by (simp_all add: empty_db_def)
  show "race_inv B mem {} (opened k)" using N(1) by (simp add: race_inv_def opened_def flying_def)
qed

text \<open>The calls of a second packet with the tag, while the first is being flushed.\<close>

lemma flush_race_run:
  assumes "bloom_ok B mem" and "mixkey_New B KC epoch generated empty_db = Ok (k, c)"
    and "length t = TagLength" and "\<not> saturated B (mk_f k)" and "\<not> fst (bl_TestAndSet B (mk_f k) t)"
  shows "\<exists>s s'. replay_run B KC (opened k) [(t, False)] s \<and> replay_step B KC s (Some (t, False)) s' \<and> fs_flushing s = Some [t]"
proof -
  note K = opened_race_inv [OF assms(1,2)]
  obtain f where "bl_TestAndSet B (mk_f k) t = (False, f)" using assms(5) by (cases "bl_TestAndSet B (mk_f k) t") auto
  then obtain k1 where m: "testAndSetTagMemory B k t = ((False, True), k1)" "mk_writeBack k1 = gm_put (mk_writeBack k) t True"
    using assms(4) by (simp add: testAndSetTagMemory_def)
  define s1 where "s1 = (opened k)\<lparr>fs_key := k1\<lparr>mk_flushCh := True\<rparr>\<rparr>"
  have "replay_step B KC (opened k) (Some (t, False)) s1"
    unfolding s1_def by (rule replay_step.fresh [OF assms(3)]) (simp add: opened_def m(1))
  from run_event [OF replay_run.start this] have r1: "replay_run B KC (opened k) [(t, False)] s1" by simp
  have K1: "key_inv B mem k1" "stored k1 = {}" "covers B mem (mk_f k1) t"
    using memory_cases [OF K(2) m(1)] K(3) by (metis)+
  define k2 where "k2 = k1\<lparr>mk_flushCh := True, mk_writeBack := []\<rparr>"
  define s2 where "s2 = s1\<lparr>fs_key := k2, fs_flushing := Some [t]\<rparr>"
  have "mk_writeBack k = []" using K(4) by (simp add: pending_def gm_keys_def)
  then have "flushSwap True (fs_key s1) = (Some [t], k2)"
    by (simp add: flushSwap_def m(2) k2_def s1_def)
  moreover have "fs_flushing s1 = None" by (simp add: s1_def opened_def)
  ultimately have "replay_step B KC s1 None s2" unfolding s2_def by (intro replay_step.swapped)
  note r2 = run_silent [OF r1 this]
  have K2: "key_inv B mem k2" "pending k2 = {}" "stored k2 = {}" "covers B mem (mk_f k2) t"
    using K1 by (simp_all add: k2_def key_inv_def pending_def stored_def cache_ok_def gm_get_def)
  obtain m' w k3 where q: "testAndSetTagMemory B k2 t = ((m', w), k3)" by (metis surj_pair)
  from memory_cases [OF K2(1) q] K2(2-4) have Q: "m'" "\<not> w" "stored k3 = {}" "key_inv B mem k3" "covers B mem (mk_f k3) t"
    by (metis empty_iff)+
  define s3 where "s3 = s2\<lparr>fs_key := k3, fs_querying := t # fs_querying s2\<rparr>"
  have "replay_step B KC s2 None s3"
    unfolding s3_def by (rule replay_step.uncertain [OF assms(3)]) (use q Q(1,2) in \<open>simp add: s2_def\<close>)
  note r3 = run_silent [OF r2 this]
  obtain r k4 where d: "queryDB k3 t = (r, k4)" by fastforce
  then have "\<not> r" using queryDB_set(1) [OF Q(4,5) d] Q(3) by simp
  then have "replay_step B KC s3 (Some (t, False)) (s3\<lparr>fs_key := k4, fs_querying := remove1 t (fs_querying s3)\<rparr>)"
    using replay_step.query [of t s3 False k4 B KC] d by (simp add: s3_def)
  moreover have "fs_flushing s3 = Some [t]" by (simp add: s3_def s2_def)
  ultimately show ?thesis using r3 by blast
qed

section \<open>Sequential use\<close>

text \<open>
  Calls of \<^verbatim>\<open>IsReplay\<close>, turns of the flush worker and restarts, one after the other, and what they mean for a set
  of tags.
\<close>

datatype filter_op = TestTag bytes | FlushTurn flush_event | Reopen u64

fun filter_ops :: "'f bloom \<Rightarrow> 'k key_codec \<Rightarrow> filter_op list \<Rightarrow> ('f, 'k) MixKey
    \<Rightarrow> (mixkey_error, bool list \<times> ('f, 'k) MixKey) outcome" where
  "filter_ops B KC [] k = Ok ([], k)"
| "filter_ops B KC (TestTag t # ops) k =
     (case IsReplay B k t of (r, k') \<Rightarrow> obind (filter_ops B KC ops k') (\<lambda>(rs, k''). Ok (r # rs, k'')))"
| "filter_ops B KC (FlushTurn ev # ops) k = filter_ops B KC ops (mixkey_worker ev k)"
| "filter_ops B KC (Reopen epoch # ops) k =
     obind (mixkey_New B KC (mk_epoch k) None (mk_db (forceClose epoch k))) (\<lambda>(k', _). filter_ops B KC ops k')"

fun tag_set_ops :: "filter_op list \<Rightarrow> bytes set \<Rightarrow> bool list" where
  "tag_set_ops [] S = []"
| "tag_set_ops (TestTag t # ops) S = (if length t = TagLength then (t \<in> S) # tag_set_ops ops (insert t S)
     else True # tag_set_ops ops S)"
| "tag_set_ops (FlushTurn ev # ops) S = tag_set_ops ops S"
| "tag_set_ops (Reopen epoch # ops) S = tag_set_ops ops S"

definition codec_ok :: "'k key_codec \<Rightarrow> bool" where
  "codec_ok KC \<longleftrightarrow> (\<forall>kp b. kc_Marshal KC kp = Some b \<longrightarrow> kc_Unmarshal KC b = Some kp)"

text \<open>The metadata hold the key pair.\<close>

definition keeps :: "'k key_codec \<Rightarrow> 'k \<Rightarrow> ('f, 'k) MixKey \<Rightarrow> bool" where
  "keeps KC kp k \<longleftrightarrow> mk_keypair k = Some kp \<and> gm_get (md_metadata (mk_db k)) ''version'' = Some [0] \<and>
     loadKey KC (mk_epoch k) (md_metadata (mk_db k)) [0] = Ok kp"

lemma keeps_ops:
  "keeps KC kp k \<Longrightarrow> keeps KC kp (snd (IsReplay B k t))" "keeps KC kp k \<Longrightarrow> keeps KC kp (mixkey_worker ev k)"
  "mk_epoch (snd (IsReplay B k t)) = mk_epoch k" "mk_epoch (mixkey_worker ev k) = mk_epoch k"
  by (auto simp: keeps_def IsReplay_def testAndSetTagMemory_def queryDB_def mixkey_worker_def doFlush_def flushSwap_def
      flushWrite_def Let_def split: prod.splits bool.splits flush_event.splits option.splits)

lemma forceClose_metadata:
  "md_metadata (mk_db (forceClose epoch k)) = md_metadata (mk_db k)"
  by (auto simp: forceClose_def doFlush_def flushSwap_def flushWrite_def Let_def split: prod.splits option.splits)

lemma keeps_created:
  assumes "codec_ok KC" "mixkey_New B KC epoch (Some kp) empty_db = Ok (k, c)"
  shows "keeps KC kp k" "mk_epoch k = epoch"
proof -
  obtain b where b: "kc_Marshal KC kp = Some b" "kc_Unmarshal KC b = Some kp"
    using assms by (auto simp: mixkey_New_def empty_db_def gm_get_def createKey_def codec_ok_def split: option.splits)
  then show "keeps KC kp k" "mk_epoch k = epoch"
    using assms(2) by (auto simp: keeps_def mixkey_New_def empty_db_def createKey_def loadKey_def gm_get_def Let_def)
qed

lemma keeps_reopened:
  assumes "keeps KC kp k"
  shows "\<exists>k'. mixkey_New B KC (mk_epoch k) None (mk_db (forceClose epoch k)) = Ok (k', False) \<and> keeps KC kp k' \<and>
    mk_epoch k' = mk_epoch k"
  using assms by (simp add: mixkey_New_def forceClose_metadata keeps_def Let_def)

lemma filter_ops_set:
  assumes "key_inv B mem k" "keeps KC kp k"
  shows "\<exists>k'. filter_ops B KC ops k = Ok (tag_set_ops ops (stored k \<union> pending k), k') \<and> mk_keypair k' = Some kp \<and>
    mk_epoch k' = mk_epoch k"
  using assms
proof (induction ops arbitrary: k)
  case Nil
  then show ?case by (simp add: keeps_def)
next
  case (Cons op ops)
  show ?case
  proof (cases op)
    case (TestTag t)
    obtain r k1 where e: "IsReplay B k t = (r, k1)" by fastforce
    note T = IsReplay_tag [OF Cons.prems(1) e]
    have k1: "keeps KC kp k1" "mk_epoch k1 = mk_epoch k" using keeps_ops(1) [OF Cons.prems(2), of B t] keeps_ops(3) [of B k t] e by simp_all
    show ?thesis using Cons.IH [OF _ k1(1)] T k1(2) by (auto simp: TestTag e)
  next
    case (FlushTurn ev)
    have "key_inv B mem (mixkey_worker ev k) \<and> stored (mixkey_worker ev k) \<union> pending (mixkey_worker ev k) = stored k \<union> pending k"
      using doFlush_set(1,2) [OF Cons.prems(1), of True] doFlush_set(1,2) [of B mem "k\<lparr>mk_flushCh := False\<rparr>" False] Cons.prems(1)
      by (cases ev) (simp_all add: mixkey_worker_def)
    then show ?thesis
      using Cons.IH [of "mixkey_worker ev k"] keeps_ops(2) [OF Cons.prems(2)] keeps_ops(4) [of ev k] by (simp add: FlushTurn)
  next
    case (Reopen epoch)
    obtain k1 where n: "mixkey_New B KC (mk_epoch k) None (mk_db (forceClose epoch k)) = Ok (k1, False)" "keeps KC kp k1"
      "mk_epoch k1 = mk_epoch k" using keeps_reopened [OF Cons.prems(2)] by blast
    note R = reopened [OF Cons.prems(1) n(1)]
    show ?thesis using Cons.IH [OF R(1) n(2)] R(2,3) n(1,3) by (simp add: Reopen)
  qed
qed

section \<open>A small filter\<close>

text \<open>A filter of at most two tags without false positives, and keys that are their own serialization.\<close>

definition toy_bloom :: "bytes list bloom" where
  "toy_bloom = \<lparr>bl_New = [], bl_Entries = length, bl_MaxEntries = \<lambda>_. 2, bl_TestAndSet = \<lambda>f t. (t \<in> set f, t # f)\<rparr>"

definition toy_codec :: "bytes key_codec" where
  "toy_codec = \<lparr>kc_Marshal = Some, kc_Unmarshal = Some\<rparr>"

lemma toy_filter_ok: "bloom_ok toy_bloom (\<lambda>f t. t \<in> set f)" "codec_ok toy_codec"
  by (simp_all add: bloom_ok_def toy_bloom_def codec_ok_def toy_codec_def)

lemma toy_key:
  obtains k where "mixkey_New toy_bloom toy_codec 9 (Some [5]) empty_db = Ok (k, True)" "mk_f k = []"
  by (simp add: mixkey_New_def empty_db_def gm_get_def createKey_def toy_codec_def toy_bloom_def)

section \<open>Properties\<close>

text \<open>
  C18: the replay filter is exactly a set of tags, in spite of the false positives and the saturation of the
  Bloom filter, of the cache, the flushes and restarts: for any sequence of these, \<^verbatim>\<open>IsReplay\<close> answers what
  membership in the set of the tags tested before says, and the key pair and its epoch survive the restarts.
\<close>

theorem filter_refines_set:
  assumes "bloom_ok B mem" and "codec_ok KC" and "mixkey_New B KC epoch (Some kp) empty_db = Ok (k, c)"
  shows "\<exists>k'. filter_ops B KC ops k = Ok (tag_set_ops ops {}, k') \<and> mk_keypair k' = Some kp \<and> mk_epoch k' = epoch"
  using filter_ops_set [OF opened_race_inv(2) [OF assms(1,3)] keeps_created(1) [OF assms(2,3)], of ops]
    opened_race_inv(3,4) [OF assms(1,3)] keeps_created(2) [OF assms(2,3)] by simp

theorem filter_refines_set_witness:
  "\<exists>k k'. mixkey_New toy_bloom toy_codec 9 (Some [5]) empty_db = Ok (k, True) \<and>
    filter_ops toy_bloom toy_codec [TestTag (zeros 32), FlushTurn FlushTick, Reopen 10, TestTag (zeros 32), TestTag [1]] k =
      Ok ([False, True, True], k') \<and> mk_keypair k' = Some [5]"
proof -
  obtain k where k: "mixkey_New toy_bloom toy_codec 9 (Some [5]) empty_db = Ok (k, True)" by (rule toy_key)
  from filter_refines_set [OF toy_filter_ok k, of "[TestTag (zeros 32), FlushTurn FlushTick, Reopen 10, TestTag (zeros 32), TestTag [1]]"]
  show ?thesis using k by (auto simp: TagLength_def zeros_def)
qed

text \<open>
  C19: when the crypto workers and the flush worker run concurrently, a tag that was accepted is accepted again
  only while a flush has taken it from the cache and has not yet written it to the database.
\<close>

theorem replay_only_in_flush:
  assumes "bloom_ok B mem" and "mixkey_New B KC epoch generated empty_db = Ok (k, c)"
    and "replay_run B KC (opened k) tr s" and "(t, False) \<in> set tr" and "replay_step B KC s (Some (t, False)) s'"
  shows "\<exists>tags. fs_flushing s = Some tags \<and> t \<in> set tags"
proof -
  have "t \<in> flying s"
    using race_step [OF assms(5) race_run [OF assms(3) opened_race_inv(1) [OF assms(1,2)]]] assms(4) by simp
  then show ?thesis by (auto simp: flying_def split: option.splits)
qed

theorem replay_only_in_flush_witness:
  "\<exists>k s s' tags. replay_run toy_bloom toy_codec (opened k) [(zeros 32, False)] s \<and>
    replay_step toy_bloom toy_codec s (Some (zeros 32, False)) s' \<and> fs_flushing s = Some tags \<and> zeros 32 \<in> set tags"
proof -
  obtain k where k: "mixkey_New toy_bloom toy_codec 9 (Some [5]) empty_db = Ok (k, True)" "mk_f k = []" by (rule toy_key)
  obtain s s' where s: "replay_run toy_bloom toy_codec (opened k) [(zeros 32, False)] s"
    "replay_step toy_bloom toy_codec s (Some (zeros 32, False)) s'"
    using flush_race_run [OF toy_filter_ok(1) k(1), of "zeros 32"] k(2)
    by (auto simp: TagLength_def zeros_def toy_bloom_def)
  from replay_only_in_flush [OF toy_filter_ok(1) k(1) s(1) _ s(2)] show ?thesis using s by auto
qed

text \<open>
  C20: a packet is accepted twice: the replay of a tag that the filter did not know, arriving while the first
  is being flushed, passes as well.
\<close>

theorem replay_accepted_in_flush:
  assumes "bloom_ok B mem" and "mixkey_New B KC epoch generated empty_db = Ok (k, c)"
    and "length t = TagLength" and "\<not> saturated B (mk_f k)" and "\<not> fst (bl_TestAndSet B (mk_f k) t)"
  shows "\<exists>s. replay_run B KC (opened k) [(t, False), (t, False)] s"
proof -
  from flush_race_run [OF assms] obtain s s' where
    "replay_run B KC (opened k) [(t, False)] s" "replay_step B KC s (Some (t, False)) s'" by blast
  from run_event [OF this] show ?thesis by auto
qed

theorem replay_accepted_in_flush_witness:
  "\<exists>k s. mixkey_New toy_bloom toy_codec 9 (Some [5]) empty_db = Ok (k, True) \<and>
    replay_run toy_bloom toy_codec (opened k) [(zeros 32, False), (zeros 32, False)] s"
proof -
  obtain k where k: "mixkey_New toy_bloom toy_codec 9 (Some [5]) empty_db = Ok (k, True)" "mk_f k = []" by (rule toy_key)
  from replay_accepted_in_flush [OF toy_filter_ok(1) k(1), of "zeros 32"] show ?thesis
    using k by (auto simp: TagLength_def zeros_def toy_bloom_def)
qed

end
