(* ===== verification/Crypto_Worker.thy ===== *)
theory Crypto_Worker
  imports Mix_Packet Mix_Key
begin

text \<open>
  The crypto workers of a node (\<^verbatim>\<open>src/server/internal/cryptoworker/crypto_worker.go\<close>): a received packet is
  unwrapped with the mix key of the current epoch, or near the ends of the epoch with that of the neighbouring
  one; replays are dropped; what remains is handed to the scheduler, the decoy or the provider, or dropped,
  according to its commands and the role of the node.  The readings of the clock are arguments.
\<close>

definition NumMixKeys :: int where "NumMixKeys = 3"

type_synonym ('f, 'sk, 'ksk) mix_keys = "(u64, ('f, ('sk, 'ksk) private_key) MixKey) gomap"

datatype unwrap_error = ErrNoKey | ErrUnwrap sphinx_error | ErrCommands packet_error | ErrReplay | ErrNoCandidates

text \<open>The epochs whose keys are tried, the current one first.\<close>

definition candidateEpochs :: "('f, 'sk, 'ksk) mix_keys \<Rightarrow> u64 \<Rightarrow> int \<Rightarrow> int \<Rightarrow> u64 list" where
  "candidateEpochs keys epoch elapsed till =
     (let gracePeriod = 2 * 60 * 1000000000 in
      epoch # filter (gm_has keys)
        (if elapsed < gracePeriod then [epoch - 1] else if till < gracePeriod then [epoch + 1] else []))"

text \<open>
  The loop over the keys; the error of the last attempt is kept.  A key that was closed has no key pair to
  unwrap with.
\<close>

fun tryKeys :: "sphinx_prims \<Rightarrow> ('pk, 'sk, 'kpk, 'ksk) Sphinx \<Rightarrow> 'f bloom \<Rightarrow> u64 list \<Rightarrow> unwrap_error \<Rightarrow> Packet
    \<Rightarrow> ('f, 'sk, 'ksk) mix_keys \<Rightarrow> (unwrap_error, Packet) outcome \<times> ('f, 'sk, 'ksk) mix_keys" where
  "tryKeys P s B [] lastErr pkt keys = (Fail lastErr, keys)"
| "tryKeys P s B (e # es) lastErr pkt keys =
     (case gm_get keys e of
        None \<Rightarrow> (Panic, keys)
      | Some k \<Rightarrow>
          (case mk_keypair k of
             None \<Rightarrow> (Panic, keys)
           | Some privKey \<Rightarrow>
               (case Unwrap P s privKey (pkt_Raw pkt) of
                  Panic \<Rightarrow> (Panic, keys)
                | Fail (err, _) \<Rightarrow> tryKeys P s B es (ErrUnwrap err) pkt keys
                | Ok u \<Rightarrow>
                    (case pkt_Set (uw_payload u) (uw_cmds u) (pkt\<lparr>pkt_Raw := uw_pkt u\<rparr>) of
                       Panic \<Rightarrow> (Panic, keys)
                     | Fail err \<Rightarrow> (Fail (ErrCommands err), keys)
                     | Ok pkt' \<Rightarrow>
                         (case IsReplay B k (uw_replayTag u) of
                            (True, k') \<Rightarrow> (Fail ErrReplay, gm_put keys e k')
                          | (False, k') \<Rightarrow> (Ok pkt', gm_put keys e k'))))))"

definition doUnwrap :: "sphinx_prims \<Rightarrow> ('pk, 'sk, 'kpk, 'ksk) Sphinx \<Rightarrow> 'f bloom \<Rightarrow> bool \<Rightarrow> int \<Rightarrow> Packet
    \<Rightarrow> ('f, 'sk, 'ksk) mix_keys \<Rightarrow> (unwrap_error, Packet) outcome \<times> ('f, 'sk, 'ksk) mix_keys" where
  "doUnwrap P s B warped now pkt keys =
     (case getEpoch warped now of
        Ok (epoch, elapsed, till) \<Rightarrow>
          if \<not> gm_has keys epoch then (Fail ErrNoKey, keys)
          else tryKeys P s B (candidateEpochs keys epoch elapsed till) ErrNoCandidates pkt keys
      | _ \<Rightarrow> (Panic, keys))"

section \<open>The worker\<close>

datatype drop_reason = DwelledTooLong | NotUnwrapped unwrap_error | PayloadOnForward | ForwardFromMix | DelayImpossible
  | ZeroDelayDwelled | NotForMix | ClientToLocalUser | NotForUser

datatype disposition = Dropped drop_reason | ToScheduler Packet | ToDecoy Packet | ToProvider Packet | Crashed

record worker_config =
  wc_warped :: bool
  wc_isProvider :: bool
  wc_unwrapSlack :: int

text \<open>The delay that is left after the time that the packet spent in the queue, or \<open>None\<close> if it is dropped.\<close>

definition adjustDelay :: "u32 \<Rightarrow> int \<Rightarrow> int option" where
  "adjustDelay nodeDelay dwellTime =
     (let delay = uint nodeDelay * 1000000; absoluteMinimumDelay = 1000000 in
      if dwellTime < delay then Some (delay - dwellTime)
      else if nodeDelay = 0 then
        (if dwellTime < absoluteMinimumDelay then Some (absoluteMinimumDelay - dwellTime) else None)
      else Some absoluteMinimumDelay)"

definition dispatchUnwrapped :: "worker_config \<Rightarrow> int \<Rightarrow> int \<Rightarrow> Packet \<Rightarrow> disposition" where
  "dispatchUnwrapped C startAt dwellTime pkt =
     (if IsForward pkt then
        (if pkt_Payload pkt \<noteq> None then Dropped PayloadOnForward
         else if pkt_MustTerminate pkt then Dropped ForwardFromMix
         else case pkt_NodeDelay pkt of
             None \<Rightarrow> Crashed
           | Some d \<Rightarrow>
               if uint d * 1000000 > NumMixKeys * Period (wc_warped C) then Dropped DelayImpossible
               else (case adjustDelay d dwellTime of
                       None \<Rightarrow> Dropped ZeroDelayDwelled
                     | Some delay \<Rightarrow> ToScheduler (pkt\<lparr>pkt_Delay := delay\<rparr>)))
      else if \<not> wc_isProvider C then (if IsSURBReply pkt then ToDecoy pkt else Dropped NotForMix)
      else if pkt_MustForward pkt then Dropped ClientToLocalUser
      else if IsToUser pkt \<or> IsUnreliableToUser pkt \<or> IsSURBReply pkt then ToProvider (pkt\<lparr>pkt_DispatchAt := startAt\<rparr>)
      else Dropped NotForUser)"

definition cryptoWorker :: "sphinx_prims \<Rightarrow> ('pk, 'sk, 'kpk, 'ksk) Sphinx \<Rightarrow> 'f bloom \<Rightarrow> worker_config \<Rightarrow> int \<Rightarrow> int \<Rightarrow> Packet
    \<Rightarrow> ('f, 'sk, 'ksk) mix_keys \<Rightarrow> disposition \<times> ('f, 'sk, 'ksk) mix_keys" where
  "cryptoWorker P s B C startAt now pkt keys =
     (let dwellTime = sat64 (startAt - pkt_RecvAt pkt) in
      if dwellTime > wc_unwrapSlack C then (Dropped DwelledTooLong, keys)
      else case doUnwrap P s B (wc_warped C) now pkt keys of
          (Panic, keys') \<Rightarrow> (Crashed, keys')
        | (Fail err, keys') \<Rightarrow> (Dropped (NotUnwrapped err), keys')
        | (Ok pkt', keys') \<Rightarrow> (dispatchUnwrapped C startAt dwellTime pkt', keys'))"

text \<open>
  What goes on in a node that keeps its keys: packets are processed, and each key has a worker that takes its
  cache of tags and writes it to the database later (\<^verbatim>\<open>doFlush\<close>).  The tags that a worker has taken and not
  yet written are kept by epoch.
\<close>

datatype node_action = ProcessPacket int int Packet | TakeCache u64 bool | WriteCache u64

type_synonym ('f, 'sk, 'ksk) node_state = "('f, 'sk, 'ksk) mix_keys \<times> (u64, bytes list) gomap"

fun nodeStep :: "sphinx_prims \<Rightarrow> ('pk, 'sk, 'kpk, 'ksk) Sphinx \<Rightarrow> 'f bloom \<Rightarrow> worker_config \<Rightarrow> node_action
    \<Rightarrow> ('f, 'sk, 'ksk) node_state \<Rightarrow> ('f, 'sk, 'ksk) node_state" where
  "nodeStep P s B C (ProcessPacket startAt now pkt) (keys, taken) =
     (snd (cryptoWorker P s B C startAt now pkt keys), taken)"
| "nodeStep P s B C (TakeCache e forceFlush) (keys, taken) =
     (case (gm_get keys e, gm_get taken e) of
        (Some k, None) \<Rightarrow>
          (case flushSwap forceFlush k of
             (None, k') \<Rightarrow> (gm_put keys e k', taken)
           | (Some tags, k') \<Rightarrow> (gm_put keys e k', gm_put taken e tags))
      | _ \<Rightarrow> (keys, taken))"
| "nodeStep P s B C (WriteCache e) (keys, taken) =
     (case (gm_get keys e, gm_get taken e) of
        (Some k, Some tags) \<Rightarrow> (gm_put keys e (flushWrite tags k), gm_del taken e)
      | _ \<Rightarrow> (keys, taken))"

fun nodeRun :: "sphinx_prims \<Rightarrow> ('pk, 'sk, 'kpk, 'ksk) Sphinx \<Rightarrow> 'f bloom \<Rightarrow> worker_config \<Rightarrow> node_action list
    \<Rightarrow> ('f, 'sk, 'ksk) node_state \<Rightarrow> ('f, 'sk, 'ksk) node_state" where
  "nodeRun P s B C [] st = st"
| "nodeRun P s B C (a # as) st = nodeRun P s B C as (nodeStep P s B C a st)"

section \<open>Lemmas\<close>

definition keys_inv :: "'f bloom \<Rightarrow> ('f \<Rightarrow> bytes \<Rightarrow> bool) \<Rightarrow> ('f, 'sk, 'ksk) mix_keys \<Rightarrow> bool" where
  "keys_inv B mem keys \<longleftrightarrow> (\<forall>e k. gm_get keys e = Some k \<longrightarrow> key_inv B mem k)"

text \<open>The key of an epoch opens the packet.\<close>

definition opens :: "sphinx_prims \<Rightarrow> ('pk, 'sk, 'kpk, 'ksk) Sphinx \<Rightarrow> ('f, 'sk, 'ksk) mix_keys \<Rightarrow> bytes \<Rightarrow> u64 \<Rightarrow> unwrapped \<Rightarrow> bool" where
  "opens P s keys raw e u \<longleftrightarrow>
     (\<exists>k privKey. gm_get keys e = Some k \<and> mk_keypair k = Some privKey \<and> Unwrap P s privKey raw = Ok u)"

lemma opens_unique: "opens P s keys raw e u \<Longrightarrow> opens P s keys raw e u' \<Longrightarrow> u = u'"
  by (auto simp: opens_def)

text \<open>The same key pairs, whatever has become of the tags.\<close>

definition same_pairs :: "('f, 'sk, 'ksk) mix_keys \<Rightarrow> ('f, 'sk, 'ksk) mix_keys \<Rightarrow> bool" where
  "same_pairs keys keys' \<longleftrightarrow> (\<forall>e. map_option mk_keypair (gm_get keys' e) = map_option mk_keypair (gm_get keys e))"

lemma same_pairs_refl [simp]: "same_pairs keys keys"
  and same_pairs_trans: "same_pairs a b \<Longrightarrow> same_pairs b c \<Longrightarrow> same_pairs a c"
  by (simp_all add: same_pairs_def)

lemma same_pairs_put: "gm_get keys e = Some k \<Longrightarrow> mk_keypair k' = mk_keypair k \<Longrightarrow> same_pairs keys (gm_put keys e k')"
  by (simp add: same_pairs_def)

lemma opens_same: "same_pairs keys keys' \<Longrightarrow> opens P s keys' raw e u \<longleftrightarrow> opens P s keys raw e u"
proof -
  assume "same_pairs keys keys'"
  then have "map_option mk_keypair (gm_get keys' e) = map_option mk_keypair (gm_get keys e)" by (simp add: same_pairs_def)
  then show ?thesis by (cases "gm_get keys e"; cases "gm_get keys' e") (simp_all add: opens_def)
qed

lemma IsReplay_keypair: "mk_keypair (snd (IsReplay B k t)) = mk_keypair k"
  by (auto simp: IsReplay_def testAndSetTagMemory_def queryDB_def Let_def split: prod.splits bool.splits)

text \<open>A packet changes the keys by one test of its tag at most, and passes only if the tag was accepted.\<close>

definition tested :: "sphinx_prims \<Rightarrow> ('pk, 'sk, 'kpk, 'ksk) Sphinx \<Rightarrow> 'f bloom \<Rightarrow> bytes \<Rightarrow> bool \<Rightarrow> ('f, 'sk, 'ksk) mix_keys
    \<Rightarrow> ('f, 'sk, 'ksk) mix_keys \<Rightarrow> bool" where
  "tested P s B raw ok keys keys' \<longleftrightarrow> (\<exists>e u k r k'. opens P s keys raw e u \<and> gm_get keys e = Some k \<and>
     IsReplay B k (uw_replayTag u) = (r, k') \<and> keys' = gm_put keys e k' \<and> (ok \<longrightarrow> \<not> r))"

lemma tested_weaken: "tested P s B raw ok keys keys' \<Longrightarrow> (ok' \<Longrightarrow> ok) \<Longrightarrow> tested P s B raw ok' keys keys'"
  unfolding tested_def by blast

lemma tryKeys_tested:
  "tryKeys P s B es err pkt keys = (r, keys') \<Longrightarrow>
     (keys' = keys \<and> \<not> is_ok r) \<or> tested P s B (pkt_Raw pkt) (is_ok r) keys keys'"
proof (induction es arbitrary: err)
  case Nil
  then show ?case by (auto simp: is_ok_def)
next
  case (Cons e es)
  show ?case
  proof (cases "\<exists>k sk u pkt1. gm_get keys e = Some k \<and> mk_keypair k = Some sk \<and> Unwrap P s sk (pkt_Raw pkt) = Ok u \<and>
      pkt_Set (uw_payload u) (uw_cmds u) (pkt\<lparr>pkt_Raw := uw_pkt u\<rparr>) = Ok pkt1")
    case True
    then obtain k sk u pkt1 where k: "gm_get keys e = Some k" "mk_keypair k = Some sk" "Unwrap P s sk (pkt_Raw pkt) = Ok u"
      "pkt_Set (uw_payload u) (uw_cmds u) (pkt\<lparr>pkt_Raw := uw_pkt u\<rparr>) = Ok pkt1" by blast
    obtain b k' where t: "IsReplay B k (uw_replayTag u) = (b, k')" by fastforce
    have e: "keys' = gm_put keys e k'" "r = (if b then Fail ErrReplay else Ok pkt1)"
      using Cons.prems by (auto simp: k t split: bool.splits)
    have "opens P s keys (pkt_Raw pkt) e u" using k(1-3) by (auto simp: opens_def)
    then have "tested P s B (pkt_Raw pkt) (is_ok r) keys keys'"
      unfolding tested_def using k(1) t e by (intro exI [of _ e] exI [of _ u] exI [of _ k]) (auto simp: is_ok_def)
    then show ?thesis ..
  next
    case False
    then have "(keys' = keys \<and> \<not> is_ok r) \<or> (\<exists>err'. tryKeys P s B es err' pkt keys = (r, keys'))"
      using Cons.prems by (auto simp: is_ok_def split: option.splits outcome.splits prod.splits)
    then show ?thesis using Cons.IH by blast
  qed
qed

lemma tryKeys_keeps:
  "tryKeys P s B es err pkt keys = (Ok pkt', keys') \<Longrightarrow>
     pkt_MustForward pkt' = pkt_MustForward pkt \<and> pkt_MustTerminate pkt' = pkt_MustTerminate pkt"
proof (induction es arbitrary: err)
  case (Cons e es)
  from Cons.prems show ?case
    using Cons.IH splitCommands_keeps
    by (fastforce simp: pkt_Set_def split: option.splits outcome.splits prod.splits bool.splits)
qed simp

fun passed :: "disposition \<Rightarrow> bool" where
  "passed (ToScheduler _) = True"
| "passed (ToDecoy _) = True"
| "passed (ToProvider _) = True"
| "passed _ = False"

lemma cryptoWorker_tested:
  assumes "cryptoWorker P s B C startAt now pkt keys = (d, keys')"
  shows "(keys' = keys \<and> \<not> passed d) \<or> tested P s B (pkt_Raw pkt) (passed d) keys keys'"
proof -
  consider "keys' = keys" "\<not> passed d"
    | es err r where "tryKeys P s B es err pkt keys = (r, keys')" "passed d \<Longrightarrow> is_ok r"
    using assms
    by (auto simp: cryptoWorker_def doUnwrap_def is_ok_def Let_def split: if_splits outcome.splits prod.splits)
  then show ?thesis
  proof cases
    case (2 es err r)
    show ?thesis using tryKeys_tested [OF 2(1)] tested_weaken [OF _ 2(2)] 2(2) by blast
  qed simp
qed

lemma cryptoWorker_unwrapped:
  assumes "cryptoWorker P s B C startAt now pkt keys = (d, keys')" "passed d"
  shows "\<exists>pkt1. d = dispatchUnwrapped C startAt (sat64 (startAt - pkt_RecvAt pkt)) pkt1 \<and>
    pkt_MustForward pkt1 = pkt_MustForward pkt \<and> pkt_MustTerminate pkt1 = pkt_MustTerminate pkt"
proof -
  obtain pkt1 where "doUnwrap P s B (wc_warped C) now pkt keys = (Ok pkt1, keys')"
    "d = dispatchUnwrapped C startAt (sat64 (startAt - pkt_RecvAt pkt)) pkt1"
    using assms by (auto simp: cryptoWorker_def Let_def split: if_splits outcome.splits prod.splits)
  moreover have "pkt_MustForward pkt1 = pkt_MustForward pkt \<and> pkt_MustTerminate pkt1 = pkt_MustTerminate pkt"
    using calculation(1) by (auto simp: doUnwrap_def split: if_splits outcome.splits prod.splits dest: tryKeys_keeps)
  ultimately show ?thesis by blast
qed

section \<open>Tags and flushes\<close>

abbreviation at_rest :: "('f, 'k) MixKey \<Rightarrow> bytes list option \<Rightarrow> ('f, 'k) filter_state" where
  "at_rest k taken \<equiv> \<lparr>fs_key = k, fs_flushing = taken, fs_querying = []\<rparr>"

lemma IsReplay_race:
  assumes "race_inv B mem A (at_rest k taken)" "IsReplay B k t = (r, k')"
  shows "race_inv B mem (if r then A else insert t A) (at_rest k' taken) \<and> (\<not> r \<longrightarrow> t \<in> A \<longrightarrow> t \<in> flying (at_rest k taken))"
proof (cases "length t = TagLength")
  case True
  let ?s = "at_rest k taken" and ?KC = "undefined :: _ key_codec"
  have c: "copy_into (zeros TagLength) t = t" using True by (simp add: copy_into_same zeros_def)
  obtain m w k1 where M: "testAndSetTagMemory B k t = ((m, w), k1)" by (metis surj_pair)
  consider "\<not> m" "\<not> r" "k' = k1\<lparr>mk_flushCh := True\<rparr>" | "m" "w" "r" "k' = k1" | "m" "\<not> w" "queryDB k1 t = (r, k')"
    using assms(2) True M by (cases m; cases w) (auto simp: IsReplay_def c)
  then show ?thesis
  proof cases
    case 1
    with M have "testAndSetTagMemory B (fs_key ?s) t = ((False, w), k1)" by simp
    from race_step [OF replay_step.fresh [OF True this, of ?KC] assms(1)] 1 show ?thesis
      unfolding accepted_label by simp
  next
    case 2
    with M have "testAndSetTagMemory B (fs_key ?s) t = ((True, True), k1)" by simp
    from race_step [OF replay_step.cached [OF True this, of ?KC] assms(1)] 2 show ?thesis
      unfolding accepted_label by simp
  next
    case 3
    with M have "testAndSetTagMemory B (fs_key ?s) t = ((True, False), k1)" by simp
    from race_step [OF replay_step.uncertain [OF True this, of ?KC] assms(1)]
    have U: "race_inv B mem A (?s\<lparr>fs_key := k1, fs_querying := t # fs_querying ?s\<rparr>)" unfolding accepted_label by simp
    let ?s1 = "?s\<lparr>fs_key := k1, fs_querying := t # fs_querying ?s\<rparr>"
    have "t \<in> set (fs_querying ?s1)" "queryDB (fs_key ?s1) t = (r, k')" using 3 by simp_all
    from race_step [OF replay_step.query [OF this, of B ?KC] U] show ?thesis
      unfolding accepted_label by (simp add: flying_def)
  qed
qed (use assms in \<open>simp add: IsReplay_def\<close>)

lemma flushSwap_keypair: "flushSwap f k = (tags, k') \<Longrightarrow> mk_keypair k' = mk_keypair k"
  by (auto simp: flushSwap_def Let_def split: if_splits)

lemma flushSwap_race:
  assumes "race_inv B mem A (at_rest k None)" "flushSwap f k = (tags, k')"
  shows "race_inv B mem A (at_rest k' tags)"
  using race_step [OF replay_step.swapped [of "at_rest k None" f tags k' B undefined] assms(1)] assms(2)
  unfolding accepted_label by simp

lemma flushWrite_race:
  assumes "race_inv B mem A (at_rest k (Some tags))"
  shows "race_inv B mem A (at_rest (flushWrite tags k) None)" "mk_keypair (flushWrite tags k) = mk_keypair k"
  using race_step [OF replay_step.written [of "at_rest k (Some tags)" tags B undefined] assms(1)]
  unfolding accepted_label by (simp_all add: flushWrite_def)

text \<open>The tags accepted so far, by epoch.\<close>

definition node_inv :: "'f bloom \<Rightarrow> ('f \<Rightarrow> bytes \<Rightarrow> bool) \<Rightarrow> (u64 \<Rightarrow> bytes set) \<Rightarrow> ('f, 'sk, 'ksk) node_state \<Rightarrow> bool" where
  "node_inv B mem A st \<longleftrightarrow>
     (\<forall>e k. gm_get (fst st) e = Some k \<longrightarrow> race_inv B mem (A e) (at_rest k (gm_get (snd st) e)))"

lemma node_inv_get: "node_inv B mem A (keys, taken) \<Longrightarrow> gm_get keys e = Some k \<Longrightarrow> race_inv B mem (A e) (at_rest k (gm_get taken e))"
  by (simp add: node_inv_def)

lemma node_inv_start: "keys_inv B mem keys \<Longrightarrow> node_inv B mem (\<lambda>_. {}) (keys, [])"
  by (auto simp: node_inv_def keys_inv_def race_inv_def flying_def gm_get_def)

lemma tested_inv:
  assumes "node_inv B mem A (keys, taken)" "tested P s B raw ok keys keys'"
  shows "\<exists>A'. (\<forall>e. A e \<subseteq> A' e) \<and> node_inv B mem A' (keys', taken) \<and> same_pairs keys keys' \<and>
    (ok \<longrightarrow> (\<exists>e u. opens P s keys raw e u \<and> uw_replayTag u \<in> A' e \<and>
       (uw_replayTag u \<in> A e \<longrightarrow> (\<exists>tags. gm_get taken e = Some tags \<and> uw_replayTag u \<in> set tags))))"
proof -
  obtain e u k r k' where t: "opens P s keys raw e u" "gm_get keys e = Some k" "IsReplay B k (uw_replayTag u) = (r, k')"
    "keys' = gm_put keys e k'" "ok \<longrightarrow> \<not> r" using assms(2) by (auto simp: tested_def)
  note R = IsReplay_race [OF node_inv_get [OF assms(1) t(2)] t(3)]
  let ?A = "A(e := if r then A e else insert (uw_replayTag u) (A e))"
  have pair: "mk_keypair k' = mk_keypair k" using IsReplay_keypair [of B k "uw_replayTag u"] t(3) by simp
  have "node_inv B mem ?A (keys', taken)" using assms(1) R by (simp add: node_inv_def t(4) split: if_splits)
  moreover have "\<forall>e'. A e' \<subseteq> ?A e'" by auto
  moreover have "same_pairs keys keys'" unfolding t(4) by (rule same_pairs_put [OF t(2) pair])
  moreover have "opens P s keys raw e u \<and> uw_replayTag u \<in> ?A e \<and>
      (uw_replayTag u \<in> A e \<longrightarrow> (\<exists>tags. gm_get taken e = Some tags \<and> uw_replayTag u \<in> set tags))" if ok
    using t(1,5) R that by (auto simp: flying_def split: option.splits)
  ultimately show ?thesis by blast
qed

lemma nodeStep_inv:
  assumes "node_inv B mem A (keys, taken)" "nodeStep P s B C a (keys, taken) = (keys', taken')"
  shows "\<exists>A'. (\<forall>e. A e \<subseteq> A' e) \<and> node_inv B mem A' (keys', taken') \<and> same_pairs keys keys'"
proof (cases a)
  case (ProcessPacket startAt now pkt)
  obtain d where w: "cryptoWorker P s B C startAt now pkt keys = (d, keys')" and "taken' = taken"
    using assms(2) by (auto simp: ProcessPacket prod_eq_iff)
  then show ?thesis using cryptoWorker_tested [OF w] tested_inv [OF assms(1)] assms(1) by (metis order_refl same_pairs_refl)
next
  case (TakeCache e f)
  show ?thesis
  proof (cases "\<exists>k. gm_get keys e = Some k \<and> gm_get taken e = None")
    case True
    then obtain k where k: "gm_get keys e = Some k" "gm_get taken e = None" by blast
    obtain tags k' where f: "flushSwap f k = (tags, k')" by fastforce
    have "nodeStep P s B C a (keys, taken) = (gm_put keys e k', case tags of None \<Rightarrow> taken | Some ts \<Rightarrow> gm_put taken e ts)"
      by (cases tags) (simp_all add: TakeCache k f)
    then have e: "keys' = gm_put keys e k'" "taken' = (case tags of None \<Rightarrow> taken | Some ts \<Rightarrow> gm_put taken e ts)"
      using assms(2) by simp_all
    have e': "gm_get taken' e' = (if e' = e then tags else gm_get taken e')" for e'
      by (cases tags) (simp_all add: e(2) k(2))
    have "race_inv B mem (A e) (at_rest k' tags)" using flushSwap_race [OF _ f] node_inv_get [OF assms(1) k(1)] k(2) by simp
    then have "node_inv B mem A (keys', taken')" using assms(1) by (simp add: node_inv_def e(1) e')
    then show ?thesis using same_pairs_put [OF k(1) flushSwap_keypair [OF f]] e(1) by blast
  next
    case False
    then have "keys' = keys" "taken' = taken" using assms(2) by (auto simp: TakeCache split: option.splits)
    then show ?thesis using assms(1) by auto
  qed
next
  case (WriteCache e)
  show ?thesis
  proof (cases "\<exists>k tags. gm_get keys e = Some k \<and> gm_get taken e = Some tags")
    case True
    then obtain k tags where k: "gm_get keys e = Some k" "gm_get taken e = Some tags" by blast
    then have e: "keys' = gm_put keys e (flushWrite tags k)" "taken' = gm_del taken e"
      using assms(2) by (simp_all add: WriteCache)
    have F: "race_inv B mem (A e) (at_rest (flushWrite tags k) None)" "mk_keypair (flushWrite tags k) = mk_keypair k"
      using flushWrite_race node_inv_get [OF assms(1) k(1)] k(2) by auto
    then have "node_inv B mem A (keys', taken')" using assms(1) by (simp add: node_inv_def e)
    then show ?thesis using same_pairs_put [OF k(1) F(2)] e(1) by blast
  next
    case False
    then have "keys' = keys" "taken' = taken" using assms(2) by (auto simp: WriteCache split: option.splits)
    then show ?thesis using assms(1) by auto
  qed
qed

lemma nodeRun_inv:
  assumes "node_inv B mem A (keys, taken)" "nodeRun P s B C as (keys, taken) = (keys', taken')"
  shows "\<exists>A'. (\<forall>e. A e \<subseteq> A' e) \<and> node_inv B mem A' (keys', taken') \<and> same_pairs keys keys'"
  using assms
proof (induction as arbitrary: A keys taken)
  case (Cons a as)
  obtain keys1 taken1 where a: "nodeStep P s B C a (keys, taken) = (keys1, taken1)" by fastforce
  obtain A1 where A1: "\<forall>e. A e \<subseteq> A1 e" "node_inv B mem A1 (keys1, taken1)" "same_pairs keys keys1"
    using nodeStep_inv [OF Cons.prems(1) a] by blast
  obtain A2 where "\<forall>e. A1 e \<subseteq> A2 e" "node_inv B mem A2 (keys', taken')" "same_pairs keys1 keys'"
    using Cons.IH [OF A1(2)] Cons.prems(2) a by auto
  then show ?case using A1(1) same_pairs_trans [OF A1(3)] by (meson subset_trans)
qed auto

lemma adjustDelay_bounds:
  assumes "adjustDelay nodeDelay dwell = Some delay" "0 \<le> dwell"
  shows "0 < delay" "uint nodeDelay * 1000000 \<le> dwell + delay" "dwell < uint nodeDelay * 1000000 \<Longrightarrow> dwell + delay = uint nodeDelay * 1000000"
    "delay \<le> max (uint nodeDelay * 1000000) 1000000"
  using assms by (auto simp: adjustDelay_def Let_def split: if_splits)

lemma dispatch_scheduler:
  assumes "dispatchUnwrapped C startAt dwell pkt = ToScheduler pkt'"
  shows "\<exists>delay. IsForward pkt' \<and> pkt_Payload pkt' = None \<and> \<not> pkt_MustTerminate pkt \<and> pkt_NodeDelay pkt' = Some delay \<and>
    uint delay * 1000000 \<le> NumMixKeys * Period (wc_warped C) \<and> adjustDelay delay dwell = Some (pkt_Delay pkt')"
proof -
  have f: "IsForward pkt" "pkt_Payload pkt = None" "\<not> pkt_MustTerminate pkt"
    using assms by (auto simp: dispatchUnwrapped_def split: if_splits option.splits)
  then obtain delay where d: "pkt_NodeDelay pkt = Some delay" by (auto simp: IsForward_def)
  then obtain left where "adjustDelay delay dwell = Some left" "pkt' = pkt\<lparr>pkt_Delay := left\<rparr>"
    "uint delay * 1000000 \<le> NumMixKeys * Period (wc_warped C)"
    using assms f by (auto simp: dispatchUnwrapped_def not_less split: if_splits option.splits)
  then show ?thesis using f d by (simp add: IsForward_def)
qed

lemma dispatch_decoy:
  "dispatchUnwrapped C startAt dwell pkt = ToDecoy pkt' \<Longrightarrow> \<not> wc_isProvider C \<and> IsSURBReply pkt'"
  by (auto simp: dispatchUnwrapped_def split: if_splits option.splits)

lemma dispatch_provider:
  "dispatchUnwrapped C startAt dwell pkt = ToProvider pkt' \<Longrightarrow>
     wc_isProvider C \<and> \<not> pkt_MustForward pkt \<and> pkt_Recipient pkt' \<noteq> None \<and> pkt_NextNodeHop pkt' = None"
  by (auto simp: dispatchUnwrapped_def IsToUser_def IsUnreliableToUser_def IsSURBReply_def split: if_splits option.splits)

section \<open>A node with one key\<close>

definition toy_node_codec :: "(ecdh_PrivateKey, unit) private_key key_codec" where
  "toy_node_codec = \<lparr>kc_Marshal = \<lambda>_. Some [], kc_Unmarshal = \<lambda>_. Some (NikePrivateKey (toy_key 5))\<rparr>"

definition toy_node :: "(bytes, ecdh_PrivateKey, unit, unit) Sphinx" where
  "toy_node = \<lparr>sx_nike = Some (EcdhNike toy_curve), sx_kem = None, sx_geometry = toy_geo\<rparr>"

definition toy_config :: worker_config where
  "toy_config = \<lparr>wc_warped = False, wc_isProvider = False, wc_unwrapSlack = 10000000\<rparr>"

text \<open>A packet received five minutes after the start of the first epoch.\<close>

definition toy_now :: int where
  "toy_now = Epoch + 300 * 1000000000"

definition toy_packet :: "bytes \<Rightarrow> Packet" where
  "toy_packet raw = \<lparr>pkt_Raw = raw, pkt_Payload = None, pkt_NextNodeHop = None, pkt_NodeDelay = None, pkt_Recipient = None,
     pkt_SurbReply = None, pkt_ID = 1, pkt_Delay = 0, pkt_RecvAt = toy_now, pkt_DispatchAt = 0, pkt_MustForward = False,
     pkt_MustTerminate = False\<rparr>"

lemma toy_forward:
  obtains raw u nxt mac where "unwrapNike toy_sphinx (EcdhNike toy_curve) toy_geo (toy_key 5) raw = Ok u"
    "uw_cmds u = [NodeDelay 7, NextNodeHop nxt mac]" "uw_payload u = None" "length (uw_replayTag u) = TagLength"
proof -
  have "\<exists>pkt us. newNikePacket toy_sphinx (EcdhNike toy_curve) toy_geo toy_entropy
      (toy_path [Recipient (replicate 32 3)]) (zeros (ForwardPayloadLength toy_geo)) = Ok pkt \<and>
    length pkt = PacketLength toy_geo \<and>
    relay (unwrapNike toy_sphinx (EcdhNike toy_curve) toy_geo) [toy_key 5, toy_key 6] pkt = Ok us \<and>
    delivered (PacketLength toy_geo) (toy_path [Recipient (replicate 32 3)])
      (zeros (ForwardPayloadLength toy_geo)) us"
    by (rule newNikePacket_delivered [OF toy_sphinx_ok ecdh_nike_ok [OF toy_curve_ok] toy_geo_wf(1)
          toy_entropy_ok toy_path_ok [OF toy_recipient_fits] toy_hop_keys])
       (simp_all add: toy_path_def)
  then obtain raw u us where r: "unwrapNike toy_sphinx (EcdhNike toy_curve) toy_geo (toy_key 5) raw = Ok u"
    "delivered (PacketLength toy_geo) (toy_path [Recipient (replicate 32 3)]) (zeros (ForwardPayloadLength toy_geo)) (u # us)"
    by (auto simp: obind_Ok_iff)
  obtain ge where "uw_replayTag u = Hash toy_sphinx (nike_pk_Bytes (EcdhNike toy_curve) ge)"
    using unwrapNike_Ok_checks [OF r(1)] by blast
  then have "length (uw_replayTag u) = TagLength"
    by (simp add: Hash_def toy_sphinx_def toy_bytes_def TagLength_def HashLength_def)
  then show ?thesis using that [OF r(1)] r(2) by (auto simp: toy_path_def)
qed

lemma toy_worker:
  obtains k raw pkt keys' where
    "mixkey_New toy_bloom toy_node_codec 0 (Some (NikePrivateKey (toy_key 5))) empty_db = Ok (k, True)"
    "cryptoWorker toy_sphinx toy_node toy_bloom toy_config (toy_now + 1000000) toy_now (toy_packet raw) [(0, k)] =
       (ToScheduler pkt, keys')" "pkt_Delay pkt = 6000000" "keys_inv toy_bloom (\<lambda>f t. t \<in> set f) [(0, k)]"
proof -
  obtain raw u nxt mac where u: "unwrapNike toy_sphinx (EcdhNike toy_curve) toy_geo (toy_key 5) raw = Ok u"
    "uw_cmds u = [NodeDelay 7, NextNodeHop nxt mac]" "uw_payload u = None" "length (uw_replayTag u) = TagLength"
    by (rule toy_forward)
  obtain k where k: "mixkey_New toy_bloom toy_node_codec 0 (Some (NikePrivateKey (toy_key 5))) empty_db = Ok (k, True)"
    "mk_keypair k = Some (NikePrivateKey (toy_key 5))"
    by (simp add: mixkey_New_def empty_db_def gm_get_def createKey_def toy_node_codec_def)
  note K = opened_race_inv [OF toy_filter_ok(1) k(1)]
  obtain r k' where t: "IsReplay toy_bloom k (uw_replayTag u) = (r, k')" by fastforce
  then have "\<not> r" using IsReplay_tag [OF K(2) t] K(3,4) u(4) by simp
  moreover have "getEpoch False toy_now = Ok (0, 300000000000, 900000000000)"
    by (simp add: getEpoch_def toy_now_def Epoch_def Period_def sat64_def wrap64_def int64_max_def int64_min_def)
  ultimately have "cryptoWorker toy_sphinx toy_node toy_bloom toy_config (toy_now + 1000000) toy_now (toy_packet raw) [(0, k)] =
      (ToScheduler ((toy_packet raw)\<lparr>pkt_Raw := uw_pkt u, pkt_NextNodeHop := Some (nxt, mac), pkt_NodeDelay := Some 7,
          pkt_Delay := 6000000\<rparr>), [(0, k')])"
    using u k(2) t
    by (simp add: cryptoWorker_def doUnwrap_def candidateEpochs_def gm_has_def gm_get_def toy_packet_def toy_config_def toy_node_def
        Unwrap_def pkt_Set_def dispatchUnwrapped_def IsForward_def adjustDelay_def Period_def NumMixKeys_def
        sat64_def int64_max_def int64_min_def)
  moreover have "keys_inv toy_bloom (\<lambda>f t. t \<in> set f) [(0, k)]" using K(2) by (simp add: keys_inv_def gm_get_def)
  ultimately show ?thesis using that [OF k(1)] by simp
qed

section \<open>Properties\<close>

text \<open>
  C17: what the crypto worker does with a packet respects the role of the node and the wish of the sender.
  A packet goes to the scheduler only if it is to be forwarded, has no payload and does not come from a mix to
  its provider; its delay is positive, and never shortens the wait that the sender asked for: as long as the time
  in the queue was within it, both together are exactly the delay of the command, which is at most the
  lifetime of the keys.  Only a mix hands a reply to its decoy, and only a provider hands a packet to its
  users, and none that a client sent to it for forwarding.
\<close>

theorem worker_dispositions:
  assumes "cryptoWorker P s B C startAt now pkt keys = (d, keys')" and "pkt_RecvAt pkt \<le> startAt"
  shows "case d of
      ToScheduler pkt' \<Rightarrow> IsForward pkt' \<and> pkt_Payload pkt' = None \<and> \<not> pkt_MustTerminate pkt \<and>
        (\<exists>delay. pkt_NodeDelay pkt' = Some delay \<and> uint delay * 1000000 \<le> NumMixKeys * Period (wc_warped C) \<and>
           0 < pkt_Delay pkt' \<and> uint delay * 1000000 \<le> sat64 (startAt - pkt_RecvAt pkt) + pkt_Delay pkt' \<and>
           (sat64 (startAt - pkt_RecvAt pkt) < uint delay * 1000000 \<longrightarrow>
              sat64 (startAt - pkt_RecvAt pkt) + pkt_Delay pkt' = uint delay * 1000000) \<and>
           pkt_Delay pkt' \<le> max (uint delay * 1000000) 1000000)
    | ToDecoy pkt' \<Rightarrow> \<not> wc_isProvider C \<and> IsSURBReply pkt'
    | ToProvider pkt' \<Rightarrow> wc_isProvider C \<and> \<not> pkt_MustForward pkt \<and> pkt_Recipient pkt' \<noteq> None \<and> pkt_NextNodeHop pkt' = None
    | _ \<Rightarrow> True"
proof -
  define dwell where "dwell = sat64 (startAt - pkt_RecvAt pkt)"
  have w: "0 \<le> dwell" using assms(2) by (simp add: dwell_def sat64_def int64_max_def int64_min_def)
  have ex: "\<exists>pkt1. d = dispatchUnwrapped C startAt dwell pkt1 \<and> pkt_MustForward pkt1 = pkt_MustForward pkt \<and>
      pkt_MustTerminate pkt1 = pkt_MustTerminate pkt" if "passed d"
    using cryptoWorker_unwrapped [OF assms(1) that] by (simp add: dwell_def)
  show ?thesis
  proof (cases d)
    case (ToScheduler pkt')
    then obtain pkt1 where p: "dispatchUnwrapped C startAt dwell pkt1 = ToScheduler pkt'"
      "pkt_MustTerminate pkt1 = pkt_MustTerminate pkt" using ex by auto
    obtain delay where D: "IsForward pkt'" "pkt_Payload pkt' = None" "\<not> pkt_MustTerminate pkt1" "pkt_NodeDelay pkt' = Some delay"
      "uint delay * 1000000 \<le> NumMixKeys * Period (wc_warped C)" "adjustDelay delay dwell = Some (pkt_Delay pkt')"
      using dispatch_scheduler [OF p(1)] by blast
    show ?thesis using D p(2) adjustDelay_bounds [OF D(6) w] by (simp add: ToScheduler dwell_def)
  next
    case (ToDecoy pkt')
    then obtain pkt1 where "dispatchUnwrapped C startAt dwell pkt1 = ToDecoy pkt'" using ex by auto
    from dispatch_decoy [OF this] show ?thesis by (simp add: ToDecoy)
  next
    case (ToProvider pkt')
    then obtain pkt1 where p: "dispatchUnwrapped C startAt dwell pkt1 = ToProvider pkt'" "pkt_MustForward pkt1 = pkt_MustForward pkt"
      using ex by auto
    from dispatch_provider [OF p(1)] p(2) show ?thesis by (simp add: ToProvider)
  qed simp_all
qed

theorem worker_dispositions_witness:
  "\<exists>k raw pkt keys'. cryptoWorker toy_sphinx toy_node toy_bloom toy_config (toy_now + 1000000) toy_now (toy_packet raw) [(0, k)] =
       (ToScheduler pkt, keys') \<and> IsForward pkt \<and> pkt_Delay pkt = 6000000 \<and> 0 < pkt_Delay pkt"
proof -
  obtain k raw pkt keys' where w:
    "cryptoWorker toy_sphinx toy_node toy_bloom toy_config (toy_now + 1000000) toy_now (toy_packet raw) [(0, k)] =
       (ToScheduler pkt, keys')" "pkt_Delay pkt = 6000000" by (rule toy_worker)
  from worker_dispositions [OF w(1)] have "IsForward pkt \<and> 0 < pkt_Delay pkt" by (auto simp: toy_packet_def)
  then show ?thesis using w by blast
qed

text \<open>
  C14: a packet that a node has processed is dropped when its bytes come again, whatever packets the node has
  processed in between and wherever between two packets the flushes of its keys began and ended, with two
  exceptions: two of the keys of the node open it, or, when it comes again, a flush has taken its tag from the
  cache and not yet written it to the database.  The node keeps its keys meanwhile.
\<close>

theorem packet_processed_once:
  assumes "keys_inv B mem keys0" and "nodeRun P s B C as (keys0, []) = (keys, taken)"
    and "cryptoWorker P s B C startAt now pkt keys = (d, keys1)" and "passed d"
    and "nodeRun P s B C as' (keys1, taken) = (keys2, taken2)"
    and "cryptoWorker P s B C startAt' now' pkt' keys2 = (d', keys3)" and "passed d'"
    and "pkt_Raw pkt' = pkt_Raw pkt"
  shows "(\<exists>e e' u u'. e \<noteq> e' \<and> opens P s keys0 (pkt_Raw pkt) e u \<and> opens P s keys0 (pkt_Raw pkt) e' u') \<or>
    (\<exists>e u tags. opens P s keys0 (pkt_Raw pkt) e u \<and> gm_get taken2 e = Some tags \<and> uw_replayTag u \<in> set tags)"
proof -
  obtain A where A: "node_inv B mem A (keys, taken)" "same_pairs keys0 keys"
    using nodeRun_inv [OF node_inv_start [OF assms(1)] assms(2)] by blast
  have "tested P s B (pkt_Raw pkt) True keys keys1" using cryptoWorker_tested [OF assms(3)] assms(4) by simp
  from tested_inv [OF A(1) this] obtain A1 e u where A1: "node_inv B mem A1 (keys1, taken)" "same_pairs keys keys1"
    and e: "opens P s keys (pkt_Raw pkt) e u" "uw_replayTag u \<in> A1 e" by blast
  obtain A2 where A2: "node_inv B mem A2 (keys2, taken2)" "same_pairs keys1 keys2" "\<forall>e. A1 e \<subseteq> A2 e"
    using nodeRun_inv [OF A1(1) assms(5)] by blast
  have "tested P s B (pkt_Raw pkt) True keys2 keys3" using cryptoWorker_tested [OF assms(6)] assms(7,8) by simp
  from tested_inv [OF A2(1) this] obtain e' u' where e': "opens P s keys2 (pkt_Raw pkt) e' u'"
    "uw_replayTag u' \<in> A2 e' \<longrightarrow> (\<exists>tags. gm_get taken2 e' = Some tags \<and> uw_replayTag u' \<in> set tags)" by blast
  have o: "opens P s keys0 (pkt_Raw pkt) e u" "opens P s keys0 (pkt_Raw pkt) e' u'"
    using e(1) e'(1) opens_same [OF A(2)] opens_same [OF same_pairs_trans [OF same_pairs_trans [OF A(2) A1(2)] A2(2)]]
    by blast+
  show ?thesis
  proof (cases "e = e'")
    case True
    then have "u' = u" using opens_unique o by blast
    then show ?thesis using True e(2) e'(2) o(1) A2(3) by blast
  qed (use o in blast)
qed

theorem packet_processed_once_witness:
  "\<exists>k raw pkt keys1 keys2. mixkey_New toy_bloom toy_node_codec 0 (Some (NikePrivateKey (toy_key 5))) empty_db = Ok (k, True) \<and>
     cryptoWorker toy_sphinx toy_node toy_bloom toy_config (toy_now + 1000000) toy_now (toy_packet raw) [(0, k)] =
       (ToScheduler pkt, keys1) \<and>
     nodeRun toy_sphinx toy_node toy_bloom toy_config [TakeCache 0 True, WriteCache 0] (keys1, []) = (keys2, []) \<and>
     \<not> passed (fst (cryptoWorker toy_sphinx toy_node toy_bloom toy_config (toy_now + 1000000) toy_now (toy_packet raw) keys2))"
proof -
  let ?run = "nodeRun toy_sphinx toy_node toy_bloom toy_config"
  let ?work = "cryptoWorker toy_sphinx toy_node toy_bloom toy_config (toy_now + 1000000) toy_now"
  obtain k raw pkt keys1 where k: "mixkey_New toy_bloom toy_node_codec 0 (Some (NikePrivateKey (toy_key 5))) empty_db = Ok (k, True)"
    and w: "?work (toy_packet raw) [(0, k)] = (ToScheduler pkt, keys1)" "keys_inv toy_bloom (\<lambda>f t. t \<in> set f) [(0, k)]"
    by (rule toy_worker)
  obtain keys2 taken where f: "?run [TakeCache 0 True, WriteCache 0] (keys1, []) = (keys2, taken)" by fastforce
  have none: "taken = []"
    using f gm_get_put [where m = keys1 and k = 0 and k' = 0]
    by (auto simp: gm_get_def gm_del_def split: option.splits prod.splits)
  obtain d' keys3 where c: "?work (toy_packet raw) keys2 = (d', keys3)" by fastforce
  have one: "e = 0" if "opens toy_sphinx toy_node [(0, k)] b e u" for b e u
    using that by (auto simp: opens_def gm_get_def split: if_splits)
  have "\<not> passed d'"
  proof
    assume "passed d'"
    from packet_processed_once [OF w(2) _ w(1) _ f c this, of "[]"] show False
      unfolding none by (auto simp: gm_get_def dest!: one)
  qed
  then have "\<not> passed (fst (?work (toy_packet raw) keys2))" by (simp add: c)
  then show ?thesis using k w(1) f unfolding none by blast
qed

end
