(* ===== verification/Mix_Scheduler.thy ===== *)
theory Mix_Scheduler
  imports Priority_Queue Crypto_Worker
begin

text \<open>
  The scheduler of a node (\<^verbatim>\<open>src/server/internal/scheduler/scheduler.go\<close>) with its queue in memory
  (\<^verbatim>\<open>queue_mem.go\<close>): packets wait in a priority queue for the time of their dispatch.  The table of
  connections, the random generator that chooses the packet to drop from a full queue, and the readings of
  the clock are arguments; a reading is an instant in nanoseconds.  Packets handed on and packets dropped are
  returned as lists, the former with the instant for which they were scheduled.
\<close>

section \<open>The queue in memory\<close>

type_synonym memoryQueue = "Packet pq"

definition mq_Peek :: "memoryQueue \<Rightarrow> (int \<times> Packet) option" where
  "mq_Peek q = map_option (\<lambda>e. (sint (Priority e), Value e)) (pq_Peek q)"

definition mq_Pop :: "memoryQueue \<Rightarrow> memoryQueue" where
  "mq_Pop q = snd (heap_Pop q)"

text \<open>The packet that a full queue drops is returned; the capacity is a setting, where 0 stands for none.\<close>

definition doEnqueue :: "int \<Rightarrow> ('r \<Rightarrow> nat \<Rightarrow> nat \<times> 'r) \<Rightarrow> int \<Rightarrow> Packet \<Rightarrow> memoryQueue \<times> 'r \<times> Packet list
    \<Rightarrow> (unit, memoryQueue \<times> 'r \<times> Packet list) outcome" where
  "doEnqueue maxCapacity intn priority pkt = (\<lambda>(q, r, dropped).
     let q1 = Enqueue (word_of_int priority) pkt q in
     if 0 < maxCapacity \<and> maxCapacity < int (pq_Len q1) then
       (case DequeueRandom (\<lambda>n. fst (intn r n)) q1 of
          Ok (Some e, q2) \<Rightarrow> Ok (q2, snd (intn r (pq_Len q1)), dropped @ [Value e])
        | _ \<Rightarrow> Panic)
     else Ok (q1, r, dropped))"

definition BulkEnqueue :: "int \<Rightarrow> ('r \<Rightarrow> nat \<Rightarrow> nat \<times> 'r) \<Rightarrow> int \<Rightarrow> Packet list \<Rightarrow> memoryQueue \<times> 'r
    \<Rightarrow> (unit, memoryQueue \<times> 'r \<times> Packet list) outcome" where
  "BulkEnqueue maxCapacity intn now batch = (\<lambda>(q, r).
     ofold (\<lambda>pkt. doEnqueue maxCapacity intn (now + pkt_Delay pkt) pkt) batch (q, r, []))"

section \<open>The worker\<close>

record sched_config =
  sc_warped :: bool
  sc_timerSlack :: int
  sc_maxBurst :: int
  sc_queueSize :: int
  sc_IsValidForwardDest :: "bytes \<Rightarrow> bool"

record 'r scheduler =
  sch_q :: memoryQueue
  sch_rng :: 'r
  sch_maxDelay :: int

definition absoluteMaxDelay :: "sched_config \<Rightarrow> int" where
  "absoluteMaxDelay C = Period (sc_warped C) * NumMixKeys"

text \<open>The packets of a batch that are enqueued, and those that are dropped.\<close>

fun admitBatch :: "sched_config \<Rightarrow> int \<Rightarrow> Packet list \<Rightarrow> (unit, Packet list \<times> Packet list) outcome" where
  "admitBatch C maxDelay [] = Ok ([], [])"
| "admitBatch C maxDelay (pkt # batch) =
     (if pkt_Delay pkt > maxDelay then obind (admitBatch C maxDelay batch) (\<lambda>(a, d). Ok (a, pkt # d))
      else case pkt_NextNodeHop pkt of
          None \<Rightarrow> Panic
        | Some (i, _) \<Rightarrow>
            obind (admitBatch C maxDelay batch)
              (\<lambda>(a, d). Ok (if sc_IsValidForwardDest C i then (pkt # a, d) else (a, pkt # d))))"

text \<open>The number of milliseconds becomes a duration, which can wrap around.\<close>

definition newMaxDelay :: "sched_config \<Rightarrow> u64 \<Rightarrow> int" where
  "newMaxDelay C ms =
     (let pkiMaxDelay = wrap64 (sint ms * 1000000) in
      if pkiMaxDelay > absoluteMaxDelay C \<or> pkiMaxDelay = 0 then absoluteMaxDelay C else pkiMaxDelay)"

datatype timer = TimerMax | TimerIn int

text \<open>
  The loop that dispatches what is due: the number is how many packets may still be dispatched in this turn,
  and \<open>clk i\<close> is the reading of the clock in the iteration \<open>i\<close>.
\<close>

fun dispatchLoop :: "int \<Rightarrow> (nat \<Rightarrow> int) \<Rightarrow> nat \<Rightarrow> nat \<Rightarrow> memoryQueue
    \<Rightarrow> memoryQueue \<times> (int \<times> Packet) list \<times> (int \<times> Packet) list \<times> timer" where
  "dispatchLoop slack clk 0 i q =
     (case mq_Peek q of
        None \<Rightarrow> (q, [], [], TimerMax)
      | Some (dispatchAt, pkt) \<Rightarrow>
          (q, [], [], TimerIn (if clk i < dispatchAt then sat64 (dispatchAt - clk i) else 1000)))"
| "dispatchLoop slack clk (Suc burst) i q =
     (case mq_Peek q of
        None \<Rightarrow> (q, [], [], TimerMax)
      | Some (dispatchAt, pkt) \<Rightarrow>
          if clk i < dispatchAt then (q, [], [], TimerIn (sat64 (dispatchAt - clk i)))
          else case dispatchLoop slack clk burst (Suc i) (mq_Pop q) of
            (q', sent, dropped, t) \<Rightarrow>
              if sat64 (clk i - dispatchAt) > slack then (q', sent, (dispatchAt, pkt) # dropped, t)
              else (q', (dispatchAt, pkt\<lparr>pkt_DispatchAt := clk i\<rparr>) # sent, dropped, t))"

text \<open>A turn of the worker: an event, then the loop.\<close>

datatype sched_event = Batch int "Packet list" | NewMaxDelay u64 | TimerFired

definition onEvent :: "sched_config \<Rightarrow> ('r \<Rightarrow> nat \<Rightarrow> nat \<times> 'r) \<Rightarrow> sched_event \<Rightarrow> 'r scheduler
    \<Rightarrow> (unit, 'r scheduler \<times> Packet list) outcome" where
  "onEvent C intn ev sch =
     (case ev of
        Batch now batch \<Rightarrow>
          obind (admitBatch C (sch_maxDelay sch) batch) (\<lambda>(toEnqueue, refused).
          obind (BulkEnqueue (sc_queueSize C) intn now toEnqueue (sch_q sch, sch_rng sch)) (\<lambda>(q, r, dropped).
          Ok (sch\<lparr>sch_q := q, sch_rng := r\<rparr>, refused @ dropped)))
      | NewMaxDelay ms \<Rightarrow> Ok (sch\<lparr>sch_maxDelay := newMaxDelay C ms\<rparr>, [])
      | TimerFired \<Rightarrow> Ok (sch, []))"

definition schedulerTurn :: "sched_config \<Rightarrow> ('r \<Rightarrow> nat \<Rightarrow> nat \<times> 'r) \<Rightarrow> (nat \<Rightarrow> int) \<Rightarrow> sched_event \<Rightarrow> 'r scheduler
    \<Rightarrow> (unit, 'r scheduler \<times> (int \<times> Packet) list \<times> Packet list \<times> timer) outcome" where
  "schedulerTurn C intn clk ev sch =
     obind (onEvent C intn ev sch) (\<lambda>(sch', gone).
       case dispatchLoop (sc_timerSlack C) clk (nat (sc_maxBurst C)) 0 (sch_q sch') of
         (q, sent, late, t) \<Rightarrow> Ok (sch'\<lparr>sch_q := q\<rparr>, sent, gone @ map snd late, t))"

definition scheduler_New :: "sched_config \<Rightarrow> 'r \<Rightarrow> 'r scheduler" where
  "scheduler_New C r = \<lparr>sch_q = pq_New, sch_rng = r, sch_maxDelay = absoluteMaxDelay C\<rparr>"

section \<open>Lemmas\<close>

text \<open>Instants after 1970 that fit, so that the order of the priorities is the order of the instants.\<close>

definition instants_ok :: "memoryQueue \<Rightarrow> bool" where
  "instants_ok q \<longleftrightarrow> (\<forall>e\<in>set q. uint (Priority e) < 2 ^ 63)"

text \<open>An entry and a dispatched packet without the instant of the dispatch.\<close>

definition item :: "Packet pq_Entry \<Rightarrow> int \<times> Packet" where
  "item e = (uint (Priority e), (Value e)\<lparr>pkt_DispatchAt := 0\<rparr>)"

definition strip :: "int \<times> Packet \<Rightarrow> int \<times> Packet" where
  "strip x = (fst x, (snd x)\<lparr>pkt_DispatchAt := 0\<rparr>)"

lemma strip_simps [simp]: "fst (strip x) = fst x" "strip (at, pkt\<lparr>pkt_DispatchAt := d\<rparr>) = strip (at, pkt)"
  "strip (uint (Priority e), Value e) = item e" "fst (item e) = uint (Priority e)"
  by (simp_all add: strip_def item_def)

lemma peek_cases:
  assumes "heap_ok q" "instants_ok q"
  obtains "q = []" "mq_Peek q = None"
  | e where "mq_Peek q = Some (uint (Priority e), Value e)" "heap_ok (mq_Pop q)" "instants_ok (mq_Pop q)"
      "mset q = add_mset e (mset (mq_Pop q))" "\<forall>x\<in>set q. uint (Priority e) \<le> uint (Priority x)"
proof (cases "pq_Peek q")
  case None
  then show ?thesis using that(1) heap_queue.peek_None [OF assms(1)] by (simp add: mq_Peek_def)
next
  case (Some e)
  note L = heap_queue.peek_least [OF assms(1) Some]
  obtain q' where q': "heap_Pop q = (Some e, q')" "heap_ok q'" "mset q = add_mset e (mset q')"
    using heap_queue.pop_peeked [OF assms(1) Some] by blast
  have "set q = insert e (set q')" using arg_cong [OF q'(3), of set_mset] by simp
  then have i: "uint (Priority e) < 2 ^ 63" "instants_ok q'" using assms(2) by (auto simp: instants_ok_def)
  have "\<forall>x\<in>set q. uint (Priority e) \<le> uint (Priority x)" using L by (simp add: word_le_def)
  then show ?thesis
    using that(2) [of e] q' i sint_small [OF i(1)] Some by (simp add: mq_Peek_def mq_Pop_def)
qed

text \<open>What a run of the loop does.\<close>

definition loop_ok :: "int \<Rightarrow> (nat \<Rightarrow> int) \<Rightarrow> nat \<Rightarrow> nat \<Rightarrow> memoryQueue \<Rightarrow> memoryQueue \<Rightarrow> (int \<times> Packet) list \<Rightarrow> (int \<times> Packet) list \<Rightarrow> bool" where
  "loop_ok slack clk burst i q q' sent dropped \<longleftrightarrow> heap_ok q' \<and> instants_ok q' \<and>
     mset (map item q) = mset (map strip sent) + mset (map strip dropped) + mset (map item q') \<and>
     (\<forall>x\<in>set sent. fst x \<le> pkt_DispatchAt (snd x) \<and> sat64 (pkt_DispatchAt (snd x) - fst x) \<le> slack) \<and>
     sorted (map fst sent) \<and> (\<forall>x\<in>set sent \<union> set dropped. \<forall>e\<in>set q'. fst x \<le> uint (Priority e)) \<and>
     length sent + length dropped \<le> burst \<and>
     (length sent + length dropped < burst \<longrightarrow> (\<forall>e\<in>set q'. clk (i + length sent + length dropped) < uint (Priority e)))"

lemma loop_items:
  assumes "mset (map item q) = mset (map strip sent) + mset (map strip dropped) + mset (map item q')"
  shows "item ` set q = strip ` set sent \<union> strip ` set dropped \<union> item ` set q'"
  using arg_cong [OF assms, of set_mset] by simp

lemma loop_times:
  assumes "mset (map item q) = mset (map strip sent) + mset (map strip dropped) + mset (map item q')"
    and "\<forall>e\<in>set q. at \<le> uint (Priority e)"
  shows "\<forall>x\<in>set sent \<union> set dropped. at \<le> fst x" "\<forall>e\<in>set q'. at \<le> uint (Priority e)"
proof -
  note eq = loop_items [OF assms(1)]
  have at: "at \<le> fst y" if "y \<in> item ` set q" for y using assms(2) that by auto
  show "\<forall>x\<in>set sent \<union> set dropped. at \<le> fst x"
  proof
    fix x
    assume "x \<in> set sent \<union> set dropped"
    then have "strip x \<in> item ` set q" unfolding eq by blast
    from at [OF this] show "at \<le> fst x" by simp
  qed
  show "\<forall>e\<in>set q'. at \<le> uint (Priority e)"
  proof
    fix e
    assume "e \<in> set q'"
    then have "item e \<in> item ` set q" unfolding eq by blast
    from at [OF this] show "at \<le> uint (Priority e)" by simp
  qed
qed

lemma dispatchLoop_ok:
  assumes "heap_ok q" "instants_ok q" "dispatchLoop slack clk burst i q = (q', sent, dropped, t)"
  shows "loop_ok slack clk burst i q q' sent dropped"
  using assms
proof (induction burst arbitrary: i q q' sent dropped t)
  case 0
  then show ?case by (auto simp: loop_ok_def split: option.splits)
next
  case (Suc burst)
  show ?case
  proof (cases rule: peek_cases [OF Suc.prems(1,2)])
    case 1
    then show ?thesis using Suc.prems by (auto simp: loop_ok_def)
  next
    case (2 e)
    show ?thesis
    proof (cases "clk i < uint (Priority e)")
      case True
      then show ?thesis using Suc.prems 2 by (auto simp: loop_ok_def)
    next
      case False
      obtain q1 s1 d1 t1 where r: "dispatchLoop slack clk burst (Suc i) (mq_Pop q) = (q1, s1, d1, t1)"
        by (metis prod_cases4)
      have L: "loop_ok slack clk burst (Suc i) (mq_Pop q) q1 s1 d1" using Suc.IH [OF 2(2,3) r] .
      have sub: "\<forall>x\<in>set (mq_Pop q). uint (Priority e) \<le> uint (Priority x)"
        using 2(5) arg_cong [OF 2(4), of set_mset] by auto
      have m: "mset (map item q) = add_mset (item e) (mset (map item (mq_Pop q)))" using 2(4) by simp
      have T: "\<forall>x\<in>set s1 \<union> set d1. uint (Priority e) \<le> fst x" "\<forall>x\<in>set q1. uint (Priority e) \<le> uint (Priority x)"
        using loop_times [OF _ sub] L unfolding loop_ok_def by blast+
      have o: "(q', sent, dropped) = (if sat64 (clk i - uint (Priority e)) > slack then (q1, s1, (uint (Priority e), Value e) # d1)
          else (q1, (uint (Priority e), (Value e)\<lparr>pkt_DispatchAt := clk i\<rparr>) # s1, d1))"
        using Suc.prems(3) False by (simp add: 2(1) r split: if_splits)
      show ?thesis
        using L T o False m unfolding loop_ok_def by (simp split: if_splits)
    qed
  qed
qed

definition draws_ok :: "('r \<Rightarrow> nat \<Rightarrow> nat \<times> 'r) \<Rightarrow> bool" where
  "draws_ok intn \<longleftrightarrow> (\<forall>r n. 0 < n \<longrightarrow> fst (intn r n) < n)"

definition queue_inv :: "int \<Rightarrow> memoryQueue \<Rightarrow> bool" where
  "queue_inv maxCapacity q \<longleftrightarrow> heap_ok q \<and> instants_ok q \<and> (0 < maxCapacity \<longrightarrow> int (length q) \<le> maxCapacity)"

definition entry_at :: "int \<Rightarrow> Packet \<Rightarrow> Packet pq_Entry" where
  "entry_at now pkt = \<lparr>Value = pkt, Priority = word_of_int (now + pkt_Delay pkt)\<rparr>"

definition fits :: "int \<Rightarrow> Packet \<Rightarrow> bool" where
  "fits now pkt \<longleftrightarrow> 0 \<le> now + pkt_Delay pkt \<and> now + pkt_Delay pkt < 2 ^ 63"

lemma uint_instant: "0 \<le> x \<Longrightarrow> x < 2 ^ 63 \<Longrightarrow> uint (word_of_int x :: u64) = x"
  by (simp add: uint_word_of_int)

lemma entry_at_simps [simp]: "Value (entry_at now pkt) = pkt" "fits now pkt \<Longrightarrow> uint (Priority (entry_at now pkt)) = now + pkt_Delay pkt"
  using uint_instant [of "now + pkt_Delay pkt"] by (simp_all add: entry_at_def fits_def del: wi_hom_syms)

lemma doEnqueue_ok:
  assumes "queue_inv c q" "draws_ok intn" "fits now pkt"
  shows "\<exists>q' r' es. doEnqueue c intn (now + pkt_Delay pkt) pkt (q, r, d) = Ok (q', r', d @ map Value es) \<and> queue_inv c q' \<and>
    add_mset (entry_at now pkt) (mset q) = mset q' + mset es"
proof -
  note I = assms(1) [unfolded queue_inv_def]
  define q1 where "q1 = Enqueue (word_of_int (now + pkt_Delay pkt)) pkt q"
  have q1: "heap_ok q1" "mset q1 = add_mset (entry_at now pkt) (mset q)"
    using I heap_Push_adds [of q "entry_at now pkt"] by (simp_all add: q1_def Enqueue_def entry_at_def)
  have set1: "set q1 = insert (entry_at now pkt) (set q)" using arg_cong [OF q1(2), of set_mset] by simp
  have i1: "instants_ok q1" using I assms(3) by (auto simp: instants_ok_def set1 fits_def)
  have l1: "length q1 = Suc (length q)" using arg_cong [OF q1(2), of size] by simp
  show ?thesis
  proof (cases "0 < c \<and> c < int (pq_Len q1)")
    case True
    have "fst (intn r (length q1)) < length q1" using assms(2) l1 by (simp add: draws_ok_def)
    from heap_Remove_in_range [OF q1(1) this] obtain q2 where q2:
      "heap_Remove q1 (int (fst (intn r (length q1)))) = Ok (Some (q1 ! fst (intn r (length q1))), q2)" "heap_ok q2"
      "mset q1 = add_mset (q1 ! fst (intn r (length q1))) (mset q2)" by blast
    have s2: "set q2 \<subseteq> set q1" using arg_cong [OF q2(3), of set_mset] by auto
    have l2: "length q2 = length q" using arg_cong [OF q2(3), of size] l1 by simp
    have "queue_inv c q2" using q2(2) s2 i1 I l2 by (auto simp: queue_inv_def instants_ok_def)
    moreover have "doEnqueue c intn (now + pkt_Delay pkt) pkt (q, r, d) =
        Ok (q2, snd (intn r (length q1)), d @ map Value [q1 ! fst (intn r (length q1))])"
      using True l1 q2(1) unfolding doEnqueue_def prod.case Let_def q1_def [symmetric]
      by (simp add: DequeueRandom_def pq_Len_def)
    moreover have "add_mset (entry_at now pkt) (mset q) = mset q2 + mset [q1 ! fst (intn r (length q1))]" using q1(2) q2(3) by simp
    ultimately show ?thesis by blast
  next
    case False
    then have "queue_inv c q1" using q1(1) i1 by (auto simp: queue_inv_def pq_Len_def)
    moreover have "doEnqueue c intn (now + pkt_Delay pkt) pkt (q, r, d) = Ok (q1, r, d @ map Value [])"
      unfolding doEnqueue_def prod.case Let_def q1_def [symmetric] by (simp only: False if_False list.map append_Nil2)
    moreover have "add_mset (entry_at now pkt) (mset q) = mset q1 + mset []" using q1(2) by simp
    ultimately show ?thesis by blast
  qed
qed

lemma BulkEnqueue_ok:
  assumes "queue_inv c q" "draws_ok intn" "\<forall>pkt\<in>set batch. fits now pkt"
  shows "\<exists>q' r' es. BulkEnqueue c intn now batch (q, r) = Ok (q', r', map Value es) \<and> queue_inv c q' \<and>
    mset (map (entry_at now) batch) + mset q = mset q' + mset es"
proof -
  let ?f = "\<lambda>pkt. doEnqueue c intn (now + pkt_Delay pkt) pkt"
  have "\<exists>q' r' es. ofold ?f batch (q, r, d) = Ok (q', r', d @ map Value es) \<and> queue_inv c q' \<and>
      mset (map (entry_at now) batch) + mset q = mset q' + mset es" for d
    using assms(1,3)
  proof (induction batch arbitrary: q r d)
    case Nil
    then have "ofold ?f [] (q, r, d) = Ok (q, r, d @ map Value []) \<and> queue_inv c q \<and>
        mset (map (entry_at now) []) + mset q = mset q + mset []" by simp
    then show ?case by blast
  next
    case (Cons pkt batch)
    have f: "fits now pkt" "\<forall>pkt\<in>set batch. fits now pkt" using Cons.prems(2) by simp_all
    obtain q1 r1 es1 where a: "?f pkt (q, r, d) = Ok (q1, r1, d @ map Value es1)" "queue_inv c q1"
      "add_mset (entry_at now pkt) (mset q) = mset q1 + mset es1"
      using doEnqueue_ok [OF Cons.prems(1) assms(2) f(1), of r d] by blast
    obtain q2 r2 es2 where b: "ofold ?f batch (q1, r1, d @ map Value es1) = Ok (q2, r2, (d @ map Value es1) @ map Value es2)"
      "queue_inv c q2" "mset (map (entry_at now) batch) + mset q1 = mset q2 + mset es2"
      using Cons.IH [OF a(2) f(2), of r1 "d @ map Value es1"] by blast
    have "ofold ?f (pkt # batch) (q, r, d) = Ok (q2, r2, d @ map Value (es1 @ es2))" using a(1) b(1) by simp
    moreover have "mset (map (entry_at now) (pkt # batch)) + mset q = mset q2 + mset (es1 @ es2)"
    proof -
      have "mset (map (entry_at now) (pkt # batch)) + mset q = mset (map (entry_at now) batch) + add_mset (entry_at now pkt) (mset q)"
        by simp
      also have "\<dots> = (mset (map (entry_at now) batch) + mset q1) + mset es1" unfolding a(3) by (simp add: add.assoc)
      also have "\<dots> = mset q2 + mset (es1 @ es2)" unfolding b(3) by (simp add: ac_simps)
      finally show ?thesis .
    qed
    ultimately show ?case using b(2) by blast
  qed
  from this [of "[]"] show ?thesis by (simp add: BulkEnqueue_def)
qed

lemma admitBatch_ok:
  assumes "\<forall>pkt\<in>set batch. pkt_NextNodeHop pkt \<noteq> None"
  shows "\<exists>a d. admitBatch C m batch = Ok (a, d) \<and> mset batch = mset a + mset d \<and>
    (\<forall>pkt\<in>set a. pkt_Delay pkt \<le> m \<and> (\<exists>i mac. pkt_NextNodeHop pkt = Some (i, mac) \<and> sc_IsValidForwardDest C i))"
  using assms
proof (induction batch)
  case (Cons pkt batch)
  then obtain a d where r: "admitBatch C m batch = Ok (a, d)" "mset batch = mset a + mset d"
    "\<forall>pkt\<in>set a. pkt_Delay pkt \<le> m \<and> (\<exists>i mac. pkt_NextNodeHop pkt = Some (i, mac) \<and> sc_IsValidForwardDest C i)" by auto
  obtain i mac where "pkt_NextNodeHop pkt = Some (i, mac)" using Cons.prems by auto
  then show ?case using r by (cases "pkt_Delay pkt > m") auto
qed simp

lemma newMaxDelay_bound: "newMaxDelay C ms \<le> absoluteMaxDelay C"
  by (auto simp: newMaxDelay_def Let_def)

definition sched_inv :: "sched_config \<Rightarrow> 'r scheduler \<Rightarrow> bool" where
  "sched_inv C sch \<longleftrightarrow> queue_inv (sc_queueSize C) (sch_q sch) \<and> sch_maxDelay sch \<le> absoluteMaxDelay C"

text \<open>
  The packets of an event, as the crypto workers and the provider hand them over (the replies of a provider have
  no delay), at an instant that is not centuries away.
\<close>

fun arriving :: "sched_event \<Rightarrow> Packet list" where
  "arriving (Batch now batch) = batch"
| "arriving _ = []"

fun event_ok :: "sched_config \<Rightarrow> sched_event \<Rightarrow> bool" where
  "event_ok C (Batch now batch) \<longleftrightarrow> 0 \<le> now \<and> now + absoluteMaxDelay C < 2 ^ 63 \<and>
     (\<forall>pkt\<in>set batch. IsForward pkt \<and> 0 \<le> pkt_Delay pkt)"
| "event_ok C _ \<longleftrightarrow> True"

text \<open>What an event does: every packet is enqueued or dropped.\<close>

lemma onEvent_ok:
  assumes "sched_inv C sch" "event_ok C ev" "draws_ok intn"
  shows "\<exists>sch' gone es admitted. onEvent C intn ev sch = Ok (sch', gone) \<and> sched_inv C sch' \<and>
    mset (arriving ev) + mset (map Value (sch_q sch)) = mset gone + mset (map Value (sch_q sch')) \<and>
    mset admitted + mset (sch_q sch) = mset (sch_q sch') + mset es \<and>
    (\<forall>e\<in>set admitted. \<exists>now batch pkt i mac. ev = Batch now batch \<and> pkt \<in> set batch \<and> e = entry_at now pkt \<and> fits now pkt \<and>
       pkt_Delay pkt \<le> sch_maxDelay sch \<and> pkt_NextNodeHop pkt = Some (i, mac) \<and> sc_IsValidForwardDest C i)"
proof (cases ev)
  case (Batch now batch)
  have E: "0 \<le> now" "now + absoluteMaxDelay C < 2 ^ 63" "\<forall>pkt\<in>set batch. pkt_NextNodeHop pkt \<noteq> None \<and> 0 \<le> pkt_Delay pkt"
    using assms(2) by (auto simp: Batch IsForward_def)
  obtain a d where a: "admitBatch C (sch_maxDelay sch) batch = Ok (a, d)" "mset batch = mset a + mset d"
    "\<forall>pkt\<in>set a. pkt_Delay pkt \<le> sch_maxDelay sch \<and> (\<exists>i mac. pkt_NextNodeHop pkt = Some (i, mac) \<and> sc_IsValidForwardDest C i)"
    using admitBatch_ok [of batch C "sch_maxDelay sch"] E(3) by blast
  have sub: "set a \<subseteq> set batch" using arg_cong [OF a(2), of set_mset] by auto
  have fit: "\<forall>pkt\<in>set a. fits now pkt"
  proof
    fix pkt
    assume p: "pkt \<in> set a"
    then have "0 \<le> pkt_Delay pkt" "pkt_Delay pkt \<le> absoluteMaxDelay C"
      using sub E(3) a(3) assms(1) by (auto simp: sched_inv_def intro: order_trans)
    then show "fits now pkt" using E(1,2) by (simp add: fits_def)
  qed
  obtain q r es where b: "BulkEnqueue (sc_queueSize C) intn now a (sch_q sch, sch_rng sch) = Ok (q, r, map Value es)"
    "queue_inv (sc_queueSize C) q" "mset (map (entry_at now) a) + mset (sch_q sch) = mset q + mset es"
    using BulkEnqueue_ok [OF _ assms(3) fit] assms(1) unfolding sched_inv_def by blast
  let ?sch = "sch\<lparr>sch_q := q, sch_rng := r\<rparr>"
  have "onEvent C intn ev sch = Ok (?sch, d @ map Value es)" by (simp add: onEvent_def Batch a(1) b(1))
  moreover have "sched_inv C ?sch" using b(2) assms(1) by (simp add: sched_inv_def)
  moreover have "mset a + mset (map Value (sch_q sch)) = mset (map Value q) + mset (map Value es)"
    using arg_cong [OF b(3), of "image_mset Value"] by (simp add: image_mset.compositionality comp_def)
  then have "mset (arriving ev) + mset (map Value (sch_q sch)) = mset (d @ map Value es) + mset (map Value (sch_q ?sch))"
    by (simp add: Batch a(2) ac_simps)
  moreover have "\<forall>e\<in>set (map (entry_at now) a). \<exists>n bt pkt i mac. ev = Batch n bt \<and> pkt \<in> set bt \<and> e = entry_at n pkt \<and> fits n pkt \<and>
       pkt_Delay pkt \<le> sch_maxDelay sch \<and> pkt_NextNodeHop pkt = Some (i, mac) \<and> sc_IsValidForwardDest C i"
    using a(3) sub fit by (auto simp: Batch)
  moreover have "mset (map (entry_at now) a) + mset (sch_q sch) = mset (sch_q ?sch) + mset es" using b(3) by simp
  ultimately show ?thesis by blast
next
  case (NewMaxDelay ms)
  have "sched_inv C (sch\<lparr>sch_maxDelay := newMaxDelay C ms\<rparr>)" using assms(1) newMaxDelay_bound by (simp add: sched_inv_def)
  then show ?thesis by (intro exI [of _ "sch\<lparr>sch_maxDelay := newMaxDelay C ms\<rparr>"] exI [of _ "[]"]) (simp add: NewMaxDelay onEvent_def)
next
  case TimerFired
  then show ?thesis using assms(1) by (intro exI [of _ sch] exI [of _ "[]"]) (simp add: onEvent_def)
qed

lemma schedulerTurn_parts:
  assumes "schedulerTurn C intn clk ev sch = Ok (sch2, sent, gone, t)"
  obtains sch1 gone1 late where "onEvent C intn ev sch = Ok (sch1, gone1)" "gone = gone1 @ map snd late"
    "dispatchLoop (sc_timerSlack C) clk (nat (sc_maxBurst C)) 0 (sch_q sch1) = (sch_q sch2, sent, late, t)"
    "sch_maxDelay sch2 = sch_maxDelay sch1"
proof -
  obtain sch1 gone1 where e: "onEvent C intn ev sch = Ok (sch1, gone1)"
    using assms by (auto simp: schedulerTurn_def obind_Ok_iff)
  obtain q s late t1 where l: "dispatchLoop (sc_timerSlack C) clk (nat (sc_maxBurst C)) 0 (sch_q sch1) = (q, s, late, t1)"
    by (metis prod_cases4)
  have "sch2 = sch1\<lparr>sch_q := q\<rparr>" "s = sent" "gone = gone1 @ map snd late" "t1 = t"
    using assms by (auto simp: schedulerTurn_def e l)
  then show ?thesis using that e l by simp
qed

text \<open>The turns of a scheduler, with each event and the largest delay that was accepted when it came.\<close>

inductive scheduler_run :: "sched_config \<Rightarrow> ('r \<Rightarrow> nat \<Rightarrow> nat \<times> 'r) \<Rightarrow> 'r scheduler \<Rightarrow> (sched_event \<times> int) list
    \<Rightarrow> 'r scheduler \<Rightarrow> bool" for C intn sch0 where
  start: "scheduler_run C intn sch0 [] sch0"
| turn: "scheduler_run C intn sch0 h sch \<Longrightarrow> event_ok C ev \<Longrightarrow>
    schedulerTurn C intn clk ev sch = Ok (sch', sent, gone, t) \<Longrightarrow>
    scheduler_run C intn sch0 (h @ [(ev, sch_maxDelay sch)]) sch'"

definition undated :: "Packet \<Rightarrow> Packet" where
  "undated pkt = pkt\<lparr>pkt_DispatchAt := 0\<rparr>"

text \<open>The loop hands on, drops or keeps every packet, and leaves no more packets than there were.\<close>

lemma loop_packets:
  assumes "loop_ok slack clk n i q q' sent late"
  shows "image_mset undated (mset (map Value q)) =
      image_mset undated (mset (map snd sent) + mset (map snd late) + mset (map Value q'))"
    "length q' \<le> length q"
proof -
  have m: "mset (map item q) = mset (map strip sent) + mset (map strip late) + mset (map item q')"
    using assms by (simp add: loop_ok_def)
  have u: "snd (item e) = undated (Value e)" "snd (strip x) = undated (snd x)" for e x
    by (simp_all add: item_def strip_def undated_def)
  show "image_mset undated (mset (map Value q)) =
      image_mset undated (mset (map snd sent) + mset (map snd late) + mset (map Value q'))"
    using arg_cong [OF m, of "image_mset snd"] by (simp add: image_mset.compositionality comp_def u)
  show "length q' \<le> length q" using arg_cong [OF m, of size] by simp
qed

text \<open>The arrival of a packet that is due at an instant: when, with which delay, and to which next hop.\<close>

definition arrival :: "sched_config \<Rightarrow> (sched_event \<times> int) list \<Rightarrow> int \<Rightarrow> Packet \<Rightarrow> bool" where
  "arrival C h at pkt \<longleftrightarrow> (\<exists>now batch maxDelay p i mac. (Batch now batch, maxDelay) \<in> set h \<and> p \<in> set batch \<and>
     undated pkt = undated p \<and> at = now + pkt_Delay p \<and> pkt_Delay p \<le> maxDelay \<and> maxDelay \<le> absoluteMaxDelay C \<and>
     pkt_NextNodeHop p = Some (i, mac) \<and> sc_IsValidForwardDest C i)"

lemma arrival_undated: "undated p' = undated p \<Longrightarrow> arrival C h at p \<Longrightarrow> arrival C h at p'"
  by (simp add: arrival_def)

lemma arrival_append: "arrival C h at p \<Longrightarrow> arrival C (h @ h') at p"
  unfolding arrival_def by (metis Un_iff set_append)

definition arrived :: "sched_config \<Rightarrow> (sched_event \<times> int) list \<Rightarrow> 'r scheduler \<Rightarrow> bool" where
  "arrived C h sch \<longleftrightarrow> (\<forall>e\<in>set (sch_q sch). arrival C h (uint (Priority e)) (Value e))"

text \<open>One turn: what is handed on, and the arrivals of what is handed on and of what goes on waiting.\<close>

lemma turn_sent:
  assumes "sched_inv C sch" and "event_ok C ev" and "draws_ok intn" and "arrived C h sch"
    and "schedulerTurn C intn clk ev sch = Ok (sch', sent, gone, t)"
  shows "sched_inv C sch'" "arrived C (h @ [(ev, sch_maxDelay sch)]) sch'"
    "(at, pkt) \<in> set sent \<Longrightarrow> arrival C (h @ [(ev, sch_maxDelay sch)]) at pkt \<and> at \<le> pkt_DispatchAt pkt \<and>
       sat64 (pkt_DispatchAt pkt - at) \<le> sc_timerSlack C \<and> (\<forall>e\<in>set (sch_q sch'). at \<le> uint (Priority e))"
    "sorted (map fst sent)"
proof -
  let ?h = "h @ [(ev, sch_maxDelay sch)]"
  obtain sch1 gone1 es admitted where e: "onEvent C intn ev sch = Ok (sch1, gone1)" "sched_inv C sch1"
    "mset admitted + mset (sch_q sch) = mset (sch_q sch1) + mset es"
    "\<forall>e\<in>set admitted. \<exists>now batch pkt i mac. ev = Batch now batch \<and> pkt \<in> set batch \<and> e = entry_at now pkt \<and> fits now pkt \<and>
       pkt_Delay pkt \<le> sch_maxDelay sch \<and> pkt_NextNodeHop pkt = Some (i, mac) \<and> sc_IsValidForwardDest C i"
    using onEvent_ok [OF assms(1-3)] by blast
  obtain late where l: "dispatchLoop (sc_timerSlack C) clk (nat (sc_maxBurst C)) 0 (sch_q sch1) = (sch_q sch', sent, late, t)"
    and m: "sch_maxDelay sch' = sch_maxDelay sch1"
    using assms(5) by (rule schedulerTurn_parts) (simp add: e(1))
  have L: "loop_ok (sc_timerSlack C) clk (nat (sc_maxBurst C)) 0 (sch_q sch1) (sch_q sch') sent late"
    using e(2) dispatchLoop_ok [OF _ _ l] by (simp add: sched_inv_def queue_inv_def)
  have bound: "sch_maxDelay sch \<le> absoluteMaxDelay C" using assms(1) by (simp add: sched_inv_def)
  have new: "arrival C ?h (uint (Priority x)) (Value x)" if "x \<in> set (sch_q sch1)" for x
  proof -
    have "x \<in> set admitted \<union> set (sch_q sch)" using that arg_cong [OF e(3), of set_mset] by auto
    then show ?thesis
    proof
      assume "x \<in> set (sch_q sch)"
      then show ?thesis using assms(4) arrival_append by (simp add: arrived_def)
    next
      assume "x \<in> set admitted"
      then obtain now batch p i mac where "ev = Batch now batch" "p \<in> set batch" "x = entry_at now p" "fits now p"
        "pkt_Delay p \<le> sch_maxDelay sch" "pkt_NextNodeHop p = Some (i, mac)" "sc_IsValidForwardDest C i" using e(4) by blast
      then show ?thesis unfolding arrival_def using bound
        by (intro exI [of _ now] exI [of _ batch] exI [of _ "sch_maxDelay sch"] exI [of _ p] exI [of _ i] exI [of _ mac]) simp
    qed
  qed
  have items: "item ` set (sch_q sch1) = strip ` set sent \<union> strip ` set late \<union> item ` set (sch_q sch')"
    using L loop_items unfolding loop_ok_def by blast
  have from_queue: "arrival C ?h at' p" if queued: "(at', undated p) \<in> item ` set (sch_q sch1)" for at' p
  proof -
    obtain x where "x \<in> set (sch_q sch1)" "at' = uint (Priority x)" "undated p = undated (Value x)"
      using queued by (auto simp: item_def undated_def)
    then show ?thesis using new arrival_undated by metis
  qed
  have i: "item x = (uint (Priority x), undated (Value x))" "strip (at', p) = (at', undated p)" for x at' p
    by (simp_all add: item_def strip_def undated_def)
  show "arrived C ?h sch'" unfolding arrived_def using from_queue items i(1) by (metis UnCI image_eqI)
  show "sched_inv C sch'" using e(2) m L loop_packets(2) [OF L] by (auto simp: sched_inv_def queue_inv_def loop_ok_def)
  show "sorted (map fst sent)" using L by (simp add: loop_ok_def)
  assume s: "(at, pkt) \<in> set sent"
  then have "arrival C ?h at pkt" using from_queue items i(2) by (metis UnCI image_eqI)
  then show "arrival C ?h at pkt \<and> at \<le> pkt_DispatchAt pkt \<and>
       sat64 (pkt_DispatchAt pkt - at) \<le> sc_timerSlack C \<and> (\<forall>e\<in>set (sch_q sch'). at \<le> uint (Priority e))"
    using L s unfolding loop_ok_def by force
qed

lemma scheduler_New_inv: "sched_inv C (scheduler_New C r)" "arrived C [] (scheduler_New C r)"
  using heap_ok_New by (simp_all add: sched_inv_def queue_inv_def instants_ok_def scheduler_New_def arrived_def)

lemma run_inv:
  assumes "scheduler_run C intn (scheduler_New C r) h sch" "draws_ok intn"
  shows "sched_inv C sch \<and> arrived C h sch"
  using assms(1)
proof induction
  case start
  show ?case by (intro conjI scheduler_New_inv)
next
  case (turn h sch ev clk sch' sent gone t)
  then show ?case using turn_sent(1,2) [OF _ turn.hyps(2) assms(2) _ turn.hyps(3)] by blast
qed

section \<open>A small scheduler\<close>

definition toy_sched :: sched_config where
  "toy_sched = \<lparr>sc_warped = False, sc_timerSlack = 2000000, sc_maxBurst = 1, sc_queueSize = 1, sc_IsValidForwardDest = \<lambda>_. True\<rparr>"

definition toy_draw :: "unit \<Rightarrow> nat \<Rightarrow> nat \<times> unit" where
  "toy_draw r n = (0, r)"

definition toy_waiting :: Packet where
  "toy_waiting = (toy_packet [])\<lparr>pkt_NextNodeHop := Some ([], []), pkt_NodeDelay := Some 5, pkt_Delay := 5000000\<rparr>"

lemma toy_sched_sel [simp]:
  "sc_timerSlack toy_sched = 2000000" "sc_maxBurst toy_sched = 1" "heap_ok []"
  using heap_ok_New by (simp_all add: toy_sched_def)

lemma toy_sched_ok:
  "sched_inv toy_sched (scheduler_New toy_sched r)" "draws_ok toy_draw" "event_ok toy_sched (Batch toy_now [toy_waiting])"
  by (simp_all add: sched_inv_def scheduler_New_def queue_inv_def instants_ok_def toy_sched_def draws_ok_def toy_draw_def
      toy_now_def Epoch_def absoluteMaxDelay_def Period_def NumMixKeys_def toy_waiting_def toy_packet_def IsForward_def)

text \<open>The packet arrives and waits, and leaves in the next turn.\<close>

lemma toy_turns:
  obtains sch t sch' gone t' where
    "schedulerTurn toy_sched toy_draw (\<lambda>_. toy_now) (Batch toy_now [toy_waiting]) (scheduler_New toy_sched ()) = Ok (sch, [], [], t)"
    "schedulerTurn toy_sched toy_draw (\<lambda>_. toy_now + 6000000) TimerFired sch =
       Ok (sch', [(toy_now + 5000000, toy_waiting\<lparr>pkt_DispatchAt := toy_now + 6000000\<rparr>)], gone, t')"
proof -
  let ?q = "[\<lparr>Value = toy_waiting, Priority = word_of_int (toy_now + 5000000)\<rparr>]"
  have at: "sint (word_of_int (toy_now + 5000000) :: u64) = toy_now + 5000000"
    using sint_small [of "word_of_int (toy_now + 5000000)"] uint_instant [of "toy_now + 5000000"]
    by (simp add: toy_now_def Epoch_def)
  have e: "onEvent toy_sched toy_draw (Batch toy_now [toy_waiting]) (scheduler_New toy_sched ()) =
      Ok ((scheduler_New toy_sched ())\<lparr>sch_q := ?q\<rparr>, [])"
    by (simp add: onEvent_def BulkEnqueue_def doEnqueue_def Let_def Enqueue_def heap_Push_def pq_Push_def pq_Len_def heap_up.simps
        scheduler_New_def toy_sched_def toy_waiting_def absoluteMaxDelay_def Period_def NumMixKeys_def)
  have p: "mq_Peek ?q = Some (toy_now + 5000000, toy_waiting)"
    unfolding mq_Peek_def pq_Peek_def pq_Len_def by (simp del: of_int_add add: at)
  have o: "mq_Pop [e] = []" "mq_Peek [] = None" for e
    by (simp_all add: mq_Pop_def heap_Pop_def pq_Pop_def pq_Len_def heap_down.simps pq_Swap_def mq_Peek_def pq_Peek_def)
  have "schedulerTurn toy_sched toy_draw (\<lambda>_. toy_now) (Batch toy_now [toy_waiting]) (scheduler_New toy_sched ()) =
      Ok ((scheduler_New toy_sched ())\<lparr>sch_q := ?q\<rparr>, [], [], TimerIn (sat64 5000000))"
    unfolding schedulerTurn_def e by (simp add: p del: of_int_add)
  moreover have "\<exists>gone t. schedulerTurn toy_sched toy_draw (\<lambda>_. toy_now + 6000000) TimerFired ((scheduler_New toy_sched ())\<lparr>sch_q := ?q\<rparr>) =
      Ok ((scheduler_New toy_sched ())\<lparr>sch_q := []\<rparr>, [(toy_now + 5000000, toy_waiting\<lparr>pkt_DispatchAt := toy_now + 6000000\<rparr>)], gone, t)"
    unfolding schedulerTurn_def onEvent_def
    by (simp add: p o sat64_def int64_max_def int64_min_def del: of_int_add)
  ultimately show ?thesis using that by blast
qed

section \<open>Properties\<close>

text \<open>
  C16: a turn of the scheduler never fails, whatever the event, and no packet is lost or duplicated: each of the
  packets that arrived or were waiting is afterwards handed on, dropped on purpose, or waiting.  The queue
  stays in order and within its capacity, at most the burst is handed on, and the largest delay accepted stays
  within the lifetime of the keys.
\<close>

theorem scheduler_conserves:
  assumes "sched_inv C sch" and "event_ok C ev" and "draws_ok intn"
  shows "\<exists>sch' sent gone t. schedulerTurn C intn clk ev sch = Ok (sch', sent, gone, t) \<and> sched_inv C sch' \<and>
    length sent \<le> nat (sc_maxBurst C) \<and>
    image_mset undated (mset (arriving ev) + mset (map Value (sch_q sch))) =
      image_mset undated (mset (map snd sent) + mset gone + mset (map Value (sch_q sch')))"
proof -
  obtain sch1 gone1 where e: "onEvent C intn ev sch = Ok (sch1, gone1)" "sched_inv C sch1"
    "mset (arriving ev) + mset (map Value (sch_q sch)) = mset gone1 + mset (map Value (sch_q sch1))"
    using onEvent_ok [OF assms] by blast
  obtain q sent late t where l: "dispatchLoop (sc_timerSlack C) clk (nat (sc_maxBurst C)) 0 (sch_q sch1) = (q, sent, late, t)"
    by (metis prod_cases4)
  have L: "loop_ok (sc_timerSlack C) clk (nat (sc_maxBurst C)) 0 (sch_q sch1) q sent late"
    using e(2) dispatchLoop_ok [OF _ _ l] by (simp add: sched_inv_def queue_inv_def)
  have "sched_inv C (sch1\<lparr>sch_q := q\<rparr>)"
    using e(2) L loop_packets(2) [OF L] by (auto simp: sched_inv_def queue_inv_def loop_ok_def)
  moreover have "schedulerTurn C intn clk ev sch = Ok (sch1\<lparr>sch_q := q\<rparr>, sent, gone1 @ map snd late, t)"
    by (simp add: schedulerTurn_def e(1) l)
  moreover have "length sent \<le> nat (sc_maxBurst C)" using L by (simp add: loop_ok_def)
  moreover have "image_mset undated (mset (arriving ev) + mset (map Value (sch_q sch))) =
      image_mset undated (mset (map snd sent) + mset (gone1 @ map snd late) + mset (map Value q))"
    unfolding e(3) image_mset_union loop_packets(1) [OF L] by (simp add: ac_simps)
  ultimately show ?thesis by fastforce
qed

theorem scheduler_conserves_witness:
  "\<exists>sch sent gone t. schedulerTurn toy_sched toy_draw (\<lambda>_. toy_now + 6000000) (Batch toy_now [toy_waiting]) (scheduler_New toy_sched ()) =
     Ok (sch, sent, gone, t) \<and> sched_inv toy_sched sch \<and>
     image_mset undated {#toy_waiting#} = image_mset undated (mset (map snd sent) + mset gone + mset (map Value (sch_q sch)))"
  using scheduler_conserves [OF toy_sched_ok(1) [of "()"] toy_sched_ok(3,2), where clk = "\<lambda>_. toy_now + 6000000"]
  by (auto simp: scheduler_New_def)

text \<open>
  C15: packets leave a mix on time and in order.  In every turn of a scheduler, after whatever turns since it
  was made, a packet that is handed on leaves no earlier than its instant and at most the slack later, before
  every packet of a later instant, also of those that go on waiting.  It came in this turn or an earlier one,
  for a next hop that was valid and with a delay within the limit of that time, and its instant is the one of
  its arrival plus its delay.
\<close>

theorem dispatched_on_time:
  assumes "draws_ok intn" and "scheduler_run C intn (scheduler_New C r) h sch" and "event_ok C ev"
    and "schedulerTurn C intn clk ev sch = Ok (sch', sent, gone, t)" and "(at, pkt) \<in> set sent"
  shows "arrival C (h @ [(ev, sch_maxDelay sch)]) at pkt \<and> at \<le> pkt_DispatchAt pkt \<and>
    sat64 (pkt_DispatchAt pkt - at) \<le> sc_timerSlack C \<and> sorted (map fst sent) \<and>
    (\<forall>e\<in>set (sch_q sch'). at \<le> uint (Priority e))"
  using turn_sent(3) [OF _ assms(3,1) _ assms(4), of h at pkt] turn_sent(4) [OF _ assms(3,1) _ assms(4), of h] run_inv [OF assms(2,1)] assms(5) by blast

theorem dispatched_on_time_witness:
  "\<exists>h sch sch' sent gone t at pkt. scheduler_run toy_sched toy_draw (scheduler_New toy_sched ()) h sch \<and>
     schedulerTurn toy_sched toy_draw (\<lambda>_. toy_now + 6000000) TimerFired sch = Ok (sch', sent, gone, t) \<and> (at, pkt) \<in> set sent \<and>
     arrival toy_sched (h @ [(TimerFired, sch_maxDelay sch)]) at pkt \<and> at \<le> pkt_DispatchAt pkt"
proof -
  obtain sch t sch' gone t' where w:
    "schedulerTurn toy_sched toy_draw (\<lambda>_. toy_now) (Batch toy_now [toy_waiting]) (scheduler_New toy_sched ()) = Ok (sch, [], [], t)"
    "schedulerTurn toy_sched toy_draw (\<lambda>_. toy_now + 6000000) TimerFired sch =
       Ok (sch', [(toy_now + 5000000, toy_waiting\<lparr>pkt_DispatchAt := toy_now + 6000000\<rparr>)], gone, t')" by (rule toy_turns)
  note run = scheduler_run.turn [OF scheduler_run.start toy_sched_ok(3) w(1)]
  from dispatched_on_time [OF toy_sched_ok(2) run _ w(2) list.set_intros(1)] show ?thesis
    using run w(2) list.set_intros(1) by (metis event_ok.simps(3))
qed

end
