(* ===== verification/Spec2Isabelle.thy ===== *)
theory Spec2Isabelle
  imports Sphinx_Surb Voting_Live Ratchet_Order Ratchet_Store Path_Route Mix_Scheduler
begin

text \<open>
  A verification development for the mix network in this repository: a fork of Katzenpost in Go.  Clients send
  fixed-size Sphinx packets along paths of mixes to a provider; a set of directory authorities agrees once per
  epoch on the document that lists the nodes; a messaging client protects its conversations with a double
  ratchet on top.

  \<^bold>\<open>How the code is rendered.\<close>  \<^verbatim>\<open>Mix_Prelude\<close> holds the vocabulary.  A Go call returns an \<open>outcome\<close>: a value, an error
  or a run-time panic.  Bytes are 8-bit words, byte strings are lists, fixed-width integers are words, instants
  and durations are integers of nanoseconds, with the saturation and wrap-around of Go written out.  A map is an
  association list, whose order is the order in which a loop visits it, so that a statement about all lists is
  one about all visiting orders.  State is passed explicitly; the authority uses a small monad for it.  Code
  that is not in the repository (hash functions, ciphers, Curve25519, KEMs, signature primitives, CBOR, the
  database, the Bloom filter, random generators) is a record of functions or an argument, with its documented
  behaviour as a named predicate: \<open>prims_ok\<close>, \<open>nike_ok\<close>, \<open>bloom_ok\<close> and the like.  Each has an instance, with which
  the witnesses evaluate the theorems.

  \<^bold>\<open>Packets.\<close>  \<^verbatim>\<open>Sphinx_Geometry\<close> (\<^verbatim>\<open>core/sphinx/geo\<close>), \<^verbatim>\<open>Sphinx_Commands\<close> (\<^verbatim>\<open>core/sphinx/commands\<close>), \<^verbatim>\<open>Sphinx_Crypto\<close>
  (\<^verbatim>\<open>core/sphinx/internal/crypto\<close>), \<^verbatim>\<open>Nike_Scheme\<close> (\<^verbatim>\<open>core/crypto/nike\<close>, \<^verbatim>\<open>core/crypto/ecdh\<close>), and \<^verbatim>\<open>Sphinx_Header\<close>,
  \<^verbatim>\<open>Sphinx_Nike\<close>, \<^verbatim>\<open>Sphinx_Kem\<close> and \<^verbatim>\<open>Sphinx_Surb\<close> (\<^verbatim>\<open>core/sphinx\<close>) translate the creation and the processing of packets
  for both formats.  They show that a packet made for a well-formed path is accepted by every hop in turn with
  its own commands and delivers its payload, that a reply made with a SURB is recovered by its creator, what an
  accepted packet must carry, and two ways in which the code fails.  The layered routing information is treated
  once, in the locales \<open>block_builder\<close> (creation) and \<open>hop_block\<close> (with processing), and interpreted for the two
  formats.

  \<^bold>\<open>Wire protocol.\<close>  \<^verbatim>\<open>Wire_Commands\<close> (\<^verbatim>\<open>core/wire/commands\<close>): parsing inverts printing, accepts only what was
  printed, and never panics with a geometry (an index or a slice out of range would); the locale \<open>byte_codec\<close> of the prelude is the contract.

  \<^bold>\<open>Keys, certificates and documents.\<close>  \<^verbatim>\<open>Sign_Scheme\<close>, \<^verbatim>\<open>Certificates\<close>, \<^verbatim>\<open>Pki_Document\<close>, \<^verbatim>\<open>Shared_Random\<close>, \<^verbatim>\<open>Epoch_Time\<close>:
  a certificate that passes the threshold check carries valid signatures of that many verifiers; a document that
  is accepted as well-formed has the structure on which its users rely.

  \<^bold>\<open>Directory authorities.\<close>  \<^verbatim>\<open>Det_Rand\<close> and \<^verbatim>\<open>Topology_Gen\<close> lay the mixes out in layers; \<^verbatim>\<open>Voting_State\<close>,
  \<^verbatim>\<open>Voting_Uploads\<close> and \<^verbatim>\<open>Voting_Fsm\<close> are \<^verbatim>\<open>authority/voting/server\<close>: what an authority computes, how it treats what
  its peers upload (the locale \<open>upload_handler\<close>, interpreted for the four kinds of upload), and its schedule, as a
  step relation.  \<^verbatim>\<open>Voting_Safety\<close> proves invariants of all reachable states: nobody outside the configuration has
  an entry, uploads are filed once, every document that is served is signed by a majority, and two documents of an
  epoch have a common signer.  \<^verbatim>\<open>Voting_Live\<close> proves that an authority publishes once a majority has signed its
  view, and how one peer can prevent it.  \<^verbatim>\<open>Voting_Client\<close> is \<^verbatim>\<open>authority/voting/client\<close>: what it returns is endorsed.

  \<^bold>\<open>Path selection.\<close>  \<^verbatim>\<open>Path_Select\<close> (\<^verbatim>\<open>core/sphinx/path\<close>), \<^verbatim>\<open>Pki_Cache\<close> (\<^verbatim>\<open>server/internal/pkicache\<close>) and \<^verbatim>\<open>Path_Route\<close>:
  consecutive hops may connect to each other, each hop gets the key of the epoch in which the packet arrives, and
  a client with a well-formed document selects a path along which its packet is delivered.

  \<^bold>\<open>Mix nodes.\<close>  \<^verbatim>\<open>Priority_Queue\<close> (\<^verbatim>\<open>core/queue\<close>) is a heap that implements the interface \<open>priority_queue\<close>.  \<^verbatim>\<open>Mix_Key\<close>
  (\<^verbatim>\<open>server/internal/mixkey\<close>) is the key of an epoch with its replay filter: used sequentially, with flushes and
  restarts, it is exactly a set of tags (the interface \<open>tag_filter\<close>); as a step relation of concurrent workers,
  a tag is accepted again only while a flush has it in a local variable, and there it is.  \<^verbatim>\<open>Mix_Packet\<close>
  (\<^verbatim>\<open>server/internal/packet\<close>) and \<^verbatim>\<open>Crypto_Worker\<close> (\<^verbatim>\<open>server/internal/cryptoworker\<close>) take a received packet to its next
  stage: roles are respected, the delay of the sender is kept, and a packet that comes again is dropped, unless
  two keys open it or a flush has its tag in a local variable at that moment.  \<^verbatim>\<open>Mix_Scheduler\<close>
  (\<^verbatim>\<open>server/internal/scheduler\<close>) keeps it until its time: no packet is lost or duplicated, and in all turns of a
  scheduler packets leave on time, counted from their arrival, and in order.

  \<^bold>\<open>Conversations.\<close>  \<^verbatim>\<open>Double_Ratchet\<close> (\<^verbatim>\<open>doubleratchet/ratchet.go\<close>), with an explicit store for the key buffers, which
  are shared by pointers.  \<^verbatim>\<open>Ratchet_Session\<close> proves that two parties read each other's messages in any
  alternation (the locale \<open>duplex_channel\<close>), \<^verbatim>\<open>Ratchet_Order\<close> treats messages that arrive late, twice or damaged,
  \<^verbatim>\<open>Ratchet_Safety\<close> what any ciphertext can do, and \<^verbatim>\<open>Ratchet_Store\<close> the serialised form.

  \<^bold>\<open>Bounds and termination.\<close>  Loops over slices are structural recursions; the parsers end because each command takes
  a byte, and the heap routines by the distance to an end of the slice.  The loop that selects a path has the
  bound of the code on its attempts, and the dispatch loop that of the burst.  The one loop that may not end, in
  the decryption of the ratchet, returns no result then, and the inputs for which this happens, and those for
  which it panics on a nil map instead, are characterised.

  \<^bold>\<open>Abstractions.\<close>  Within one handler the clock is constant, unless its readings are arguments.  Locks make the
  handlers of an authority atomic; only the replay filter, which releases its lock in between, is a relation of
  smaller steps.  The theorem that a node processes a packet once is about packets one after the other, with
  flushes that begin and end between them; a flush in the middle of a test is treated with the filter.  Buffers in protected memory are byte strings.  The parsing of
  addresses is an argument, as is the quotient of floating point numbers in the drawing of a delay.  Failures
  of the disk are not modelled.

  \<^bold>\<open>Not modelled.\<close>  What opens sockets, files and processes: wire sessions (a Noise handshake of a third-party
  library), listeners and connections, the provider with its plugins and spools, the decoy, the workers that
  fetch and publish documents, the store of several mix keys, and the external queue of the scheduler; the
  non-voting authority; the clients above path selection, with the messenger, contact exchange, memory spools
  and proxies; configuration, logging and tools; and the primitives behind the interfaces, among them SPHINCS+
  in C and the isogeny key exchanges.
\<close>

end
